(* ===== verification/Ebisu_Prelude.thy ===== *)
theory Ebisu_Prelude
  imports Main "HOL-Library.Word"
begin

text \<open>
  Shared vocabulary of the development: the C types the modules use, memory as lists of
  characters, the C library calls that recur (memchr, memcpy) and the generic lemmas and
  named collections the component theories build on.

  Conventions.  A C \<open>char\<close> is an HOL \<open>char\<close>, which is a byte; \<open>code c\<close> reads it as an
  \<open>unsigned char\<close>, and \<open>char_of n\<close> is the cast back, which keeps the low eight bits.  A C
  string is the list of its characters before the terminating NUL, and \<open>None\<close> stands for
  NULL where the code accepts it.  \<open>uint64_t\<close> is \<open>64 word\<close>, \<open>uint32_t\<close> is \<open>32 word\<close>, and
  \<open>int64_t\<close> is \<open>int\<close> with its range stated.  \<open>size_t\<close> is \<open>nat\<close>: where the code subtracts
  and could wrap the model subtracts with \<open>usub\<close>, which wraps as a 64 bit \<open>size_t\<close> does.
\<close>

section \<open>Types\<close>

type_synonym u8 = "8 word"
type_synonym u16 = "16 word"
type_synonym u32 = "32 word"
type_synonym u64 = "64 word"

abbreviation code :: "char \<Rightarrow> nat" where
  "code c \<equiv> of_char c"

abbreviation NUL :: char where
  "NUL \<equiv> CHR 0x00"

abbreviation CR :: char where
  "CR \<equiv> CHR 0x0D"

abbreviation LF :: char where
  "LF \<equiv> CHR 0x0A"

abbreviation HTAB :: char where
  "HTAB \<equiv> CHR 0x09"

abbreviation SPC :: char where
  "SPC \<equiv> CHR 0x20"

definition int64_min :: int where
  "int64_min = - (2 ^ 63)"

definition int64_max :: int where
  "int64_max = 2 ^ 63 - 1"

definition size_max :: nat where
  "size_max = 2 ^ 64 - 1"

section \<open>Named collections\<close>

named_theorems mem_simps \<open>reading and writing memory\<close>
named_theorems inv_intros \<open>invariants kept by an operation\<close>
named_theorems frame_simps \<open>what an operation leaves alone\<close>

section \<open>Words\<close>

lemma unat_less_pow: "unat (v :: u64) < 2 ^ 64"
proof -
  have "unat v < 2 ^ LENGTH(64)" by (rule unsigned_less)
  then show ?thesis by simp
qed

lemma unat_of_nat_u64: "n < 2 ^ 64 \<Longrightarrow> unat (of_nat n :: u64) = n"
  by (simp add: unat_of_nat)

lemma of_nat_unat_u64: "of_nat (unat w) = (w :: u64)"
  by simp

lemma unat_of_int_u64:
  assumes "0 \<le> k" "k < 2 ^ 64"
  shows "unat (of_int k :: u64) = nat k"
proof -
  have "(of_int k :: u64) = of_nat (nat k)" using assms(1) by (metis nat_0_le of_int_of_nat_eq)
  moreover have "nat k < 2 ^ 64" using assms by (simp add: nat_less_iff)
  ultimately show ?thesis by (simp only: unat_of_nat_u64)
qed

lemma unat_of_nat_u32: "n < 2 ^ 32 \<Longrightarrow> unat (of_nat n :: u32) = n"
  by (simp add: unat_of_nat)

section \<open>size\_t arithmetic\<close>

text \<open>Subtraction and addition of two 64 bit \<open>size_t\<close>, which wrap.\<close>

definition usub :: "nat \<Rightarrow> nat \<Rightarrow> nat" where
  "usub a b = (if b \<le> a then a - b else a + (size_max + 1) - b)"

definition uadd :: "nat \<Rightarrow> nat \<Rightarrow> nat" where
  "uadd a b = (a + b) mod (size_max + 1)"

lemma usub_le [simp]: "b \<le> a \<Longrightarrow> usub a b = a - b"
  by (simp add: usub_def)

lemma usub_word:
  assumes "a \<le> size_max" "b \<le> size_max"
  shows "usub a b = unat ((of_nat a :: u64) - of_nat b)"
  using assms by (auto simp: usub_def unat_sub_if' unat_of_nat size_max_def)

lemma uadd_word: "uadd a b = unat ((of_nat a :: u64) + of_nat b)"
  by (simp add: uadd_def size_max_def unat_word_ariths unat_of_nat mod_add_eq)

lemma uadd_le [simp]: "a + b \<le> size_max \<Longrightarrow> uadd a b = a + b"
  by (simp add: uadd_def)

section \<open>Memory\<close>

text \<open>
  \<open>memcpy\<close> of \<open>bs\<close> to offset \<open>off\<close> of a block.  A copy that ends within the block leaves
  its length as it is, and one that runs past its end makes the list longer, so that a
  lemma that an operation keeps a block's length says its writes are in bounds.
\<close>

definition mem_write :: "'a list \<Rightarrow> nat \<Rightarrow> 'a list \<Rightarrow> 'a list" where
  "mem_write buf off bs = take off buf @ bs @ drop (off + length bs) buf"

lemma length_mem_write [simp]:
  "off + length bs \<le> length buf \<Longrightarrow> length (mem_write buf off bs) = length buf"
  by (simp add: mem_write_def)

lemma take_mem_write_before [mem_simps]:
  "n \<le> off \<Longrightarrow> off \<le> length buf \<Longrightarrow> take n (mem_write buf off bs) = take n buf"
  by (simp add: mem_write_def)

lemma take_mem_write [mem_simps]:
  "off \<le> length buf \<Longrightarrow>
   take (off + length bs) (mem_write buf off bs) = take off buf @ bs"
  by (simp add: mem_write_def)

lemma take_mem_write_all [mem_simps]:
  "length bs \<le> n \<Longrightarrow> take (length bs) (mem_write buf 0 bs) = bs"
  by (simp add: mem_write_def)

lemma nth_mem_write_at [mem_simps]:
  "off \<le> length buf \<Longrightarrow> i < length bs \<Longrightarrow> mem_write buf off bs ! (off + i) = bs ! i"
  by (simp add: mem_write_def nth_append)

lemma nth_mem_write_one [mem_simps]:
  "off \<le> length buf \<Longrightarrow> mem_write buf off [x] ! off = x"
  by (simp add: mem_write_def nth_append)

lemma mem_write_Nil [simp]: "mem_write buf off [] = buf"
  by (simp add: mem_write_def)

section \<open>memchr\<close>

text \<open>The index of the first \<open>c\<close> in a span, or \<open>None\<close> for NULL.\<close>

fun memchr :: "'a list \<Rightarrow> 'a \<Rightarrow> nat option" where
  "memchr [] c = None"
| "memchr (x # xs) c = (if x = c then Some 0 else map_option Suc (memchr xs c))"

lemma memchr_None [simp]: "memchr xs c = None \<longleftrightarrow> c \<notin> set xs"
  by (induction xs) auto

lemma memchr_Some:
  "memchr xs c = Some i \<longleftrightarrow> i < length xs \<and> xs ! i = c \<and> c \<notin> set (take i xs)"
proof (induction xs arbitrary: i)
  case Nil
  then show ?case by simp
next
  case (Cons x xs)
  then show ?case by (cases i) auto
qed

lemma memchr_split:
  assumes "memchr xs c = Some i"
  shows "xs = take i xs @ c # drop (Suc i) xs"
  using assms id_take_nth_drop [of i xs] by (auto simp: memchr_Some)

lemma memchr_append_notin:
  "c \<notin> set xs \<Longrightarrow> memchr (xs @ c # ys) c = Some (length xs)"
  by (induction xs) auto

section \<open>Characters\<close>

lemma code_char_of [simp]: "n < 256 \<Longrightarrow> code (char_of n) = n"
  by simp

lemma code_less [simp]: "code c < 256"
  using of_char_mod_256 [of c, where 'a = nat] by (metis mod_less_divisor zero_less_numeral)

lemma code_eq_iff: "code c = code d \<longleftrightarrow> c = d"
  by simp

definition is_digit :: "char \<Rightarrow> bool" where
  "is_digit c \<longleftrightarrow> 48 \<le> code c \<and> code c \<le> 57"

section \<open>Digits\<close>

text \<open>The number a list of digits writes in base \<open>b\<close>, \<open>val\<close> giving the value of each.\<close>

definition num_value :: "(char \<Rightarrow> int) \<Rightarrow> nat \<Rightarrow> nat \<Rightarrow> string \<Rightarrow> nat" where
  "num_value val b start s = foldl (\<lambda>a c. a * b + nat (val c)) start s"

lemma num_value_Nil [simp]: "num_value val b n [] = n"
  by (simp add: num_value_def)

lemma num_value_Cons [simp]:
  "num_value val b n (c # s) = num_value val b (n * b + nat (val c)) s"
  by (simp add: num_value_def)

lemma num_value_append:
  "num_value val b n (s @ t) = num_value val b (num_value val b n s) t"
  by (simp add: num_value_def)

lemma num_value_start: "num_value val b n s = n * b ^ length s + num_value val b 0 s"
proof (induction s arbitrary: n)
  case Nil
  then show ?case by simp
next
  case (Cons c s)
  show ?case
    using Cons [of "n * b + nat (val c)"] Cons [of "nat (val c)"] by (simp add: algebra_simps)
qed

lemma num_value_ge: "0 < b \<Longrightarrow> n \<le> num_value val b n s"
  by (subst num_value_start) (simp add: trans_le_add1)

lemma num_value_less:
  assumes "0 < b" "\<forall>c\<in>set s. nat (val c) < b"
  shows "num_value val b 0 s < b ^ length s"
  using assms(2)
proof (induction s)
  case Nil
  then show ?case by simp
next
  case (Cons c s)
  have "num_value val b 0 (c # s) = nat (val c) * b ^ length s + num_value val b 0 s"
    by (simp, subst num_value_start) simp
  also have "\<dots> < nat (val c) * b ^ length s + b ^ length s"
    using Cons by simp
  also have "\<dots> = Suc (nat (val c)) * b ^ length s" by simp
  also have "\<dots> \<le> b * b ^ length s"
    using Cons.prems by (intro mult_le_mono1) (simp add: Suc_le_eq)
  finally show ?case by simp
qed

text \<open>
  A digit writer is a do-while loop that puts the digits of a number before what it has
  written, lowest first, until none are left and at least \<open>m\<close> are written.  The modules
  each have their own, for decimal and hexadecimal.
\<close>

locale digit_writer =
  fixes b :: nat
    and digit :: "nat \<Rightarrow> char"
    and val :: "char \<Rightarrow> int"
    and loop :: "nat \<Rightarrow> nat \<Rightarrow> nat \<Rightarrow> string \<Rightarrow> string"
  assumes base: "2 \<le> b"
    and val_digit: "d < b \<Longrightarrow> val (digit d) = int d"
    and loop_eq: "loop v m w acc =
      (if v div b > 0 \<or> Suc w < m then loop (v div b) m (Suc w) (digit (v mod b) # acc)
       else digit (v mod b) # acc)"
begin

abbreviation num :: "nat \<Rightarrow> string \<Rightarrow> nat" where
  "num \<equiv> num_value val b"

lemma loop_spec:
  "\<exists>ds. loop v m w acc = ds @ acc \<and> num 0 ds = v \<and> ds \<noteq> [] \<and> m \<le> length ds + w \<and>
     (\<forall>c\<in>set ds. c \<in> digit ` {..<b})"
proof (induction "v + (m - w)" arbitrary: v w acc rule: less_induct)
  case less
  have lt: "v mod b < b" using base by simp
  have nv: "nat (val (digit (v mod b))) = v mod b" using val_digit [OF lt] by simp
  show ?case
  proof (cases "v div b > 0 \<or> Suc w < m")
    case True
    have dv: "v div b \<le> v" by simp
    have "v div b + (m - Suc w) < v + (m - w)"
    proof (cases "v = 0")
      case False
      then have "v div b < v" using base by (intro div_less_dividend) auto
      then show ?thesis by linarith
    next
      case True
      with \<open>v div b > 0 \<or> Suc w < m\<close> show ?thesis by auto
    qed
    from less [OF this, of "digit (v mod b) # acc"] obtain ds where
      ds: "loop (v div b) m (Suc w) (digit (v mod b) # acc) = ds @ digit (v mod b) # acc"
        "num 0 ds = v div b" "ds \<noteq> []" "m \<le> length ds + Suc w"
        "\<forall>c\<in>set ds. c \<in> digit ` {..<b}"
      by blast
    show ?thesis
    proof (intro exI conjI)
      show "loop v m w acc = (ds @ [digit (v mod b)]) @ acc"
        using True ds(1) by (subst loop_eq) simp
      show "num 0 (ds @ [digit (v mod b)]) = v"
        using ds(2) nv by (simp add: num_value_append)
    qed (use ds lt in auto)
  next
    case False
    then have "v < b" using base by (auto simp: div_eq_0_iff)
    then have "v mod b = v" by simp
    moreover from False have "loop v m w acc = [digit (v mod b)] @ acc"
      by (subst loop_eq) auto
    ultimately have "v mod b = v" and "loop v m w acc = [digit (v mod b)] @ acc" by auto
    with nv lt False show ?thesis
      by (intro exI [of _ "[digit (v mod b)]"]) (auto simp: div_eq_0_iff)
  qed
qed

abbreviation digs :: "nat \<Rightarrow> nat \<Rightarrow> string" where
  "digs v m \<equiv> loop v m 0 []"

lemma digs_value: "num 0 (digs v m) = v"
  using loop_spec [of v m 0 "[]"] by auto

lemma digs_nonempty: "digs v m \<noteq> []"
  using loop_spec [of v m 0 "[]"] by auto

lemma digs_at_least: "m \<le> length (digs v m)"
  using loop_spec [of v m 0 "[]"] by auto

lemma digs_digits: "c \<in> set (digs v m) \<Longrightarrow> \<exists>d<b. c = digit d"
  using loop_spec [of v m 0 "[]"] by (auto simp: lessThan_def)

lemma digs_val: "c \<in> set (digs v m) \<Longrightarrow> 0 \<le> val c \<and> nat (val c) < b"
  by (auto dest!: digs_digits simp: val_digit)

lemma loop_length:
  "v < b ^ k \<Longrightarrow> 0 < k \<Longrightarrow> m \<le> w + k \<Longrightarrow> length (loop v m w acc) \<le> k + length acc"
proof (induction k arbitrary: v w acc)
  case 0
  then show ?case by simp
next
  case (Suc k)
  show ?case
  proof (cases "v div b > 0 \<or> Suc w < m")
    case True
    have k: "0 < k"
    proof (rule ccontr)
      assume "\<not> 0 < k"
      with Suc.prems True show False by (auto simp: div_eq_0_iff)
    qed
    have "v div b < b ^ k"
      using Suc.prems(1) base by (simp add: div_less_iff_less_mult mult.commute)
    with k Suc.prems Suc.IH [of "v div b" "Suc w" "digit (v mod b) # acc"] True show ?thesis
      by (subst loop_eq) simp
  next
    case False
    then show ?thesis by (subst loop_eq) simp
  qed
qed

lemma digs_length: "v < b ^ k \<Longrightarrow> 0 < k \<Longrightarrow> m \<le> k \<Longrightarrow> length (digs v m) \<le> k"
  using loop_length [of v k m 0 "[]"] by simp

lemma digs_length_eq: "v < b ^ m \<Longrightarrow> 0 < m \<Longrightarrow> length (digs v m) = m"
  using digs_length [of v m m] digs_at_least [of m v] by simp

end

section \<open>Bounded output\<close>

text \<open>
  Output into a buffer of fixed size, terminated: an append goes in whole or not at all, and
  once one did not go in, none after it does.  The string builder and the JSON writer on a
  buffer both promise this.
\<close>

locale bounded_output =
  fixes append :: "'s \<Rightarrow> string \<Rightarrow> 's"
    and str :: "'s \<Rightarrow> string"
    and ok :: "'s \<Rightarrow> bool"
    and cap :: "'s \<Rightarrow> nat"
    and wf :: "'s \<Rightarrow> bool"
  assumes wf_append: "wf s \<Longrightarrow> wf (append s t)"
    and cap_append: "wf s \<Longrightarrow> cap (append s t) = cap s"
    and append_Nil: "wf s \<Longrightarrow> append s [] = s"
    and append_fits: "wf s \<Longrightarrow> ok s \<Longrightarrow> t \<noteq> [] \<Longrightarrow> length (str s) + length t < cap s \<Longrightarrow>
      ok (append s t) \<and> str (append s t) = str s @ t"
    and append_full: "wf s \<Longrightarrow> ok s \<Longrightarrow> t \<noteq> [] \<Longrightarrow> cap s \<le> length (str s) + length t \<Longrightarrow>
      \<not> ok (append s t) \<and> str (append s t) = str s"
    and append_failed: "wf s \<Longrightarrow> \<not> ok s \<Longrightarrow> \<not> ok (append s t) \<and> str (append s t) = str s"
begin

abbreviation appends :: "'s \<Rightarrow> string list \<Rightarrow> 's" where
  "appends s ts \<equiv> foldl append s ts"

lemma wf_appends: "wf s \<Longrightarrow> wf (appends s ts)"
  by (induction ts arbitrary: s) (auto intro: wf_append)

lemma cap_appends: "wf s \<Longrightarrow> cap (appends s ts) = cap s"
  by (induction ts arbitrary: s) (auto simp: cap_append wf_append)

lemma appends_failed: "wf s \<Longrightarrow> \<not> ok s \<Longrightarrow> \<not> ok (appends s ts) \<and> str (appends s ts) = str s"
  by (induction ts arbitrary: s) (auto simp: append_failed wf_append)

lemma appends_ok:
  "wf s \<Longrightarrow> ok s \<Longrightarrow>
   ok (appends s ts) \<longleftrightarrow> concat ts = [] \<or> length (str s) + length (concat ts) < cap s"
proof (induction ts arbitrary: s)
  case Nil
  then show ?case by simp
next
  case (Cons t ts)
  show ?case
  proof (cases "t = []")
    case True
    with Cons show ?thesis by (simp add: append_Nil)
  next
    case False
    show ?thesis
    proof (cases "length (str s) + length t < cap s")
      case True
      with Cons.prems False have a: "ok (append s t)" "str (append s t) = str s @ t"
        using append_fits [of s t] by auto
      have "ok (appends s (t # ts)) \<longleftrightarrow>
        concat ts = [] \<or> length (str s) + length t + length (concat ts) < cap s"
        using Cons.IH [of "append s t"] Cons.prems a
        by (simp add: wf_append cap_append add.assoc del: concat_eq_Nil_conv)
      with True False show ?thesis
        by (cases "concat ts = []") (simp_all add: add.assoc del: concat_eq_Nil_conv)
    next
      case F: False
      with Cons.prems False have "\<not> ok (append s t)" using append_full [of s t] by simp
      with Cons.prems F False show ?thesis
        using appends_failed [of "append s t" ts] by (auto simp: wf_append)
    qed
  qed
qed

lemma append_ok_str:
  assumes "wf s" "ok s" "ok (append s t)"
  shows "str (append s t) = str s @ t"
proof (cases "t = []")
  case True
  with assms show ?thesis by (simp add: append_Nil)
next
  case False
  with assms append_fits [of s t] append_full [of s t] show ?thesis
    by (meson not_less)
qed

lemma append_not_ok_str:
  assumes "wf s" "ok s" "\<not> ok (append s t)"
  shows "str (append s t) = str s"
proof (cases "t = []")
  case True
  with assms show ?thesis by (simp add: append_Nil)
next
  case False
  with assms append_fits [of s t] append_full [of s t] show ?thesis
    by (meson not_less)
qed

lemma appends_str:
  "wf s \<Longrightarrow> ok s \<Longrightarrow> ok (appends s ts) \<Longrightarrow> str (appends s ts) = str s @ concat ts"
proof (induction ts arbitrary: s)
  case Nil
  then show ?case by simp
next
  case (Cons t ts)
  have ok': "ok (append s t)"
    using Cons.prems appends_failed [of "append s t" ts] by (auto simp: wf_append)
  moreover have "str (append s t) = str s @ t"
    using Cons.prems ok' by (simp add: append_ok_str)
  ultimately show ?case using Cons.IH [of "append s t"] Cons.prems by (simp add: wf_append)
qed

lemma appends_prefix: "wf s \<Longrightarrow> ok s \<Longrightarrow> \<exists>n. str (appends s ts) = str s @ concat (take n ts)"
proof (induction ts arbitrary: s)
  case Nil
  then show ?case by simp
next
  case (Cons t ts)
  show ?case
  proof (cases "ok (append s t)")
    case True
    then have "str (append s t) = str s @ t" using Cons.prems by (simp add: append_ok_str)
    moreover obtain n where "str (appends (append s t) ts) = str (append s t) @ concat (take n ts)"
      using Cons.IH [of "append s t"] Cons.prems True by (auto simp: wf_append)
    ultimately have "str (appends s (t # ts)) = str s @ concat (take (Suc n) (t # ts))" by simp
    then show ?thesis by blast
  next
    case False
    then have "str (append s t) = str s" using Cons.prems by (simp add: append_not_ok_str)
    with Cons.prems False have "str (appends s (t # ts)) = str s @ concat (take 0 (t # ts))"
      using appends_failed [of "append s t" ts] by (simp add: wf_append)
    then show ?thesis by blast
  qed
qed

end

section \<open>A run of steps\<close>

text \<open>
  A machine is a step function with the states it ends in.  What holds at the start and is
  kept by a step holds after any number of steps.
\<close>

fun run_steps :: "('s \<Rightarrow> 's) \<Rightarrow> ('s \<Rightarrow> bool) \<Rightarrow> nat \<Rightarrow> 's \<Rightarrow> 's" where
  "run_steps f fin 0 s = s"
| "run_steps f fin (Suc n) s = (if fin s then s else run_steps f fin n (f s))"

locale machine =
  fixes step :: "'s \<Rightarrow> 's"
    and final :: "'s \<Rightarrow> bool"
    and inv :: "'s \<Rightarrow> bool"
  assumes inv_step: "inv s \<Longrightarrow> \<not> final s \<Longrightarrow> inv (step s)"
begin

lemma inv_run: "inv s \<Longrightarrow> inv (run_steps step final n s)"
  by (induction n arbitrary: s) (auto intro: inv_step)

lemma run_final: "final s \<Longrightarrow> run_steps step final n s = s"
  by (cases n) auto

lemma run_add: "run_steps step final (m + n) s = run_steps step final n (run_steps step final m s)"
  by (induction m arbitrary: s) (auto simp: run_final)

end

locale terminating_machine = machine +
  fixes rank :: "'s \<Rightarrow> nat"
  assumes rank_step: "inv s \<Longrightarrow> \<not> final s \<Longrightarrow> rank (step s) < rank s"
begin

lemma run_terminates: "inv s \<Longrightarrow> rank s \<le> n \<Longrightarrow> final (run_steps step final n s)"
proof (induction n arbitrary: s)
  case 0
  then show ?case using rank_step [of s] by fastforce
next
  case (Suc n)
  show ?case
  proof (cases "final s")
    case True
    then show ?thesis by simp
  next
    case False
    with Suc.prems have "rank (step s) < rank s" and "inv (step s)"
      by (auto intro: rank_step inv_step)
    with Suc.prems have "final (run_steps step final n (step s))"
      by (intro Suc.IH) auto
    with False show ?thesis by simp
  qed
qed

end

end
