(* ===== verification/Ebisu_Str.thy ===== *)
theory Ebisu_Str
  imports Ebisu_Prelude
begin

text \<open>
  core/src/ebisu\_str.c: the bounded string builder, the number parsers and the spans.

  A builder's buffer is the list of its bytes, of length \<open>sb_size\<close>; the string it holds is
  its first \<open>sb_len\<close> bytes.  Parsers return \<open>Inl\<close> why not, or \<open>Inr\<close> the value the code
  stores in \<open>*out\<close>.  A span is the list of its bytes, and \<open>None\<close> a span used up.
\<close>

unbundle bit_operations_syntax

section \<open>Copying\<close>

text \<open>ebisu\_strlcpy: the buffer afterwards, and the length of the source.\<close>

definition ebisu_strlcpy :: "char list \<Rightarrow> string option \<Rightarrow> nat \<Rightarrow> char list \<times> nat" where
  "ebisu_strlcpy dst src sz =
     (let s = (case src of None \<Rightarrow> [] | Some s \<Rightarrow> s);
          len = length s in
      if sz > 0 then
        (let n = (if len < sz then len else sz - 1);
             d = (if n > 0 then mem_write dst 0 (take n s) else dst)
         in (mem_write d n [NUL], len))
      else (dst, len))"

section \<open>The builder\<close>

record strbuf =
  sb_buff :: "char list"
  sb_size :: nat
  sb_len :: nat
  sb_overflow :: bool

definition ebisu_strbuf_init :: "char list \<Rightarrow> nat \<Rightarrow> strbuf" where
  "ebisu_strbuf_init buff sz =
     \<lparr>sb_buff = (if sz > 0 then mem_write buff 0 [NUL] else buff),
      sb_size = sz, sb_len = 0, sb_overflow = False\<rparr>"

text \<open>Appends the first \<open>n\<close> bytes of \<open>s\<close>.\<close>

definition ebisu_strbuf_append_n :: "strbuf \<Rightarrow> string \<Rightarrow> nat \<Rightarrow> strbuf" where
  "ebisu_strbuf_append_n sb s n =
     (if sb_overflow sb \<or> n = 0 then sb
      else if sb_size sb = 0 \<or> n > usub (usub (sb_size sb) (sb_len sb)) 1
        then sb\<lparr>sb_overflow := True\<rparr>
      else
        (let b = mem_write (sb_buff sb) (sb_len sb) (take n s);
             l = sb_len sb + n
         in sb\<lparr>sb_buff := mem_write b l [NUL], sb_len := l\<rparr>))"

definition ebisu_strbuf_append :: "strbuf \<Rightarrow> string option \<Rightarrow> strbuf" where
  "ebisu_strbuf_append sb s =
     (case s of None \<Rightarrow> sb | Some t \<Rightarrow> ebisu_strbuf_append_n sb t (length t))"

definition ebisu_strbuf_append_char :: "strbuf \<Rightarrow> char \<Rightarrow> strbuf" where
  "ebisu_strbuf_append_char sb c = ebisu_strbuf_append_n sb [c] 1"

text \<open>
  The digits of \<open>v\<close>, written backwards from the end of a buffer: \<open>acc\<close> is what the buffer
  holds from \<open>p\<close> on and \<open>written\<close> how many digits that is.  Every value is below \<open>2^64\<close>, and
  division and remainder by 10 are exact on it.
\<close>

function udigits_loop :: "nat \<Rightarrow> nat \<Rightarrow> nat \<Rightarrow> string \<Rightarrow> string" where
  "udigits_loop v min_digits written acc =
     (let acc = char_of (48 + v mod 10) # acc; v = v div 10; written = Suc written in
      if v > 0 \<or> written < min_digits then udigits_loop v min_digits written acc else acc)"
  by pat_completeness auto
termination
  by (relation "measure (\<lambda>(v, m, w, _). v + (m - w))") auto

declare udigits_loop.simps [simp del]

definition udigits :: "u64 \<Rightarrow> nat \<Rightarrow> string" where
  "udigits v min_digits = udigits_loop (unat v) min_digits 0 []"

definition ebisu_strbuf_append_uint :: "strbuf \<Rightarrow> u64 \<Rightarrow> strbuf" where
  "ebisu_strbuf_append_uint sb v =
     (let p = udigits v 1 in ebisu_strbuf_append_n sb p (length p))"

text \<open>The magnitude of an \<open>int64_t\<close>, by unsigned subtraction from 0 where it is negative.\<close>

definition magnitude :: "int \<Rightarrow> u64" where
  "magnitude v = (if v < 0 then 0 - word_of_int v else word_of_int v)"

definition int_digits :: "int \<Rightarrow> string" where
  "int_digits v =
     (let p = udigits (magnitude v) 1 in if v < 0 then CHR ''-'' # p else p)"

definition ebisu_strbuf_append_int :: "strbuf \<Rightarrow> int \<Rightarrow> strbuf" where
  "ebisu_strbuf_append_int sb v =
     (let p = int_digits v in ebisu_strbuf_append_n sb p (length p))"

definition hex_digit :: "nat \<Rightarrow> char" where
  "hex_digit n = ''0123456789abcdef'' ! n"

function hexdigits_loop :: "nat \<Rightarrow> nat \<Rightarrow> nat \<Rightarrow> string \<Rightarrow> string" where
  "hexdigits_loop v min_digits written acc =
     (let acc = hex_digit (v mod 16) # acc; v = v div 16; written = Suc written in
      if v > 0 \<or> written < min_digits then hexdigits_loop v min_digits written acc else acc)"
  by pat_completeness auto
termination
  by (relation "measure (\<lambda>(v, m, w, _). v + (m - w))") auto

declare hexdigits_loop.simps [simp del]

text \<open>At most 16 digits, the size of the array the code writes them in.\<close>

definition hexdigits :: "u64 \<Rightarrow> nat \<Rightarrow> string" where
  "hexdigits v min_digits =
     hexdigits_loop (unat v) (if min_digits > 16 then 16 else min_digits) 0 []"

definition ebisu_strbuf_append_hex :: "strbuf \<Rightarrow> u64 \<Rightarrow> nat \<Rightarrow> strbuf" where
  "ebisu_strbuf_append_hex sb v min_digits =
     (let p = hexdigits v min_digits in ebisu_strbuf_append_n sb p (length p))"

text \<open>The loop over the bytes, writing two digits of each at \<open>sb_len\<close>.\<close>

fun hex_bytes_loop :: "strbuf \<Rightarrow> u8 list \<Rightarrow> strbuf" where
  "hex_bytes_loop sb [] = sb"
| "hex_bytes_loop sb (b # bs) =
     hex_bytes_loop
       (sb\<lparr>sb_buff := mem_write (sb_buff sb) (sb_len sb)
              [hex_digit (unat (drop_bit 4 b)), hex_digit (unat (b AND 0xf))],
           sb_len := sb_len sb + 2\<rparr>) bs"

definition ebisu_strbuf_append_hex_bytes :: "strbuf \<Rightarrow> u8 list \<Rightarrow> strbuf" where
  "ebisu_strbuf_append_hex_bytes sb bytes =
     (let n = length bytes in
      if sb_overflow sb \<or> n = 0 then sb
      else if sb_size sb = 0 \<or> n > usub (usub (sb_size sb) (sb_len sb)) 1 div 2
        then sb\<lparr>sb_overflow := True\<rparr>
      else
        (let r = hex_bytes_loop sb bytes
         in r\<lparr>sb_buff := mem_write (sb_buff r) (sb_len r) [NUL]\<rparr>))"

definition fixed_max_decimals :: nat where
  "fixed_max_decimals = 18"

definition pow10 :: "nat \<Rightarrow> u64" where
  "pow10 d =
     [1, 10, 100, 1000, 10000, 100000, 1000000, 10000000, 100000000, 1000000000,
      10000000000, 100000000000, 1000000000000, 10000000000000, 100000000000000,
      1000000000000000, 10000000000000000, 100000000000000000, 1000000000000000000] ! d"

text \<open>What ebisu\_strbuf\_append\_fixed builds in its array, for 1 to 18 decimals.\<close>

definition fixed_digits :: "int \<Rightarrow> nat \<Rightarrow> string" where
  "fixed_digits v decimals =
     (let m = magnitude v;
          p = udigits (m mod pow10 decimals) decimals;
          p = CHR ''.'' # p;
          p = udigits (m div pow10 decimals) 1 @ p
      in if v < 0 then CHR ''-'' # p else p)"

definition ebisu_strbuf_append_fixed :: "strbuf \<Rightarrow> int \<Rightarrow> nat \<Rightarrow> strbuf" where
  "ebisu_strbuf_append_fixed sb v decimals =
     (if decimals > fixed_max_decimals then sb\<lparr>sb_overflow := True\<rparr>
      else if decimals = 0 then ebisu_strbuf_append_int sb v
      else (let p = fixed_digits v decimals in ebisu_strbuf_append_n sb p (length p)))"

text \<open>The room: its offset in the buffer and its size, or \<open>None\<close> for NULL and 0.\<close>

definition ebisu_strbuf_room :: "strbuf \<Rightarrow> (nat \<times> nat) option" where
  "ebisu_strbuf_room sb =
     (if sb_overflow sb \<or> sb_size sb = 0 then None
      else Some (sb_len sb, usub (sb_size sb) (sb_len sb)))"

definition ebisu_strbuf_commit :: "strbuf \<Rightarrow> nat \<Rightarrow> strbuf" where
  "ebisu_strbuf_commit sb n =
     (if sb_overflow sb then sb
      else
        (let sb' = (if n > 0 \<and> (sb_size sb = 0 \<or> n > usub (usub (sb_size sb) (sb_len sb)) 1)
                    then sb\<lparr>sb_overflow := True\<rparr>
                    else sb\<lparr>sb_len := sb_len sb + n\<rparr>)
         in if sb_size sb' > 0
            then sb'\<lparr>sb_buff := mem_write (sb_buff sb') (sb_len sb') [NUL]\<rparr> else sb'))"

definition ebisu_strbuf_ok :: "strbuf \<Rightarrow> bool" where
  "ebisu_strbuf_ok sb \<longleftrightarrow> \<not> sb_overflow sb"

section \<open>Parsing numbers\<close>

datatype parse_err = PARSE_EMPTY | PARSE_INVALID | PARSE_RANGE

text \<open>The value of a digit in base 10 or 16, or -1.\<close>

definition str_digit :: "char \<Rightarrow> nat \<Rightarrow> int" where
  "str_digit c base =
     (if code c \<ge> 48 \<and> code c \<le> 57 then int (code c) - 48
      else if base = 16 \<and> code c \<ge> 97 \<and> code c \<le> 102 then int (code c) - 97 + 10
      else if base = 16 \<and> code c \<ge> 65 \<and> code c \<le> 70 then int (code c) - 65 + 10
      else -1)"

fun parse_digits_loop :: "string \<Rightarrow> nat \<Rightarrow> u64 \<Rightarrow> u64 \<Rightarrow> parse_err + u64" where
  "parse_digits_loop [] base mx value = Inr value"
| "parse_digits_loop (c # s) base mx value =
     (let d = word_of_int (str_digit c base) in
      if d > mx \<or> value > (mx - d) div of_nat base then Inl PARSE_RANGE
      else parse_digits_loop s base mx (value * of_nat base + d))"

definition parse_digits :: "string \<Rightarrow> nat \<Rightarrow> u64 \<Rightarrow> parse_err + u64" where
  "parse_digits s base mx =
     (if length s = 0 then Inl PARSE_EMPTY
      else if list_ex (\<lambda>c. str_digit c base < 0) s then Inl PARSE_INVALID
      else parse_digits_loop s base mx 0)"

definition ebisu_parse_uint :: "string \<Rightarrow> u64 \<Rightarrow> parse_err + u64" where
  "ebisu_parse_uint s mx = parse_digits s 10 mx"

definition ebisu_parse_hex :: "string \<Rightarrow> u64 \<Rightarrow> parse_err + u64" where
  "ebisu_parse_hex s mx = parse_digits s 16 mx"

fun hex_pairs :: "string \<Rightarrow> u8 list" where
  "hex_pairs (a # b # s) =
     word_of_int (str_digit a 16 * 16 + str_digit b 16) # hex_pairs s"
| "hex_pairs s = []"

text \<open>The bytes written to \<open>out\<close>, whose number is \<open>*out_len\<close>.\<close>

definition ebisu_parse_hex_bytes :: "string \<Rightarrow> nat \<Rightarrow> parse_err + u8 list" where
  "ebisu_parse_hex_bytes s out_size =
     (if length s = 0 then Inl PARSE_EMPTY
      else if length s mod 2 \<noteq> 0 then Inl PARSE_INVALID
      else if list_ex (\<lambda>c. str_digit c 16 < 0) s then Inl PARSE_INVALID
      else if length s div 2 > out_size then Inl PARSE_RANGE
      else Inr (hex_pairs s))"

text \<open>Takes a sign off: whether one was taken, whether it is \<open>-\<close>, and the rest.\<close>

definition take_sign :: "string \<Rightarrow> bool \<times> bool \<times> string" where
  "take_sign s =
     (case s of [] \<Rightarrow> (False, False, s)
      | c # t \<Rightarrow> if c = CHR ''+'' \<or> c = CHR ''-'' then (True, c = CHR ''-'', t)
                 else (False, False, s))"

definition signed_value :: "u64 \<Rightarrow> bool \<Rightarrow> int \<Rightarrow> int \<Rightarrow> parse_err + int" where
  "signed_value mag negative mn mx =
     (let out = (\<lambda>value. if value < mn \<or> value > mx then Inl PARSE_RANGE else Inr value) in
      if negative then
        (if mag > word_of_int int64_max + 1 then Inl PARSE_RANGE
         else out (if mag = word_of_int int64_max + 1 then int64_min else - uint mag))
      else
        (if mag > word_of_int int64_max then Inl PARSE_RANGE else out (uint mag)))"

definition ebisu_parse_int :: "string \<Rightarrow> int \<Rightarrow> int \<Rightarrow> parse_err + int" where
  "ebisu_parse_int s mn mx =
     (if length s = 0 then Inl PARSE_EMPTY
      else
        (let (signed, negative, s) = take_sign s in
         if signed \<and> length s = 0 then Inl PARSE_INVALID
         else
           (case parse_digits s 10 (word_of_int int64_max + 1) of
              Inl err \<Rightarrow> Inl err
            | Inr mag \<Rightarrow> signed_value mag negative mn mx)))"

text \<open>
  The loop checks that every byte but the one at \<open>int_len\<close>, which is the point where there
  is one, is a digit.
\<close>

definition fixed_layout_ok :: "string \<Rightarrow> nat \<Rightarrow> bool" where
  "fixed_layout_ok s int_len \<longleftrightarrow>
     list_all (\<lambda>i. i = int_len \<or> \<not> str_digit (s ! i) 10 < 0) [0..<length s]"

definition ebisu_parse_fixed :: "string \<Rightarrow> nat \<Rightarrow> int \<Rightarrow> int \<Rightarrow> parse_err + int" where
  "ebisu_parse_fixed s decimals mn mx =
     (if length s = 0 then Inl PARSE_EMPTY
      else
        (let limit = word_of_int int64_max + 1;
             (signed, negative, s) = take_sign s in
         if signed \<and> length s = 0 then Inl PARSE_INVALID
         else
           (let point = memchr s (CHR ''.'');
                int_len = (case point of Some p \<Rightarrow> p | None \<Rightarrow> length s);
                frac_len = (case point of Some p \<Rightarrow> length s - int_len - 1 | None \<Rightarrow> 0) in
            if \<not> fixed_layout_ok s int_len then Inl PARSE_INVALID
            else if int_len = 0 \<or> (point \<noteq> None \<and> frac_len = 0) then Inl PARSE_INVALID
            else if decimals > fixed_max_decimals then Inl PARSE_RANGE
            else if frac_len > decimals then Inl PARSE_INVALID
            else
              (let scale = pow10 decimals in
               case parse_digits (take int_len s) 10 (limit div scale) of
                 Inl _ \<Rightarrow> Inl PARSE_RANGE
               | Inr int_part \<Rightarrow>
                   (let frac_part =
                          (if frac_len > 0 then
                             (case parse_digits (drop (Suc int_len) s) 10 (scale - 1) of
                                Inl _ \<Rightarrow> 0 | Inr f \<Rightarrow> f) * pow10 (decimals - frac_len)
                           else 0) in
                    if int_part > (limit - frac_part) div scale then Inl PARSE_RANGE
                    else signed_value (int_part * scale + frac_part) negative mn mx)))))"

section \<open>Spans\<close>

definition ebisu_span_from_str :: "string option \<Rightarrow> string" where
  "ebisu_span_from_str s = (case s of None \<Rightarrow> [] | Some t \<Rightarrow> t)"

text \<open>The field taken and what is left, or \<open>None\<close> where the code returns false.\<close>

definition ebisu_span_next :: "string option \<Rightarrow> char \<Rightarrow> (string \<times> string option) option" where
  "ebisu_span_next rest delim =
     (case rest of None \<Rightarrow> None
      | Some s \<Rightarrow>
          (case (if length s > 0 then memchr s delim else None) of
             Some k \<Rightarrow> Some (take k s, Some (drop (k + 1) s))
           | None \<Rightarrow> Some (s, None)))"

definition is_space :: "char \<Rightarrow> bool" where
  "is_space c \<longleftrightarrow> c = SPC \<or> c = HTAB \<or> c = CR \<or> c = LF"

fun trim_left :: "string \<Rightarrow> string" where
  "trim_left [] = []"
| "trim_left (c # s) = (if is_space c then trim_left s else c # s)"

function trim_right :: "string \<Rightarrow> string" where
  "trim_right s =
     (if length s > 0 \<and> is_space (s ! (length s - 1)) then trim_right (butlast s) else s)"
  by pat_completeness auto
termination
  by (relation "measure length") auto

declare trim_right.simps [simp del]

definition ebisu_span_trim :: "string \<Rightarrow> string" where
  "ebisu_span_trim s = trim_right (trim_left s)"

definition ebisu_span_eq :: "string \<Rightarrow> string option \<Rightarrow> bool" where
  "ebisu_span_eq s literal =
     (let l = ebisu_span_from_str literal; n = length l in
      if length s \<noteq> n then False else n = 0 \<or> take n s = take n l)"

definition ascii_lower :: "char \<Rightarrow> char" where
  "ascii_lower c = (if code c \<ge> 65 \<and> code c \<le> 90 then char_of (code c - 65 + 97) else c)"

definition ebisu_span_eq_nocase :: "string \<Rightarrow> string option \<Rightarrow> bool" where
  "ebisu_span_eq_nocase s literal =
     (let l = ebisu_span_from_str literal; n = length l in
      if length s \<noteq> n then False
      else list_all (\<lambda>i. ascii_lower (s ! i) = ascii_lower (l ! i)) [0..<n])"

function span_find_loop :: "string \<Rightarrow> string \<Rightarrow> nat \<Rightarrow> nat option" where
  "span_find_loop s needle i =
     (let n = length needle in
      if i \<le> length s - n then
        (case memchr (take (length s - n + 1 - i) (drop i s)) (needle ! 0) of
           None \<Rightarrow> None
         | Some k \<Rightarrow>
             (let j = i + k in
              if take n (drop j s) = needle then Some j else span_find_loop s needle (Suc j)))
      else None)"
  by pat_completeness auto
termination
  by (relation "measure (\<lambda>(s, needle, i). Suc (length s) - i)") auto

declare span_find_loop.simps [simp del]

text \<open>The offset written to \<open>*out_offset\<close> where the needle is found.\<close>

definition ebisu_span_find :: "string \<Rightarrow> string option \<Rightarrow> nat option" where
  "ebisu_span_find s needle =
     (let l = ebisu_span_from_str needle; n = length l in
      if n = 0 then Some 0
      else if length s < n then None
      else span_find_loop s l 0)"

section \<open>Digits written\<close>

lemma str_digit_dec: "d < 10 \<Longrightarrow> str_digit (char_of (48 + d)) 10 = int d"
  by (auto simp: str_digit_def)

lemma hex_digit_cases:
  assumes "d < 16"
  shows "str_digit (hex_digit d) 16 = int d"
proof -
  have "d \<in> set [0..<16]" using assms by simp
  then show ?thesis
    by (simp add: upt_rec, elim disjE) (simp_all add: hex_digit_def str_digit_def)
qed

interpretation dec: digit_writer 10 "\<lambda>d. char_of (48 + d)" "\<lambda>c. str_digit c 10" udigits_loop
proof
  fix v m w acc
  show "udigits_loop v m w acc =
    (if v div 10 > 0 \<or> Suc w < m
     then udigits_loop (v div 10) m (Suc w) (char_of (48 + v mod 10) # acc)
     else char_of (48 + v mod 10) # acc)"
    by (subst udigits_loop.simps) (simp add: Let_def)
qed (simp_all add: str_digit_dec)

interpretation hexa: digit_writer 16 hex_digit "\<lambda>c. str_digit c 16" hexdigits_loop
proof
  fix v m w acc
  show "hexdigits_loop v m w acc =
    (if v div 16 > 0 \<or> Suc w < m
     then hexdigits_loop (v div 16) m (Suc w) (hex_digit (v mod 16) # acc)
     else hex_digit (v mod 16) # acc)"
    by (subst hexdigits_loop.simps) (simp add: Let_def)
qed (simp_all add: hex_digit_cases)

abbreviation dec_value :: "string \<Rightarrow> nat" where
  "dec_value s \<equiv> num_value (\<lambda>c. str_digit c 10) 10 0 s"

abbreviation hex_value :: "string \<Rightarrow> nat" where
  "hex_value s \<equiv> num_value (\<lambda>c. str_digit c 16) 16 0 s"

lemma udigits_value [simp]: "dec_value (udigits v m) = unat v"
  by (simp add: udigits_def dec.digs_value)

lemma udigits_nonempty [simp]: "udigits v m \<noteq> []"
  by (simp add: udigits_def dec.digs_nonempty)

lemma udigits_digits: "c \<in> set (udigits v m) \<Longrightarrow> is_digit c"
  by (auto simp: udigits_def is_digit_def dest!: dec.digs_digits)

lemma is_digit_str_digit: "is_digit c \<longleftrightarrow> 0 \<le> str_digit c 10"
  by (auto simp: is_digit_def str_digit_def)

lemma udigits_str_digit: "c \<in> set (udigits v m) \<Longrightarrow> 0 \<le> str_digit c 10"
  using udigits_digits [of c v m] by (simp add: is_digit_str_digit)

text \<open>The arrays the code writes the digits in are large enough.\<close>

lemma udigits_length_uint: "length (udigits v 1) \<le> 20"
  using dec.digs_length [of "unat v" 20 1] unat_less_pow [of v] by (simp add: udigits_def)

lemma hexdigits_value [simp]: "hex_value (hexdigits v m) = unat v"
  by (simp add: hexdigits_def hexa.digs_value)

lemma hexdigits_nonempty [simp]: "hexdigits v m \<noteq> []"
  by (simp add: hexdigits_def hexa.digs_nonempty)

lemma hexdigits_length: "length (hexdigits v m) \<le> 16"
  using hexa.digs_length [of "unat v" 16 "if m > 16 then 16 else m"] unat_less_pow [of v]
  by (simp add: hexdigits_def)

lemma hexdigits_str_digit: "c \<in> set (hexdigits v m) \<Longrightarrow> 0 \<le> str_digit c 16"
  using hexa.digs_val by (auto simp: hexdigits_def)

section \<open>What the digit parser computes\<close>

lemma str_digit_range:
  assumes "0 \<le> str_digit c b" "b = 10 \<or> b = 16"
  shows "nat (str_digit c b) < b" "str_digit c b < 16"
  using assms by (auto simp: str_digit_def split: if_splits)

lemma parse_digits_step:
  fixes mx v :: u64
  assumes b: "b = 10 \<or> b = 16" and d: "0 \<le> str_digit c b" and le: "v \<le> mx"
  defines "x \<equiv> unat v * b + nat (str_digit c b)"
  shows "parse_digits_loop (c # s) b mx v =
    (if x \<le> unat mx then parse_digits_loop s b mx (of_nat x) else Inl PARSE_RANGE)"
proof -
  let ?D = "nat (str_digit c b)"
  let ?d = "word_of_int (str_digit c b) :: u64"
  have dD: "?d = of_nat ?D" using d by (metis nat_0_le of_int_of_nat_eq)
  have lt: "?D < 16" using str_digit_range [OF d b] by auto
  then have ud: "unat ?d = ?D" by (simp add: dD unat_of_nat)
  have ub: "unat (of_nat b :: u64) = b" using b by auto
  have b0: "0 < b" using b by auto
  have cond: "(?d > mx \<or> v > (mx - ?d) div of_nat b) \<longleftrightarrow> \<not> x \<le> unat mx"
  proof (cases "?d > mx")
    case True
    then have "unat mx < ?D" by (simp add: word_less_nat_alt ud)
    then have "\<not> x \<le> unat mx" unfolding x_def by linarith
    with True show ?thesis by simp
  next
    case False
    then have le': "?d \<le> mx" and leD: "?D \<le> unat mx" by (auto simp: not_less word_le_nat_alt ud)
    have "unat ((mx - ?d) div of_nat b) = (unat mx - ?D) div b"
      using le' by (simp add: unat_div ub unat_sub ud)
    then have "v > (mx - ?d) div of_nat b \<longleftrightarrow> (unat mx - ?D) div b < unat v"
      by (simp add: word_less_nat_alt)
    also have "\<dots> \<longleftrightarrow> unat mx - ?D < unat v * b"
      using b0 by (simp add: div_less_iff_less_mult)
    also have "\<dots> \<longleftrightarrow> \<not> x \<le> unat mx" unfolding x_def using leD by linarith
    finally show ?thesis using False by simp
  qed
  have val: "v * of_nat b + ?d = of_nat x"
    unfolding x_def dD by simp
  show ?thesis
    by (simp only: parse_digits_loop.simps Let_def cond val) simp
qed

lemma parse_digits_loop_eq:
  fixes mx v :: u64
  assumes "b = 10 \<or> b = 16" "\<forall>c\<in>set s. 0 \<le> str_digit c b" "v \<le> mx"
  shows "parse_digits_loop s b mx v =
    (let n = num_value (\<lambda>c. str_digit c b) b (unat v) s in
     if n \<le> unat mx then Inr (of_nat n) else Inl PARSE_RANGE)"
  using assms(2,3)
proof (induction s arbitrary: v)
  case Nil
  then show ?case by (simp add: word_le_nat_alt)
next
  case (Cons c s)
  let ?x = "unat v * b + nat (str_digit c b)"
  let ?n = "num_value (\<lambda>c. str_digit c b) b ?x s"
  have d: "0 \<le> str_digit c b" using Cons.prems by simp
  show ?case
  proof (cases "?x \<le> unat mx")
    case True
    then have "?x < 2 ^ 64" using unat_less_pow [of mx] by linarith
    then have ux: "unat (of_nat ?x :: u64) = ?x" by (rule unat_of_nat_u64)
    then have "(of_nat ?x :: u64) \<le> mx" using True by (simp add: word_le_nat_alt)
    with Cons.IH [of "of_nat ?x"] Cons.prems True ux show ?thesis
      by (subst parse_digits_step [OF assms(1) d Cons.prems(2)]) simp
  next
    case False
    have "?x \<le> ?n" using assms(1) by (intro num_value_ge) auto
    with False show ?thesis
      by (subst parse_digits_step [OF assms(1) d Cons.prems(2)]) simp
  qed
qed

lemma parse_digits_eq:
  fixes mx :: u64
  assumes "b = 10 \<or> b = 16"
  shows "parse_digits s b mx =
    (if s = [] then Inl PARSE_EMPTY
     else if \<not> (\<forall>c\<in>set s. 0 \<le> str_digit c b) then Inl PARSE_INVALID
     else if num_value (\<lambda>c. str_digit c b) b 0 s > unat mx then Inl PARSE_RANGE
     else Inr (of_nat (num_value (\<lambda>c. str_digit c b) b 0 s)))"
proof (cases "\<forall>c\<in>set s. 0 \<le> str_digit c b")
  case True
  then show ?thesis
    by (auto simp: parse_digits_def list_ex_iff parse_digits_loop_eq [OF assms] Let_def)
next
  case False
  then show ?thesis by (auto simp: parse_digits_def list_ex_iff not_le)
qed

section \<open>Signed and fixed-point numbers\<close>

abbreviation in_int64 :: "int \<Rightarrow> bool" where
  "in_int64 v \<equiv> int64_min \<le> v \<and> v \<le> int64_max"

abbreviation all_digits :: "string \<Rightarrow> bool" where
  "all_digits s \<equiv> \<forall>c\<in>set s. is_digit c"

text \<open>A value parsed against bounds within those of \<open>int64_t\<close>.\<close>

definition bounded :: "int \<Rightarrow> int \<Rightarrow> int \<Rightarrow> parse_err + int" where
  "bounded mn mx v = (if mn \<le> v \<and> v \<le> mx then Inr v else Inl PARSE_RANGE)"

abbreviation with_sign :: "bool \<Rightarrow> nat \<Rightarrow> int" where
  "with_sign negative n \<equiv> (if negative then - int n else int n)"

lemma limit_word: "word_of_int int64_max + 1 = (2 ^ 63 :: u64)"
  by (simp add: int64_max_def)

lemma signed_value_eq:
  assumes "int64_min \<le> mn" "mx \<le> int64_max"
  shows "signed_value mag negative mn mx = bounded mn mx (with_sign negative (unat mag))"
proof -
  have u: "int (unat mag) = uint mag" by simp
  have lim: "mag > word_of_int int64_max + 1 \<longleftrightarrow> uint mag > 2 ^ 63"
    "mag = word_of_int int64_max + 1 \<longleftrightarrow> uint mag = 2 ^ 63"
    "mag > word_of_int int64_max \<longleftrightarrow> uint mag > 2 ^ 63 - 1"
    unfolding limit_word by (auto simp: word_less_def word_uint_eq_iff int64_max_def)
  show ?thesis
    unfolding signed_value_def Let_def lim
    using assms u by (auto simp: bounded_def int64_min_def int64_max_def)
qed

lemma magnitude_nonneg: "0 \<le> v \<Longrightarrow> v \<le> int64_max \<Longrightarrow> unat (magnitude v) = nat v"
  using unat_of_int_u64 [of v] by (simp add: magnitude_def int64_max_def)

lemma magnitude_neg:
  assumes "v < 0" "int64_min \<le> v"
  shows "unat (magnitude v) = nat (- v)"
  using unat_of_int_u64 [of "- v"] assms by (simp add: magnitude_def int64_min_def)

lemma magnitude_eq: "in_int64 v \<Longrightarrow> unat (magnitude v) = nat \<bar>v\<bar>"
  using magnitude_nonneg [of v] magnitude_neg [of v] by (cases "v < 0") auto

lemma with_sign_abs: "with_sign (v < 0) (nat \<bar>v\<bar>) = v"
  by auto

lemma all_digits_udigits: "all_digits (udigits v m)"
  by (simp add: udigits_digits)

lemma take_sign_digits:
  assumes "all_digits s"
  shows "take_sign s = (False, False, s)"
proof (cases s)
  case (Cons c t)
  with assms have "is_digit c" by simp
  then have "c \<noteq> CHR ''+''" "c \<noteq> CHR ''-''" by (auto simp: is_digit_def)
  with Cons show ?thesis by (simp add: take_sign_def)
qed (simp add: take_sign_def)

text \<open>The sign as written: none, or one of the two characters.\<close>

definition sign_text :: "bool option \<Rightarrow> string" where
  "sign_text g = (case g of None \<Rightarrow> [] | Some True \<Rightarrow> ''-'' | Some False \<Rightarrow> ''+'')"

abbreviation sign_negative :: "bool option \<Rightarrow> bool" where
  "sign_negative g \<equiv> g = Some True"

lemma take_sign_text:
  assumes "s \<noteq> []" "is_digit (hd s)"
  shows "take_sign (sign_text g @ s) = (g \<noteq> None, sign_negative g, s)"
proof (cases g)
  case None
  from assms obtain c t where s: "s = c # t" and "is_digit c" by (cases s) auto
  then have "c \<noteq> CHR ''+''" "c \<noteq> CHR ''-''" by (auto simp: is_digit_def)
  with None s show ?thesis by (simp add: take_sign_def sign_text_def)
next
  case (Some b)
  then show ?thesis by (cases b) (simp_all add: take_sign_def sign_text_def)
qed

lemma parse_digits_dec:
  assumes "s \<noteq> []" "all_digits s"
  shows "parse_digits s 10 mx =
    (if dec_value s > unat mx then Inl PARSE_RANGE else Inr (of_nat (dec_value s)))"
  using assms by (simp add: parse_digits_eq is_digit_str_digit)

lemma ebisu_parse_int_digits:
  assumes "s \<noteq> []" "all_digits s" "int64_min \<le> mn" "mx \<le> int64_max"
  shows "ebisu_parse_int (sign_text g @ s) mn mx =
    bounded mn mx (with_sign (sign_negative g) (dec_value s))"
proof -
  have hd: "is_digit (hd s)" using assms by (cases s) auto
  have lim: "unat (word_of_int int64_max + 1 :: u64) = 2 ^ 63" by (simp add: limit_word)
  have out: "dec_value s > 2 ^ 63 \<Longrightarrow>
      bounded mn mx (with_sign (sign_negative g) (dec_value s)) = Inl PARSE_RANGE"
    using assms(3,4) by (auto simp: bounded_def int64_min_def int64_max_def)
  have "dec_value s \<le> 2 ^ 63 \<Longrightarrow> unat (of_nat (dec_value s) :: u64) = dec_value s"
    by (rule unat_of_nat_u64) simp
  then show ?thesis
    using assms out
    by (auto simp: ebisu_parse_int_def take_sign_text [OF assms(1) hd] Let_def
        parse_digits_dec lim signed_value_eq)
qed

lemma int_digits_text:
  "int_digits v = sign_text (if v < 0 then Some True else None) @ udigits (magnitude v) 1"
  by (simp add: int_digits_def sign_text_def)

lemma parse_int_digits:
  assumes "in_int64 v" "int64_min \<le> mn" "mx \<le> int64_max"
  shows "ebisu_parse_int (int_digits v) mn mx = bounded mn mx v"
  using ebisu_parse_int_digits [OF _ all_digits_udigits assms(2,3)] magnitude_eq [OF assms(1)]
  by (simp add: int_digits_text with_sign_abs)

lemma pow10_nat:
  assumes "d \<le> 18"
  shows "unat (pow10 d) = 10 ^ d"
proof -
  have "d \<in> set [0..<19]" using assms by simp
  then show ?thesis
    by (simp add: upt_rec, elim disjE) (simp_all add: pow10_def)
qed

text \<open>A number as \<open>ebisu_parse_fixed\<close> takes it, and its value scaled to \<open>d\<close> decimals.\<close>

definition fixed_text :: "string \<Rightarrow> string \<Rightarrow> string" where
  "fixed_text i f = (if f = [] then i else i @ CHR ''.'' # f)"

definition fixed_value :: "string \<Rightarrow> string \<Rightarrow> nat \<Rightarrow> nat" where
  "fixed_value i f d = dec_value i * 10 ^ d + dec_value f * 10 ^ (d - length f)"

lemma point_not_digit: "all_digits s \<Longrightarrow> CHR ''.'' \<notin> set s"
  by (auto simp: is_digit_def)

lemma fixed_text_point:
  assumes "all_digits i"
  shows "memchr (fixed_text i f) (CHR ''.'') =
    (if f = [] then None else Some (length i))"
  using point_not_digit [OF assms] by (auto simp: fixed_text_def memchr_append_notin)

lemma fixed_text_layout:
  assumes "all_digits i" "all_digits f"
  shows "fixed_layout_ok (fixed_text i f) (length i)"
  using assms
  by (auto simp: fixed_layout_ok_def list_all_iff fixed_text_def nth_append nth_Cons'
      is_digit_str_digit not_less split: if_splits)

lemma fixed_frac_less:
  assumes "all_digits f" "length f \<le> d"
  shows "dec_value f * 10 ^ (d - length f) < 10 ^ d"
proof -
  have "dec_value f < 10 ^ length f"
    using assms(1) str_digit_range [of _ 10] by (intro num_value_less) (auto simp: is_digit_str_digit)
  then have "dec_value f * 10 ^ (d - length f) < 10 ^ length f * 10 ^ (d - length f)" by simp
  also have "\<dots> = 10 ^ d" using assms(2) by (simp flip: power_add)
  finally show ?thesis .
qed

lemma fixed_core:
  fixes I F :: nat and d :: nat
  assumes "F \<le> 2 ^ 63"
  shows "I > (2 ^ 63 - F) div 10 ^ d \<longleftrightarrow> I * 10 ^ d + F > 2 ^ 63"
proof -
  have "I > (2 ^ 63 - F) div 10 ^ d \<longleftrightarrow> 2 ^ 63 - F < I * 10 ^ d"
    by (simp add: div_less_iff_less_mult)
  with assms show ?thesis by linarith
qed

lemma pow10_le: "d \<le> 18 \<Longrightarrow> (10::nat) ^ d < 2 ^ 63"
  using power_increasing [of d 18 "10::nat"] by simp

lemma ebisu_parse_fixed_digits:
  assumes i: "i \<noteq> []" "all_digits i" and f: "all_digits f" "length f \<le> d" and d: "d \<le> 18"
    and mn: "int64_min \<le> mn" "mx \<le> int64_max"
  shows "ebisu_parse_fixed (sign_text g @ fixed_text i f) d mn mx =
    bounded mn mx (with_sign (sign_negative g) (fixed_value i f d))"
proof -
  let ?s = "fixed_text i f" and ?I = "dec_value i" and ?F = "dec_value f * 10 ^ (d - length f)"
  let ?lim = "word_of_int int64_max + 1 :: u64"
  have s: "?s \<noteq> []" "is_digit (hd ?s)" using i by (auto simp: fixed_text_def hd_append)
  have lim: "unat ?lim = 2 ^ 63" by (simp add: limit_word)
  have sc: "unat (pow10 d) = 10 ^ d" using d by (rule pow10_nat)
  have ltF: "?F < 10 ^ d" using f by (rule fixed_frac_less)
  have F63: "?F < 2 ^ 63" using ltF pow10_le [OF d] by linarith
  have big: "fixed_value i f d > 2 ^ 63 \<Longrightarrow>
      bounded mn mx (with_sign (sign_negative g) (fixed_value i f d)) = Inl PARSE_RANGE"
    using mn by (auto simp: bounded_def int64_min_def int64_max_def)
  have lay: "fixed_layout_ok ?s (length i)" using i f by (simp add: fixed_text_layout)
  have nofrac: "fixed_text i [] = i" by (simp add: fixed_text_def)
  have ti: "take (length i) ?s = i" "drop (Suc (length i)) ?s = f"
    by (simp_all add: fixed_text_def)
  have fl: "f \<noteq> [] \<Longrightarrow> length ?s - length i - 1 = length f" by (simp add: fixed_text_def)
  define frac where "frac = (if length f > 0 then
     (case parse_digits f 10 (pow10 d - 1) of Inl _ \<Rightarrow> 0 | Inr x \<Rightarrow> x) * pow10 (d - length f)
     else 0)"
  have dF: "dec_value f < 10 ^ d"
  proof -
    have "dec_value f \<le> ?F" by simp
    with ltF show ?thesis by linarith
  qed
  have uf: "unat frac = ?F"
  proof (cases "f = []")
    case True
    then show ?thesis by (simp add: frac_def)
  next
    case False
    have "unat (pow10 d - 1) = 10 ^ d - 1"
      using sc by (subst unat_sub) (auto simp: word_le_nat_alt)
    with dF have "parse_digits f 10 (pow10 d - 1) = Inr (of_nat (dec_value f))"
      using False f by (subst parse_digits_dec) auto
    then have "frac = of_nat (dec_value f) * pow10 (d - length f)"
      using False by (simp add: frac_def)
    also have "pow10 (d - length f) = of_nat (10 ^ (d - length f))"
      using pow10_nat [of "d - length f"] d by (metis diff_le_self le_trans of_nat_unat_u64)
    finally have "frac = of_nat ?F" by simp
    moreover have "unat (of_nat ?F :: u64) = ?F" using F63 by (intro unat_of_nat_u64) simp
    ultimately show ?thesis by simp
  qed
  have uI: "?I \<le> 2 ^ 63 \<Longrightarrow> unat (of_nat ?I :: u64) = ?I" by (rule unat_of_nat_u64) simp
  have body: "ebisu_parse_fixed (sign_text g @ ?s) d mn mx =
    (case parse_digits i 10 (?lim div pow10 d) of
       Inl _ \<Rightarrow> Inl PARSE_RANGE
     | Inr x \<Rightarrow> if x > (?lim - frac) div pow10 d then Inl PARSE_RANGE
               else signed_value (x * pow10 d + frac) (sign_negative g) mn mx)"
  proof (cases "f = []")
    case True
    have "ebisu_parse_fixed (sign_text g @ i) d mn mx =
      (case parse_digits i 10 (?lim div pow10 d) of
         Inl _ \<Rightarrow> Inl PARSE_RANGE
       | Inr x \<Rightarrow> if x > (?lim - 0) div pow10 d then Inl PARSE_RANGE
                 else signed_value (x * pow10 d + 0) (sign_negative g) mn mx)"
      using s i d lay fixed_text_point [OF i(2), of f] True
      unfolding ebisu_parse_fixed_def
      by (simp add: take_sign_text fixed_max_decimals_def nofrac Let_def del: memchr_None split: sum.split)
    with True show ?thesis by (simp add: frac_def nofrac split: sum.split)
  next
    case False
    have "ebisu_parse_fixed (sign_text g @ ?s) d mn mx =
      (case parse_digits (take (length i) ?s) 10 (?lim div pow10 d) of
         Inl _ \<Rightarrow> Inl PARSE_RANGE
       | Inr x \<Rightarrow> if x > (?lim - frac) div pow10 d then Inl PARSE_RANGE
                 else signed_value (x * pow10 d + frac) (sign_negative g) mn mx)"
      using s i d lay fixed_text_point [OF i(2), of f] False f fl [OF False]
      unfolding ebisu_parse_fixed_def frac_def
      by (simp add: take_sign_text fixed_max_decimals_def ti(2) Let_def del: memchr_None split: sum.split)
    then show ?thesis by (simp add: ti)
  qed
  show ?thesis
  proof (cases "?I > 2 ^ 63 div 10 ^ d")
    case True
    then have "?I * 10 ^ d > 2 ^ 63" by (simp add: div_less_iff_less_mult)
    then have "fixed_value i f d > 2 ^ 63" by (simp add: fixed_value_def)
    with True big show ?thesis
      by (simp add: body parse_digits_dec i unat_div lim sc)
  next
    case False
    then have I63: "?I \<le> 2 ^ 63" by (meson div_le_dividend le_trans not_less)
    have cmp: "of_nat ?I > (?lim - frac) div pow10 d \<longleftrightarrow> fixed_value i f d > 2 ^ 63"
    proof -
      have "unat (?lim - frac) = 2 ^ 63 - ?F"
        using F63 uf lim by (subst unat_sub) (auto simp: word_le_nat_alt)
      then have "of_nat ?I > (?lim - frac) div pow10 d \<longleftrightarrow> ?I > (2 ^ 63 - ?F) div 10 ^ d"
        by (simp add: word_less_nat_alt unat_div sc uI [OF I63])
      also have "\<dots> \<longleftrightarrow> fixed_value i f d > 2 ^ 63"
        using fixed_core [of ?F d ?I] F63 by (simp add: fixed_value_def)
      finally show ?thesis .
    qed
    have res: "ebisu_parse_fixed (sign_text g @ ?s) d mn mx =
      (if fixed_value i f d > 2 ^ 63 then Inl PARSE_RANGE
       else signed_value (of_nat ?I * pow10 d + frac) (sign_negative g) mn mx)"
      using False by (simp add: body parse_digits_dec i unat_div lim sc cmp)
    show ?thesis
    proof (cases "fixed_value i f d > 2 ^ 63")
      case True
      with res big show ?thesis by simp
    next
      case small: False
      have "of_nat ?I * pow10 d + frac = of_nat (fixed_value i f d)"
        using sc uf unfolding fixed_value_def
        by (metis of_nat_add of_nat_mult of_nat_unat_u64)
      moreover have "unat (of_nat (fixed_value i f d) :: u64) = fixed_value i f d"
        using small by (intro unat_of_nat_u64) simp
      ultimately show ?thesis using small res by (simp add: signed_value_eq mn)
    qed
  qed
qed

lemma magnitude_parts:
  assumes "in_int64 v" "0 < d" "d \<le> 18"
  shows "unat (magnitude v mod pow10 d) = nat \<bar>v\<bar> mod 10 ^ d"
    "unat (magnitude v div pow10 d) = nat \<bar>v\<bar> div 10 ^ d"
  using assms by (simp_all add: unat_mod unat_div magnitude_eq pow10_nat)

lemma udigits_mod_length:
  assumes "0 < d" "d \<le> 18"
  shows "length (udigits (m mod pow10 d) d) = d"
proof -
  have "unat (m mod pow10 d) < 10 ^ d" using assms by (simp add: unat_mod pow10_nat)
  then show ?thesis using assms(1) by (simp add: udigits_def dec.digs_length_eq)
qed

lemma fixed_digits_text:
  assumes "0 < d" "d \<le> 18"
  shows "fixed_digits v d = sign_text (if v < 0 then Some True else None) @
    fixed_text (udigits (magnitude v div pow10 d) 1) (udigits (magnitude v mod pow10 d) d)"
  by (simp add: fixed_digits_def sign_text_def fixed_text_def Let_def)

lemma parse_fixed_digits:
  assumes v: "in_int64 v" and d: "0 < d" "d \<le> 18" and mn: "int64_min \<le> mn" "mx \<le> int64_max"
  shows "ebisu_parse_fixed (fixed_digits v d) d mn mx = bounded mn mx v"
proof -
  have "fixed_value (udigits (magnitude v div pow10 d) 1) (udigits (magnitude v mod pow10 d) d) d =
      nat \<bar>v\<bar>"
    using magnitude_parts [OF v d] div_mult_mod_eq [of "nat \<bar>v\<bar>" "10 ^ d"]
    by (simp add: fixed_value_def udigits_mod_length [OF d])
  then show ?thesis
    using ebisu_parse_fixed_digits [OF udigits_nonempty all_digits_udigits all_digits_udigits _ d(2) mn]
    by (simp add: fixed_digits_text [OF d] udigits_mod_length [OF d] with_sign_abs)
qed

text \<open>The arrays of the callers are large enough for what they write in them.\<close>

lemma int_digits_length: "in_int64 v \<Longrightarrow> length (int_digits v) \<le> 21"
  using udigits_length_uint [of "magnitude v"] by (simp add: int_digits_def Let_def)

lemma fixed_digits_length:
  assumes v: "in_int64 v" and d: "0 < d" "d \<le> 18"
  shows "length (fixed_digits v d) \<le> 2 + 19 + fixed_max_decimals"
proof -
  have "unat (magnitude v div pow10 d) \<le> nat \<bar>v\<bar>"
    using magnitude_parts [OF v d] by simp
  also have "nat \<bar>v\<bar> < 10 ^ 19" using v by (auto simp: int64_min_def int64_max_def nat_less_iff)
  finally have "length (udigits (magnitude v div pow10 d) 1) \<le> 19"
    unfolding udigits_def by (intro dec.digs_length) auto
  with d show ?thesis
    by (simp add: fixed_digits_def Let_def udigits_mod_length fixed_max_decimals_def)
qed

section \<open>The builder keeps its promise\<close>

definition strbuf_wf :: "strbuf \<Rightarrow> bool" where
  "strbuf_wf sb \<longleftrightarrow> length (sb_buff sb) = sb_size sb \<and> sb_size sb \<le> size_max \<and>
     (if sb_size sb = 0 then sb_len sb = 0
      else sb_len sb < sb_size sb \<and> sb_buff sb ! sb_len sb = NUL)"

definition sb_str :: "strbuf \<Rightarrow> string" where
  "sb_str sb = take (sb_len sb) (sb_buff sb)"

lemma strbuf_wf_init:
  "length buff = n \<Longrightarrow> n \<le> size_max \<Longrightarrow> strbuf_wf (ebisu_strbuf_init buff n)"
  by (simp add: strbuf_wf_def ebisu_strbuf_init_def nth_mem_write_one)

lemma sb_str_init [simp]: "sb_str (ebisu_strbuf_init buff n) = []"
  by (simp add: sb_str_def ebisu_strbuf_init_def)

lemma length_sb_str: "strbuf_wf sb \<Longrightarrow> length (sb_str sb) = sb_len sb"
  by (auto simp: strbuf_wf_def sb_str_def split: if_splits)

lemma strbuf_wf_fail [simp]: "strbuf_wf (sb\<lparr>sb_overflow := b\<rparr>) = strbuf_wf sb"
  by (simp add: strbuf_wf_def)

lemma sb_str_fail [simp]: "sb_str (sb\<lparr>sb_overflow := b\<rparr>) = sb_str sb"
  by (simp add: sb_str_def)

text \<open>An append of a whole string, the form every caller but one uses.\<close>

abbreviation sb_put :: "strbuf \<Rightarrow> string \<Rightarrow> strbuf" where
  "sb_put sb s \<equiv> ebisu_strbuf_append_n sb s (length s)"

lemma sb_put_fits:
  assumes "strbuf_wf sb" "\<not> sb_overflow sb" "s \<noteq> []" "sb_len sb + length s < sb_size sb"
  shows "strbuf_wf (sb_put sb s)" "\<not> sb_overflow (sb_put sb s)"
    "sb_str (sb_put sb s) = sb_str sb @ s" "sb_size (sb_put sb s) = sb_size sb"
proof -
  have g: "\<not> (sb_overflow sb \<or> length s = 0)"
    "\<not> (sb_size sb = 0 \<or> length s > usub (usub (sb_size sb) (sb_len sb)) 1)"
    using assms by (auto simp: strbuf_wf_def)
  have e: "sb_put sb s =
    sb\<lparr>sb_buff := mem_write (mem_write (sb_buff sb) (sb_len sb) s) (sb_len sb + length s) [NUL],
       sb_len := sb_len sb + length s\<rparr>"
    unfolding ebisu_strbuf_append_n_def using g by (simp only: if_False Let_def) simp
  have l: "length (mem_write (sb_buff sb) (sb_len sb) s) = sb_size sb"
    using assms by (simp add: strbuf_wf_def split: if_splits)
  show "strbuf_wf (sb_put sb s)"
    using assms l by (simp add: e strbuf_wf_def nth_mem_write_one split: if_splits)
  show "\<not> sb_overflow (sb_put sb s)" "sb_size (sb_put sb s) = sb_size sb"
    using assms by (simp_all add: e)
  show "sb_str (sb_put sb s) = sb_str sb @ s"
    using assms l by (simp add: e sb_str_def strbuf_wf_def mem_simps split: if_splits)
qed

lemma sb_put_full:
  assumes "strbuf_wf sb" "\<not> sb_overflow sb" "s \<noteq> []" "sb_size sb \<le> sb_len sb + length s"
  shows "sb_put sb s = sb\<lparr>sb_overflow := True\<rparr>"
  using assms by (auto simp: ebisu_strbuf_append_n_def strbuf_wf_def)

lemma sb_put_failed: "sb_overflow sb \<Longrightarrow> ebisu_strbuf_append_n sb s n = sb"
  by (simp add: ebisu_strbuf_append_n_def)

lemma sb_put_Nil [simp]: "ebisu_strbuf_append_n sb s 0 = sb"
  by (simp add: ebisu_strbuf_append_n_def)

lemma sb_put_cases:
  assumes "strbuf_wf sb"
  shows "strbuf_wf (sb_put sb s) \<and> sb_size (sb_put sb s) = sb_size sb"
proof (cases "sb_overflow sb \<or> s = []")
  case True
  with assms show ?thesis by (auto simp: sb_put_failed)
next
  case False
  with assms sb_put_fits [of sb s] sb_put_full [of sb s] show ?thesis
    by (cases "sb_len sb + length s < sb_size sb") (auto simp: strbuf_wf_def)
qed

interpretation sb: bounded_output sb_put sb_str ebisu_strbuf_ok sb_size strbuf_wf
proof
  fix s :: strbuf and t :: string
  assume wf: "strbuf_wf s"
  show "strbuf_wf (sb_put s t)" "sb_size (sb_put s t) = sb_size s"
    using sb_put_cases [OF wf] by auto
  show "sb_put s [] = s" by simp
  show "ebisu_strbuf_ok s \<Longrightarrow> t \<noteq> [] \<Longrightarrow> length (sb_str s) + length t < sb_size s \<Longrightarrow>
      ebisu_strbuf_ok (sb_put s t) \<and> sb_str (sb_put s t) = sb_str s @ t"
    using sb_put_fits [OF wf] length_sb_str [OF wf] by (simp add: ebisu_strbuf_ok_def)
  show "ebisu_strbuf_ok s \<Longrightarrow> t \<noteq> [] \<Longrightarrow> sb_size s \<le> length (sb_str s) + length t \<Longrightarrow>
      \<not> ebisu_strbuf_ok (sb_put s t) \<and> sb_str (sb_put s t) = sb_str s"
    using sb_put_full [OF wf] length_sb_str [OF wf] by (simp add: ebisu_strbuf_ok_def sb_str_def)
  show "\<not> ebisu_strbuf_ok s \<Longrightarrow> \<not> ebisu_strbuf_ok (sb_put s t) \<and> sb_str (sb_put s t) = sb_str s"
    by (simp add: ebisu_strbuf_ok_def sb_put_failed)
qed

text \<open>
  The appends as one operation each, with the text each stands for.  \<open>Op_room w\<close> is a writer
  that asks for the room, writes \<open>w\<close> there and commits it, or, where \<open>w\<close> does not fit,
  fills the room and commits SIZE\_MAX, as the header documents.
\<close>

datatype sb_op =
    Op_append "string option" | Op_char char | Op_uint u64 | Op_int int | Op_hex u64 nat
  | Op_hex_bytes "u8 list" | Op_fixed int nat | Op_room string

definition sb_room_write :: "strbuf \<Rightarrow> string \<Rightarrow> strbuf" where
  "sb_room_write sb w =
     (case ebisu_strbuf_room sb of
        None \<Rightarrow> ebisu_strbuf_commit sb (if w = [] then 0 else size_max)
      | Some (off, room) \<Rightarrow>
          if length w < room
          then ebisu_strbuf_commit (sb\<lparr>sb_buff := mem_write (sb_buff sb) off w\<rparr>) (length w)
          else ebisu_strbuf_commit
                 (sb\<lparr>sb_buff := mem_write (sb_buff sb) off (take room w)\<rparr>) size_max)"

fun sb_apply :: "strbuf \<Rightarrow> sb_op \<Rightarrow> strbuf" where
  "sb_apply sb (Op_append s) = ebisu_strbuf_append sb s"
| "sb_apply sb (Op_char c) = ebisu_strbuf_append_char sb c"
| "sb_apply sb (Op_uint v) = ebisu_strbuf_append_uint sb v"
| "sb_apply sb (Op_int v) = ebisu_strbuf_append_int sb v"
| "sb_apply sb (Op_hex v m) = ebisu_strbuf_append_hex sb v m"
| "sb_apply sb (Op_hex_bytes bs) = ebisu_strbuf_append_hex_bytes sb bs"
| "sb_apply sb (Op_fixed v d) = ebisu_strbuf_append_fixed sb v d"
| "sb_apply sb (Op_room w) = sb_room_write sb w"

definition hex_byte :: "u8 \<Rightarrow> string" where
  "hex_byte b = [hex_digit (unat (drop_bit 4 b)), hex_digit (unat (b AND 0xf))]"

fun op_text :: "sb_op \<Rightarrow> string option" where
  "op_text (Op_append s) = Some (ebisu_span_from_str s)"
| "op_text (Op_char c) = Some [c]"
| "op_text (Op_uint v) = Some (udigits v 1)"
| "op_text (Op_int v) = Some (int_digits v)"
| "op_text (Op_hex v m) = Some (hexdigits v m)"
| "op_text (Op_hex_bytes bs) = Some (concat (map hex_byte bs))"
| "op_text (Op_fixed v d) =
     (if d > fixed_max_decimals then None
      else if d = 0 then Some (int_digits v) else Some (fixed_digits v d))"
| "op_text (Op_room w) = Some w"

lemma hex_byte_length [simp]: "length (hex_byte b) = 2"
  by (simp add: hex_byte_def)

lemma mem_write_mem_write:
  "off + length xs \<le> length b \<Longrightarrow>
   mem_write (mem_write b off xs) (off + length xs) ys = mem_write b off (xs @ ys)"
  by (cases xs) (auto simp: mem_write_def min_def add_ac)

lemma hex_bytes_loop_eq:
  "sb_len sb + 2 * length bs \<le> length (sb_buff sb) \<Longrightarrow>
   hex_bytes_loop sb bs =
     sb\<lparr>sb_buff := mem_write (sb_buff sb) (sb_len sb) (concat (map hex_byte bs)),
        sb_len := sb_len sb + 2 * length bs\<rparr>"
proof (induction bs arbitrary: sb)
  case Nil
  then show ?case by simp
next
  case (Cons b bs)
  let ?m = "mem_write (sb_buff sb) (sb_len sb) (hex_byte b)"
  have l: "length ?m = length (sb_buff sb)" using Cons.prems by simp
  have "mem_write ?m (sb_len sb + 2) (concat (map hex_byte bs)) =
      mem_write (sb_buff sb) (sb_len sb) (hex_byte b @ concat (map hex_byte bs))"
    using mem_write_mem_write [of "sb_len sb" "hex_byte b" "sb_buff sb"] Cons.prems
    by (simp add: hex_byte_length)
  with Cons l show ?case by (simp flip: hex_byte_def)
qed

lemma length_hex_bytes: "length (concat (map hex_byte bs)) = 2 * length bs"
  by (induction bs) auto

lemma append_hex_bytes_eq:
  assumes "strbuf_wf sb"
  shows "ebisu_strbuf_append_hex_bytes sb bs = sb_put sb (concat (map hex_byte bs))"
proof -
  let ?t = "concat (map hex_byte bs)"
  have u: "sb_size sb \<noteq> 0 \<Longrightarrow> usub (usub (sb_size sb) (sb_len sb)) 1 = sb_size sb - sb_len sb - 1"
    using assms by (auto simp: strbuf_wf_def)
  have c: "sb_size sb \<noteq> 0 \<Longrightarrow> length bs > (sb_size sb - sb_len sb - 1) div 2 \<longleftrightarrow>
      length ?t > sb_size sb - sb_len sb - 1"
    by (auto simp: length_hex_bytes)
  show ?thesis
  proof (cases "sb_overflow sb \<or> bs = [] \<or> sb_size sb = 0 \<or>
      length bs > (sb_size sb - sb_len sb - 1) div 2")
    case True
    then show ?thesis
      using u c
      by (auto simp: ebisu_strbuf_append_hex_bytes_def ebisu_strbuf_append_n_def length_hex_bytes)
  next
    case False
    with assms have "sb_len sb + 2 * length bs \<le> length (sb_buff sb)"
      by (auto simp: strbuf_wf_def)
    moreover have "\<not> 2 * length bs > sb_size sb - sb_len sb - 1"
      using False c by (simp add: length_hex_bytes)
    ultimately show ?thesis
      using False u
      by (simp add: ebisu_strbuf_append_hex_bytes_def ebisu_strbuf_append_n_def length_hex_bytes
          hex_bytes_loop_eq Let_def)
  qed
qed

definition sb_same :: "strbuf \<Rightarrow> strbuf \<Rightarrow> bool" where
  "sb_same a b \<longleftrightarrow> strbuf_wf a \<and> strbuf_wf b \<and> sb_str a = sb_str b \<and>
     sb_overflow a = sb_overflow b \<and> sb_size a = sb_size b"

lemma sb_same_put:
  assumes "sb_same a b"
  shows "sb_same (sb_put a t) (sb_put b t)"
proof -
  have len: "sb_len a = sb_len b"
    using assms length_sb_str [of a] length_sb_str [of b] by (simp add: sb_same_def)
  show ?thesis
  proof (cases "sb_overflow a \<or> t = []")
    case True
    with assms show ?thesis by (auto simp: sb_same_def sb_put_failed)
  next
    case False
    with assms len sb_put_fits [of a t] sb_put_fits [of b t] sb_put_full [of a t]
      sb_put_full [of b t] sb_put_cases [of a t] sb_put_cases [of b t]
    show ?thesis
      by (cases "sb_len a + length t < sb_size a") (auto simp: sb_same_def sb_str_def)
  qed
qed

lemma sb_room_write_same:
  assumes wf: "strbuf_wf sb"
  shows "sb_same (sb_room_write sb w) (sb_put sb w)"
proof -
  consider (failed) "sb_overflow sb" | (empty) "\<not> sb_overflow sb" "sb_size sb = 0"
    | (fits) "\<not> sb_overflow sb" "sb_size sb \<noteq> 0" "sb_len sb + length w < sb_size sb"
    | (full) "\<not> sb_overflow sb" "sb_size sb \<noteq> 0" "sb_size sb \<le> sb_len sb + length w"
    by linarith
  then show ?thesis
  proof cases
    case failed
    with wf show ?thesis
      by (simp add: sb_same_def sb_room_write_def ebisu_strbuf_room_def ebisu_strbuf_commit_def
          sb_put_failed)
  next
    case empty
    with wf show ?thesis
      by (auto simp: sb_same_def sb_room_write_def ebisu_strbuf_room_def ebisu_strbuf_commit_def
          ebisu_strbuf_append_n_def strbuf_wf_def sb_str_def size_max_def)
  next
    case fits
    let ?b = "mem_write (sb_buff sb) (sb_len sb) w"
    have l: "length ?b = sb_size sb" using wf fits by (simp add: strbuf_wf_def)
    have room: "ebisu_strbuf_room sb = Some (sb_len sb, sb_size sb - sb_len sb)"
      using fits by (simp add: ebisu_strbuf_room_def)
    have lt: "length w < sb_size sb - sb_len sb" "\<not> sb_size sb - Suc (sb_len sb) < length w"
      using fits by auto
    have "sb_room_write sb w = sb\<lparr>sb_buff := mem_write ?b (sb_len sb + length w) [NUL],
        sb_len := sb_len sb + length w\<rparr>"
      using fits room lt by (simp add: sb_room_write_def ebisu_strbuf_commit_def)
    moreover have "strbuf_wf (sb\<lparr>sb_buff := mem_write ?b (sb_len sb + length w) [NUL],
        sb_len := sb_len sb + length w\<rparr>)"
      using wf fits l by (simp add: strbuf_wf_def nth_mem_write_one)
    moreover have "sb_str (sb\<lparr>sb_buff := mem_write ?b (sb_len sb + length w) [NUL],
        sb_len := sb_len sb + length w\<rparr>) = sb_str sb @ w"
      using wf fits l by (simp add: sb_str_def strbuf_wf_def mem_simps)
    ultimately show ?thesis
      using wf fits sb_put_fits [of sb w] by (cases "w = []") (simp_all add: sb_same_def)
  next
    case full
    let ?b = "mem_write (sb_buff sb) (sb_len sb) (take (sb_size sb - sb_len sb) w)"
    have lt: "sb_len sb < sb_size sb" using wf full by (simp add: strbuf_wf_def)
    have w: "w \<noteq> []" using lt full by auto
    have room: "ebisu_strbuf_room sb = Some (sb_len sb, sb_size sb - sb_len sb)"
      using full lt by (simp add: ebisu_strbuf_room_def)
    have l: "length ?b = sb_size sb" using wf lt by (simp add: strbuf_wf_def)
    have big: "usub (sb_size sb - sb_len sb) (Suc 0) < size_max" "size_max > 0"
      using wf lt by (auto simp: strbuf_wf_def size_max_def)
    have "sb_room_write sb w =
        sb\<lparr>sb_overflow := True, sb_buff := mem_write ?b (sb_len sb) [NUL]\<rparr>"
      using full lt room big by (simp add: sb_room_write_def ebisu_strbuf_commit_def)
    moreover have "strbuf_wf (sb\<lparr>sb_overflow := True, sb_buff := mem_write ?b (sb_len sb) [NUL]\<rparr>)"
      using wf lt l by (simp add: strbuf_wf_def nth_mem_write_one)
    moreover have "sb_str (sb\<lparr>sb_overflow := True, sb_buff := mem_write ?b (sb_len sb) [NUL]\<rparr>) =
        sb_str sb"
      using wf lt l by (simp add: sb_str_def strbuf_wf_def mem_simps)
    moreover have "strbuf_wf (sb\<lparr>sb_overflow := True\<rparr>)" using wf by (simp add: strbuf_wf_def)
    ultimately show ?thesis
      using wf full w sb_put_full [of sb w] by (simp add: sb_same_def sb_str_def)
  qed
qed

lemma sb_same_refl: "strbuf_wf sb \<Longrightarrow> sb_same sb sb"
  by (simp add: sb_same_def)

lemma sb_same_trans: "sb_same a b \<Longrightarrow> sb_same b c \<Longrightarrow> sb_same a c"
  by (simp add: sb_same_def)

lemma sb_apply_text:
  assumes wf: "strbuf_wf sb" and t: "op_text op = Some t"
  shows "sb_same (sb_apply sb op) (sb_put sb t)"
proof (cases op)
  case (Op_room w)
  with t sb_room_write_same [OF wf] show ?thesis by simp
next
  case (Op_append s)
  with t wf sb_put_cases [OF wf, of t] show ?thesis
    by (cases s) (auto simp: ebisu_strbuf_append_def ebisu_span_from_str_def sb_same_def)
qed (use t wf sb_put_cases [OF wf, of t] in \<open>auto simp: sb_same_def append_hex_bytes_eq
    ebisu_strbuf_append_char_def ebisu_strbuf_append_uint_def ebisu_strbuf_append_int_def
    ebisu_strbuf_append_hex_def ebisu_strbuf_append_fixed_def Let_def split: if_splits\<close>)

lemma sb_apply_none:
  "op_text op = None \<Longrightarrow> sb_apply sb op = sb\<lparr>sb_overflow := True\<rparr>"
  by (cases op) (auto simp: ebisu_strbuf_append_fixed_def split: if_splits)

lemma sb_apply_ops_text:
  "sb_same a b \<Longrightarrow> \<forall>op\<in>set ops. op_text op \<noteq> None \<Longrightarrow>
   sb_same (foldl sb_apply a ops) (foldl sb_put b (map (the \<circ> op_text) ops))"
proof (induction ops arbitrary: a b)
  case Nil
  then show ?case by simp
next
  case (Cons op ops)
  then obtain t where t: "op_text op = Some t" by auto
  have "sb_same (sb_apply a op) (sb_put a t)"
    using Cons.prems(1) t by (intro sb_apply_text) (simp_all add: sb_same_def)
  then have "sb_same (sb_apply a op) (sb_put b t)"
    using sb_same_put [OF Cons.prems(1)] by (rule sb_same_trans)
  from Cons.IH [OF this] Cons.prems(2) t show ?case by simp
qed

lemma sb_apply_wf: "strbuf_wf sb \<Longrightarrow> strbuf_wf (sb_apply sb op) \<and> sb_size (sb_apply sb op) = sb_size sb"
  using sb_apply_text [of sb op] sb_apply_none [of op sb] sb_put_cases [of sb]
  by (cases "op_text op") (auto simp: sb_same_def strbuf_wf_def)

lemma sb_apply_failed:
  assumes "strbuf_wf sb" "sb_overflow sb"
  shows "sb_overflow (sb_apply sb op) \<and> sb_str (sb_apply sb op) = sb_str sb"
  using assms sb_apply_text [of sb op] sb_apply_none [of op sb]
  by (cases "op_text op") (auto simp: sb_same_def sb_put_failed sb_str_def)

lemma sb_apply_ops_failed:
  "strbuf_wf sb \<Longrightarrow> sb_overflow sb \<Longrightarrow>
   sb_overflow (foldl sb_apply sb ops) \<and> sb_str (foldl sb_apply sb ops) = sb_str sb"
  by (induction ops arbitrary: sb) (auto simp: sb_apply_failed sb_apply_wf)

lemma sb_apply_ops_wf:
  "strbuf_wf sb \<Longrightarrow> strbuf_wf (foldl sb_apply sb ops) \<and> sb_size (foldl sb_apply sb ops) = sb_size sb"
  by (induction ops arbitrary: sb) (auto simp: sb_apply_wf)

lemma sb_ops_ok:
  assumes "strbuf_wf sb" "\<not> sb_overflow sb" "\<forall>op\<in>set ops. op_text op \<noteq> None"
  shows "ebisu_strbuf_ok (foldl sb_apply sb ops) \<longleftrightarrow>
      concat (map (the \<circ> op_text) ops) = [] \<or>
      length (sb_str sb) + length (concat (map (the \<circ> op_text) ops)) < sb_size sb"
    "ebisu_strbuf_ok (foldl sb_apply sb ops) \<Longrightarrow>
      sb_str (foldl sb_apply sb ops) = sb_str sb @ concat (map (the \<circ> op_text) ops)"
    "\<exists>n. sb_str (foldl sb_apply sb ops) = sb_str sb @ concat (take n (map (the \<circ> op_text) ops))"
proof -
  let ?ts = "map (the \<circ> op_text) ops"
  have same: "sb_same (foldl sb_apply sb ops) (foldl sb_put sb ?ts)"
    using assms by (intro sb_apply_ops_text) (simp_all add: sb_same_refl)
  have ok: "ebisu_strbuf_ok sb" using assms by (simp add: ebisu_strbuf_ok_def)
  show "ebisu_strbuf_ok (foldl sb_apply sb ops) \<longleftrightarrow>
      concat ?ts = [] \<or> length (sb_str sb) + length (concat ?ts) < sb_size sb"
    using sb.appends_ok [OF assms(1) ok, of ?ts] same by (simp add: sb_same_def ebisu_strbuf_ok_def)
  show "ebisu_strbuf_ok (foldl sb_apply sb ops) \<Longrightarrow>
      sb_str (foldl sb_apply sb ops) = sb_str sb @ concat ?ts"
    using sb.appends_str [OF assms(1) ok, of ?ts] same by (simp add: sb_same_def ebisu_strbuf_ok_def)
  show "\<exists>n. sb_str (foldl sb_apply sb ops) = sb_str sb @ concat (take n ?ts)"
    using sb.appends_prefix [OF assms(1) ok, of ?ts] same by (simp add: sb_same_def)
qed

lemma sb_ops_prefix:
  assumes wf: "strbuf_wf sb" and ok: "\<not> sb_overflow sb"
  shows "\<exists>n. sb_str (foldl sb_apply sb ops) = sb_str sb @ concat (map (the \<circ> op_text) (take n ops))"
proof (cases "\<forall>op\<in>set ops. op_text op \<noteq> None")
  case True
  with sb_ops_ok(3) [OF wf ok] show ?thesis by (simp add: take_map)
next
  case False
  then obtain pre op suf where ops: "ops = pre @ op # suf" "op_text op = None"
      "\<forall>op\<in>set pre. op_text op \<noteq> None"
    using split_list_first_prop [of ops "\<lambda>op. op_text op = None"] by auto
  let ?s = "foldl sb_apply sb pre"
  from sb_ops_ok(3) [OF wf ok ops(3)] obtain n where
    n: "sb_str ?s = sb_str sb @ concat (take n (map (the \<circ> op_text) pre))" by auto
  have s: "strbuf_wf (?s\<lparr>sb_overflow := True\<rparr>)"
    using sb_apply_ops_wf [OF wf, of pre] by simp
  have "sb_str (foldl sb_apply sb ops) = sb_str ?s"
    using sb_apply_ops_failed [OF s, of suf] by (simp add: ops sb_apply_none sb_str_def)
  also have "\<dots> = sb_str sb @ concat (map (the \<circ> op_text) (take (min n (length pre)) ops))"
    by (simp add: n ops take_map min_def)
  finally show ?thesis by blast
qed

lemma sb_ops_bad:
  assumes wf: "strbuf_wf sb" and bad: "\<exists>op\<in>set ops. op_text op = None"
  shows "\<not> ebisu_strbuf_ok (foldl sb_apply sb ops)"
proof -
  obtain pre op suf where ops: "ops = pre @ op # suf" "op_text op = None"
    using bad split_list_first_prop [of ops "\<lambda>op. op_text op = None"] by auto
  have "strbuf_wf ((foldl sb_apply sb pre)\<lparr>sb_overflow := True\<rparr>)"
    using sb_apply_ops_wf [OF wf, of pre] by simp
  then show ?thesis
    using sb_apply_ops_failed [of "(foldl sb_apply sb pre)\<lparr>sb_overflow := True\<rparr>" suf]
    by (simp add: ops sb_apply_none ebisu_strbuf_ok_def)
qed

section \<open>Spans\<close>

abbreviation occurs_at :: "string \<Rightarrow> string \<Rightarrow> nat \<Rightarrow> bool" where
  "occurs_at s n k \<equiv> k + length n \<le> length s \<and> take (length n) (drop k s) = n"

lemma occurs_first:
  assumes "occurs_at s n j" "n \<noteq> []"
  shows "s ! j = n ! 0"
proof -
  have "n ! 0 = take (length n) (drop j s) ! 0" using assms by (metis length_greater_0_conv)
  also have "\<dots> = drop j s ! 0" using assms(2) by simp
  also have "\<dots> = s ! j" using assms by simp
  finally show ?thesis by simp
qed

lemma span_find_loop_spec:
  assumes "n \<noteq> []" "length n \<le> length s"
  shows "case span_find_loop s n i of
      None \<Rightarrow> \<forall>j\<ge>i. \<not> occurs_at s n j
    | Some k \<Rightarrow> i \<le> k \<and> occurs_at s n k \<and> (\<forall>j. i \<le> j \<and> j < k \<longrightarrow> \<not> occurs_at s n j)"
  using assms
proof (induction s n i rule: span_find_loop.induct)
  case (1 s n i)
  let ?w = "take (length s - length n + 1 - i) (drop i s)"
  have skip: "\<not> occurs_at s n j" if "i \<le> j" "j < i + k" "n ! 0 \<notin> set (take k ?w)" for j k
  proof
    assume o: "occurs_at s n j"
    have "0 < length n" using 1(2) by simp
    then have "j - i < k" "j - i < length s - length n + 1 - i" "j - i < length s - i"
      using that(1,2) o by linarith+
    then have lt: "j - i < length (take k ?w)" by simp
    moreover have "drop i s ! (j - i) = s ! j" using that(1) o by (subst nth_drop) auto
    ultimately have "take k ?w ! (j - i) = s ! j" by simp
    with occurs_first [OF o 1(2)] lt that(3) show False by (metis nth_mem)
  qed
  show ?case
  proof (cases "i \<le> length s - length n")
    case False
    then have "span_find_loop s n i = None" by (subst span_find_loop.simps) simp
    with False 1(3) show ?thesis by auto
  next
    case True
    show ?thesis
    proof (cases "memchr ?w (n ! 0)")
      case None
      then have "span_find_loop s n i = None"
        using True by (subst span_find_loop.simps) (simp del: memchr_None)
      moreover have "\<not> occurs_at s n j" if "i \<le> j" for j
      proof (cases "j < i + length ?w")
        case True
        have "n ! 0 \<notin> set (take (length ?w) ?w)"
          using None by (simp only: take_all order_refl memchr_None not_False_eq_True)
        with skip [OF that True] show ?thesis by blast
      next
        case False
        with True 1(2) show ?thesis by auto
      qed
      ultimately show ?thesis by simp
    next
      case (Some k)
      then have k: "k < length ?w" "n ! 0 \<notin> set (take k ?w)" by (auto simp: memchr_Some)
      show ?thesis
      proof (cases "take (length n) (drop (i + k) s) = n")
        case m: True
        then have "span_find_loop s n i = Some (i + k)"
          using True Some by (subst span_find_loop.simps) simp
        with k m skip [OF _ _ k(2)] True 1(3) show ?thesis by auto
      next
        case False
        then have e: "span_find_loop s n i = span_find_loop s n (Suc (i + k))"
          using True Some by (subst span_find_loop.simps) simp
        have no: "\<not> occurs_at s n j" if "i \<le> j" "j < Suc (i + k)" for j
          using that False skip [OF that(1) _ k(2)] by (cases "j = i + k") auto
        have ih: "case span_find_loop s n (Suc (i + k)) of
            None \<Rightarrow> \<forall>j\<ge>Suc (i + k). \<not> occurs_at s n j
          | Some k' \<Rightarrow> Suc (i + k) \<le> k' \<and> occurs_at s n k' \<and>
              (\<forall>j. Suc (i + k) \<le> j \<and> j < k' \<longrightarrow> \<not> occurs_at s n j)"
          using 1(1) [OF refl True Some refl False 1(2,3)] by simp
        show ?thesis
        proof (cases "span_find_loop s n (Suc (i + k))")
          case None
          with ih have "\<not> occurs_at s n j" if "i \<le> j" for j
            using no [OF that] by (cases "j < Suc (i + k)") auto
          with e None show ?thesis by simp
        next
          case (Some k')
          with ih have k': "Suc (i + k) \<le> k'" "occurs_at s n k'" by auto
          from ih Some have "\<not> occurs_at s n j" if "i \<le> j" "j < k'" for j
            using no [OF that(1)] that(2) by (cases "j < Suc (i + k)") auto
          with e Some k' show ?thesis by simp
        qed
      qed
    qed
  qed
qed

text \<open>Taking fields until the span is used up, as the callers loop over \<open>ebisu_span_next\<close>.\<close>

lemma span_next_shorter:
  "ebisu_span_next (Some s) d = Some (f, Some r) \<Longrightarrow> length r < length s"
  by (auto simp: ebisu_span_next_def memchr_Some split: option.splits if_splits)

function span_fields :: "string option \<Rightarrow> char \<Rightarrow> string list" where
  "span_fields rest delim =
     (case ebisu_span_next rest delim of
        None \<Rightarrow> []
      | Some (field, rest') \<Rightarrow> field # span_fields rest' delim)"
  by pat_completeness auto
termination
proof (relation "measure (\<lambda>(r, _). case r of None \<Rightarrow> 0 | Some s \<Rightarrow> Suc (length s))")
  fix rest :: "string option" and delim x field rest'
  assume n: "ebisu_span_next rest delim = Some x" and x: "(field, rest') = x"
  show "((rest', delim), rest, delim) \<in>
      measure (\<lambda>(r, _). case r of None \<Rightarrow> 0 | Some s \<Rightarrow> Suc (length s))"
  proof (cases rest)
    case None
    with n show ?thesis by (simp add: ebisu_span_next_def)
  next
    case (Some s)
    with n x span_next_shorter [of s delim field] show ?thesis by (cases rest') auto
  qed
qed simp

declare span_fields.simps [simp del]

fun join_with :: "char \<Rightarrow> string list \<Rightarrow> string" where
  "join_with d [] = []"
| "join_with d [f] = f"
| "join_with d (f # g # fs) = f @ d # join_with d (g # fs)"

lemma span_fields_None [simp]: "span_fields None d = []"
  by (subst span_fields.simps) (simp add: ebisu_span_next_def)

lemma span_fields_Some:
  "span_fields (Some s) d =
     (case memchr s d of Some k \<Rightarrow> take k s # span_fields (Some (drop (Suc k) s)) d
      | None \<Rightarrow> [s])"
  by (subst span_fields.simps, cases "memchr s d")
     (auto simp: ebisu_span_next_def simp del: memchr_None split: option.splits if_splits)

lemma span_fields_nonempty: "span_fields (Some s) d \<noteq> []"
  by (subst span_fields_Some) (auto split: option.split)

lemma span_fields_spec:
  "join_with d (span_fields (Some s) d) = s \<and> (\<forall>f\<in>set (span_fields (Some s) d). d \<notin> set f)"
proof (induction "length s" arbitrary: s rule: less_induct)
  case less
  show ?case
  proof (cases "memchr s d")
    case None
    then have "span_fields (Some s) d = [s]"
      by (subst span_fields_Some) (simp del: memchr_None)
    with None show ?thesis by simp
  next
    case (Some k)
    let ?r = "drop (Suc k) s"
    have k: "k < length s" "d \<notin> set (take k s)" using Some by (auto simp: memchr_Some)
    then have ih: "join_with d (span_fields (Some ?r) d) = ?r"
        "\<forall>f\<in>set (span_fields (Some ?r) d). d \<notin> set f"
      using less [of ?r] by auto
    obtain g gs where g: "span_fields (Some ?r) d = g # gs"
      using span_fields_nonempty by (meson neq_Nil_conv)
    have "span_fields (Some s) d = take k s # g # gs"
      by (subst span_fields_Some) (simp add: Some g)
    with ih g k memchr_split [OF Some] show ?thesis by simp
  qed
qed

lemma trim_left_spec:
  "\<exists>a. s = a @ trim_left s \<and> (\<forall>c\<in>set a. is_space c) \<and>
     (trim_left s \<noteq> [] \<longrightarrow> \<not> is_space (hd (trim_left s)))"
proof (induction s)
  case (Cons c s)
  then obtain a where a: "s = a @ trim_left s" "\<forall>c\<in>set a. is_space c"
      "trim_left s \<noteq> [] \<longrightarrow> \<not> is_space (hd (trim_left s))"
    by blast
  show ?case
  proof (cases "is_space c")
    case True
    with a show ?thesis by (intro exI [of _ "c # a"]) simp
  next
    case False
    then show ?thesis by (intro exI [of _ "[]"]) simp
  qed
qed simp

lemma trim_right_spec:
  "\<exists>b. s = trim_right s @ b \<and> (\<forall>c\<in>set b. is_space c) \<and>
     (trim_right s \<noteq> [] \<longrightarrow> \<not> is_space (last (trim_right s)))"
proof (induction s rule: trim_right.induct)
  case (1 s)
  show ?case
  proof (cases "length s > 0 \<and> is_space (s ! (length s - 1))")
    case True
    with 1 obtain b where b: "butlast s = trim_right (butlast s) @ b" "\<forall>c\<in>set b. is_space c"
        "trim_right (butlast s) \<noteq> [] \<longrightarrow> \<not> is_space (last (trim_right (butlast s)))"
      by blast
    have e: "trim_right s = trim_right (butlast s)"
      using True by (subst trim_right.simps) simp
    have "s = butlast s @ [last s]" using True by simp
    then have "s = trim_right s @ b @ [last s]" using b(1) e by (metis append.assoc)
    moreover have "is_space (last s)" using True by (simp add: last_conv_nth)
    ultimately show ?thesis using b e by (intro exI [of _ "b @ [last s]"]) auto
  next
    case False
    then have "trim_right s = s" by (subst trim_right.simps) auto
    with False show ?thesis by (intro exI [of _ "[]"]) (auto simp: last_conv_nth)
  qed
qed

lemma take_sign_split: "\<exists>g t. s = sign_text g @ t \<and> take_sign s = (g \<noteq> None, sign_negative g, t)"
proof (cases s)
  case Nil
  then show ?thesis by (intro exI [of _ None]) (simp add: take_sign_def sign_text_def)
next
  case (Cons c t)
  show ?thesis
  proof (cases "c = CHR ''+'' \<or> c = CHR ''-''")
    case True
    with Cons show ?thesis
      by (intro exI [of _ "Some (c = CHR ''-'')"]) (auto simp: take_sign_def sign_text_def)
  next
    case False
    with Cons show ?thesis
      by (intro exI [of _ None]) (simp add: take_sign_def sign_text_def)
  qed
qed

lemma ebisu_parse_int_bad:
  assumes "\<nexists>g ds. ds \<noteq> [] \<and> all_digits ds \<and> s = sign_text g @ ds"
  shows "ebisu_parse_int s mn mx = Inl (if s = [] then PARSE_EMPTY else PARSE_INVALID)"
proof -
  obtain g t where t: "s = sign_text g @ t" "take_sign s = (g \<noteq> None, sign_negative g, t)"
    using take_sign_split [of s] by blast
  show ?thesis
  proof (cases "t = []")
    case True
    then have "s = [] \<longleftrightarrow> g = None" using t(1) by (auto simp: sign_text_def split: option.splits bool.splits)
    with t True show ?thesis by (auto simp: ebisu_parse_int_def)
  next
    case False
    with assms t(1) have "\<not> all_digits t" by blast
    with False have "parse_digits t 10 (word_of_int int64_max + 1) = Inl PARSE_INVALID"
      by (simp add: parse_digits_eq is_digit_str_digit)
    with t False show ?thesis by (auto simp: ebisu_parse_int_def)
  qed
qed

text \<open>Appends of one operation to an empty builder.\<close>

lemma sb_one_op:
  assumes "op_text op = Some t" "length t < length buff" "length buff \<le> size_max"
  defines "r \<equiv> sb_apply (ebisu_strbuf_init buff (length buff)) op"
  shows "ebisu_strbuf_ok r" "sb_str r = t"
proof -
  let ?i = "ebisu_strbuf_init buff (length buff)"
  have wf: "strbuf_wf ?i" using assms by (simp add: strbuf_wf_init)
  have nf: "\<not> sb_overflow ?i" by (simp add: ebisu_strbuf_init_def)
  have sz: "sb_size ?i = length buff" by (simp add: ebisu_strbuf_init_def)
  show ok: "ebisu_strbuf_ok r"
    using sb_ops_ok(1) [OF wf nf, of "[op]"] assms sz by simp
  show "sb_str r = t"
    using sb_ops_ok(2) [OF wf nf, of "[op]"] assms(1) ok by (simp add: r_def)
qed

lemma fixed_zero_digits: "int_digits v = sign_text (if v < 0 then Some True else None) @
    fixed_text (udigits (magnitude v) 1) []"
  by (simp add: int_digits_text fixed_text_def)

lemma parse_fixed_int_digits:
  assumes "in_int64 v" "int64_min \<le> mn" "mx \<le> int64_max"
  shows "ebisu_parse_fixed (int_digits v) 0 mn mx = bounded mn mx v"
proof -
  have "fixed_value (udigits (magnitude v) 1) [] 0 = nat \<bar>v\<bar>"
    using magnitude_eq [OF assms(1)] by (simp add: fixed_value_def)
  then show ?thesis
    unfolding fixed_zero_digits
    using ebisu_parse_fixed_digits [of "udigits (magnitude v) 1" "[]" 0 mn mx
        "if v < 0 then Some True else None"] assms(2,3) all_digits_udigits with_sign_abs [of v]
    by (auto split: if_splits)
qed

lemma hex_byte_parse: "hex_pairs (hex_byte b @ s) = b # hex_pairs s"
proof -
  have hi: "unat (drop_bit 4 b) = unat b div 16"
    by (simp add: drop_bit_eq_div unat_div)
  have "b AND 0xf = take_bit 4 b" by (simp add: take_bit_eq_mask mask_eq_exp_minus_1)
  then have lo: "unat (b AND 0xf) = unat b mod 16"
    by (simp add: take_bit_eq_mod unat_mod)
  have "unat b < 256" using unsigned_less [of b] by simp
  then have d: "unat b div 16 < 16" "unat b mod 16 < 16" by auto
  have "int (unat b div 16) * 16 + int (unat b mod 16) = int (unat b)"
    by (metis div_mult_mod_eq of_nat_add of_nat_mult of_nat_numeral)
  then show ?thesis using d by (simp add: hex_byte_def hi lo hex_digit_cases)
qed

lemma hex_bytes_parse: "hex_pairs (concat (map hex_byte bs)) = bs"
  by (induction bs) (simp_all add: hex_byte_parse)

lemma hex_byte_digits: "c \<in> set (hex_byte b) \<Longrightarrow> 0 \<le> str_digit c 16"
proof -
  have "unat b < 256" using unsigned_less [of b] by simp
  then have "unat (drop_bit 4 b) < 16" by (simp add: drop_bit_eq_div unat_div)
  moreover have "b AND 0xf = take_bit 4 b" by (simp add: take_bit_eq_mask mask_eq_exp_minus_1)
  then have "unat (b AND 0xf) < 16" by (simp add: take_bit_eq_mod unat_mod)
  ultimately show "c \<in> set (hex_byte b) \<Longrightarrow> 0 \<le> str_digit c 16"
    by (auto simp: hex_byte_def hex_digit_cases)
qed

lemma parse_hex_bytes_digits:
  assumes "bs \<noteq> []" "length bs \<le> n"
  shows "ebisu_parse_hex_bytes (concat (map hex_byte bs)) n = Inr bs"
proof -
  have "\<not> list_ex (\<lambda>c. str_digit c 16 < 0) (concat (map hex_byte bs))"
    using hex_byte_digits by (auto simp: list_ex_iff not_less)
  moreover have "concat (map hex_byte bs) \<noteq> []"
    using assms(1) length_hex_bytes [of bs] by (metis length_0_conv mult_is_0 zero_neq_numeral)
  ultimately show ?thesis
    using assms by (simp add: ebisu_parse_hex_bytes_def length_hex_bytes hex_bytes_parse
        del: concat_eq_Nil_conv)
qed

lemma occurs_atI: "s = pre @ n @ suf \<Longrightarrow> occurs_at s n (length pre)"
  by simp

lemma span_fields_count: "length (span_fields (Some s) d) = Suc (count_list s d)"
proof (induction "length s" arbitrary: s rule: less_induct)
  case less
  show ?case
  proof (cases "memchr s d")
    case None
    then have "span_fields (Some s) d = [s]"
      by (subst span_fields_Some) (simp del: memchr_None)
    moreover have "count_list s d = 0" using None by (simp add: count_list_0_iff)
    ultimately show ?thesis by simp
  next
    case (Some k)
    let ?r = "drop (Suc k) s"
    have k: "k < length s" "d \<notin> set (take k s)" using Some by (auto simp: memchr_Some)
    have "count_list s d = count_list (take k s @ d # ?r) d"
      using memchr_split [OF Some] by simp
    also have "\<dots> = Suc (count_list ?r d)"
      using k(2) by (simp add: count_list_append count_list_0_iff)
    finally have "count_list s d = Suc (count_list ?r d)" .
    moreover have "length (span_fields (Some s) d) = Suc (length (span_fields (Some ?r) d))"
      by (subst span_fields_Some) (simp add: Some)
    ultimately show ?thesis using less [of ?r] k(1) by simp
  qed
qed

section \<open>Properties\<close>

text \<open>
  C40. \<open>ebisu_parse_int\<close> decides its input completely.  It returns a value exactly when the
  span is an optional sign and one or more digits and the number they write, computed without
  overflow, is within the bounds, and then it returns that number; it reports RANGE exactly
  when the text is such a number out of the bounds, EMPTY exactly for the empty span and
  INVALID for anything else.
\<close>

theorem ebisu_parse_int_spec:
  assumes "int64_min \<le> mn" "mx \<le> int64_max"
  shows "(\<forall>g ds. ds \<noteq> [] \<and> all_digits ds \<longrightarrow>
      ebisu_parse_int (sign_text g @ ds) mn mx =
        (let v = with_sign (sign_negative g) (dec_value ds) in
         if mn \<le> v \<and> v \<le> mx then Inr v else Inl PARSE_RANGE)) \<and>
    ((\<nexists>g ds. ds \<noteq> [] \<and> all_digits ds \<and> s = sign_text g @ ds) \<longrightarrow>
      ebisu_parse_int s mn mx = Inl (if s = [] then PARSE_EMPTY else PARSE_INVALID))"
  using ebisu_parse_int_digits [OF _ _ assms] ebisu_parse_int_bad [of s mn mx]
  by (auto simp: bounded_def Let_def)

theorem ebisu_parse_int_spec_witness:
  "ebisu_parse_int ''-128'' (- 128) 127 = Inr (- 128) \<and>
   ebisu_parse_int ''+128'' (- 128) 127 = Inl PARSE_RANGE \<and>
   int64_min \<le> (- 128 :: int) \<and> (127 :: int) \<le> int64_max"
proof -
  have b: "int64_min \<le> - 128" "127 \<le> int64_max" by (simp_all add: int64_min_def int64_max_def)
  note spec = ebisu_parse_int_spec [OF b, THEN conjunct1, rule_format, of "''128''"]
  show ?thesis
    using spec [of "Some True"] spec [of "Some False"] b
    by (simp add: sign_text_def is_digit_def str_digit_def)
qed



text \<open>
  What \<open>ebisu_strbuf_append_fixed\<close> writes, \<open>ebisu_parse_fixed\<close> reads back: for every
  \<open>int64_t\<close> value, the least included, and every number of decimals up to 18, into any buffer
  with room for the longest such text, the append succeeds, and parsing the string with the
  same number of decimals returns the value.
\<close>

lemma append_fixed_parse_fixed:
  assumes "int64_min \<le> v" "v \<le> int64_max" "d \<le> 18" "40 \<le> length buff" "length buff \<le> size_max"
  defines "r \<equiv> ebisu_strbuf_append_fixed (ebisu_strbuf_init buff (length buff)) v d"
  shows "ebisu_strbuf_ok r \<and> ebisu_parse_fixed (sb_str r) d int64_min int64_max = Inr v"
proof -
  let ?t = "if d = 0 then int_digits v else fixed_digits v d"
  have t: "op_text (Op_fixed v d) = Some ?t" using assms(3) by (simp add: fixed_max_decimals_def)
  have "length ?t < length buff"
    using int_digits_length [of v] fixed_digits_length [of v d] assms
    by (auto simp: fixed_max_decimals_def)
  then have r: "ebisu_strbuf_ok r" "sb_str r = ?t"
    using sb_one_op [OF t _ assms(5)] by (simp_all add: r_def)
  have "ebisu_parse_fixed ?t d int64_min int64_max = bounded int64_min int64_max v"
    using parse_fixed_int_digits [of v] parse_fixed_digits [of v d] assms by simp
  with r assms(1,2) show ?thesis by (simp add: bounded_def)
qed

text \<open>
  \<open>ebisu_parse_fixed\<close> is exact.  Of an optional sign, one or more digits and, after a
  point, one to \<open>decimals\<close> more, it returns the number written times \<open>10 ^ decimals\<close>, exactly
  and without overflow, if that is within the bounds, and RANGE otherwise.
\<close>

lemma ebisu_parse_fixed_exact:
  assumes "i \<noteq> []" "all_digits i" "all_digits f" "length f \<le> d" "d \<le> 18"
    and "int64_min \<le> mn" "mx \<le> int64_max"
  shows "ebisu_parse_fixed (sign_text g @ (if f = [] then i else i @ CHR ''.'' # f)) d mn mx =
    (let n = int (dec_value i * 10 ^ d + dec_value f * 10 ^ (d - length f));
         v = (if g = Some True then - n else n) in
     if mn \<le> v \<and> v \<le> mx then Inr v else Inl PARSE_RANGE)"
  using ebisu_parse_fixed_digits [OF assms(1-5) assms(6,7), of g]
  by (simp add: fixed_text_def fixed_value_def bounded_def Let_def)

text \<open>
  Hexadecimal round trip.  Bytes appended in hexadecimal to a builder with room for them
  and the NUL are read back by \<open>ebisu_parse_hex_bytes\<close> as the same bytes, in order, into any
  output of at least their number.
\<close>

lemma append_hex_bytes_parse:
  assumes "bs \<noteq> []" "2 * length bs < length buff" "length buff \<le> size_max" "length bs \<le> n"
  shows "ebisu_parse_hex_bytes
    (sb_str (ebisu_strbuf_append_hex_bytes (ebisu_strbuf_init buff (length buff)) bs)) n = Inr bs"
proof -
  have "sb_str (sb_apply (ebisu_strbuf_init buff (length buff)) (Op_hex_bytes bs)) =
      concat (map hex_byte bs)"
    using assms by (intro sb_one_op) (simp_all add: length_hex_bytes)
  then show ?thesis using assms by (simp add: parse_hex_bytes_digits)
qed

text \<open>
  \<open>ebisu_span_find\<close> returns the offset of the first occurrence of the needle in the span,
  and fails exactly when there is none: the search by \<open>memchr\<close> and \<open>memcmp\<close> skips none.
\<close>

theorem ebisu_span_find_first:
  "case ebisu_span_find s (Some n) of
     None \<Rightarrow> (\<nexists>pre suf. s = pre @ n @ suf)
   | Some k \<Rightarrow> k + length n \<le> length s \<and> take (length n) (drop k s) = n \<and>
       (\<nexists>pre suf. s = pre @ n @ suf \<and> length pre < k)"
proof (cases "n = [] \<or> length s < length n")
  case True
  then show ?thesis by (auto simp: ebisu_span_find_def ebisu_span_from_str_def)
next
  case False
  then have n: "n \<noteq> []" "length n \<le> length s" by auto
  then have e: "ebisu_span_find s (Some n) = span_find_loop s n 0"
    by (simp add: ebisu_span_find_def ebisu_span_from_str_def)
  show ?thesis
  proof (cases "span_find_loop s n 0")
    case None
    with span_find_loop_spec [OF n, of 0] have "\<not> occurs_at s n j" for j by simp
    then have "\<nexists>pre suf. s = pre @ n @ suf" using occurs_atI by blast
    with e None show ?thesis by simp
  next
    case (Some k)
    with span_find_loop_spec [OF n, of 0] have k: "occurs_at s n k"
        "\<And>j. j < k \<Longrightarrow> \<not> occurs_at s n j" by auto
    then have "\<nexists>pre suf. s = pre @ n @ suf \<and> length pre < k" using occurs_atI by blast
    with e Some k(1) show ?thesis by simp
  qed
qed

text \<open>
  Splitting.  The fields \<open>ebisu_span_next\<close> takes one after another until it returns false
  are the whole of the span cut at every delimiter and nowhere else: none holds the delimiter,
  and joined with it they are the span.  There is one more field than there are delimiters, so
  a span that is empty or ends with a delimiter gives an empty last field.
\<close>

lemma ebisu_span_next_fields:
  "join_with d (span_fields (Some s) d) = s \<and> (\<forall>f\<in>set (span_fields (Some s) d). d \<notin> set f) \<and>
   length (span_fields (Some s) d) = Suc (count_list s d)"
  using span_fields_spec [of d s] span_fields_count [of s d] by blast

text \<open>
  \<open>ebisu_span_trim\<close> removes white space only, and all of it at both ends.
\<close>

theorem ebisu_span_trim_spec:
  "\<exists>a b. s = a @ ebisu_span_trim s @ b \<and> (\<forall>c\<in>set a \<union> set b. is_space c) \<and>
     (ebisu_span_trim s = [] \<or>
      \<not> is_space (hd (ebisu_span_trim s)) \<and> \<not> is_space (last (ebisu_span_trim s)))"
proof -
  obtain a where a: "s = a @ trim_left s" "\<forall>c\<in>set a. is_space c"
      "trim_left s \<noteq> [] \<longrightarrow> \<not> is_space (hd (trim_left s))"
    using trim_left_spec [of s] by blast
  obtain b where b: "trim_left s = ebisu_span_trim s @ b" "\<forall>c\<in>set b. is_space c"
      "ebisu_span_trim s \<noteq> [] \<longrightarrow> \<not> is_space (last (ebisu_span_trim s))"
    using trim_right_spec [of "trim_left s"] by (auto simp: ebisu_span_trim_def)
  have "ebisu_span_trim s \<noteq> [] \<longrightarrow> hd (ebisu_span_trim s) = hd (trim_left s)"
    using b(1) by (metis hd_append2)
  moreover have "s = a @ ebisu_span_trim s @ b" using a(1) b(1) by simp
  ultimately show ?thesis using a(2,3) b(1,2,3) by (intro exI [of _ a] exI [of _ b]) auto
qed

text \<open>
  \<open>ebisu_strlcpy\<close> returns the length of the source, writes nothing outside the first
  \<open>sz\<close> bytes of the destination and, unless \<open>sz\<close> is 0, leaves there the source, cut to
  \<open>sz - 1\<close> characters, and a NUL.
\<close>

lemma ebisu_strlcpy_spec:
  assumes "sz \<le> length dst"
  shows "let s = ebisu_span_from_str src; (d, n) = ebisu_strlcpy dst src sz in
    n = length s \<and> length d = length dst \<and> drop sz d = drop sz dst \<and>
    (0 < sz \<longrightarrow> take (min (length s) (sz - 1) + 1) d = take (sz - 1) s @ [NUL])"
proof -
  let ?s = "ebisu_span_from_str src"
  let ?m = "min (length ?s) (sz - 1)"
  have e: "ebisu_strlcpy dst src sz =
      (if sz > 0 then mem_write (mem_write dst 0 (take ?m ?s)) ?m [NUL] else dst, length ?s)"
  proof (cases "length ?s < sz")
    case True
    then have "?m = length ?s" by auto
    with True show ?thesis
      by (cases src) (simp_all add: ebisu_strlcpy_def ebisu_span_from_str_def Let_def)
  next
    case False
    then have "?m = sz - 1" by auto
    with False show ?thesis
      by (cases src) (auto simp: ebisu_strlcpy_def ebisu_span_from_str_def Let_def)
  qed
  show ?thesis
  proof (cases "sz > 0")
    case True
    let ?d = "mem_write dst 0 (take ?m ?s)"
    have m: "?m < sz" "length (take ?m ?s) = ?m" using True by auto
    with assms have l: "length ?d = length dst" by simp
    have d: "mem_write ?d ?m [NUL] = take ?m ?s @ NUL # drop (Suc ?m) dst"
      using m assms by (simp add: mem_write_def)
    obtain j where j: "sz = Suc (?m + j)" using m(1) less_iff_Suc_add by auto
    have "length dst > 0" using True assms by linarith
    then have 1: "Suc (length dst - Suc 0) = length dst" by simp
    have 2: "drop (sz - ?m) (NUL # drop (Suc ?m) dst) = drop sz dst"
      by (subst (1 4) j) (simp add: add.commute)
    have 3: "take ?m ?s = take (sz - 1) ?s" by (simp add: min_def)
    have "drop sz (mem_write ?d ?m [NUL]) = drop sz dst"
      unfolding d using m 2 by simp
    moreover have "take (?m + 1) (mem_write ?d ?m [NUL]) = take (sz - 1) ?s @ [NUL]"
      unfolding d 3 [symmetric] using m(2) by (subst take_append) simp
    moreover have "length (mem_write ?d ?m [NUL]) = length dst"
      using l m(1) assms by (intro trans [OF length_mem_write l]) simp
    ultimately have 4: "drop sz (mem_write ?d ?m [NUL]) = drop sz dst"
      "take (?m + 1) (mem_write ?d ?m [NUL]) = take (sz - 1) ?s @ [NUL]"
      "length (mem_write ?d ?m [NUL]) = length dst"
      by blast+
    show ?thesis using True 4 by (simp add: e Let_def)
  qed (cases src; simp add: ebisu_strlcpy_def ebisu_span_from_str_def Let_def)
qed

end
