(* ===== verification/Ebisu_Time.thy ===== *)
theory Ebisu_Time
  imports Ebisu_Prelude
begin

text \<open>
  core/src/ebisu\_time.c: UTC dates and times and the seconds from 1970, in the proleptic
  Gregorian calendar, years 1 to 9999.  The code's \<open>int\<close> and \<open>int64_t\<close> are \<open>int\<close>: every
  intermediate value is far within them.  C division rounds towards 0 and HOL's down, which
  agree here since each operand divided is non-negative or divides exactly.  \<open>None\<close> stands
  for false; the check for a NULL output is left out.
\<close>

section \<open>The code\<close>

definition first_second :: int where
  "first_second = - 62135596800"

definition last_second :: int where
  "last_second = 253402300799"

definition is_leap :: "int \<Rightarrow> bool" where
  "is_leap year \<longleftrightarrow> year mod 4 = 0 \<and> (year mod 100 \<noteq> 0 \<or> year mod 400 = 0)"

definition days_in_month :: "int \<Rightarrow> int \<Rightarrow> int" where
  "days_in_month year month =
     (if month = 2 \<and> is_leap year then 29
      else [31, 28, 31, 30, 31, 30, 31, 31, 30, 31, 30, 31] ! nat (month - 1))"

definition days_from_civil :: "int \<Rightarrow> int \<Rightarrow> int \<Rightarrow> int" where
  "days_from_civil year month day =
     (let y = (if month \<le> 2 then year - 1 else year);
          m = (if month \<le> 2 then month + 9 else month - 3);
          days = y * 365 + y div 4 - y div 100 + y div 400 + (153 * m + 2) div 5 + day - 1
      in days - 719468)"

definition ebisu_time_from_civil :: "int \<Rightarrow> int \<Rightarrow> int \<Rightarrow> int \<Rightarrow> int \<Rightarrow> int \<Rightarrow> int option" where
  "ebisu_time_from_civil year month day hour minute sec =
     (if year < 1 \<or> year > 9999 \<or> month < 1 \<or> month > 12 \<or>
         day < 1 \<or> day > days_in_month year month \<or>
         hour < 0 \<or> hour > 23 \<or> minute < 0 \<or> minute > 59 \<or>
         sec < 0 \<or> sec > 60 \<or>
         (sec = 60 \<and> (hour \<noteq> 23 \<or> minute \<noteq> 59))
      then None
      else
        (let days = days_from_civil year month day
         in Some (((days * 24 + hour) * 60 + minute) * 60 + sec)))"

record civil_time =
  ct_year :: int
  ct_month :: int
  ct_day :: int
  ct_hour :: int
  ct_minute :: int
  ct_second :: int
  ct_weekday :: int

text \<open>The date of a number of days from 0000-03-01: the year, the month and the day.\<close>

definition civil_from_z :: "int \<Rightarrow> int \<times> int \<times> int" where
  "civil_from_z z =
     (let era = z div 146097;
          day_of_era = z - era * 146097;
          year_of_era = (day_of_era - day_of_era div 1460 + day_of_era div 36524 -
              day_of_era div 146096) div 365;
          day_of_year = day_of_era - (365 * year_of_era + year_of_era div 4 -
              year_of_era div 100);
          m = (5 * day_of_year + 2) div 153;
          month = (if m < 10 then m + 3 else m - 9)
      in (year_of_era + era * 400 + (if month \<le> 2 then 1 else 0),
          month,
          day_of_year - (153 * m + 2) div 5 + 1))"

definition ebisu_time_to_civil :: "int \<Rightarrow> civil_time option" where
  "ebisu_time_to_civil seconds =
     (if seconds < first_second \<or> seconds > last_second then None
      else
        (let from_first = seconds - first_second;
             days = from_first div 86400 + first_second div 86400;
             of_day = from_first mod 86400;
             (year, month, day) = civil_from_z (days + 719468)
         in Some \<lparr>ct_year = year, ct_month = month, ct_day = day,
              ct_hour = of_day div 3600, ct_minute = of_day div 60 mod 60,
              ct_second = of_day mod 60,
              ct_weekday = (days - first_second div 86400 + 1) mod 7\<rparr>))"

section \<open>The calendar in eras\<close>

text \<open>
  A year counted from March splits into centuries of the era, four-year cycles and years of
  the cycle; only the last year of a cycle can have a day 365, and that of the last cycle of a
  century only in the last century.
\<close>

definition in_era :: "int \<Rightarrow> int \<Rightarrow> int \<Rightarrow> int \<Rightarrow> bool" where
  "in_era c q k d \<longleftrightarrow> 0 \<le> c \<and> c \<le> 3 \<and> 0 \<le> q \<and> q \<le> 24 \<and> 0 \<le> k \<and> k \<le> 3 \<and> 0 \<le> d \<and>
     (d \<le> 364 \<or> d = 365 \<and> k = 3 \<and> (q \<noteq> 24 \<or> c = 3))"

lemma in_eraE:
  assumes "in_era c q k d"
  obtains (common) "0 \<le> c" "c \<le> 3" "0 \<le> q" "q \<le> 24" "0 \<le> k" "k \<le> 3" "0 \<le> d" "d \<le> 364"
    | (leap) "0 \<le> c" "c \<le> 3" "0 \<le> q" "q \<le> 23" "k = 3" "d = 365"
    | (last) "c = 3" "q = 24" "k = 3" "d = 365"
  using assms by (force simp: in_era_def)

abbreviation era_day :: "int \<Rightarrow> int \<Rightarrow> int \<Rightarrow> int \<Rightarrow> int" where
  "era_day c q k d \<equiv> 36524 * c + 1461 * q + 365 * k + d"

abbreviation era_year :: "int \<Rightarrow> int \<Rightarrow> int \<Rightarrow> int" where
  "era_year c q k \<equiv> 100 * c + 4 * q + k"

lemma div_unique_int: "(b :: int) * n \<le> a \<Longrightarrow> a < b * n + b \<Longrightarrow> a div b = n"
  by (rule int_div_pos_eq [of a b n "a - b * n"]) auto

lemma era_day_range:
  assumes "in_era c q k d"
  shows "0 \<le> era_day c q k d" "era_day c q k d < 146097"
  using assms by (cases rule: in_eraE; linarith)+

lemma era_year_parts:
  assumes "in_era c q k d"
  shows "era_year c q k div 4 = 25 * c + q" "era_year c q k div 100 = c"
proof -
  show "era_year c q k div 4 = 25 * c + q"
    by (rule in_eraE [OF assms]; intro div_unique_int; (linarith | simp))
  show "era_year c q k div 100 = c"
    by (rule in_eraE [OF assms]; intro div_unique_int; (linarith | simp))
qed

lemma era_century:
  assumes e: "in_era c q k d"
  shows "era_day c q k d div 36524 - era_day c q k d div 146096 = c"
  using e
proof (cases rule: in_eraE)
  case last
  then show ?thesis by simp
next
  case common
  then have "era_day c q k d div 146096 = 0" "era_day c q k d div 36524 = c"
    by (intro div_unique_int; (linarith | simp))+
  then show ?thesis by simp
next
  case leap
  then have "era_day c q k d div 146096 = 0" "era_day c q k d div 36524 = c"
    by (intro div_unique_int; (linarith | simp))+
  then show ?thesis by simp
qed

lemma era_year_of_day:
  assumes e: "in_era c q k d"
  defines "x \<equiv> era_day c q k d"
  shows "(x - x div 1460 + x div 36524 - x div 146096) div 365 = era_year c q k"
proof -
  let ?w = "24 * c + q + 365 * k + d"
  obtain v where v: "x div 1460 = 25 * c + q + v" "v = 0 \<and> ?w < 1460 \<or> v = 1 \<and> ?w \<ge> 1460"
  proof (cases "?w \<ge> 1460")
    case True
    have "x div 1460 = 25 * c + q + 1"
      unfolding x_def
      by (insert True, rule in_eraE [OF e]; intro div_unique_int; (linarith | simp))
    with True that [of 1] show ?thesis by simp
  next
    case False
    have "x div 1460 = 25 * c + q + 0"
      unfolding x_def
      by (insert False, rule in_eraE [OF e]; intro div_unique_int; (linarith | simp))
    with False that [of 0] show ?thesis by simp
  qed
  have eq: "x - x div 1460 + x div 36524 - x div 146096 = x - (25 * c + q + v) + c"
    using era_century [OF e] v(1) by (simp add: x_def)
  have "0 \<le> d - v \<and> d - v \<le> 364"
    by (insert v(2), rule in_eraE [OF e]; elim disjE conjE; simp)
  then show ?thesis unfolding eq by (intro div_unique_int) (simp_all add: x_def)
qed

lemma civil_from_era:
  assumes e: "in_era c q k d"
  shows "civil_from_z (era_day c q k d + n * 146097) =
    (let m = (5 * d + 2) div 153; month = (if m < 10 then m + 3 else m - 9) in
     (era_year c q k + n * 400 + (if month \<le> 2 then 1 else 0), month,
      d - (153 * m + 2) div 5 + 1))"
proof -
  obtain x y where x: "x = era_day c q k d" and y: "y = era_year c q k" by blast
  have n: "(x + n * 146097) div 146097 = n"
    using era_day_range [OF e] unfolding x by (intro div_unique_int) auto
  have yx: "(x - x div 1460 + x div 36524 - x div 146096) div 365 = y"
    using era_year_of_day [OF e] unfolding x y .
  have "365 * y + y div 4 - y div 100 = 365 * y + (25 * c + q) - c"
    using era_year_parts [OF e] unfolding y by simp
  then have d: "x - (365 * y + y div 4 - y div 100) = d" unfolding x y by simp
  have "x + n * 146097 - n * 146097 = x" by simp
  then show ?thesis
    unfolding civil_from_z_def Let_def n x [symmetric] y [symmetric] by (simp only: yx d)
qed

lemma era_split:
  obtains n c q k where "y = era_year c q k + n * 400"
    "0 \<le> c" "c \<le> 3" "0 \<le> q" "q \<le> 24" "0 \<le> k" "k \<le> (3::int)"
proof -
  obtain n r where 1: "y = n * 400 + r" "0 \<le> r" "r < 400"
    using div_mult_mod_eq [of y 400] by (metis pos_mod_bound pos_mod_sign zero_less_numeral)
  obtain c s where 2: "r = c * 100 + s" "0 \<le> s" "s < 100"
    using div_mult_mod_eq [of r 100] by (metis pos_mod_bound pos_mod_sign zero_less_numeral)
  obtain q k where 3: "s = q * 4 + k" "0 \<le> k" "k < 4"
    using div_mult_mod_eq [of s 4] by (metis pos_mod_bound pos_mod_sign zero_less_numeral)
  show ?thesis
  proof (rule that [of c q k n])
    show "y = era_year c q k + n * 400" using 1(1) 2(1) 3(1) by simp
  qed (use 1 2 3 in linarith)+
qed

lemma mod_plus_multiple: "x = a + b * m \<Longrightarrow> x mod m = a mod (m::int)"
  by simp

lemma era_leap:
  assumes "0 \<le> c" "c \<le> 3" "0 \<le> q" "q \<le> 24" "0 \<le> k" "k \<le> (3::int)"
  shows "is_leap (era_year c q k + n * 400 + 1) \<longleftrightarrow> k = 3 \<and> (q \<noteq> 24 \<or> c = 3)"
proof -
  let ?y = "era_year c q k + n * 400 + 1"
  have 4: "?y mod 4 = (k + 1) mod 4"
    by (rule mod_plus_multiple [where b = "25 * c + q + 100 * n"]) simp
  have 100: "?y mod 100 = (4 * q + k + 1) mod 100"
    by (rule mod_plus_multiple [where b = "c + 4 * n"]) simp
  have 400: "?y mod 400 = (100 * c + 4 * q + k + 1) mod 400"
    by (rule mod_plus_multiple [where b = n]) simp
  show ?thesis
  proof (cases "k = 3")
    case False
    then have "(k + 1) mod 4 = k + 1" using assms by (intro mod_pos_pos_trivial) auto
    with False 4 assms(5) show ?thesis by (simp add: is_leap_def)
  next
    case k: True
    show ?thesis
    proof (cases "q = 24")
      case False
      then have "(4 * q + k + 1) mod 100 = 4 * q + k + 1"
        using k assms by (intro mod_pos_pos_trivial) auto
      with False k 4 100 assms(3) show ?thesis by (simp add: is_leap_def)
    next
      case q: True
      have "c \<noteq> 3 \<Longrightarrow> (100 * c + 4 * q + k + 1) mod 400 = 100 * c + 4 * q + k + 1"
        using k q assms by (intro mod_pos_pos_trivial) auto
      with k q 4 100 400 assms(1) show ?thesis by (cases "c = 3") (auto simp: is_leap_def)
    qed
  qed
qed

section \<open>Dates and days\<close>

abbreviation valid_date :: "int \<Rightarrow> int \<Rightarrow> int \<Rightarrow> bool" where
  "valid_date year month day \<equiv>
     1 \<le> month \<and> month \<le> 12 \<and> 1 \<le> day \<and> day \<le> days_in_month year month"

definition march_month :: "int \<Rightarrow> int" where
  "march_month month = (if month \<le> 2 then month + 9 else month - 3)"

definition march_year :: "int \<Rightarrow> int \<Rightarrow> int" where
  "march_year year month = (if month \<le> 2 then year - 1 else year)"

abbreviation march_day :: "int \<Rightarrow> int \<Rightarrow> int" where
  "march_day month day \<equiv> (153 * march_month month + 2) div 5 + day - 1"

lemma months: "1 \<le> (m::int) \<Longrightarrow> m \<le> 12 \<Longrightarrow> m \<in> {1, 2, 3, 4, 5, 6, 7, 8, 9, 10, 11, 12}"
  by (simp; presburger)

lemma days_in_month_simps:
  "days_in_month y 1 = 31" "days_in_month y 2 = (if is_leap y then 29 else 28)"
  "days_in_month y 3 = 31" "days_in_month y 4 = 30" "days_in_month y 5 = 31"
  "days_in_month y 6 = 30" "days_in_month y 7 = 31" "days_in_month y 8 = 31"
  "days_in_month y 9 = 30" "days_in_month y 10 = 31" "days_in_month y 11 = 30"
  "days_in_month y 12 = 31"
  by (simp_all add: days_in_month_def)

lemma march_day_range:
  assumes "valid_date year month day"
  shows "0 \<le> march_day month day"
    "march_day month day \<le> 364 \<or> march_day month day = 365 \<and> month = 2 \<and> is_leap year"
    "(5 * march_day month day + 2) div 153 = march_month month"
proof -
  have m: "month \<in> {1, 2, 3, 4, 5, 6, 7, 8, 9, 10, 11, 12}" using assms by (intro months) auto
  then show "0 \<le> march_day month day"
    using assms by (elim insertE; simp add: march_month_def)
  show "march_day month day \<le> 364 \<or> march_day month day = 365 \<and> month = 2 \<and> is_leap year"
    using m assms
    by (elim insertE; simp add: march_month_def days_in_month_simps split: if_splits; presburger?)
  show "(5 * march_day month day + 2) div 153 = march_month month"
    using m assms
    by (elim insertE;
        simp add: march_month_def days_in_month_simps div_unique_int split: if_splits)
qed

lemma days_from_civil_era:
  assumes y: "march_year year month = era_year c q k + n * 400"
    and e: "in_era c q k (march_day month day)"
  shows "days_from_civil year month day + 719468 = era_day c q k (march_day month day) + n * 146097"
proof -
  let ?y = "era_year c q k + n * 400"
  have p: "era_year c q k div 4 = 25 * c + q" "era_year c q k div 100 = c"
    using era_year_parts [OF e] by auto
  have "?y = era_year c q k + (100 * n) * 4" by simp
  then have 4: "?y div 4 = 25 * c + q + 100 * n" using p(1) by (simp only: div_mult_self1; simp?)
  have "?y = era_year c q k + (4 * n) * 100" by simp
  then have 100: "?y div 100 = c + 4 * n" using p(2) by (simp only: div_mult_self1; simp?)
  have 400: "?y div 400 = n"
    by (rule in_eraE [OF e]) (intro div_unique_int; simp)+
  have "days_from_civil year month day =
      ?y * 365 + ?y div 4 - ?y div 100 + ?y div 400 + march_day month day - 719468"
    using y by (simp add: days_from_civil_def march_month_def march_year_def Let_def)
  then show ?thesis unfolding 4 100 400 by simp
qed

lemma valid_date_in_era:
  assumes v: "valid_date year month day" and y: "march_year year month = era_year c q k + n * 400"
    and b: "0 \<le> c" "c \<le> 3" "0 \<le> q" "q \<le> 24" "0 \<le> k" "k \<le> (3::int)"
  shows "in_era c q k (march_day month day)"
proof -
  have "month = 2 \<Longrightarrow> is_leap year = (k = 3 \<and> (q \<noteq> 24 \<or> c = 3))"
    using era_leap [OF b, of n] y by (simp add: march_year_def algebra_simps)
  with march_day_range [OF v] b show ?thesis by (auto simp: in_era_def)
qed

lemma civil_from_days:
  assumes v: "valid_date year month day"
  shows "civil_from_z (days_from_civil year month day + 719468) = (year, month, day)"
proof -
  obtain n c q k where y: "march_year year month = era_year c q k + n * 400"
    and b: "0 \<le> c" "c \<le> 3" "0 \<le> q" "q \<le> 24" "0 \<le> k" "k \<le> (3::int)"
    by (rule era_split)
  note e = valid_date_in_era [OF v y b]
  have m: "(if march_month month < 10 then march_month month + 3 else march_month month - 9) = month"
    using v by (auto simp: march_month_def)
  have yy: "era_year c q k + n * 400 + (if month \<le> 2 then 1 else 0) = year"
    using y by (auto simp: march_year_def split: if_splits)
  obtain d mm where d: "march_day month day = d" and mm: "march_month month = mm" by blast
  have dd: "d = (153 * mm + 2) div 5 + day - 1" using d mm by simp
  have "civil_from_z (days_from_civil year month day + 719468) =
      civil_from_z (era_day c q k d + n * 146097)"
    using days_from_civil_era [OF y e] unfolding d by (rule arg_cong)
  also have "\<dots> = (let m = (5 * d + 2) div 153; mo = (if m < 10 then m + 3 else m - 9) in
      (era_year c q k + n * 400 + (if mo \<le> 2 then 1 else 0), mo, d - (153 * m + 2) div 5 + 1))"
    using e unfolding d by (rule civil_from_era)
  also have "\<dots> = (era_year c q k + n * 400 + (if month \<le> 2 then 1 else 0), month,
      d - (153 * mm + 2) div 5 + 1)"
  proof -
    have "(5 * d + 2) div 153 = mm"
      using march_day_range(3) [OF v] by (simp only: d [symmetric] mm [symmetric])
    moreover have "(if mm < 10 then mm + 3 else mm - 9) = month" using m unfolding mm .
    ultimately show ?thesis unfolding Let_def by (simp only:)
  qed
  also have "\<dots> = (year, month, day)" unfolding yy dd by simp
  finally show ?thesis .
qed

lemma z_in_era: "\<exists>c q k d n. z = era_day c q k d + n * 146097 \<and> in_era c q k d"
proof -
  obtain n x where 1: "z = n * 146097 + x" "0 \<le> x" "x < 146097"
    using div_mult_mod_eq [of z 146097] by (metis pos_mod_bound pos_mod_sign zero_less_numeral)
  obtain c r where 2: "x = c * 36524 + r" "0 \<le> r" "r < 36524 \<or> r = 36524 \<and> c = 3" "c \<le> 3" "0 \<le> c"
  proof (cases "x = 146096")
    case True
    then show ?thesis using that [of 3 36524] by simp
  next
    case False
    then show ?thesis
      using div_mult_mod_eq [of x 36524] pos_mod_bound [of 36524 x] pos_mod_sign [of 36524 x]
        1(2,3) that [of "x div 36524" "x mod 36524"] by linarith
  qed
  obtain q t where 3: "r = q * 1461 + t" "0 \<le> t" "t < 1461"
    using div_mult_mod_eq [of r 1461] by (metis pos_mod_bound pos_mod_sign zero_less_numeral)
  obtain k d where 4: "t = k * 365 + d" "0 \<le> d" "d < 365 \<or> d = 365 \<and> k = 3" "k \<le> 3" "0 \<le> k"
  proof (cases "t = 1460")
    case True
    then show ?thesis using that [of 3 365] by simp
  next
    case False
    then show ?thesis
      using div_mult_mod_eq [of t 365] pos_mod_bound [of 365 t] pos_mod_sign [of 365 t]
        3(2,3) that [of "t div 365" "t mod 365"] by linarith
  qed
  have q: "0 \<le> q" "q \<le> 24" using 2(2,3) 3 by linarith+
  have "q \<noteq> 24 \<or> c = 3" if "d = 365" "k = 3" using that 2(3) 3(1) 4(1) by auto
  with 2(4,5) 4(2-5) q have "in_era c q k d" by (auto simp: in_era_def)
  moreover have "z = era_day c q k d + n * 146097" using 1(1) 2(1) 3(1) 4(1) by simp
  ultimately show ?thesis by blast
qed

lemma month_index:
  assumes "0 \<le> d" "d \<le> (365::int)"
  defines "m \<equiv> (5 * d + 2) div 153"
  shows "0 \<le> m \<and> m \<le> 11" "153 * m \<le> 5 * d + 2" "5 * d + 2 < 153 * m + 153"
proof -
  have "m * 153 + (5 * d + 2) mod 153 = 5 * d + 2" unfolding m_def by (rule div_mult_mod_eq)
  moreover have "0 \<le> (5 * d + 2) mod 153" "(5 * d + 2) mod 153 < 153" by simp_all
  ultimately show "0 \<le> m \<and> m \<le> 11" "153 * m \<le> 5 * d + 2" "5 * d + 2 < 153 * m + 153"
    using assms by linarith+
qed

lemma day_valid:
  assumes d: "0 \<le> d" "d \<le> (364::int) \<or> d = 365 \<and> is_leap year" and m: "m = (5 * d + 2) div 153"
    and mo: "month = (if m < 10 then m + 3 else m - 9)"
  shows "valid_date year month (d - (153 * m + 2) div 5 + 1)" "march_month month = m"
proof -
  have d365: "d \<le> 365" using d by auto
  note i = month_index [OF d(1) d365, folded m]
  have mm: "m \<in> {0, 1, 2, 3, 4, 5, 6, 7, 8, 9, 10, 11}" using i(1) by (simp; presburger)
  show "march_month month = m" using i(1) mo by (auto simp: march_month_def)
  have "1 \<le> month \<and> month \<le> 12" using i(1) mo by auto
  moreover have "1 \<le> d - (153 * m + 2) div 5 + 1"
    using mm i d by (elim insertE; simp)
  moreover have "d - (153 * m + 2) div 5 + 1 \<le> days_in_month year month"
    using mm i d mo by (elim insertE; simp add: days_in_month_simps; linarith?)
  ultimately show "valid_date year month (d - (153 * m + 2) div 5 + 1)" by blast
qed

lemma days_from_civil_z:
  assumes "civil_from_z z = (year, month, day)"
  shows "valid_date year month day" "days_from_civil year month day + 719468 = z"
proof -
  obtain c q k d n where z: "z = era_day c q k d + n * 146097" and e: "in_era c q k d"
    using z_in_era [of z] by blast
  have b: "0 \<le> c" "c \<le> 3" "0 \<le> q" "q \<le> 24" "0 \<le> k" "k \<le> 3" using e by (auto simp: in_era_def)
  obtain m where m: "m = (5 * d + 2) div 153" by blast
  have "(year, month, day) = (let m = (5 * d + 2) div 153; mo = (if m < 10 then m + 3 else m - 9) in
      (era_year c q k + n * 400 + (if mo \<le> 2 then 1 else 0), mo, d - (153 * m + 2) div 5 + 1))"
    using civil_from_era [OF e, of n] unfolding assms [symmetric] z .
  then have f: "year = era_year c q k + n * 400 + (if month \<le> 2 then 1 else 0)"
      "month = (if m < 10 then m + 3 else m - 9)" "day = d - (153 * m + 2) div 5 + 1"
    unfolding m Let_def by (simp_all only: prod.inject)
  have d: "0 \<le> d" "d \<le> 365" using e by (auto simp: in_era_def)
  have my: "march_year year month = era_year c q k + n * 400"
    using f(1) by (auto simp: march_year_def)
  have leap: "d \<le> 364 \<or> d = 365 \<and> is_leap year"
  proof (cases "d = 365")
    case True
    with m f(2) have "month = 2" by simp
    with f(1) have "year = era_year c q k + n * 400 + 1" by simp
    with era_leap [OF b, of n] True e show ?thesis by (auto simp: in_era_def)
  qed (use d in simp)
  note v = day_valid [OF d(1) leap m f(2), folded f(3)]
  show "valid_date year month day" by (rule v(1))
  have "march_day month day = d" using v(2) f(3) by simp
  with days_from_civil_era [OF my, of day] e z
  show "days_from_civil year month day + 719468 = z" by simp
qed

section \<open>Seconds\<close>

text \<open>The weekday of a number of days from 1970-01-01, a Thursday; 0 is Sunday.\<close>

abbreviation weekday_of :: "int \<Rightarrow> int" where
  "weekday_of days \<equiv> (days + 4) mod 7"

lemma of_day_parts:
  fixes h mi se :: int
  assumes "0 \<le> h" "h \<le> 23" "0 \<le> mi" "mi \<le> 59" "0 \<le> se" "se \<le> 59"
  shows "((h * 60 + mi) * 60 + se) div 3600 = h" "((h * 60 + mi) * 60 + se) div 60 = h * 60 + mi"
    "(h * 60 + mi) mod 60 = mi" "((h * 60 + mi) * 60 + se) mod 60 = se"
    "(h * 60 + mi) * 60 + se < 86400" "0 \<le> (h * 60 + mi) * 60 + se"
  using assms
  by (simp_all add: div_unique_int mod_plus_multiple [where a = mi and b = h]
      mod_plus_multiple [where a = se and b = "h * 60 + mi"])

lemma to_civil_seconds:
  assumes "first_second \<le> s" "s \<le> last_second" "s = days * 86400 + t" "0 \<le> t" "t < 86400"
  shows "ebisu_time_to_civil s = (case civil_from_z (days + 719468) of (year, month, day) \<Rightarrow>
    Some \<lparr>ct_year = year, ct_month = month, ct_day = day, ct_hour = t div 3600,
      ct_minute = t div 60 mod 60, ct_second = t mod 60, ct_weekday = weekday_of days\<rparr>)"
proof -
  have f: "first_second div 86400 = - 719162" by (simp add: first_second_def)
  have x: "s - first_second = t + (days + 719162) * 86400"
    using assms(3) by (simp add: first_second_def)
  have d: "(s - first_second) div 86400 = days + 719162"
    unfolding x using assms(4,5) by (intro div_unique_int) auto
  have m: "(s - first_second) mod 86400 = t"
    using mod_plus_multiple [OF x] assms(4,5) by simp
  have "(days + 719162 + 1) mod 7 = (days + 4) mod 7"
    by (rule mod_plus_multiple [where b = 102737]) simp
  then show ?thesis
    using assms(1,2) unfolding ebisu_time_to_civil_def Let_def d m f by (simp split: prod.split)
qed

lemma march_month_range:
  assumes "valid_date year month day"
  shows "month \<le> 2 \<Longrightarrow> 306 \<le> march_day month day" "2 < month \<Longrightarrow> march_day month day \<le> 305"
proof -
  have m: "month \<in> {1, 2, 3, 4, 5, 6, 7, 8, 9, 10, 11, 12}" using assms by (intro months) auto
  then show "month \<le> 2 \<Longrightarrow> 306 \<le> march_day month day"
    using assms by (elim insertE; simp add: march_month_def)
  show "2 < month \<Longrightarrow> march_day month day \<le> 305"
    using m assms by (elim insertE; simp add: march_month_def days_in_month_simps)
qed

lemma div_bounds: "0 < b \<Longrightarrow> b * (a div b) \<le> a \<and> a \<le> b * (a div b) + b - (1::int)"
  using mult_div_mod_eq [of b a] pos_mod_bound [of b a] pos_mod_sign [of b a] by linarith

lemma days_range:
  assumes v: "valid_date year month day" and y: "1 \<le> year" "year \<le> 9999"
  shows "- 719162 \<le> days_from_civil year month day \<and> days_from_civil year month day \<le> 2932896"
proof -
  obtain y where yd: "y = march_year year month" by blast
  obtain e where ed: "e = march_day month day" by blast
  have days: "days_from_civil year month day =
      y * 365 + y div 4 - y div 100 + y div 400 + e - 719468"
    unfolding yd ed by (simp add: days_from_civil_def march_month_def march_year_def Let_def)
  have b: "4 * (y div 4) \<le> y \<and> y \<le> 4 * (y div 4) + 3"
    "100 * (y div 100) \<le> y \<and> y \<le> 100 * (y div 100) + 99"
    "400 * (y div 400) \<le> y \<and> y \<le> 400 * (y div 400) + 399"
    using div_bounds [of 4 y] div_bounds [of 100 y] div_bounds [of 400 y] by auto
  have e: "0 \<le> e" "e \<le> 365" using march_day_range [OF v] ed by auto
  have lo: "0 \<le> y" "y = 0 \<Longrightarrow> 306 \<le> e"
    using assms march_month_range(1) [OF v] yd ed by (auto simp: march_year_def split: if_splits)
  have hi: "y \<le> 9999" "y = 9999 \<Longrightarrow> e \<le> 305"
    using assms march_month_range(2) [OF v] yd ed by (auto simp: march_year_def split: if_splits)
  have "- 719162 \<le> days_from_civil year month day"
    unfolding days using b e lo by (cases "y = 0") auto
  moreover have "days_from_civil year month day \<le> 2932896"
  proof (cases "y = 9999")
    case True
    with hi(2) show ?thesis unfolding days by simp
  next
    case False
    with hi(1) have "y \<le> 9998" by simp
    with b e show ?thesis unfolding days by linarith
  qed
  ultimately show ?thesis by blast
qed

lemma year_range:
  assumes v: "valid_date year month day"
    and d: "- 719162 \<le> days_from_civil year month day" "days_from_civil year month day \<le> 2932896"
  shows "1 \<le> year \<and> year \<le> 9999"
proof -
  obtain y where yd: "y = march_year year month" by blast
  obtain e where ed: "e = march_day month day" by blast
  have days: "days_from_civil year month day =
      y * 365 + y div 4 - y div 100 + y div 400 + e - 719468"
    unfolding yd ed by (simp add: days_from_civil_def march_month_def march_year_def Let_def)
  have b: "4 * (y div 4) \<le> y \<and> y \<le> 4 * (y div 4) + 3"
    "100 * (y div 100) \<le> y \<and> y \<le> 100 * (y div 100) + 99"
    "400 * (y div 400) \<le> y \<and> y \<le> 400 * (y div 400) + 399"
    using div_bounds [of 4 y] div_bounds [of 100 y] div_bounds [of 400 y] by auto
  have e: "0 \<le> e" "e \<le> 365" using march_day_range [OF v] ed by auto
  have r: "0 \<le> y" "y \<le> 9999" using b e d unfolding days by linarith+
  show ?thesis
  proof (cases "month \<le> 2")
    case True
    then have "306 \<le> e" using march_month_range(1) [OF v] ed by simp
    then have "y \<noteq> 9999" using d unfolding days by auto
    with r True yd show ?thesis by (simp add: march_year_def)
  next
    case False
    then have "e \<le> 305" using march_month_range(2) [OF v] ed by simp
    then have "y \<noteq> 0" using d unfolding days by auto
    with r False yd show ?thesis by (simp add: march_year_def)
  qed
qed

section \<open>Properties\<close>

text \<open>
  Every date and time that \<open>ebisu_time_from_civil\<close> converts, unless its second is a leap
  second, \<open>ebisu_time_to_civil\<close> converts back to the same fields, with the right day of the
  week.
\<close>

lemma time_from_to_civil:
  assumes "ebisu_time_from_civil year month day hour minute sec = Some s" "sec \<noteq> 60"
  shows "ebisu_time_to_civil s = Some \<lparr>ct_year = year, ct_month = month, ct_day = day,
    ct_hour = hour, ct_minute = minute, ct_second = sec,
    ct_weekday = weekday_of (days_from_civil year month day)\<rparr>"
proof -
  let ?d = "days_from_civil year month day" and ?t = "(hour * 60 + minute) * 60 + sec"
  from assms have v: "valid_date year month day" "1 \<le> year" "year \<le> 9999"
    and t: "0 \<le> hour" "hour \<le> 23" "0 \<le> minute" "minute \<le> 59" "0 \<le> sec" "sec \<le> 59"
    and s: "s = ?d * 86400 + ?t"
    by (auto simp: ebisu_time_from_civil_def Let_def split: if_splits)
  note p = of_day_parts [OF t]
  have r: "first_second \<le> s" "s \<le> last_second"
    using days_range [OF v] p(5,6) s by (auto simp: first_second_def last_second_def)
  show ?thesis
    using to_civil_seconds [OF r s p(6,5)] civil_from_days [OF v(1)] p(1-4) by simp
qed

text \<open>
  C37. Every second from 0001-01-01T00:00:00Z to 9999-12-31T23:59:59Z converts to a date and
  time, and no other does; the fields are those of a date of the calendar and converting them
  gives the second back.
\<close>

theorem time_to_from_civil:
  "(ebisu_time_to_civil s = None \<longleftrightarrow> s < first_second \<or> last_second < s) \<and>
   (\<forall>c. ebisu_time_to_civil s = Some c \<longrightarrow>
      ebisu_time_from_civil (ct_year c) (ct_month c) (ct_day c) (ct_hour c) (ct_minute c)
        (ct_second c) = Some s \<and> ct_second c \<noteq> 60 \<and> 0 \<le> ct_weekday c \<and> ct_weekday c \<le> 6)"
proof (cases "first_second \<le> s \<and> s \<le> last_second")
  case False
  then show ?thesis by (auto simp: ebisu_time_to_civil_def)
next
  case True
  let ?days = "s div 86400" and ?t = "s mod 86400"
  have s: "s = ?days * 86400 + ?t" by simp
  have t: "0 \<le> ?t" "?t < 86400" by simp_all
  obtain year month day where z: "civil_from_z (?days + 719468) = (year, month, day)"
    by (metis prod_cases3)
  note v = days_from_civil_z [OF z]
  have r: "- 719162 \<le> ?days" "?days \<le> 2932896"
    using True s t unfolding first_second_def last_second_def by linarith+
  have d: "days_from_civil year month day = ?days" using v(2) by simp
  have y: "1 \<le> year \<and> year \<le> 9999" using year_range [OF v(1)] d r by simp
  have e: "ebisu_time_to_civil s = Some \<lparr>ct_year = year, ct_month = month, ct_day = day,
      ct_hour = ?t div 3600, ct_minute = ?t div 60 mod 60, ct_second = ?t mod 60,
      ct_weekday = weekday_of ?days\<rparr>"
    using to_civil_seconds [OF _ _ s t] True z by simp
  obtain h mi se where f: "h = ?t div 3600" "mi = ?t div 60 mod 60" "se = ?t mod 60" by blast
  have "?t div 60 div 60 = h" unfolding f(1) by (simp flip: zdiv_zmult2_eq)
  then have "?t div 60 = h * 60 + mi" using div_mult_mod_eq [of "?t div 60" 60] f(2) by simp
  then have tt: "(h * 60 + mi) * 60 + se = ?t" using div_mult_mod_eq [of ?t 60] f(3) by simp
  have b: "0 \<le> mi" "mi < 60" "0 \<le> se" "se < 60" unfolding f by simp_all
  have "((days_from_civil year month day * 24 + h) * 60 + mi) * 60 + se = s"
  proof -
    have "((D * 24 + h) * 60 + mi) * 60 + se = D * 86400 + ((h * 60 + mi) * 60 + se)" for D
      by simp
    then show ?thesis unfolding d tt using s by (rule trans [OF _ sym])
  qed
  moreover have "3600 * h + 60 * mi + se = ?t" using tt by simp
  then have "0 \<le> h" "h \<le> 23" using b t by linarith+
  ultimately have "ebisu_time_from_civil year month day h mi se = Some s"
    using v(1) y b by (simp add: ebisu_time_from_civil_def Let_def)
  with e True b show ?thesis unfolding f [symmetric] by simp
qed

theorem time_to_from_civil_witness:
  "\<exists>c. ebisu_time_to_civil 951782400 = Some c \<and>
      ebisu_time_from_civil (ct_year c) (ct_month c) (ct_day c) (ct_hour c) (ct_minute c)
        (ct_second c) = Some 951782400 \<and> ct_day c = 29"
proof -
  obtain c where c: "c = \<lparr>ct_year = 2000, ct_month = 2, ct_day = 29, ct_hour = 0, ct_minute = 0,
      ct_second = 0, ct_weekday = 2\<rparr>" by blast
  have "ebisu_time_to_civil 951782400 = Some c" unfolding c by code_simp
  with time_to_from_civil [of 951782400] c show ?thesis by auto
qed

end
