(* ===== verification/Ebisu_Clock.thy ===== *)
theory Ebisu_Clock
  imports Ebisu_Prelude
begin

text \<open>
  core/src/ebisu\_clock.c: the wall clock kept from times given and a monotonic clock.

  The monotonic clock is the system's, code outside this module: an operation that reads it
  (each reads it once at most) takes the reading as an argument, \<open>None\<close> where the system has
  no monotonic clock.  Times are \<open>int\<close> and millisecond counts \<open>nat\<close>; the lock around every
  operation is left out, operations being atomic here.  The time the source was built is a
  constant of a generated header and is an argument of the initialisation.
\<close>

section \<open>The code\<close>

record ebisu_clock =
  ck_floor :: int
  ck_time_known :: bool
  ck_time :: int
  ck_time_at_ms :: nat
  ck_exact_for_ms :: nat

definition ebisu_clock_init :: "int \<Rightarrow> ebisu_clock" where
  "ebisu_clock_init source_time =
     \<lparr>ck_floor = source_time - 7 * 86400, ck_time_known = False, ck_time = 0,
      ck_time_at_ms = 0, ck_exact_for_ms = 24 * 3600 * 1000\<rparr>"

definition ebisu_clock_set_exact_for :: "ebisu_clock \<Rightarrow> u32 \<Rightarrow> ebisu_clock" where
  "ebisu_clock_set_exact_for clock seconds = clock\<lparr>ck_exact_for_ms := unat seconds * 1000\<rparr>"

definition ebisu_clock_set_floor :: "ebisu_clock \<Rightarrow> int \<Rightarrow> ebisu_clock" where
  "ebisu_clock_set_floor clock floor =
     (if floor > ck_floor clock then clock\<lparr>ck_floor := floor\<rparr> else clock)"

definition ebisu_clock_set_time :: "ebisu_clock \<Rightarrow> int \<Rightarrow> nat option \<Rightarrow> ebisu_clock \<times> bool" where
  "ebisu_clock_set_time clock now rdg =
     (case rdg of
        Some ms \<Rightarrow>
          if now \<ge> ck_floor clock
          then (clock\<lparr>ck_time := now, ck_time_at_ms := ms, ck_time_known := True\<rparr>, True)
          else (clock, False)
      | None \<Rightarrow> (clock, False))"

text \<open>The clock, and the time counted on with whether it is exact, or \<open>None\<close> for false.\<close>

definition counted :: "ebisu_clock \<Rightarrow> nat option \<Rightarrow> ebisu_clock \<times> (int \<times> bool) option" where
  "counted clock rdg =
     (case rdg of
        None \<Rightarrow> (clock, None)
      | Some now_ms \<Rightarrow>
          if \<not> ck_time_known clock then (clock, None)
          else if now_ms < ck_time_at_ms clock then
            (let c = (if ck_time clock > ck_floor clock
                      then clock\<lparr>ck_floor := ck_time clock\<rparr> else clock)
             in (c\<lparr>ck_time_known := False\<rparr>, None))
          else
            (let elapsed_ms = now_ms - ck_time_at_ms clock;
                 elapsed = int (elapsed_ms div 1000);
                 exact = elapsed_ms < ck_exact_for_ms clock
             in (clock, Some (ck_time clock + elapsed - (if exact then 0 else elapsed div 100),
                   exact))))"

text \<open>The clock, the time or lower bound, and whether it is exact.\<close>

definition ebisu_clock_get_time :: "ebisu_clock \<Rightarrow> nat option \<Rightarrow> ebisu_clock \<times> int \<times> bool" where
  "ebisu_clock_get_time clock rdg =
     (let (c, r) = counted clock rdg; now = ck_floor c in
      case r of
        Some (cnt, fresh) \<Rightarrow> if cnt \<ge> now then (c, cnt, fresh) else (c, now, False)
      | None \<Rightarrow> (c, now, False))"

definition ebisu_clock_forget_time :: "ebisu_clock \<Rightarrow> nat option \<Rightarrow> ebisu_clock" where
  "ebisu_clock_forget_time clock rdg =
     (let (c, r) = counted clock rdg in
      case r of
        Some (cnt, fresh) \<Rightarrow>
          (let cnt' = (if fresh then cnt - (cnt - ck_time c) div 100 else cnt);
               c' = (if cnt' > ck_floor c then c\<lparr>ck_floor := cnt'\<rparr> else c)
           in c'\<lparr>ck_time_known := False\<rparr>)
      | None \<Rightarrow> c)"

datatype validity = VALIDITY_OK | VALIDITY_EXPIRED | VALIDITY_NOT_YET_VALID

definition ebisu_clock_check_validity ::
    "ebisu_clock \<Rightarrow> int \<Rightarrow> int \<Rightarrow> nat option \<Rightarrow> ebisu_clock \<times> validity" where
  "ebisu_clock_check_validity clock not_before not_after rdg =
     (let (c, now, exact) = ebisu_clock_get_time clock rdg in
      (c, if now > not_after then VALIDITY_EXPIRED
          else if exact \<and> now < not_before then VALIDITY_NOT_YET_VALID
          else VALIDITY_OK))"

section \<open>Runs of operations\<close>

datatype clock_op =
    Set_exact_for u32 | Set_floor int | Set_time int | Get_time | Forget_time
  | Check_validity int int

fun clock_step :: "ebisu_clock \<Rightarrow> clock_op \<times> nat option \<Rightarrow> ebisu_clock" where
  "clock_step c (Set_exact_for s, m) = ebisu_clock_set_exact_for c s"
| "clock_step c (Set_floor f, m) = ebisu_clock_set_floor c f"
| "clock_step c (Set_time t, m) = fst (ebisu_clock_set_time c t m)"
| "clock_step c (Get_time, m) = fst (ebisu_clock_get_time c m)"
| "clock_step c (Forget_time, m) = ebisu_clock_forget_time c m"
| "clock_step c (Check_validity a b, m) = fst (ebisu_clock_check_validity c a b m)"

lemma clock_step_counted:
  "fst (ebisu_clock_get_time c m) = fst (counted c m)"
  "fst (ebisu_clock_check_validity c a b m) = fst (counted c m)"
  by (cases "counted c m"; cases "snd (counted c m)";
      auto simp: ebisu_clock_get_time_def ebisu_clock_check_validity_def Let_def)+

lemma counted_floor: "ck_floor c \<le> ck_floor (fst (counted c m))"
  by (auto simp: counted_def Let_def split: option.split)

lemma forget_floor: "ck_floor (fst (counted c m)) \<le> ck_floor (ebisu_clock_forget_time c m)"
  by (auto simp: ebisu_clock_forget_time_def Let_def split: prod.split option.split)

lemma clock_step_floor: "ck_floor c \<le> ck_floor (clock_step c e)"
proof (cases e)
  case (Pair op m)
  show ?thesis
    using counted_floor [of c m] forget_floor [of c m]
    by (cases op)
       (auto simp: Pair clock_step_counted ebisu_clock_set_exact_for_def ebisu_clock_set_floor_def
         ebisu_clock_set_time_def split: option.split)
qed

lemma clock_run_floor: "ck_floor c \<le> ck_floor (foldl clock_step c es)"
proof (induction es arbitrary: c)
  case (Cons e es)
  then show ?case using clock_step_floor [of c e] by (metis foldl_Cons order_trans)
qed simp

lemma get_time_floor: "ck_floor (fst (ebisu_clock_get_time c m)) \<le> fst (snd (ebisu_clock_get_time c m))"
  by (auto simp: ebisu_clock_get_time_def Let_def split: prod.split option.split)

section \<open>Honest runs\<close>

text \<open>
  The true time in milliseconds goes with each operation.  In an honest run the true time
  does not go back, the times and floors given are not later than the true time, and the
  monotonic clock runs at most 1\% fast: where a reading is not below an earlier one, it is
  above it by at most 101/100 of the true time between.  It may stop, run slow, or go back.
\<close>

definition consistent :: "(int \<times> nat option) list \<Rightarrow> int \<Rightarrow> nat option \<Rightarrow> bool" where
  "consistent past t m \<longleftrightarrow>
     list_all (\<lambda>(t1, m1). t1 \<le> t \<and>
       (case (m1, m) of
          (Some a, Some b) \<Rightarrow> a \<le> b \<longrightarrow> 100 * (int b - int a) \<le> 101 * (t - t1)
        | _ \<Rightarrow> True)) past"

fun truthful :: "clock_op \<Rightarrow> int \<Rightarrow> bool" where
  "truthful (Set_floor f) t \<longleftrightarrow> 1000 * f \<le> t"
| "truthful (Set_time n) t \<longleftrightarrow> 1000 * n \<le> t"
| "truthful _ t \<longleftrightarrow> True"

fun honest :: "(int \<times> nat option) list \<Rightarrow> (clock_op \<times> int \<times> nat option) list \<Rightarrow> bool" where
  "honest past [] \<longleftrightarrow> True"
| "honest past ((op, t, m) # es) \<longleftrightarrow>
     consistent past t m \<and> truthful op t \<and> honest ((t, m) # past) es"

definition clock_run :: "ebisu_clock \<Rightarrow> (clock_op \<times> int \<times> nat option) list \<Rightarrow> ebisu_clock" where
  "clock_run c es = foldl clock_step c (map (\<lambda>(op, t, m). (op, m)) es)"

definition clock_inv :: "(int \<times> nat option) list \<Rightarrow> ebisu_clock \<Rightarrow> bool" where
  "clock_inv past c \<longleftrightarrow> past \<noteq> [] \<and> (\<exists>(t, m)\<in>set past. 1000 * ck_floor c < t + 1000) \<and>
     (ck_time_known c \<longrightarrow>
       (\<exists>t. (t, Some (ck_time_at_ms c)) \<in> set past \<and> 1000 * ck_time c \<le> t))"

lemma lower_bound_arith:
  fixes e d :: int
  assumes "0 \<le> e" "100 * (1000 * e) \<le> 101 * d"
  shows "1000 * (e - e div 100) < d + 1000"
proof -
  obtain q r where qr: "e = 100 * q + r" "0 \<le> r" "r < 100" "q = e div 100"
  proof
    show "e = 100 * (e div 100) + e mod 100" by simp
  qed simp_all
  have "0 \<le> q" using qr assms(1) by (simp add: pos_imp_zdiv_nonneg_iff)
  moreover have "10000000 * q + 100000 * r \<le> 101 * d" using assms(2) qr(1) by simp
  ultimately have "99000 * q + 1000 * r < d + 1000" using qr(2,3) by linarith
  then have "1000 * (e - q) < d + 1000" using qr(1) by simp
  then show ?thesis unfolding qr(4) .
qed

text \<open>What is counted in an honest run, exact or not.\<close>

lemma counted_sound:
  assumes i: "clock_inv past c" and h: "consistent past t m"
    and r: "snd (counted c m) = Some (cnt, fresh)"
  shows "\<not> fresh \<Longrightarrow> 1000 * cnt < t + 1000"
    "1000 * (cnt - (cnt - ck_time c) div 100) < t + 1000"
    "fresh \<Longrightarrow> 101 * (1000 * cnt - t) \<le> int (ck_exact_for_ms c)"
    "fst (counted c m) = c"
proof -
  from r obtain b where b: "m = Some b" "ck_time_known c" "ck_time_at_ms c \<le> b"
    and fc: "fst (counted c m) = c"
    and fresh: "fresh \<longleftrightarrow> b - ck_time_at_ms c < ck_exact_for_ms c"
    and cnt: "cnt = ck_time c + int ((b - ck_time_at_ms c) div 1000) -
      (if fresh then 0 else int ((b - ck_time_at_ms c) div 1000) div 100)"
    by (auto simp: counted_def Let_def split: option.splits if_splits)
  show "fst (counted c m) = c" by (rule fc)
  let ?D = "b - ck_time_at_ms c" and ?e = "int ((b - ck_time_at_ms c) div 1000)"
  from i b(2) obtain t1 where t1: "(t1, Some (ck_time_at_ms c)) \<in> set past" "1000 * ck_time c \<le> t1"
    by (auto simp: clock_inv_def)
  with h b have d: "t1 \<le> t" "100 * int ?D \<le> 101 * (t - t1)"
    by (auto simp: consistent_def list_all_iff of_nat_diff)
  have e: "1000 * ?e \<le> int ?D" "0 \<le> ?e" by (simp_all flip: of_nat_mult of_nat_le_iff)
  with d have "100 * (1000 * ?e) \<le> 101 * (t - t1)" by linarith
  note lb = lower_bound_arith [OF e(2) this]
  have lb': "1000 * (ck_time c + ?e - ?e div 100) < t + 1000" using lb t1(2) by (simp add: algebra_simps)
  then show "\<not> fresh \<Longrightarrow> 1000 * cnt < t + 1000" using cnt by simp
  show "1000 * (cnt - (cnt - ck_time c) div 100) < t + 1000"
  proof (cases fresh)
    case True
    then show ?thesis using lb' cnt by simp
  next
    case False
    have "?e div 100 \<le> ?e" using e(2) by (simp flip: of_nat_div)
    then have "0 \<le> (cnt - ck_time c) div 100" using cnt False by (simp add: pos_imp_zdiv_nonneg_iff)
    with lb' cnt False show ?thesis by simp
  qed
  assume fresh
  with cnt have "1000 * cnt \<le> t1 + int ?D" using e t1(2) by simp
  then have "101000 * cnt \<le> 101 * t1 + 101 * int ?D" by simp
  moreover have "100 * int ?D \<le> 101 * t - 101 * t1" using d(2) by (simp add: algebra_simps)
  ultimately have "101000 * cnt - 101 * t \<le> int ?D" by linarith
  then have "101 * (1000 * cnt - t) \<le> int ?D" by simp
  with \<open>fresh\<close> fresh show "101 * (1000 * cnt - t) \<le> int (ck_exact_for_ms c)" by linarith
qed

lemma clock_inv_past: "clock_inv past c \<Longrightarrow> clock_inv (p # past) c"
  by (auto simp: clock_inv_def)

lemma clock_inv_floor_le:
  assumes "clock_inv past c" "consistent past t m"
  shows "1000 * ck_floor c < t + 1000"
  using assms by (fastforce simp: clock_inv_def consistent_def list_all_iff)

lemma clock_inv_time_le:
  assumes "clock_inv past c" "consistent past t m" "ck_time_known c"
  shows "1000 * ck_time c \<le> t"
  using assms by (fastforce simp: clock_inv_def consistent_def list_all_iff)

lemma clock_inv_floorI:
  assumes "clock_inv past c" "1000 * f < t + 1000"
  shows "clock_inv ((t, m) # past) (c\<lparr>ck_floor := f\<rparr>)"
  using assms by (auto simp: clock_inv_def)

lemma clock_inv_unknown: "clock_inv past c \<Longrightarrow> clock_inv past (c\<lparr>ck_time_known := False\<rparr>)"
  by (simp add: clock_inv_def)

lemma counted_inv [inv_intros]:
  assumes i: "clock_inv past c" and h: "consistent past t m"
  shows "clock_inv ((t, m) # past) (fst (counted c m))"
proof -
  have "clock_inv ((t, m) # past) (c\<lparr>ck_floor := ck_time c\<rparr>)" if "ck_time_known c"
    using clock_inv_floorI [OF i] clock_inv_time_le [OF i h that] by simp
  then show ?thesis
    using clock_inv_past [OF i, of "(t, m)"]
    by (auto simp: counted_def Let_def clock_inv_unknown split: option.split)
qed

lemma forget_inv [inv_intros]:
  assumes i: "clock_inv past c" and h: "consistent past t m"
  shows "clock_inv ((t, m) # past) (ebisu_clock_forget_time c m)"
proof (cases "snd (counted c m)")
  case None
  then have "ebisu_clock_forget_time c m = fst (counted c m)"
    by (cases "counted c m") (simp add: ebisu_clock_forget_time_def)
  with counted_inv [OF i h] show ?thesis by simp
next
  case (Some p)
  then obtain cnt fresh where r: "snd (counted c m) = Some (cnt, fresh)" by (cases p) auto
  note sound = counted_sound [OF i h r]
  then have e: "counted c m = (c, Some (cnt, fresh))" using r by (simp add: prod_eq_iff)
  let ?n = "if fresh then cnt - (cnt - ck_time c) div 100 else cnt"
  have "1000 * ?n < t + 1000" using sound(1,2) by simp
  then have "clock_inv ((t, m) # past) (c\<lparr>ck_floor := ?n\<rparr>)" by (rule clock_inv_floorI [OF i])
  then show ?thesis
    using clock_inv_past [OF i, of "(t, m)"] clock_inv_unknown
    by (simp add: ebisu_clock_forget_time_def e Let_def)
qed

lemma clock_step_inv:
  assumes i: "clock_inv past c" and h: "consistent past t m" and op: "truthful op t"
  shows "clock_inv ((t, m) # past) (clock_step c (op, m))"
proof (cases op)
  case (Set_exact_for s)
  with clock_inv_past [OF i, of "(t, m)"] show ?thesis
    by (simp add: ebisu_clock_set_exact_for_def clock_inv_def)
next
  case (Set_floor f)
  with clock_inv_past [OF i, of "(t, m)"] clock_inv_floorI [OF i, of f t m] op show ?thesis
    by (simp add: ebisu_clock_set_floor_def)
next
  case (Set_time n)
  with clock_inv_past [OF i, of "(t, m)"] op show ?thesis
    by (auto simp: ebisu_clock_set_time_def clock_inv_def split: option.split)
qed (use counted_inv [OF i h] forget_inv [OF i h] clock_step_counted in simp_all)

lemma honest_run_inv:
  "clock_inv past c \<Longrightarrow> honest past es \<Longrightarrow>
   \<exists>past'. clock_inv past' (clock_run c es) \<and> past' = rev (map (\<lambda>(op, t, m). (t, m)) es) @ past"
proof (induction es arbitrary: past c)
  case (Cons e es)
  obtain op t m where e: "e = (op, t, m)" by (metis prod_cases3)
  with Cons.prems Cons.IH [of "(t, m) # past" "clock_step c (op, m)"]
    clock_step_inv [of past c t m op] show ?case
    by (simp add: clock_run_def)
qed (simp add: clock_run_def)

lemma honest_snoc:
  "honest past (es @ [(op, t, m)]) \<Longrightarrow>
   honest past es \<and> consistent (rev (map (\<lambda>(op, t, m). (t, m)) es) @ past) t m"
  by (induction past es rule: honest.induct) auto

lemma counted_floor_le:
  assumes "clock_inv past c" "consistent past t m"
  shows "1000 * ck_floor (fst (counted c m)) < t + 1000"
  using clock_inv_floor_le [OF assms] clock_inv_time_le [OF assms]
  by (auto simp: counted_def Let_def split: option.split)

lemma clock_step_unknown:
  assumes "\<not> ck_time_known c" "\<forall>t. op \<noteq> Set_time t"
  shows "\<not> ck_time_known (clock_step c (op, m))"
proof -
  have "counted c m = (c, None)" using assms(1) by (simp add: counted_def split: option.split)
  then show ?thesis
    using assms
    by (cases op) (auto simp: clock_step_counted ebisu_clock_set_exact_for_def
        ebisu_clock_set_floor_def ebisu_clock_forget_time_def)
qed

lemma clock_run_unknown:
  "\<not> ck_time_known c \<Longrightarrow> \<forall>(op, m)\<in>set es. \<forall>t. op \<noteq> Set_time t \<Longrightarrow>
   \<not> ck_time_known (foldl clock_step c es)"
proof (induction es arbitrary: c)
  case (Cons e es)
  obtain op m where "e = (op, m)" by (cases e)
  with Cons clock_step_unknown [of c op m] show ?case by simp
qed simp

section \<open>Properties\<close>

text \<open>
  C39. A clock never tells a time before its floor, and no operation lowers the floor: of any
  run of operations, whatever the times given and however the monotonic clock runs, the floor
  at the end is at least the one at the start, and what \<open>ebisu_clock_get_time\<close> then gives is
  at least that.
\<close>

theorem clock_floor_monotone:
  "let c' = foldl clock_step c es in
   ck_floor c \<le> ck_floor c' \<and> ck_floor c \<le> fst (snd (ebisu_clock_get_time c' m))"
proof -
  let ?c = "foldl clock_step c es"
  have "ck_floor ?c \<le> ck_floor (fst (ebisu_clock_get_time ?c m))"
    using clock_step_floor [of ?c "(Get_time, m)"] by simp
  with get_time_floor [of ?c m] clock_run_floor [of c es] show ?thesis by simp
qed



text \<open>
  Forgetting the time lets the next connection through: after
  \<open>ebisu_clock_forget_time\<close>, and until a time is given again,
  \<open>ebisu_clock_check_validity\<close> never finds a period not yet valid, and finds it expired only
  when its end is before the floor.
\<close>

theorem clock_forget_validity:
  assumes "\<forall>(op, m)\<in>set es. \<forall>t. op \<noteq> Set_time t"
  shows "let c = foldl clock_step (ebisu_clock_forget_time clock (Some ms)) es;
             v = snd (ebisu_clock_check_validity c not_before not_after m) in
    v = (if not_after < ck_floor c then VALIDITY_EXPIRED else VALIDITY_OK)"
proof -
  have "\<not> ck_time_known (ebisu_clock_forget_time clock (Some ms))"
    by (auto simp: ebisu_clock_forget_time_def counted_def Let_def split: option.split)
  then have "\<not> ck_time_known (foldl clock_step (ebisu_clock_forget_time clock (Some ms)) es)"
    using assms by (rule clock_run_unknown)
  then show ?thesis
    by (simp add: ebisu_clock_check_validity_def ebisu_clock_get_time_def counted_def Let_def
        split: option.split)
qed

end
