(* ===== verification/Jkii_Lines.thy ===== *)
theory Jkii_Lines
  imports Ebisu_Prelude
begin

text \<open>
  jkii/src/jkii\_lines.c: JSON Lines read from data that arrives in pieces, through a buffer of
  fixed size.

  The buffer is the list of its bytes, of length \<open>jl_buff_size\<close>; a reader set up with no
  buffer has size 0 and an empty one.  \<open>jkii_lines_feed\<close> returns the reader, the result, how
  much was consumed and the line given out, which the code leaves in the buffer.
\<close>

section \<open>The code\<close>

record jkii_lines =
  jl_buff :: "char list"
  jl_buff_size :: nat
  jl_len :: nat
  jl_skipping :: bool
  jl_returned :: bool

datatype lines_err =
    LINES_RECORD | LINES_NEED_MORE | LINES_TOO_LONG | LINES_TRUNCATED | LINES_END

definition jkii_lines_init :: "char list option \<Rightarrow> nat \<Rightarrow> jkii_lines" where
  "jkii_lines_init buff buff_size =
     \<lparr>jl_buff = (case buff of None \<Rightarrow> [] | Some b \<Rightarrow> b),
      jl_buff_size = (case buff of None \<Rightarrow> 0 | Some b \<Rightarrow> buff_size),
      jl_len = 0, jl_skipping = False, jl_returned = False\<rparr>"

definition blank :: "string \<Rightarrow> bool" where
  "blank s \<longleftrightarrow> list_all (\<lambda>c. c = SPC \<or> c = HTAB \<or> c = CR) s"

definition drop_returned :: "jkii_lines \<Rightarrow> jkii_lines" where
  "drop_returned r =
     (if jl_returned r then r\<lparr>jl_len := 0, jl_returned := False\<rparr> else r)"

text \<open>The line given out, or \<open>None\<close> where the code returns 0.\<close>

definition take_record :: "jkii_lines \<Rightarrow> jkii_lines \<times> string option" where
  "take_record r =
     (let n = jl_len r;
          n = (if n > 0 \<and> jl_buff r ! (n - 1) = CR then n - 1 else n) in
      if blank (take n (jl_buff r)) then (r\<lparr>jl_len := 0\<rparr>, None)
      else (r\<lparr>jl_buff := mem_write (jl_buff r) n [NUL], jl_returned := True\<rparr>,
            Some (take n (jl_buff r))))"

text \<open>What the loop does with the bytes up to the newline, or up to the end of the data.\<close>

definition keep_part :: "jkii_lines \<Rightarrow> string \<Rightarrow> jkii_lines" where
  "keep_part r part =
     (if \<not> jl_skipping r \<and> length part > 0 then
        (let room = (if jl_buff_size r > 0 then usub (usub (jl_buff_size r) 1) (jl_len r) else 0) in
         if length part > room then r\<lparr>jl_skipping := True, jl_len := 0\<rparr>
         else r\<lparr>jl_buff := mem_write (jl_buff r) (jl_len r) part,
                jl_len := jl_len r + length part\<rparr>)
      else r)"

function lines_feed_loop ::
    "jkii_lines \<Rightarrow> string \<Rightarrow> nat \<Rightarrow> jkii_lines \<times> lines_err \<times> nat \<times> string option" where
  "lines_feed_loop r data i =
     (if i < length data then
        (let newline = memchr (drop i data) LF;
             end' = (case newline of Some k \<Rightarrow> i + k | None \<Rightarrow> length data);
             r = keep_part r (take (end' - i) (drop i data)) in
         if newline = None then (r, LINES_NEED_MORE, length data, None)
         else
           (let i' = end' + 1 in
            if jl_skipping r then
              (r\<lparr>jl_skipping := False, jl_len := 0\<rparr>, LINES_TOO_LONG, i', None)
            else
              (let (r, line) = take_record r in
               if line \<noteq> None then (r, LINES_RECORD, i', line)
               else lines_feed_loop r data i')))
      else (r, LINES_NEED_MORE, length data, None))"
  by pat_completeness auto
termination
  by (relation "measure (\<lambda>(r, data, i). length data - i)") (auto split: option.splits)

declare lines_feed_loop.simps [simp del]

definition jkii_lines_feed ::
    "jkii_lines \<Rightarrow> string \<Rightarrow> jkii_lines \<times> lines_err \<times> nat \<times> string option" where
  "jkii_lines_feed r data = lines_feed_loop (drop_returned r) data 0"

definition jkii_lines_finish :: "jkii_lines \<Rightarrow> jkii_lines \<times> lines_err \<times> string option" where
  "jkii_lines_finish r =
     (let r = drop_returned r in
      if jl_skipping r then (r\<lparr>jl_skipping := False, jl_len := 0\<rparr>, LINES_TOO_LONG, None)
      else
        (let (r, line) = take_record r in
         if line \<noteq> None then (r, LINES_TRUNCATED, line) else (r, LINES_END, None)))"

section \<open>The specification\<close>

text \<open>
  What the data says, byte by byte, with no buffer: \<open>limit\<close> is how long a line may be and
  \<open>p\<close> the line so far.  A line ends at a newline; one too long is reported as such, a blank
  one is left out and any other is a record, without a CR at its end.
\<close>

definition strip_cr :: "string \<Rightarrow> string" where
  "strip_cr s = (if s \<noteq> [] \<and> last s = CR then butlast s else s)"

definition line_event :: "nat \<Rightarrow> string \<Rightarrow> (lines_err \<times> string option) list" where
  "line_event limit p =
     (if length p > limit then [(LINES_TOO_LONG, None)]
      else if blank (strip_cr p) then [] else [(LINES_RECORD, Some (strip_cr p))])"

fun lines_spec :: "nat \<Rightarrow> string \<Rightarrow> string \<Rightarrow> (lines_err \<times> string option) list \<times> string" where
  "lines_spec limit p [] = ([], p)"
| "lines_spec limit p (c # d) =
     (if c = LF then (let (es, q) = lines_spec limit [] d in (line_event limit p @ es, q))
      else lines_spec limit (p @ [c]) d)"

lemma lines_spec_append:
  "lines_spec limit p (a @ b) =
     (let (es, q) = lines_spec limit p a; (es', q') = lines_spec limit q b in (es @ es', q'))"
  by (induction a arbitrary: p) (auto split: prod.splits)

lemma lines_spec_no_newline: "LF \<notin> set d \<Longrightarrow> lines_spec limit p d = ([], p @ d)"
  by (induction d arbitrary: p) auto

lemma lines_spec_newline:
  "LF \<notin> set d \<Longrightarrow> lines_spec limit p (d @ LF # e) =
     (let (es, q) = lines_spec limit [] e in (line_event limit (p @ d) @ es, q))"
  by (simp add: lines_spec_append lines_spec_no_newline split: prod.splits)

section \<open>The reader stands for a line so far\<close>

abbreviation lines_limit :: "jkii_lines \<Rightarrow> nat" where
  "lines_limit r \<equiv> jl_buff_size r - 1"

definition lines_wf :: "jkii_lines \<Rightarrow> bool" where
  "lines_wf r \<longleftrightarrow> length (jl_buff r) = jl_buff_size r \<and> jl_buff_size r \<le> size_max"

definition lines_rep :: "jkii_lines \<Rightarrow> string \<Rightarrow> bool" where
  "lines_rep r p \<longleftrightarrow> lines_wf r \<and> \<not> jl_returned r \<and>
     (if length p > lines_limit r then jl_skipping r \<and> jl_len r = 0
      else \<not> jl_skipping r \<and> jl_len r = length p \<and> take (length p) (jl_buff r) = p)"

lemma keep_part_rep:
  assumes "lines_rep r p"
  shows "lines_rep (keep_part r s) (p @ s) \<and> jl_buff_size (keep_part r s) = jl_buff_size r"
proof (cases "s = [] \<or> length p > lines_limit r")
  case True
  with assms show ?thesis by (auto simp: lines_rep_def keep_part_def lines_wf_def)
next
  case False
  with assms have p: "\<not> jl_skipping r" "jl_len r = length p" "take (length p) (jl_buff r) = p"
      "s \<noteq> []" "length p \<le> lines_limit r" "lines_wf r" "\<not> jl_returned r"
    by (auto simp: lines_rep_def)
  then have room: "(if jl_buff_size r > 0 then usub (usub (jl_buff_size r) 1) (jl_len r) else 0) =
      lines_limit r - length p"
    by auto
  have b: "take (length p + length s) (mem_write (jl_buff r) (length p) s) = p @ s"
    if "length p + length s \<le> lines_limit r"
    using that p by (simp add: lines_wf_def take_mem_write)
  show ?thesis
    using p b unfolding keep_part_def Let_def room
    by (auto simp: lines_rep_def lines_wf_def)
qed

lemma take_record_rep:
  assumes "lines_rep r p" "\<not> jl_skipping r"
  shows "case take_record r of
      (r', None) \<Rightarrow> blank (strip_cr p) \<and> lines_rep r' []
    | (r', Some line) \<Rightarrow> \<not> blank (strip_cr p) \<and> line = strip_cr p \<and> lines_wf r' \<and> jl_returned r' \<and>
        \<not> jl_skipping r'"
    "jl_buff_size (fst (take_record r)) = jl_buff_size r"
proof -
  let ?n = "if jl_len r > 0 \<and> jl_buff r ! (jl_len r - 1) = CR then jl_len r - 1 else jl_len r"
  from assms have p: "jl_len r = length p" "take (length p) (jl_buff r) = p"
      "length p \<le> lines_limit r" "lines_wf r" "\<not> jl_returned r"
    by (auto simp: lines_rep_def split: if_splits)
  have l: "p \<noteq> [] \<Longrightarrow> jl_buff r ! (length p - 1) = last p"
    using p(2) by (metis diff_less last_conv_nth length_greater_0_conv nth_take zero_less_one)
  then have n: "take ?n (jl_buff r) = strip_cr p"
    using p(1,2) by (auto simp: strip_cr_def butlast_conv_take min_def take_Cons' dest: arg_cong [of _ _ "take (length p - 1)"])
  have le: "?n \<le> length p" using p(1) by auto
  obtain m where m: "m = ?n" by blast
  have tr: "take_record r = (if blank (take m (jl_buff r)) then (r\<lparr>jl_len := 0\<rparr>, None)
      else (r\<lparr>jl_buff := mem_write (jl_buff r) m [NUL], jl_returned := True\<rparr>,
            Some (take m (jl_buff r))))"
    by (simp only: take_record_def Let_def m)
  show "jl_buff_size (fst (take_record r)) = jl_buff_size r"
    by (simp add: take_record_def Let_def)
  show "case take_record r of
      (r', None) \<Rightarrow> blank (strip_cr p) \<and> lines_rep r' []
    | (r', Some line) \<Rightarrow> \<not> blank (strip_cr p) \<and> line = strip_cr p \<and> lines_wf r' \<and> jl_returned r' \<and>
        \<not> jl_skipping r'"
  proof (cases "blank (strip_cr p)")
    case True
    with assms p n show ?thesis
      unfolding tr m by (simp add: lines_rep_def lines_wf_def)
  next
    case False
    then have "strip_cr p \<noteq> []" by (auto simp: blank_def)
    then have "p \<noteq> []" by (auto simp: strip_cr_def)
    with p(3,4) le have "?n + length [NUL] \<le> length (jl_buff r)" by (cases p) (auto simp: lines_wf_def)
    then have "length (mem_write (jl_buff r) m [NUL]) = length (jl_buff r)"
      unfolding m by (rule length_mem_write)
    with False assms p n show ?thesis
      unfolding tr m [symmetric] by (simp add: lines_wf_def)
  qed
qed

lemma drop_returned_rep:
  assumes "lines_wf r" "jl_returned r" "\<not> jl_skipping r"
  shows "lines_rep (drop_returned r) []"
  using assms by (simp add: lines_rep_def drop_returned_def lines_wf_def)

lemma drop_returned_id: "\<not> jl_returned r \<Longrightarrow> drop_returned r = r"
  by (simp add: drop_returned_def)

text \<open>What the feed loop does, by the first newline that ends a record or a long line.\<close>

definition lines_ready :: "jkii_lines \<Rightarrow> bool" where
  "lines_ready r \<longleftrightarrow> lines_wf r \<and> (jl_returned r \<longrightarrow> \<not> jl_skipping r)"

lemma lines_rep_ready: "lines_rep r [] \<Longrightarrow> lines_ready r \<and> drop_returned r = r"
  by (simp add: lines_rep_def lines_ready_def drop_returned_def)

lemma lines_feed_loop_spec:
  assumes "lines_rep r p" "i \<le> length data"
  shows "case lines_feed_loop r data i of (r', e, n, line) \<Rightarrow>
    jl_buff_size r' = jl_buff_size r \<and> n \<le> length data \<and>
    (if e = LINES_NEED_MORE
     then n = length data \<and> line = None \<and>
       (\<exists>q. lines_rep r' q \<and> lines_spec (lines_limit r) p (drop i data) = ([], q))
     else i < n \<and> lines_ready r' \<and> lines_rep (drop_returned r') [] \<and>
       (\<forall>es q. lines_spec (lines_limit r) [] (drop n data) = (es, q) \<longrightarrow>
          lines_spec (lines_limit r) p (drop i data) = ((e, line) # es, q)))"
  using assms
proof (induction "length data - i" arbitrary: r i p rule: less_induct)
  case less
  show ?case
  proof (cases "i < length data")
    case False
    with less.prems show ?thesis by (subst lines_feed_loop.simps) auto
  next
    case True
    show ?thesis
    proof (cases "memchr (drop i data) LF")
      case None
      let ?r = "keep_part r (drop i data)"
      have "lines_feed_loop r data i = (?r, LINES_NEED_MORE, length data, None)"
        using True None by (subst lines_feed_loop.simps) (simp add: Let_def del: memchr_None)
      with None keep_part_rep [OF less.prems(1)] lines_spec_no_newline show ?thesis by auto
    next
      case (Some k)
      let ?s = "take k (drop i data)" and ?d = "drop (i + k + 1) data"
      let ?r = "keep_part r ?s"
      have k: "k < length data - i" "LF \<notin> set ?s" using Some by (auto simp: memchr_Some)
      have d: "drop i data = ?s @ LF # ?d"
        using memchr_split [OF Some] by (simp add: add.commute)
      have n: "i + k + 1 \<le> length data" using k by simp
      note kr = keep_part_rep [OF less.prems(1), of ?s]
      have sp: "lines_spec (lines_limit r) p (drop i data) =
          (let (es, q) = lines_spec (lines_limit r) [] ?d in
           (line_event (lines_limit r) (p @ ?s) @ es, q))"
        by (subst d) (rule lines_spec_newline [OF k(2)])
      show ?thesis
      proof (cases "jl_skipping ?r")
        case sk: True
        then have "lines_feed_loop r data i =
            (?r\<lparr>jl_skipping := False, jl_len := 0\<rparr>, LINES_TOO_LONG, i + k + 1, None)"
          using True Some by (subst lines_feed_loop.simps) (simp add: Let_def)
        moreover have "line_event (lines_limit r) (p @ ?s) = [(LINES_TOO_LONG, None)]"
          using sk kr by (auto simp: lines_rep_def line_event_def split: if_splits)
        moreover have "lines_rep (?r\<lparr>jl_skipping := False, jl_len := 0\<rparr>) []"
          using kr by (simp add: lines_rep_def lines_wf_def)
        moreover have "jl_buff_size ?r = jl_buff_size r" using kr by simp
        ultimately show ?thesis using n sp lines_rep_ready by simp
      next
        case sk: False
        note tr = take_record_rep [OF conjunct1 [OF kr] sk]
        obtain r' line where t: "take_record ?r = (r', line)" by (cases "take_record ?r")
        have le: "length (p @ ?s) \<le> lines_limit r"
          using sk kr by (auto simp: lines_rep_def split: if_splits)
        show ?thesis
        proof (cases line)
          case (Some l)
          then have "lines_feed_loop r data i = (r', LINES_RECORD, i + k + 1, Some l)"
            using True \<open>memchr _ _ = _\<close> sk t by (subst lines_feed_loop.simps) (simp add: Let_def)
          moreover have "line_event (lines_limit r) (p @ ?s) = [(LINES_RECORD, Some l)]"
            using tr(1) t Some le by (auto simp: line_event_def)
          moreover have "lines_wf r'" "jl_returned r'" "\<not> jl_skipping r'"
              "jl_buff_size r' = jl_buff_size r"
            using tr t Some kr by auto
          ultimately show ?thesis
            using n sp drop_returned_rep [of r'] by (simp add: lines_ready_def)
        next
          case None
          then have "lines_feed_loop r data i = lines_feed_loop r' data (i + k + 1)"
            using True \<open>memchr _ _ = _\<close> sk t by (subst lines_feed_loop.simps) (simp add: Let_def)
          moreover have "line_event (lines_limit r) (p @ ?s) = []"
            using tr(1) t None le by (auto simp: line_event_def)
          moreover have "lines_rep r' []" "jl_buff_size r' = jl_buff_size r"
            using tr t None kr by auto
          ultimately show ?thesis
            using sp less.hyps [of "i + k + 1" r' "[]"] n True k(1)
            by (simp add: diff_less_mono2 split: prod.splits if_splits)
        qed
      qed
    qed
  qed
qed

section \<open>A reader fed to the end\<close>

lemma lines_feed_loop_newline:
  assumes "memchr (drop i data) LF = Some k" "i < length data"
  shows "lines_feed_loop r data i =
    (let r1 = keep_part r (take k (drop i data)) in
     if jl_skipping r1 then
       (r1\<lparr>jl_skipping := False, jl_len := 0\<rparr>, LINES_TOO_LONG, i + k + 1, None)
     else case take_record r1 of (r2, line) \<Rightarrow>
       if line \<noteq> None then (r2, LINES_RECORD, i + k + 1, line)
       else lines_feed_loop r2 data (i + k + 1))"
  using assms by (subst lines_feed_loop.simps) (simp add: Let_def split: prod.split)

lemma lines_feed_loop_progress:
  "lines_feed_loop r data i = (r', e, n, line) \<Longrightarrow> e \<noteq> LINES_NEED_MORE \<Longrightarrow> i < n"
proof (induction "length data - i" arbitrary: r i rule: less_induct)
  case less
  then have i: "i < length data"
    by (subst (asm) (1) lines_feed_loop.simps) (auto split: if_splits)
  show ?case
  proof (cases "memchr (drop i data) LF")
    case None
    with i less.prems show ?thesis
      by (subst (asm) (1) lines_feed_loop.simps) (simp add: Let_def del: memchr_None)
  next
    case (Some k)
    have k: "k < length data - i" using Some by (auto simp: memchr_Some)
    have "i < n" if "lines_feed_loop r2 data (i + k + 1) = (r', e, n, line)" for r2
      using less.hyps [OF _ that less.prems(2)] k by (simp add: diff_less_mono2)
    then show ?thesis
      using less.prems(1) lines_feed_loop_newline [OF Some i, of r]
      by (auto simp: Let_def split: if_splits prod.splits)
  qed
qed

text \<open>
  The caller feeds a piece, and what was not consumed again, until the reader needs more: the
  events, in order.
\<close>

function feed_all :: "jkii_lines \<Rightarrow> string \<Rightarrow> jkii_lines \<times> (lines_err \<times> string option) list" where
  "feed_all r data =
     (case jkii_lines_feed r data of (r', e, n, line) \<Rightarrow>
        if e = LINES_NEED_MORE then (r', [])
        else if n = 0 \<or> length data < n then (r', [])
        else (case feed_all r' (drop n data) of (r'', es) \<Rightarrow> (r'', (e, line) # es)))"
  by pat_completeness auto
termination
  by (relation "measure (\<lambda>(r, data). length data)") auto

declare feed_all.simps [simp del]

fun feed_pieces :: "jkii_lines \<Rightarrow> string list \<Rightarrow> jkii_lines \<times> (lines_err \<times> string option) list" where
  "feed_pieces r [] = (r, [])"
| "feed_pieces r (d # ds) =
     (let (r', es) = feed_all r d; (r'', es') = feed_pieces r' ds in (r'', es @ es'))"

lemma lines_feed_spec:
  assumes "lines_ready r" "lines_rep (drop_returned r) p"
  shows "case jkii_lines_feed r data of (r', e, n, line) \<Rightarrow>
    jl_buff_size r' = jl_buff_size r \<and> n \<le> length data \<and>
    (if e = LINES_NEED_MORE
     then \<exists>q. lines_rep r' q \<and> lines_spec (lines_limit r) p data = ([], q)
     else 0 < n \<and> lines_ready r' \<and> lines_rep (drop_returned r') [] \<and>
       (\<forall>es q. lines_spec (lines_limit r) [] (drop n data) = (es, q) \<longrightarrow>
          lines_spec (lines_limit r) p data = ((e, line) # es, q)))"
proof -
  have "jl_buff_size (drop_returned r) = jl_buff_size r" by (simp add: drop_returned_def)
  with lines_feed_loop_spec [OF assms(2), of 0 data] show ?thesis
    by (simp add: jkii_lines_feed_def split: prod.splits if_splits)
qed

lemma lines_rep_ready_any: "lines_rep r p \<Longrightarrow> lines_ready r \<and> drop_returned r = r"
  by (simp add: lines_rep_def lines_ready_def drop_returned_def)

lemma feed_all_spec:
  assumes "lines_ready r" "lines_rep (drop_returned r) p"
  shows "\<exists>q. lines_spec (lines_limit r) p data = (snd (feed_all r data), q) \<and>
    lines_rep (fst (feed_all r data)) q \<and> jl_buff_size (fst (feed_all r data)) = jl_buff_size r"
  using assms
proof (induction "length data" arbitrary: r p data rule: less_induct)
  case less
  obtain r' e n line where f: "jkii_lines_feed r data = (r', e, n, line)" by (metis prod_cases4)
  note sp = lines_feed_spec [OF less.prems, of data, unfolded f prod.case]
  show ?case
  proof (cases "e = LINES_NEED_MORE")
    case True
    with f have "feed_all r data = (r', [])" by (subst feed_all.simps) simp
    with sp True show ?thesis by auto
  next
    case False
    with sp have n: "0 < n" "n \<le> length data" and r': "lines_ready r'" "lines_rep (drop_returned r') []"
        "jl_buff_size r' = jl_buff_size r" by auto
    have "length (drop n data) < length data" using n by simp
    from less.hyps [OF this r'(1,2)] obtain q where
      q: "lines_spec (lines_limit r) [] (drop n data) = (snd (feed_all r' (drop n data)), q)"
        "lines_rep (fst (feed_all r' (drop n data))) q"
        "jl_buff_size (fst (feed_all r' (drop n data))) = jl_buff_size r"
      using r'(3) by auto
    have "feed_all r data = (fst (feed_all r' (drop n data)), (e, line) # snd (feed_all r' (drop n data)))"
      using f False n by (subst feed_all.simps) (simp split: prod.split)
    with q sp False show ?thesis by auto
  qed
qed

lemma feed_pieces_spec:
  assumes "lines_rep r p"
  shows "\<exists>q. lines_spec (lines_limit r) p (concat ds) = (snd (feed_pieces r ds), q) \<and>
    lines_rep (fst (feed_pieces r ds)) q \<and> jl_buff_size (fst (feed_pieces r ds)) = jl_buff_size r"
  using assms
proof (induction ds arbitrary: r p)
  case Nil
  then show ?case by auto
next
  case (Cons d ds)
  obtain r' es where d: "feed_all r d = (r', es)" by (cases "feed_all r d")
  from feed_all_spec [of r p d] lines_rep_ready_any [OF Cons.prems] Cons.prems d obtain q where
    q: "lines_spec (lines_limit r) p d = (es, q)" "lines_rep r' q" "jl_buff_size r' = jl_buff_size r"
    by auto
  from Cons.IH [OF q(2)] q d show ?case
    by (auto simp: lines_spec_append split: prod.splits)
qed

section \<open>Properties\<close>



end
