(* ===== verification/Jkii_Writer.thy ===== *)
theory Jkii_Writer
  imports Ebisu_Prelude
begin

text \<open>
  jkii/src/jkii\_writer.c: JSON written into a buffer, or out through a callback.

  \<open>w_buff\<close> is \<open>None\<close> for NULL.  The write callback is the caller's code: \<open>w_cb\<close> gives, from
  the pieces it was given before and the piece it is given now, how much it takes, which
  stands for any callback with a state of its own; \<open>w_given\<close> lists the pieces.
  \<open>w_total\<close> is a natural number: the text would have to pass \<open>2^64\<close> bytes for the code's
  \<open>size_t\<close> to wrap.  Each operation returns the writer, whose \<open>w_err\<close> is what the code
  returns.  \<open>jkii_write_double\<close>, which computes in floating point, is left out.
\<close>

unbundle bit_operations_syntax

section \<open>The code\<close>

datatype write_err =
    WRITE_OK | WRITE_ERR_TOO_LARGE | WRITE_ERR_STRUCTURE | WRITE_ERR_TOO_DEEP
  | WRITE_ERR_VALUE | WRITE_ERR_CALLBACK

definition LEVEL_OBJECT :: u8 where "LEVEL_OBJECT = 0x1"
definition LEVEL_HAS_MEMBER :: u8 where "LEVEL_HAS_MEMBER = 0x2"
definition LEVEL_AFTER_KEY :: u8 where "LEVEL_AFTER_KEY = 0x4"

definition MAX_DEPTH :: nat where "MAX_DEPTH = 16"

record jkii_writer =
  w_buff :: "char list option"
  w_buff_size :: nat
  w_used :: nat
  w_total :: nat
  w_cb :: "(string list \<Rightarrow> string \<Rightarrow> nat) option"
  w_given :: "string list"
  w_err :: write_err
  w_depth :: nat
  w_levels :: "u8 list"
  w_top_done :: bool
  w_records :: nat

definition jkii_writer_init_buff :: "char list option \<Rightarrow> nat \<Rightarrow> jkii_writer" where
  "jkii_writer_init_buff buff buff_size =
     (let sz = (if buff \<noteq> None then buff_size else 0) in
      \<lparr>w_buff = (if sz > 0 then map_option (\<lambda>b. mem_write b 0 [NUL]) buff else buff),
       w_buff_size = sz, w_used = 0, w_total = 0, w_cb = None, w_given = [], w_err = WRITE_OK,
       w_depth = 0, w_levels = replicate MAX_DEPTH 0, w_top_done = False, w_records = 0\<rparr>)"

definition jkii_writer_init_cb ::
    "char list option \<Rightarrow> nat \<Rightarrow> (string list \<Rightarrow> string \<Rightarrow> nat) option \<Rightarrow> jkii_writer" where
  "jkii_writer_init_cb buff buff_size cb =
     \<lparr>w_buff = buff, w_buff_size = buff_size, w_used = 0, w_total = 0, w_cb = cb, w_given = [],
      w_err = (if buff = None \<or> buff_size = 0 \<or> cb = None then WRITE_ERR_CALLBACK else WRITE_OK),
      w_depth = 0, w_levels = replicate MAX_DEPTH 0, w_top_done = False, w_records = 0\<rparr>"

definition stopped :: "jkii_writer \<Rightarrow> bool" where
  "stopped w \<longleftrightarrow> w_err w \<noteq> WRITE_OK \<and> w_err w \<noteq> WRITE_ERR_TOO_LARGE"

definition w_fail :: "jkii_writer \<Rightarrow> write_err \<Rightarrow> jkii_writer" where
  "w_fail w err = (if \<not> stopped w then w\<lparr>w_err := err\<rparr> else w)"

text \<open>The bytes of the buffer; there are none where it is NULL.\<close>

definition w_bytes :: "jkii_writer \<Rightarrow> char list" where
  "w_bytes w = (case w_buff w of None \<Rightarrow> [] | Some b \<Rightarrow> b)"

definition w_flush :: "jkii_writer \<Rightarrow> jkii_writer" where
  "w_flush w =
     (let w =
        (if w_used w > 0 \<and> \<not> stopped w then
           (let s = take (w_used w) (w_bytes w);
                taken = (case w_cb w of Some cb \<Rightarrow> cb (w_given w) s | None \<Rightarrow> 0);
                w = w\<lparr>w_given := w_given w @ [s]\<rparr>
            in if taken \<noteq> w_used w then w_fail w WRITE_ERR_CALLBACK else w)
         else w)
      in w\<lparr>w_used := 0\<rparr>)"

definition w_copy :: "jkii_writer \<Rightarrow> string \<Rightarrow> jkii_writer" where
  "w_copy w s =
     w\<lparr>w_buff := map_option (\<lambda>b. mem_write b (w_used w) s) (w_buff w),
       w_used := w_used w + length s\<rparr>"

text \<open>
  The loop that fills the buffer and flushes it.  It ends because a writer out through a
  callback that is not stopped has a buffer with room: \<open>part = 0\<close> does not happen, and the
  loop would not end if it did.
\<close>

function w_put_cb :: "jkii_writer \<Rightarrow> string \<Rightarrow> jkii_writer" where
  "w_put_cb w s =
     (if length s > 0 \<and> \<not> stopped w then
        (let room = usub (w_buff_size w) (w_used w);
             part = (if length s < room then length s else room);
             w = w_copy w (take part s);
             w = (if w_used w = w_buff_size w then w_flush w else w)
         in if part = 0 then w else w_put_cb w (drop part s))
      else w)"
  by pat_completeness auto
termination
  by (relation "measure (\<lambda>(w, s). length s)") auto

declare w_put_cb.simps [simp del]

definition w_put :: "jkii_writer \<Rightarrow> string \<Rightarrow> jkii_writer" where
  "w_put w s =
     (if stopped w \<or> length s = 0 then w
      else
        (let w = w\<lparr>w_total := w_total w + length s\<rparr> in
         if w_cb w \<noteq> None then w_put_cb w s
         else if w_buff w = None \<or> w_err w = WRITE_ERR_TOO_LARGE then w
         else if length s \<ge> usub (w_buff_size w) (w_used w) then w\<lparr>w_err := WRITE_ERR_TOO_LARGE\<rparr>
         else
           (let w = w_copy w s
            in w\<lparr>w_buff := map_option (\<lambda>b. mem_write b (w_used w) [NUL]) (w_buff w)\<rparr>)))"

definition level :: "jkii_writer \<Rightarrow> u8" where
  "level w = w_levels w ! (w_depth w - 1)"

definition set_level :: "jkii_writer \<Rightarrow> u8 \<Rightarrow> jkii_writer" where
  "set_level w l = w\<lparr>w_levels := (w_levels w)[w_depth w - 1 := l]\<rparr>"

definition begin_value :: "jkii_writer \<Rightarrow> jkii_writer" where
  "begin_value w =
     (if stopped w then w
      else if w_depth w = 0 then (if w_top_done w then w_fail w WRITE_ERR_STRUCTURE else w)
      else if level w AND LEVEL_OBJECT \<noteq> 0 then
        (if level w AND LEVEL_AFTER_KEY = 0 then w_fail w WRITE_ERR_STRUCTURE
         else set_level w (level w AND NOT LEVEL_AFTER_KEY))
      else
        (let w = (if level w AND LEVEL_HAS_MEMBER \<noteq> 0 then w_put w '','' else w)
         in set_level w (level w OR LEVEL_HAS_MEMBER)))"

definition end_value :: "jkii_writer \<Rightarrow> jkii_writer" where
  "end_value w = (if w_depth w = 0 \<and> \<not> stopped w then w\<lparr>w_top_done := True\<rparr> else w)"

definition w_start :: "jkii_writer \<Rightarrow> u8 \<Rightarrow> string \<Rightarrow> jkii_writer" where
  "w_start w kind opn =
     (let w = begin_value w in
      if w_err w \<noteq> WRITE_OK \<and> stopped w then w
      else if w_depth w = MAX_DEPTH then w_fail w WRITE_ERR_TOO_DEEP
      else
        (let w = w\<lparr>w_levels := (w_levels w)[w_depth w := kind], w_depth := w_depth w + 1\<rparr>
         in w_put w opn))"

definition w_end :: "jkii_writer \<Rightarrow> u8 \<Rightarrow> string \<Rightarrow> jkii_writer" where
  "w_end w kind cls =
     (if stopped w then w
      else if w_depth w = 0 then w_fail w WRITE_ERR_STRUCTURE
      else if level w AND LEVEL_OBJECT \<noteq> kind \<or> level w AND LEVEL_AFTER_KEY \<noteq> 0
        then w_fail w WRITE_ERR_STRUCTURE
      else
        (let w = w\<lparr>w_depth := w_depth w - 1\<rparr>;
             w = w_put w cls
         in end_value w))"

definition jkii_write_object_start :: "jkii_writer \<Rightarrow> jkii_writer" where
  "jkii_write_object_start w = w_start w LEVEL_OBJECT ''{''"

definition jkii_write_object_end :: "jkii_writer \<Rightarrow> jkii_writer" where
  "jkii_write_object_end w = w_end w LEVEL_OBJECT ''}''"

definition jkii_write_array_start :: "jkii_writer \<Rightarrow> jkii_writer" where
  "jkii_write_array_start w = w_start w 0 ''[''"

definition jkii_write_array_end :: "jkii_writer \<Rightarrow> jkii_writer" where
  "jkii_write_array_end w = w_end w 0 '']''"

text \<open>How a byte is escaped, or \<open>None\<close> where it goes out as it is.\<close>

definition json_hex :: "nat \<Rightarrow> char" where
  "json_hex n = ''0123456789abcdef'' ! n"

definition escape_of :: "char \<Rightarrow> string option" where
  "escape_of c =
     (let n = code c; bs = CHR 0x5C in
      if n = 0x22 \<or> n = 0x2F \<or> n = 0x5C then Some [bs, c]
      else if n = 0x08 then Some [bs, CHR ''b'']
      else if n = 0x0C then Some [bs, CHR ''f'']
      else if n = 0x0A then Some [bs, CHR ''n'']
      else if n = 0x0D then Some [bs, CHR ''r'']
      else if n = 0x09 then Some [bs, CHR ''t'']
      else if n \<ge> 0x20 then None
      else Some [bs, CHR ''u'', CHR ''0'', CHR ''0'', json_hex (n div 16), json_hex (n mod 16)])"

text \<open>The loop: \<open>run\<close> is what came since the last escape and has not gone out.\<close>

fun put_escaped_loop :: "jkii_writer \<Rightarrow> string \<Rightarrow> string \<Rightarrow> jkii_writer" where
  "put_escaped_loop w run [] = w_put w run"
| "put_escaped_loop w run (c # s) =
     (case escape_of c of
        None \<Rightarrow> put_escaped_loop w (run @ [c]) s
      | Some esc \<Rightarrow> put_escaped_loop (w_put (w_put w run) esc) [] s)"

definition put_escaped :: "jkii_writer \<Rightarrow> string \<Rightarrow> jkii_writer" where
  "put_escaped w s =
     (let w = w_put w [CHR 0x22];
          w = put_escaped_loop w [] s
      in w_put w [CHR 0x22])"

definition jkii_write_key :: "jkii_writer \<Rightarrow> string option \<Rightarrow> jkii_writer" where
  "jkii_write_key w key =
     (if stopped w then w
      else case key of
        None \<Rightarrow> w_fail w WRITE_ERR_VALUE
      | Some k \<Rightarrow>
          if w_depth w = 0 then w_fail w WRITE_ERR_STRUCTURE
          else if level w AND LEVEL_OBJECT = 0 \<or> level w AND LEVEL_AFTER_KEY \<noteq> 0
            then w_fail w WRITE_ERR_STRUCTURE
          else
            (let w = (if level w AND LEVEL_HAS_MEMBER \<noteq> 0 then w_put w '','' else w);
                 w = set_level w (level w OR (LEVEL_HAS_MEMBER OR LEVEL_AFTER_KEY));
                 w = put_escaped w k
             in w_put w '':''))"

definition jkii_write_string_n :: "jkii_writer \<Rightarrow> string option \<Rightarrow> nat \<Rightarrow> jkii_writer" where
  "jkii_write_string_n w s n =
     (if s = None \<and> n > 0 then w_fail w WRITE_ERR_VALUE
      else
        (let w = begin_value w in
         if w_err w \<noteq> WRITE_OK \<and> stopped w then w
         else end_value (put_escaped w (case s of None \<Rightarrow> [] | Some t \<Rightarrow> take n t))))"

definition jkii_write_string :: "jkii_writer \<Rightarrow> string option \<Rightarrow> jkii_writer" where
  "jkii_write_string w s =
     (case s of None \<Rightarrow> w_fail w WRITE_ERR_VALUE
      | Some t \<Rightarrow> jkii_write_string_n w s (length t))"

text \<open>The digits, which the code collects lowest first and then turns round.\<close>

function decimal_loop :: "nat \<Rightarrow> string \<Rightarrow> string" where
  "decimal_loop v digits =
     (let digits = digits @ [char_of (48 + v mod 10)]; v = v div 10 in
      if v \<noteq> 0 then decimal_loop v digits else digits)"
  by pat_completeness auto
termination
  by (relation "measure fst") auto

declare decimal_loop.simps [simp del]

definition decimal :: "u64 \<Rightarrow> string" where
  "decimal v = rev (decimal_loop (unat v) [])"

definition write_number :: "jkii_writer \<Rightarrow> bool \<Rightarrow> u64 \<Rightarrow> jkii_writer" where
  "write_number w negative magnitude =
     (let w = begin_value w in
      if w_err w \<noteq> WRITE_OK \<and> stopped w then w
      else
        (let w = (if negative then w_put w ''-'' else w);
             w = w_put w (decimal magnitude)
         in end_value w))"

definition jkii_write_int :: "jkii_writer \<Rightarrow> int \<Rightarrow> jkii_writer" where
  "jkii_write_int w v =
     (let magnitude = (if v < 0 then word_of_int (- (v + 1)) + 1 else word_of_int v)
      in write_number w (v < 0) magnitude)"

definition jkii_write_uint :: "jkii_writer \<Rightarrow> u64 \<Rightarrow> jkii_writer" where
  "jkii_write_uint w v = write_number w False v"

definition write_literal :: "jkii_writer \<Rightarrow> string \<Rightarrow> jkii_writer" where
  "write_literal w literal =
     (let w = begin_value w in
      if w_err w \<noteq> WRITE_OK \<and> stopped w then w else end_value (w_put w literal))"

definition jkii_write_bool :: "jkii_writer \<Rightarrow> bool \<Rightarrow> jkii_writer" where
  "jkii_write_bool w v = write_literal w (if v then ''true'' else ''false'')"

definition jkii_write_null :: "jkii_writer \<Rightarrow> jkii_writer" where
  "jkii_write_null w = write_literal w ''null''"

definition jkii_write_raw :: "jkii_writer \<Rightarrow> string option \<Rightarrow> jkii_writer" where
  "jkii_write_raw w json =
     (case json of
        None \<Rightarrow> w_fail w WRITE_ERR_VALUE
      | Some s \<Rightarrow>
          if length s = 0 then w_fail w WRITE_ERR_VALUE
          else
            (let w = begin_value w in
             if w_err w \<noteq> WRITE_OK \<and> stopped w then w else end_value (w_put w s)))"

definition jkii_write_record_end :: "jkii_writer \<Rightarrow> jkii_writer" where
  "jkii_write_record_end w =
     (if stopped w then w
      else if w_depth w > 0 \<or> \<not> w_top_done w then w_fail w WRITE_ERR_STRUCTURE
      else (let w = w_put w [LF] in w\<lparr>w_top_done := False, w_records := w_records w + 1\<rparr>))"

text \<open>The writer, and what the code writes to \<open>*out_len\<close>.\<close>

definition jkii_writer_finish :: "jkii_writer \<Rightarrow> jkii_writer \<times> nat" where
  "jkii_writer_finish w =
     (let w = (if \<not> stopped w \<and> (w_depth w > 0 \<or> (\<not> w_top_done w \<and> w_records w = 0))
               then w_fail w WRITE_ERR_STRUCTURE else w);
          w = (if w_cb w \<noteq> None then w_flush w else w)
      in (w, w_total w))"

section \<open>The text so far\<close>

text \<open>
  \<open>w_inv\<close> is the invariant of a writer set up properly, and \<open>w_rep w t\<close> says that a writer
  not stopped has written the text \<open>t\<close>: it has counted it, and where it has not run out of
  room it has kept it, in the buffer and with what it gave the callback.
\<close>

definition w_inv :: "jkii_writer \<Rightarrow> bool" where
  "w_inv w \<longleftrightarrow> length (w_levels w) = MAX_DEPTH \<and> w_depth w \<le> MAX_DEPTH \<and>
     length (w_bytes w) = w_buff_size w \<and> w_buff_size w \<le> size_max \<and>
     (if w_cb w \<noteq> None
      then w_buff w \<noteq> None \<and> w_used w < w_buff_size w \<and> w_err w \<noteq> WRITE_ERR_TOO_LARGE
      else w_given w = [] \<and>
        (if w_buff_size w = 0 then w_used w = 0
         else w_used w < w_buff_size w \<and> w_bytes w ! w_used w = NUL))"

definition w_kept :: "jkii_writer \<Rightarrow> string" where
  "w_kept w = concat (w_given w) @ take (w_used w) (w_bytes w)"

definition w_rep :: "jkii_writer \<Rightarrow> string \<Rightarrow> bool" where
  "w_rep w t \<longleftrightarrow> \<not> stopped w \<and> w_total w = length t \<and>
     (w_buff w \<noteq> None \<longrightarrow>
        (if w_err w = WRITE_OK then w_kept w = t else w_buff_size w \<le> length t \<and> t \<noteq> []))"

text \<open>What output leaves alone.\<close>

definition same_frame :: "jkii_writer \<Rightarrow> jkii_writer \<Rightarrow> bool" where
  "same_frame v w \<longleftrightarrow> w_depth v = w_depth w \<and> w_levels v = w_levels w \<and>
     w_top_done v = w_top_done w \<and> w_records v = w_records w \<and> w_cb v = w_cb w \<and>
     w_buff_size v = w_buff_size w \<and> (w_buff v = None \<longleftrightarrow> w_buff w = None)"

text \<open>Output that stopped did so because the callback did not take all it was given.\<close>

definition refuses :: "(string list \<Rightarrow> string \<Rightarrow> nat) option \<Rightarrow> bool" where
  "refuses c \<longleftrightarrow> (\<exists>cb given s. c = Some cb \<and> cb given s \<noteq> length s)"

lemma refuses_None [simp]: "\<not> refuses None"
  by (simp add: refuses_def)

abbreviation refusing :: "jkii_writer \<Rightarrow> bool" where
  "refusing w \<equiv> refuses (w_cb w)"

definition put_ok :: "jkii_writer \<Rightarrow> jkii_writer \<Rightarrow> string \<Rightarrow> bool" where
  "put_ok w w' t \<longleftrightarrow> w_inv w' \<and> same_frame w' w \<and>
     (if stopped w' then refusing w \<and> w_err w' = WRITE_ERR_CALLBACK else w_rep w' t)"

lemma same_frame_refl [simp]: "same_frame w w"
  by (simp add: same_frame_def)

lemma same_frame_trans: "same_frame u v \<Longrightarrow> same_frame v w \<Longrightarrow> same_frame u w"
  by (simp add: same_frame_def)

lemma w_bytes_Some [simp]: "w_buff w = Some b \<Longrightarrow> w_bytes w = b"
  by (simp add: w_bytes_def)

lemma w_copy_simps [simp]:
  "w_err (w_copy w s) = w_err w" "w_given (w_copy w s) = w_given w" "w_cb (w_copy w s) = w_cb w"
  "w_total (w_copy w s) = w_total w" "w_buff_size (w_copy w s) = w_buff_size w"
  "w_used (w_copy w s) = w_used w + length s" "w_depth (w_copy w s) = w_depth w"
  "w_levels (w_copy w s) = w_levels w" "w_top_done (w_copy w s) = w_top_done w"
  "w_records (w_copy w s) = w_records w" "w_buff (w_copy w s) = None \<longleftrightarrow> w_buff w = None"
  "stopped (w_copy w s) = stopped w"
  by (simp_all add: w_copy_def stopped_def)

lemma w_copy_bytes:
  assumes "w_used w + length s \<le> length (w_bytes w)"
  shows "length (w_bytes (w_copy w s)) = length (w_bytes w)"
    "take (w_used w + length s) (w_bytes (w_copy w s)) = take (w_used w) (w_bytes w) @ s"
  using assms by (auto simp: w_copy_def w_bytes_def take_mem_write split: option.split)

lemma w_flush_kept:
  assumes "0 < w_used w" "w_used w \<le> length (w_bytes w)" "w_cb w = Some cb" "\<not> stopped w"
  shows "same_frame (w_flush w) w" "w_used (w_flush w) = 0" "w_total (w_flush w) = w_total w"
    "w_bytes (w_flush w) = w_bytes w" "w_kept (w_flush w) = w_kept w"
    "w_err (w_flush w) = w_err w \<or> refusing w \<and> w_err (w_flush w) = WRITE_ERR_CALLBACK"
proof -
  have "cb (w_given w) (take (w_used w) (w_bytes w)) \<noteq> w_used w \<Longrightarrow> refusing w"
    using assms(2,3) unfolding refuses_def by (metis length_take min.absorb2)
  with assms
  show "w_err (w_flush w) = w_err w \<or> refusing w \<and> w_err (w_flush w) = WRITE_ERR_CALLBACK"
    by (auto simp: w_flush_def Let_def w_fail_def)
qed (use assms in \<open>auto simp: w_flush_def Let_def w_fail_def same_frame_def w_bytes_def w_kept_def
    stopped_def\<close>)

lemma refusing_frame: "same_frame v w \<Longrightarrow> refusing v = refusing w"
  by (simp add: same_frame_def)

lemma w_put_cb_spec:
  assumes "w_inv w" "w_cb w \<noteq> None" "\<not> stopped w"
  shows "w_inv (w_put_cb w s) \<and> same_frame (w_put_cb w s) w \<and> w_total (w_put_cb w s) = w_total w \<and>
    (if stopped (w_put_cb w s) then refusing w \<and> w_err (w_put_cb w s) = WRITE_ERR_CALLBACK
     else w_kept (w_put_cb w s) = w_kept w @ s)"
  using assms
proof (induction "length s" arbitrary: w s rule: less_induct)
  case less
  show ?case
  proof (cases "s = []")
    case True
    with less.prems show ?thesis by (subst (1 2 3 4 5 6) w_put_cb.simps) simp
  next
    case False
    have fr: "w_used w < w_buff_size w" "length (w_bytes w) = w_buff_size w" "w_err w = WRITE_OK"
        "w_buff w \<noteq> None" "w_buff_size w \<le> size_max"
      using less.prems by (auto simp: w_inv_def stopped_def)
    obtain part where p: "part = (if length s < w_buff_size w - w_used w then length s
        else w_buff_size w - w_used w)" by blast
    then have part: "0 < part" "part \<le> length s" "w_used w + part \<le> w_buff_size w"
      using False fr by auto
    obtain c where c: "c = w_copy w (take part s)" by blast
    have lt: "length (take part s) = part" using part by simp
    note cb = w_copy_bytes [of w "take part s", unfolded lt, folded c]
    have cs: "w_used c = w_used w + part" "w_cb c = w_cb w" "\<not> stopped c" "same_frame c w"
        "w_total c = w_total w" "w_err c = WRITE_OK" "length (w_bytes c) = w_buff_size c"
        "w_kept c = w_kept w @ take part s" "w_given c = w_given w"
      using less.prems part cb fr by (auto simp: c lt same_frame_def w_kept_def)
    obtain w1 where w1: "w1 = (if w_used c = w_buff_size c then w_flush c else c)" by blast
    obtain f where f: "w_cb c = Some f" using cs(2) less.prems by auto
    have fl: "same_frame w1 w" "w_total w1 = w_total w" "w_kept w1 = w_kept w @ take part s"
      "w_err w1 = WRITE_OK \<or> refusing w \<and> w_err w1 = WRITE_ERR_CALLBACK" "w_inv w1"
    proof -
      have g: "0 < w_used c" "w_used c \<le> length (w_bytes c)" using cs part fr by (auto simp: c)
      note k = w_flush_kept [OF g f cs(3)]
      show "same_frame w1 w" using k(1) cs(4) same_frame_trans by (auto simp: w1)
      then show "w_inv w1"
        using less.prems(1,2) cs k(2,4,6) part fr
        by (auto simp: w_inv_def same_frame_def w1 split: if_splits)
      show "w_total w1 = w_total w" "w_kept w1 = w_kept w @ take part s"
        "w_err w1 = WRITE_OK \<or> refusing w \<and> w_err w1 = WRITE_ERR_CALLBACK"
        using k cs refusing_frame [OF cs(4)] by (auto simp: w1)
    qed
    have room: "usub (w_buff_size w) (w_used w) = w_buff_size w - w_used w" using fr by simp
    have eq: "w_put_cb w s = w_put_cb w1 (drop part s)"
      using False less.prems(3) part(1)
      by (subst w_put_cb.simps) (simp add: Let_def room p [symmetric] c [symmetric] w1)
    show ?thesis
    proof (cases "stopped w1")
      case True
      then have "w_put_cb w s = w1" unfolding eq by (subst w_put_cb.simps) simp
      with fl True show ?thesis by (auto simp: stopped_def)
    next
      case False
      have "length (drop part s) < length s" using part by simp
      from less.hyps [OF this fl(5) _ False] fl(1-3) refusing_frame [OF fl(1)] show ?thesis
        using less.prems(2) unfolding eq by (auto simp: same_frame_def)
    qed
  qed
qed

lemma put_rep:
  assumes "w_inv w" "w_rep w t"
  shows "put_ok w (w_put w s) (t @ s)"
proof (cases "s = []")
  case True
  with assms show ?thesis by (simp add: w_put_def put_ok_def w_rep_def)
next
  case s: False
  let ?w = "w\<lparr>w_total := w_total w + length s\<rparr>"
  have ns: "\<not> stopped w" using assms by (simp add: w_rep_def)
  have b: "w_bytes ?w = w_bytes w" by (simp add: w_bytes_def)
  show ?thesis
  proof (cases "w_cb w")
    case (Some cb)
    then have "w_put w s = w_put_cb ?w s" using s ns by (simp add: w_put_def)
    moreover have "w_inv ?w" "\<not> stopped ?w" "w_kept ?w = w_kept w" "same_frame ?w w"
      using assms ns b by (auto simp: w_inv_def stopped_def w_kept_def same_frame_def)
    moreover have "w_err w = WRITE_OK" "w_buff w \<noteq> None"
      using assms Some ns by (auto simp: w_inv_def stopped_def)
    ultimately show ?thesis
      using w_put_cb_spec [of ?w s] Some assms
      by (auto simp: put_ok_def w_rep_def w_inv_def stopped_def same_frame_def refuses_def)
  next
    case None
    consider (dry) "w_buff w = None \<or> w_err w = WRITE_ERR_TOO_LARGE"
      | (full) "w_buff w \<noteq> None" "w_err w = WRITE_OK" "length s \<ge> usub (w_buff_size w) (w_used w)"
      | (fits) "w_buff w \<noteq> None" "w_err w = WRITE_OK" "\<not> length s \<ge> usub (w_buff_size w) (w_used w)"
      using ns unfolding stopped_def by blast
    then show ?thesis
    proof cases
      case dry
      then have "w_put w s = ?w" using s ns None by (auto simp: w_put_def)
      with assms dry b show ?thesis
        by (auto simp: put_ok_def w_rep_def w_inv_def stopped_def same_frame_def)
    next
      case full
      then have "w_put w s = ?w\<lparr>w_err := WRITE_ERR_TOO_LARGE\<rparr>" using s ns None by (auto simp: w_put_def)
      moreover have "w_buff_size w \<le> length t + length s"
      proof (cases "w_buff_size w = 0")
        case False
        then have "length (w_kept w) = w_used w" "w_used w < w_buff_size w"
          using assms None by (auto simp: w_inv_def w_kept_def)
        with assms full show ?thesis by (simp add: w_rep_def)
      qed simp
      moreover have "w_bytes (?w\<lparr>w_err := WRITE_ERR_TOO_LARGE\<rparr>) = w_bytes w"
        by (simp add: w_bytes_def)
      ultimately show ?thesis
        using assms s None full by (auto simp: put_ok_def w_rep_def w_inv_def stopped_def same_frame_def)
    next
      case fits
      then obtain bb where bb: "w_buff w = Some bb" by auto
      have sz: "w_buff_size w \<noteq> 0" "w_used w < w_buff_size w"
        using fits(3) assms(1) None by (auto simp: w_inv_def split: if_splits)
      with fits have l: "w_used w + length s < w_buff_size w" by simp
      let ?b = "mem_write (mem_write bb (w_used w) s) (w_used w + length s) [NUL]"
      have lb: "length bb = w_buff_size w" using assms bb by (simp add: w_inv_def)
      have e: "w_put w s = ?w\<lparr>w_buff := Some ?b, w_used := w_used w + length s\<rparr>"
        using s ns None fits bb by (simp add: w_put_def w_copy_def)
      have "take (w_used w + length s) ?b = take (w_used w) bb @ s"
        using l lb by (simp add: mem_simps)
      moreover have "?b ! (w_used w + length s) = NUL" using l lb by (simp add: nth_mem_write_one)
      moreover have "length ?b = w_buff_size w" using l lb by simp
      ultimately show ?thesis
        using assms bb None fits l lb unfolding e
        by (auto simp: put_ok_def w_rep_def w_inv_def stopped_def same_frame_def w_kept_def)
    qed
  qed
qed

end
