(* ===== verification/Jkii_Json.thy ===== *)
theory Jkii_Json
  imports Jkii_Writer Ebisu_Str
begin

text \<open>
  What the JSON writer promises: an abstract writer of JSON values, which the code's writer
  refines, into a buffer or out through a callback alike.
\<close>

unbundle bit_operations_syntax

section \<open>The JSON written\<close>

text \<open>A JSON value as written; a scalar is its text.\<close>

datatype json = J_scalar string | J_array "json list" | J_object "(string \<times> json) list"

definition json_string :: "string \<Rightarrow> string" where
  "json_string s = [CHR 0x22] @
     concat (map (\<lambda>c. case escape_of c of None \<Rightarrow> [c] | Some e \<Rightarrow> e) s) @ [CHR 0x22]"

fun sep :: "string list \<Rightarrow> string" where
  "sep [] = []"
| "sep [x] = x"
| "sep (x # y # xs) = x @ '','' @ sep (y # xs)"

abbreviation commas :: "string list \<Rightarrow> string" where
  "commas xs \<equiv> concat (map (\<lambda>x. x @ '','') xs)"

fun json_text :: "json \<Rightarrow> string" where
  "json_text (J_scalar s) = s"
| "json_text (J_array js) = ''['' @ sep (map json_text js) @ '']''"
| "json_text (J_object ms) = ''{'' @ sep (map (\<lambda>(k, j). json_string k @ '':'' @ json_text j) ms) @ ''}''"

abbreviation member_text :: "string \<times> json \<Rightarrow> string" where
  "member_text m \<equiv> json_string (fst m) @ '':'' @ json_text (snd m)"

lemma json_text_object [simp]: "json_text (J_object ms) = ''{'' @ sep (map member_text ms) @ ''}''"
  by (simp add: case_prod_unfold)

declare json_text.simps(3) [simp del]

lemma sep_snoc: "sep (xs @ [x]) = commas xs @ x"
proof (induction xs)
  case (Cons y ys)
  then show ?case by (cases ys) auto
qed simp

text \<open>
  The abstract writer: the records ended, the value whole at the tp, and the containers open,
  innermost first, an object perhaps with a key waiting for its value.
\<close>

datatype frame = F_array "json list" | F_object "(string \<times> json) list" "string option"

type_synonym astate = "json list \<times> json option \<times> frame list"

fun hole_text :: "frame list \<Rightarrow> string" where
  "hole_text [] = []"
| "hole_text (F_array js # fs) = hole_text fs @ ''['' @ commas (map json_text js)"
| "hole_text (F_object ms k # fs) = hole_text fs @ ''{'' @ commas (map member_text ms) @
     (case k of None \<Rightarrow> [] | Some k \<Rightarrow> json_string k @ '':'')"

fun open_text :: "frame list \<Rightarrow> string" where
  "open_text [] = []"
| "open_text (F_array js # fs) = hole_text fs @ ''['' @ sep (map json_text js)"
| "open_text (F_object ms None # fs) = hole_text fs @ ''{'' @ sep (map member_text ms)"
| "open_text (F_object ms (Some k) # fs) = hole_text (F_object ms (Some k) # fs)"

abbreviation records_text :: "json list \<Rightarrow> string" where
  "records_text js \<equiv> concat (map (\<lambda>j. json_text j @ [LF]) js)"

fun astate_text :: "astate \<Rightarrow> string" where
  "astate_text (rs, tp, fs) =
     records_text rs @ (case tp of None \<Rightarrow> [] | Some j \<Rightarrow> json_text j) @ open_text fs"

fun accepts :: "astate \<Rightarrow> bool" where
  "accepts (rs, tp, []) \<longleftrightarrow> tp = None"
| "accepts (rs, tp, F_array js # fs) \<longleftrightarrow> True"
| "accepts (rs, tp, F_object ms k # fs) \<longleftrightarrow> k \<noteq> None"

fun add_value :: "astate \<Rightarrow> json \<Rightarrow> astate" where
  "add_value (rs, tp, []) j = (rs, Some j, [])"
| "add_value (rs, tp, F_array js # fs) j = (rs, tp, F_array (js @ [j]) # fs)"
| "add_value (rs, tp, F_object ms k # fs) j =
     (rs, tp, F_object (ms @ [(case k of None \<Rightarrow> [] | Some k \<Rightarrow> k, j)]) None # fs)"

datatype write_op =
    W_object_start | W_object_end | W_array_start | W_array_end | W_key "string option"
  | W_string "string option" | W_int int | W_uint u64 | W_bool bool | W_null
  | W_raw "string option" | W_record_end

fun write_step :: "jkii_writer \<Rightarrow> write_op \<Rightarrow> jkii_writer" where
  "write_step w W_object_start = jkii_write_object_start w"
| "write_step w W_object_end = jkii_write_object_end w"
| "write_step w W_array_start = jkii_write_array_start w"
| "write_step w W_array_end = jkii_write_array_end w"
| "write_step w (W_key k) = jkii_write_key w k"
| "write_step w (W_string s) = jkii_write_string w s"
| "write_step w (W_int v) = jkii_write_int w v"
| "write_step w (W_uint v) = jkii_write_uint w v"
| "write_step w (W_bool b) = jkii_write_bool w b"
| "write_step w W_null = jkii_write_null w"
| "write_step w (W_raw s) = jkii_write_raw w s"
| "write_step w W_record_end = jkii_write_record_end w"

definition int_text :: "int \<Rightarrow> string" where
  "int_text v = (if v < 0 then ''-'' else []) @
     decimal (if v < 0 then word_of_int (- (v + 1)) + 1 else word_of_int v)"

definition push :: "astate \<Rightarrow> frame \<Rightarrow> write_err + astate" where
  "push a f = (case a of (rs, tp, fs) \<Rightarrow>
     if \<not> accepts a then Inl WRITE_ERR_STRUCTURE
     else if length fs = MAX_DEPTH then Inl WRITE_ERR_TOO_DEEP
     else Inr (rs, tp, f # fs))"

definition scalar :: "astate \<Rightarrow> string \<Rightarrow> write_err + astate" where
  "scalar a s = (if accepts a then Inr (add_value a (J_scalar s)) else Inl WRITE_ERR_STRUCTURE)"

text \<open>What each operation does to it, or the error it gives.\<close>

fun astep :: "astate \<Rightarrow> write_op \<Rightarrow> write_err + astate" where
  "astep a W_object_start = push a (F_object [] None)"
| "astep a W_array_start = push a (F_array [])"
| "astep a W_object_end =
     (case a of (rs, tp, F_object ms None # fs) \<Rightarrow> Inr (add_value (rs, tp, fs) (J_object ms))
      | _ \<Rightarrow> Inl WRITE_ERR_STRUCTURE)"
| "astep a W_array_end =
     (case a of (rs, tp, F_array js # fs) \<Rightarrow> Inr (add_value (rs, tp, fs) (J_array js))
      | _ \<Rightarrow> Inl WRITE_ERR_STRUCTURE)"
| "astep a (W_key k) =
     (case k of None \<Rightarrow> Inl WRITE_ERR_VALUE
      | Some k \<Rightarrow>
          (case a of (rs, tp, F_object ms None # fs) \<Rightarrow> Inr (rs, tp, F_object ms (Some k) # fs)
           | _ \<Rightarrow> Inl WRITE_ERR_STRUCTURE))"
| "astep a (W_string s) =
     (case s of None \<Rightarrow> Inl WRITE_ERR_VALUE | Some s \<Rightarrow> scalar a (json_string s))"
| "astep a (W_int v) = scalar a (int_text v)"
| "astep a (W_uint v) = scalar a (decimal v)"
| "astep a (W_bool b) = scalar a (if b then ''true'' else ''false'')"
| "astep a W_null = scalar a ''null''"
| "astep a (W_raw s) =
     (case s of None \<Rightarrow> Inl WRITE_ERR_VALUE
      | Some s \<Rightarrow> if s = [] then Inl WRITE_ERR_VALUE else scalar a s)"
| "astep a W_record_end =
     (case a of (rs, Some j, []) \<Rightarrow> Inr (rs @ [j], None, []) | _ \<Rightarrow> Inl WRITE_ERR_STRUCTURE)"

section \<open>The writer refines it\<close>

fun inner_level :: "frame \<Rightarrow> u8" where
  "inner_level (F_array js) = (if js = [] then 0 else 2)"
| "inner_level (F_object ms None) = (if ms = [] then 1 else 3)"
| "inner_level (F_object ms (Some k)) = 7"

fun outer_level :: "frame \<Rightarrow> u8" where
  "outer_level (F_array js) = 2"
| "outer_level (F_object ms k) = 3"

abbreviation open_levels :: "jkii_writer \<Rightarrow> u8 list" where
  "open_levels w \<equiv> rev (take (w_depth w) (w_levels w))"

fun levels_of :: "frame list \<Rightarrow> u8 list" where
  "levels_of [] = []"
| "levels_of (f # fs) = inner_level f # map outer_level fs"

text \<open>Every container but the innermost waits for a value, and so does the top.\<close>

fun astate_ok :: "astate \<Rightarrow> bool" where
  "astate_ok (rs, tp, fs) \<longleftrightarrow> (fs \<noteq> [] \<longrightarrow> tp = None) \<and>
     list_all (\<lambda>f. accepts (rs, tp, [f])) (tl fs)"

definition writes :: "jkii_writer \<Rightarrow> astate \<Rightarrow> bool" where
  "writes w a \<longleftrightarrow> w_inv w \<and> w_rep w (astate_text a) \<and> astate_ok a \<and>
     (case a of (rs, tp, fs) \<Rightarrow> open_levels w = levels_of fs \<and>
        (w_top_done w \<longleftrightarrow> tp \<noteq> None) \<and> w_records w = length rs)"

text \<open>A writer that has begun a value.\<close>

definition awaits :: "jkii_writer \<Rightarrow> astate \<Rightarrow> string \<Rightarrow> bool" where
  "awaits w a t \<longleftrightarrow> w_inv w \<and> astate_ok a \<and> accepts a \<and>
     (case a of (rs, tp, fs) \<Rightarrow> w_rep w (records_text rs @ hole_text fs @ t) \<and>
        open_levels w = map outer_level fs \<and>
        (w_top_done w \<longleftrightarrow> tp \<noteq> None) \<and> w_records w = length rs)"

text \<open>A writer that stopped: by the callback, or by an error perhaps.\<close>

definition cb_failed :: "jkii_writer \<Rightarrow> bool" where
  "cb_failed w \<longleftrightarrow> refusing w \<and> w_err w = WRITE_ERR_CALLBACK"

definition gave_up :: "jkii_writer \<Rightarrow> write_err \<Rightarrow> bool" where
  "gave_up w e \<longleftrightarrow> stopped w \<and> (w_err w = e \<or> cb_failed w)"

lemma cb_failed_stopped: "cb_failed w \<Longrightarrow> stopped w"
  by (simp add: cb_failed_def stopped_def)

lemma cb_failed_gave_up: "cb_failed w \<Longrightarrow> gave_up w e"
  by (simp add: gave_up_def cb_failed_stopped)

lemma level_open:
  assumes "w_inv w" "open_levels w = l # ls"
  shows "level w = l" "0 < w_depth w" "w_depth w = Suc (length ls)"
proof -
  have "length (open_levels w) = w_depth w" using assms(1) by (simp add: w_inv_def)
  with assms(2) show d: "w_depth w = Suc (length ls)" by simp
  then show "0 < w_depth w" by simp
  have "open_levels w ! 0 = take (w_depth w) (w_levels w) ! (w_depth w - 1)"
    using d assms(1) by (subst rev_nth) (simp_all add: w_inv_def)
  also have "\<dots> = level w" using d by (simp add: level_def)
  finally show "level w = l" using assms(2) by simp
qed

lemma set_level_open:
  assumes "w_inv w" "open_levels w = l # ls"
  shows "open_levels (set_level w k) = k # ls"
proof -
  note d = level_open(3) [OF assms]
  have "take (w_depth w) (w_levels w) = rev ls @ [l]" using assms(2) by (metis rev.simps(2) rev_rev_ident)
  then have "take (w_depth w) ((w_levels w)[w_depth w - 1 := k]) = rev ls @ [k]"
    using d by (simp add: take_update_swap list_update_append)
  then show ?thesis by (simp add: set_level_def)
qed

lemma set_level_keeps [simp]:
  "w_inv (set_level w k) = w_inv w" "w_rep (set_level w k) t = w_rep w t"
  "w_top_done (set_level w k) = w_top_done w" "w_records (set_level w k) = w_records w"
  "w_cb (set_level w k) = w_cb w" "w_err (set_level w k) = w_err w"
  "stopped (set_level w k) = stopped w" "w_depth (set_level w k) = w_depth w"
  by (auto simp: set_level_def w_inv_def w_rep_def stopped_def w_kept_def w_bytes_def)

lemma level_bits:
  "(0 :: u8) AND LEVEL_OBJECT = 0" "(2 :: u8) AND LEVEL_OBJECT = 0" "(1 :: u8) AND LEVEL_OBJECT \<noteq> 0"
  "(3 :: u8) AND LEVEL_OBJECT \<noteq> 0" "(7 :: u8) AND LEVEL_OBJECT \<noteq> 0"
  "(1 :: u8) AND LEVEL_OBJECT = LEVEL_OBJECT" "(3 :: u8) AND LEVEL_OBJECT = LEVEL_OBJECT"
  "(7 :: u8) AND LEVEL_OBJECT = LEVEL_OBJECT" "LEVEL_OBJECT \<noteq> 0"
  "(0 :: u8) AND LEVEL_HAS_MEMBER = 0" "(2 :: u8) AND LEVEL_HAS_MEMBER \<noteq> 0"
  "(1 :: u8) AND LEVEL_HAS_MEMBER = 0" "(3 :: u8) AND LEVEL_HAS_MEMBER \<noteq> 0"
  "(1 :: u8) AND LEVEL_AFTER_KEY = 0" "(3 :: u8) AND LEVEL_AFTER_KEY = 0"
  "(0 :: u8) AND LEVEL_AFTER_KEY = 0" "(2 :: u8) AND LEVEL_AFTER_KEY = 0"
  "(7 :: u8) AND LEVEL_AFTER_KEY \<noteq> 0" "(7 :: u8) AND NOT LEVEL_AFTER_KEY = 3"
  "(0 :: u8) OR LEVEL_HAS_MEMBER = 2" "(2 :: u8) OR LEVEL_HAS_MEMBER = 2"
  "(1 :: u8) OR (LEVEL_HAS_MEMBER OR LEVEL_AFTER_KEY) = 7"
  "(3 :: u8) OR (LEVEL_HAS_MEMBER OR LEVEL_AFTER_KEY) = 7"
  by (simp_all add: LEVEL_OBJECT_def LEVEL_HAS_MEMBER_def LEVEL_AFTER_KEY_def)

lemma commas_sep: "commas xs = (if xs = [] then [] else sep xs @ '','')"
proof (cases xs rule: rev_cases)
  case (snoc ys y)
  then show ?thesis by (simp add: sep_snoc)
qed simp

lemma same_frame_open:
  "same_frame v w \<Longrightarrow> open_levels v = open_levels w \<and> level v = level w \<and>
     w_top_done v = w_top_done w \<and> w_records v = w_records w"
  by (simp add: same_frame_def level_def)

lemma fail_rep: "w_rep w t \<Longrightarrow> e \<noteq> WRITE_OK \<Longrightarrow> e \<noteq> WRITE_ERR_TOO_LARGE \<Longrightarrow> gave_up (w_fail w e) e"
  by (simp add: gave_up_def w_fail_def w_rep_def stopped_def)

lemma begin_value_rejects:
  assumes "writes w a" "\<not> accepts a"
  shows "gave_up (begin_value w) WRITE_ERR_STRUCTURE"
proof -
  obtain rs tp fs where a: "a = (rs, tp, fs)" by (metis prod_cases3)
  from assms have rep: "w_rep w (astate_text a)" "w_inv w" and lv: "open_levels w = levels_of fs"
    and top: "w_top_done w \<longleftrightarrow> tp \<noteq> None"
    by (auto simp: writes_def a)
  note fail = fail_rep [OF rep(1), of WRITE_ERR_STRUCTURE]
  have ns: "\<not> stopped w" using rep by (simp add: w_rep_def)
  show ?thesis
  proof (cases fs)
    case Nil
    then have "w_depth w = 0" using lv rep(2) by (auto simp: w_inv_def MAX_DEPTH_def)
    with Nil assms(2) a top ns fail show ?thesis by (simp add: begin_value_def)
  next
    case (Cons f gs)
    with assms(2) a obtain ms where f: "f = F_object ms None" by (cases f) auto
    note l = level_open [OF rep(2) lv [unfolded Cons levels_of.simps f]]
    from l ns fail show ?thesis
      by (cases "ms = []") (simp_all add: begin_value_def level_bits)
  qed
qed

lemma begin_value_accepts:
  assumes "writes w a" "accepts a"
  shows "awaits (begin_value w) a [] \<or> cb_failed (begin_value w)"
proof -
  obtain rs tp fs where a: "a = (rs, tp, fs)" by (metis prod_cases3)
  from assms have rep: "w_rep w (astate_text a)" "w_inv w" and lv: "open_levels w = levels_of fs"
    and ok: "astate_ok a" and top: "w_top_done w \<longleftrightarrow> tp \<noteq> None" and rec: "w_records w = length rs"
    by (auto simp: writes_def a)
  have ns: "\<not> stopped w" using rep by (simp add: w_rep_def)
  consider (top) "fs = []" "tp = None" | (arr) js gs where "fs = F_array js # gs" "tp = None"
    | (obj) ms k gs where "fs = F_object ms (Some k) # gs" "tp = None"
    using assms(2) ok a by (cases fs; cases "hd fs") auto
  then show ?thesis
  proof cases
    case top
    then have "w_depth w = 0" using lv rep(2) by (auto simp: w_inv_def MAX_DEPTH_def)
    with top ns have "begin_value w = w" using \<open>w_top_done w \<longleftrightarrow> tp \<noteq> None\<close> by (simp add: begin_value_def)
    with top rep lv ok \<open>w_top_done w \<longleftrightarrow> tp \<noteq> None\<close> rec show ?thesis by (simp add: awaits_def a)
  next
    case obj
    note l = level_open [OF rep(2) lv [unfolded obj levels_of.simps inner_level.simps]]
    have "begin_value w = set_level w 3" using l ns by (simp add: begin_value_def level_bits)
    moreover have "open_levels (set_level w 3) = 3 # map outer_level gs"
      by (rule set_level_open [OF rep(2)]) (simp add: lv obj)
    ultimately show ?thesis using obj rep ok top rec by (simp add: awaits_def a)
  next
    case arr
    note lv' = lv [unfolded arr levels_of.simps inner_level.simps]
    note l = level_open [OF rep(2) lv']
    obtain v where v: "v = (if js = [] then w else w_put w '','')" by blast
    have b: "begin_value w = set_level v 2"
    proof (cases "js = []")
      case True
      with l ns v show ?thesis
        by (simp add: begin_value_def LEVEL_OBJECT_def LEVEL_HAS_MEMBER_def)
    next
      case False
      then have "level v = level w"
        using put_rep [OF rep(2,1), of "'',''"] v same_frame_open by (simp add: put_ok_def)
      with False l ns v show ?thesis by (simp add: begin_value_def level_bits)
    qed
    have p: "put_ok w v (astate_text a @ (if js = [] then [] else '',''))"
      using put_rep [OF rep(2,1), of "'',''"] rep v by (auto simp: put_ok_def w_rep_def)
    then have sf: "open_levels v = open_levels w" "w_top_done v = w_top_done w"
        "w_records v = w_records w" "w_inv v"
      using same_frame_open by (auto simp: put_ok_def)
    have ol: "open_levels (set_level v 2) = 2 # map outer_level gs"
      by (rule set_level_open [OF sf(4)]) (simp add: sf(1) lv')
    have t: "astate_text a @ (if js = [] then [] else '','') = records_text rs @ hole_text fs"
      using commas_sep [of "map json_text js"] by (simp add: a arr)
    show ?thesis
    proof (cases "stopped v")
      case True
      with p show ?thesis by (auto simp: b cb_failed_def put_ok_def same_frame_def)
    next
      case False
      with p t have "w_rep v (records_text rs @ hole_text fs)" by (simp add: put_ok_def)
      then show ?thesis using ol sf ok top rec arr by (simp add: awaits_def a b)
    qed
  qed
qed

lemma awaits_put:
  assumes "awaits w a t"
  shows "awaits (w_put w s) a (t @ s) \<or> cb_failed (w_put w s)"
proof -
  obtain rs tp fs where a: "a = (rs, tp, fs)" by (metis prod_cases3)
  from assms have "w_inv w" "w_rep w (records_text rs @ hole_text fs @ t)"
    by (auto simp: awaits_def a)
  note p = put_rep [OF this, of s]
  then have f: "same_frame (w_put w s) w" by (simp add: put_ok_def)
  show ?thesis
  proof (cases "stopped (w_put w s)")
    case True
    with p f show ?thesis by (simp add: put_ok_def cb_failed_def same_frame_def)
  next
    case False
    with p same_frame_open [OF f] assms show ?thesis by (simp add: awaits_def a put_ok_def)
  qed
qed

text \<open>Once the callback has failed, nothing changes.\<close>

lemma cb_failed_put [simp]: "cb_failed w \<Longrightarrow> w_put w s = w"
  by (simp add: cb_failed_stopped w_put_def)

lemma cb_failed_end [simp]: "cb_failed w \<Longrightarrow> end_value w = w"
  by (simp add: cb_failed_stopped end_value_def)

lemma end_value_writes:
  assumes "awaits w a (json_text j)"
  shows "writes (end_value w) (add_value a j)"
proof -
  obtain rs tp fs where a: "a = (rs, tp, fs)" by (metis prod_cases3)
  from assms have rep: "w_rep w (records_text rs @ hole_text fs @ json_text j)" "w_inv w"
    and lv: "open_levels w = map outer_level fs" and ok: "astate_ok a" "accepts a"
    and top: "w_top_done w \<longleftrightarrow> tp \<noteq> None" and rec: "w_records w = length rs"
    by (auto simp: awaits_def a)
  have ns: "\<not> stopped w" using rep by (simp add: w_rep_def)
  have d: "w_depth w = length fs" using arg_cong [OF lv, of length] rep(2) by (simp add: w_inv_def)
  show ?thesis
  proof (cases fs)
    case Nil
    then have "end_value w = w\<lparr>w_top_done := True\<rparr>" using d ns by (simp add: end_value_def)
    with Nil rep lv ok rec a show ?thesis
      by (auto simp: writes_def w_inv_def w_rep_def w_kept_def w_bytes_def stopped_def)
  next
    case (Cons f gs)
    then have e: "end_value w = w" using d by (simp add: end_value_def)
    show ?thesis
    proof (cases f)
      case (F_array js)
      with Cons rep lv ok top rec a show ?thesis by (auto simp: e writes_def sep_snoc)
    next
      case (F_object ms k)
      with ok a Cons obtain k' where "k = Some k'" by auto
      with F_object Cons rep lv ok top rec a show ?thesis by (auto simp: e writes_def sep_snoc)
    qed
  qed
qed

definition refines :: "jkii_writer \<Rightarrow> write_err + astate \<Rightarrow> bool" where
  "refines w r \<longleftrightarrow>
     (case r of Inl e \<Rightarrow> gave_up w e | Inr a \<Rightarrow> writes w a \<or> cb_failed w)"

definition puts :: "jkii_writer \<Rightarrow> astate \<Rightarrow> string \<Rightarrow> bool" where
  "puts w a t \<longleftrightarrow> awaits w a t \<or> cb_failed w"

lemma puts_put: "puts w a t \<Longrightarrow> puts (w_put w s) a (t @ s)"
  using awaits_put [of w a t s] by (auto simp: puts_def)

lemma puts_end: "puts w a (json_text j) \<Longrightarrow> refines (end_value w) (Inr (add_value a j))"
  using end_value_writes [of w a j] by (auto simp: puts_def refines_def)

lemma put_escaped_loop_puts:
  "puts w a t \<Longrightarrow> puts (put_escaped_loop w run s) a
     (t @ run @ concat (map (\<lambda>c. case escape_of c of None \<Rightarrow> [c] | Some e \<Rightarrow> e) s))"
proof (induction s arbitrary: w run t)
  case Nil
  then show ?case by (simp add: puts_put)
next
  case (Cons c s)
  show ?case
  proof (cases "escape_of c")
    case None
    with Cons.IH [OF Cons.prems, of "run @ [c]"] show ?thesis by simp
  next
    case (Some e)
    have "puts (w_put (w_put w run) e) a ((t @ run) @ e)" by (intro puts_put Cons.prems)
    from Cons.IH [OF this, of "[]"] Some show ?thesis by simp
  qed
qed

lemma put_escaped_puts: "puts w a t \<Longrightarrow> puts (put_escaped w s) a (t @ json_string s)"
  using puts_put [OF put_escaped_loop_puts [OF puts_put, of w a t "[CHR 0x22]" "[]" s], of "[CHR 0x22]"]
  by (simp add: put_escaped_def json_string_def)

text \<open>The shape the scalars share: a value begun, its text, and the end of the value.\<close>

lemma begin_value_stops:
  assumes "writes w a"
  shows "if accepts a then puts (begin_value w) a [] else gave_up (begin_value w) WRITE_ERR_STRUCTURE"
  using begin_value_accepts [OF assms] begin_value_rejects [OF assms] by (auto simp: puts_def)

lemma puts_stopped: "puts w a t \<Longrightarrow> stopped w \<longleftrightarrow> cb_failed w"
  by (auto simp: puts_def awaits_def w_rep_def cb_failed_stopped split: prod.splits)

lemma scalar_refines:
  assumes w: "writes w a" and f: "\<And>v. puts v a [] \<Longrightarrow> puts (f v) a s"
  shows "refines (let v = begin_value w in
      if w_err v \<noteq> WRITE_OK \<and> stopped v then v else end_value (f v)) (scalar a s)"
proof (cases "accepts a")
  case False
  with begin_value_stops [OF w] have "gave_up (begin_value w) WRITE_ERR_STRUCTURE" by simp
  with False show ?thesis
    by (auto simp: scalar_def refines_def gave_up_def stopped_def Let_def)
next
  case True
  with begin_value_stops [OF w] have p: "puts (begin_value w) a []" by simp
  show ?thesis
  proof (cases "stopped (begin_value w)")
    case st: True
    then have "cb_failed (begin_value w)" using puts_stopped [OF p] by simp
    with st True show ?thesis by (simp add: scalar_def refines_def Let_def stopped_def)
  next
    case False
    have "puts (f (begin_value w)) a (json_text (J_scalar s))" using f [OF p] by simp
    from puts_end [OF this] False True show ?thesis by (simp add: scalar_def)
  qed
qed

lemma value_refines:
  assumes w: "writes w a"
  shows "refines (jkii_write_int w v) (scalar a (int_text v))"
    "refines (jkii_write_uint w u) (scalar a (decimal u))"
    "refines (write_literal w s) (scalar a s)"
    "refines (jkii_write_string_n w (Some z) (length z)) (scalar a (json_string z))"
proof -
  have *: "puts x a [] \<Longrightarrow> puts (w_put x t) a t" for x t using puts_put [of x a "[]" t] by simp
  have **: "puts x a [] \<Longrightarrow> puts (w_put (w_put x t) t') a (t @ t')" for x t t'
    using puts_put [OF *] by blast
  note sc = scalar_refines [OF w, unfolded Let_def]
  show "refines (jkii_write_int w v) (scalar a (int_text v))"
    unfolding jkii_write_int_def write_number_def int_text_def Let_def
    by (rule sc, cases "v < 0") (simp_all add: * ** del: append_Cons)
  show "refines (jkii_write_uint w u) (scalar a (decimal u))"
    unfolding jkii_write_uint_def write_number_def Let_def by (rule sc) (simp add: *)
  show "refines (write_literal w s) (scalar a s)"
    unfolding write_literal_def Let_def by (rule sc) (rule *)
  have e: "puts x a [] \<Longrightarrow> puts (put_escaped x z) a (json_string z)" for x
    using put_escaped_puts [of x a "[]" z] by simp
  have eq: "jkii_write_string_n w (Some z) (length z) = (if w_err (begin_value w) \<noteq> WRITE_OK \<and>
      stopped (begin_value w) then begin_value w else end_value (put_escaped (begin_value w) z))"
    by (simp add: jkii_write_string_n_def Let_def)
  show "refines (jkii_write_string_n w (Some z) (length z)) (scalar a (json_string z))"
    unfolding eq by (rule sc) (rule e)
qed

lemma fail_refines:
  assumes "writes w a" "e \<noteq> WRITE_OK" "e \<noteq> WRITE_ERR_TOO_LARGE"
  shows "refines (w_fail w e) (Inl e)"
  using fail_rep [of w "astate_text a" e] assms by (simp add: refines_def writes_def)

lemma awaits_depth:
  assumes "awaits w (rs, tp, fs) t"
  shows "w_depth w = length fs"
proof -
  from assms have "open_levels w = map outer_level fs" "w_inv w" by (auto simp: awaits_def)
  from arg_cong [OF this(1), of length] this(2) show ?thesis by (simp add: w_inv_def)
qed

lemma accepts_Cons: "accepts (rs, tp, f # fs) = accepts (rs, tp, [f])"
  by (cases f) auto

lemma push_open:
  assumes "w_depth w < length (w_levels w)"
  shows "open_levels (w\<lparr>w_levels := (w_levels w)[w_depth w := k], w_depth := w_depth w + 1\<rparr>) =
    k # open_levels w"
  using assms by (simp add: take_Suc_conv_app_nth)

lemma start_refines:
  assumes w: "writes w a" and f: "f = F_array [] \<and> opn = ''['' \<or> f = F_object [] None \<and> opn = ''{''"
  shows "refines (w_start w (inner_level f) opn) (push a f)"
proof -
  obtain rs tp fs where a: "a = (rs, tp, fs)" by (metis prod_cases3)
  let ?v = "begin_value w"
  show ?thesis
  proof (cases "accepts a")
    case False
    with begin_value_stops [OF w] have "gave_up ?v WRITE_ERR_STRUCTURE" by simp
    then show ?thesis
      using False a by (auto simp: w_start_def push_def refines_def gave_up_def stopped_def Let_def)
  next
    case acc: True
    with begin_value_stops [OF w] have p: "puts ?v a []" by simp
    show ?thesis
    proof (cases "stopped ?v")
      case True
      then have "cb_failed ?v" using puts_stopped [OF p] by simp
      with True acc a show ?thesis
        by (auto simp: w_start_def push_def refines_def Let_def stopped_def cb_failed_gave_up)
    next
      case ns: False
      then have aw: "awaits ?v a []" using p puts_stopped [OF p] by (auto simp: puts_def)
      then have d: "w_depth ?v = length fs" using awaits_depth a by simp
      from aw have rep: "w_inv ?v" "w_rep ?v (records_text rs @ hole_text fs)"
          "open_levels ?v = map outer_level fs" "w_top_done ?v \<longleftrightarrow> tp \<noteq> None"
          "w_records ?v = length rs" "astate_ok a"
        by (auto simp: awaits_def a)
      show ?thesis
      proof (cases "length fs = MAX_DEPTH")
        case True
        then show ?thesis
          using ns d acc a fail_rep [OF rep(2), of WRITE_ERR_TOO_DEEP]
          by (simp add: w_start_def push_def refines_def Let_def)
      next
        case False
        let ?u = "?v\<lparr>w_levels := (w_levels ?v)[w_depth ?v := inner_level f],
            w_depth := w_depth ?v + 1\<rparr>"
        have lt: "w_depth ?v < length (w_levels ?v)" "length (w_levels ?v) = MAX_DEPTH"
          using False d rep(1) by (auto simp: w_inv_def)
        have u: "w_inv ?u" "w_rep ?u (records_text rs @ hole_text fs)"
          using rep(1,2) lt by (auto simp: w_inv_def w_rep_def w_bytes_def w_kept_def stopped_def)
        note put = put_rep [OF u, of opn]
        have tx: "(records_text rs @ hole_text fs) @ opn = astate_text (rs, tp, f # fs)"
          using f acc rep(6) a by (cases fs) auto
        have ok: "astate_ok (rs, tp, f # fs)"
          using acc rep(6) a accepts_Cons [of rs tp "hd fs" "tl fs"] by (cases fs) auto
        have e: "w_start w (inner_level f) opn = w_put ?u opn"
          using ns d False by (simp add: w_start_def Let_def)
        have pu: "push a f = Inr (rs, tp, f # fs)" using acc False a by (simp add: push_def)
        show ?thesis
        proof (cases "stopped (w_put ?u opn)")
          case True
          with put show ?thesis
            by (auto simp: e pu refines_def put_ok_def cb_failed_def same_frame_def)
        next
          case False
          have fr: "same_frame (w_put ?u opn) ?u" using put by (simp add: put_ok_def)
          have "open_levels (w_put ?u opn) = levels_of (f # fs)"
            using same_frame_open [OF fr] push_open [OF lt(1), of "inner_level f"] rep(3) by simp
          moreover have "w_rep (w_put ?u opn) (astate_text (rs, tp, f # fs))"
            using put False unfolding tx by (simp add: put_ok_def)
          moreover have "w_top_done (w_put ?u opn) \<longleftrightarrow> tp \<noteq> None" "w_records (w_put ?u opn) = length rs"
            using fr rep(4,5) by (simp_all add: same_frame_def)
          moreover have "w_inv (w_put ?u opn)" using put by (simp add: put_ok_def)
          ultimately have "writes (w_put ?u opn) (rs, tp, f # fs)"
            using ok unfolding writes_def by (simp only: prod.case)
          then show ?thesis by (simp add: e pu refines_def)
        qed
      qed
    qed
  qed
qed

lemma pop_open:
  assumes "w_inv w" "open_levels w = l # ls"
  shows "open_levels (w\<lparr>w_depth := w_depth w - 1\<rparr>) = ls"
proof -
  note d = level_open(3) [OF assms]
  have "take (w_depth w) (w_levels w) = rev ls @ [l]" using assms(2) by (metis rev.simps(2) rev_rev_ident)
  then have "take (w_depth w - 1) (take (w_depth w) (w_levels w)) = rev ls" using d by simp
  then have "take (w_depth w - 1) (w_levels w) = rev ls" by (simp add: min_def)
  then show ?thesis by simp
qed

lemma writes_levels:
  assumes "writes w (rs, tp, fs)"
  shows "fs = [] \<Longrightarrow> w_depth w = 0" "fs = f # gs \<Longrightarrow> level w = inner_level f \<and> 0 < w_depth w"
    "\<not> stopped w"
proof -
  from assms have lv: "open_levels w = levels_of fs" "w_inv w" and "\<not> stopped w"
    by (auto simp: writes_def w_rep_def)
  then show "\<not> stopped w" by simp
  show "fs = [] \<Longrightarrow> w_depth w = 0" using lv by (auto simp: w_inv_def MAX_DEPTH_def)
  show "fs = f # gs \<Longrightarrow> level w = inner_level f \<and> 0 < w_depth w"
    using level_open [OF lv(2)] lv(1) by simp
qed

text \<open>A container closed is a value of the one around it.\<close>

lemma end_closes:
  assumes w: "writes w (rs, tp, f # fs)" and t: "open_text (f # fs) @ cls = hole_text fs @ json_text j"
  shows "refines (end_value (w_put (w\<lparr>w_depth := w_depth w - 1\<rparr>) cls)) (Inr (add_value (rs, tp, fs) j))"
proof -
  let ?u = "w\<lparr>w_depth := w_depth w - 1\<rparr>"
  from w have rep: "w_inv w" "w_rep w (astate_text (rs, tp, f # fs))"
      "open_levels w = inner_level f # map outer_level fs" and ok: "astate_ok (rs, tp, f # fs)"
    and top: "w_top_done w \<longleftrightarrow> tp \<noteq> None" and rec: "w_records w = length rs"
    by (auto simp: writes_def)
  have ol: "open_levels ?u = map outer_level fs" by (rule pop_open [OF rep(1,3)])
  have u: "w_inv ?u" "w_rep ?u (records_text rs @ open_text (f # fs))"
    using rep ok by (auto simp: w_inv_def w_rep_def w_bytes_def w_kept_def stopped_def)
  have put: "put_ok ?u (w_put ?u cls) (records_text rs @ hole_text fs @ json_text j)"
    using put_rep [OF u, of cls] by (simp only: append_assoc t)
  have ok': "astate_ok (rs, tp, fs) \<and> accepts (rs, tp, fs)"
  proof (cases fs)
    case (Cons g gs)
    with ok show ?thesis using accepts_Cons [of rs tp g gs] by auto
  qed (use ok in simp)
  have "puts (w_put ?u cls) (rs, tp, fs) (json_text j)"
  proof (cases "stopped (w_put ?u cls)")
    case True
    with put show ?thesis by (simp add: puts_def put_ok_def cb_failed_def same_frame_def)
  next
    case False
    have fr: "same_frame (w_put ?u cls) ?u" using put by (simp add: put_ok_def)
    have "open_levels (w_put ?u cls) = map outer_level fs" using same_frame_open [OF fr] ol by simp
    moreover have "w_top_done (w_put ?u cls) \<longleftrightarrow> tp \<noteq> None" "w_records (w_put ?u cls) = length rs"
      using fr top rec by (simp_all add: same_frame_def)
    moreover have "w_inv (w_put ?u cls)"
      "w_rep (w_put ?u cls) (records_text rs @ hole_text fs @ json_text j)"
      using put False by (simp_all add: put_ok_def)
    ultimately have "awaits (w_put ?u cls) (rs, tp, fs) (json_text j)"
      using ok' unfolding awaits_def by (simp only: prod.case simp_thms)
    then show ?thesis by (simp add: puts_def)
  qed
  then show ?thesis by (rule puts_end)
qed

lemma end_refines:
  assumes w: "writes w a"
  shows "refines (jkii_write_object_end w) (astep a W_object_end)"
    "refines (jkii_write_array_end w) (astep a W_array_end)"
proof -
  obtain rs tp fs where a: "a = (rs, tp, fs)" by (metis prod_cases3)
  note fl = fail_refines [OF w, of WRITE_ERR_STRUCTURE, simplified]
  note l = writes_levels [OF w [unfolded a]]
  show "refines (jkii_write_object_end w) (astep a W_object_end)"
  proof (cases fs)
    case Nil
    with l fl a show ?thesis by (simp add: jkii_write_object_end_def w_end_def)
  next
    case (Cons f gs)
    note l2 = l(2) [OF Cons]
    show ?thesis
    proof (cases f)
      case (F_array js)
      with Cons l(3) l2 fl a show ?thesis
        by (simp add: jkii_write_object_end_def w_end_def level_bits split: if_splits)
    next
      case f: (F_object ms k)
      show ?thesis
      proof (cases k)
        case None
        have "refines (end_value (w_put (w\<lparr>w_depth := w_depth w - 1\<rparr>) ''}''))
            (Inr (add_value (rs, tp, gs) (J_object ms)))"
          by (rule end_closes [OF w [unfolded a Cons]]) (simp add: f None)
        with None f Cons l(3) l2 a show ?thesis
          by (cases "ms = []") (simp_all add: jkii_write_object_end_def w_end_def level_bits Let_def)
      next
        case (Some k')
        with f Cons l(3) l2 fl a show ?thesis
          by (simp add: jkii_write_object_end_def w_end_def level_bits)
      qed
    qed
  qed
  show "refines (jkii_write_array_end w) (astep a W_array_end)"
  proof (cases fs)
    case Nil
    with l fl a show ?thesis by (simp add: jkii_write_array_end_def w_end_def)
  next
    case (Cons f gs)
    note l2 = l(2) [OF Cons]
    show ?thesis
    proof (cases f)
      case (F_array js)
      have "refines (end_value (w_put (w\<lparr>w_depth := w_depth w - 1\<rparr>) '']''))
          (Inr (add_value (rs, tp, gs) (J_array js)))"
        by (rule end_closes [OF w [unfolded a Cons]]) (simp add: F_array)
      with F_array Cons l(3) l2 a show ?thesis
        by (cases "js = []") (simp_all add: jkii_write_array_end_def w_end_def level_bits Let_def)
    next
      case f: (F_object ms k)
      have "level w AND LEVEL_OBJECT \<noteq> 0"
        using f l2 by (cases k; cases "ms = []") (simp_all add: level_bits)
      with f Cons l(3) l2 fl a show ?thesis
        by (simp add: jkii_write_array_end_def w_end_def)
    qed
  qed
qed

lemma put_ok_put:
  assumes "put_ok w0 w t"
  shows "put_ok w0 (w_put w s) (t @ s)"
proof (cases "stopped w")
  case True
  with assms have "w_put w s = w" by (simp add: w_put_def)
  with assms True show ?thesis by (simp add: put_ok_def)
next
  case False
  with assms have w: "w_inv w" "w_rep w t" "same_frame w w0" by (simp_all add: put_ok_def)
  then have "w_cb w = w_cb w0" by (simp add: same_frame_def)
  with put_rep [OF w(1,2), of s] same_frame_trans [OF _ w(3)] show ?thesis
    by (cases "w_cb w0") (auto simp: put_ok_def)
qed

lemma put_ok_escaped_loop:
  "put_ok w0 w t \<Longrightarrow> put_ok w0 (put_escaped_loop w run s)
     (t @ run @ concat (map (\<lambda>c. case escape_of c of None \<Rightarrow> [c] | Some e \<Rightarrow> e) s))"
proof (induction s arbitrary: w run t)
  case Nil
  then show ?case by (simp add: put_ok_put)
next
  case (Cons c s)
  show ?case
  proof (cases "escape_of c")
    case None
    with Cons.IH [OF Cons.prems, of "run @ [c]"] show ?thesis by simp
  next
    case (Some e)
    have "put_ok w0 (w_put (w_put w run) e) ((t @ run) @ e)" by (intro put_ok_put Cons.prems)
    from Cons.IH [OF this, of "[]"] Some show ?thesis by simp
  qed
qed

lemma put_ok_escaped: "put_ok w0 w t \<Longrightarrow> put_ok w0 (put_escaped w s) (t @ json_string s)"
  using put_ok_put [OF put_ok_escaped_loop [OF put_ok_put, of w0 w t "[CHR 0x22]" "[]" s], of "[CHR 0x22]"]
  by (simp add: put_escaped_def json_string_def)

lemma put_ok_refl: "w_inv w \<Longrightarrow> w_rep w t \<Longrightarrow> put_ok w w t"
  by (simp add: put_ok_def w_rep_def)

lemma put_ok_set_level: "put_ok w0 w t \<Longrightarrow> put_ok (set_level w0 l) (set_level w l) t"
proof -
  have "same_frame w w0 \<Longrightarrow> same_frame (set_level w l) (set_level w0 l)"
    by (simp add: same_frame_def set_level_def)
  then show "put_ok w0 w t \<Longrightarrow> put_ok (set_level w0 l) (set_level w l) t"
    by (simp add: put_ok_def)
qed

lemma key_refines:
  assumes w: "writes w a"
  shows "refines (jkii_write_key w k) (astep a (W_key k))"
proof -
  obtain rs tp fs where a: "a = (rs, tp, fs)" by (metis prod_cases3)
  note fl = fail_refines [OF w]
  note l = writes_levels [OF w [unfolded a]]
  show ?thesis
  proof (cases k)
    case None
    with l(3) fl [of WRITE_ERR_VALUE] show ?thesis by (simp add: jkii_write_key_def)
  next
    case (Some key)
    show ?thesis
    proof (cases fs)
      case Nil
      with l Some fl [of WRITE_ERR_STRUCTURE] a show ?thesis by (simp add: jkii_write_key_def)
    next
      case (Cons f gs)
      note l2 = l(2) [OF Cons]
      show ?thesis
      proof (cases "\<exists>ms. f = F_object ms None")
        case False
        then have "level w AND LEVEL_OBJECT = 0 \<or> level w AND LEVEL_AFTER_KEY \<noteq> 0"
          using l2 by (cases f rule: inner_level.cases) (auto simp: level_bits split: if_splits)
        moreover have "astep a (W_key k) = Inl WRITE_ERR_STRUCTURE"
          using False a Some Cons by (cases f rule: inner_level.cases) auto
        ultimately show ?thesis
          using l(3) l2 Some fl [of WRITE_ERR_STRUCTURE] by (simp add: jkii_write_key_def)
      next
        case True
        then obtain ms where f: "f = F_object ms None" by blast
        from w have rep: "w_inv w" "w_rep w (astate_text a)" "open_levels w = levels_of fs"
            "astate_ok a" "w_top_done w \<longleftrightarrow> tp \<noteq> None" "w_records w = length rs"
          by (auto simp: writes_def a)
        have tp: "tp = None" using rep(4) a Cons by simp
        obtain v where v: "v = (if ms = [] then w else w_put w '','')" by blast
        have p: "put_ok w v (astate_text a @ (if ms = [] then [] else '',''))"
          using put_ok_put [OF put_ok_refl [OF rep(1,2)], of "'',''"] put_ok_refl [OF rep(1,2)] v by simp
        have lvv: "level v = level w" using p same_frame_open by (simp add: put_ok_def)
        let ?t = "records_text rs @ hole_text (F_object ms (Some key) # gs)"
        let ?x = "w_put (put_escaped (set_level v 7) key) '':''"
        have "(astate_text a @ (if ms = [] then [] else '','')) @ json_string key @ '':'' = ?t"
          using commas_sep [of "map member_text ms"] by (simp add: a Cons f tp)
        then have x: "put_ok (set_level w 7) ?x ?t"
          using put_ok_put [OF put_ok_escaped [OF put_ok_set_level [OF p]], of 7 key "'':''"]
          by (simp only: append_assoc)
        have e: "jkii_write_key w k = ?x"
          using l(3) l2 Some f lvv v
          by (cases "ms = []") (simp_all add: jkii_write_key_def level_bits Let_def)
        have st: "astep a (W_key k) = Inr (rs, tp, F_object ms (Some key) # gs)"
          using a Some Cons f by simp
        have "refines ?x (Inr (rs, tp, F_object ms (Some key) # gs))"
        proof (cases "stopped ?x")
          case True
          with x show ?thesis by (simp add: refines_def put_ok_def cb_failed_def same_frame_def)
        next
          case False
          have fr: "same_frame ?x (set_level w 7)" using x by (simp add: put_ok_def)
          have "open_levels (set_level w 7) = 7 # map outer_level gs"
            by (rule set_level_open [OF rep(1)]) (simp add: rep(3) Cons)
          then have "open_levels ?x = levels_of (F_object ms (Some key) # gs)"
            using same_frame_open [OF fr] by simp
          moreover have "w_top_done ?x \<longleftrightarrow> tp \<noteq> None" "w_records ?x = length rs"
            using fr rep by (simp_all add: same_frame_def)
          moreover have "w_inv ?x" "w_rep ?x (astate_text (rs, tp, F_object ms (Some key) # gs))"
            using x False tp by (simp_all add: put_ok_def)
          moreover have "astate_ok (rs, tp, F_object ms (Some key) # gs)"
            using rep(4) a Cons by auto
          ultimately have "writes ?x (rs, tp, F_object ms (Some key) # gs)"
            unfolding writes_def by (simp only: prod.case simp_thms)
          then show ?thesis by (simp add: refines_def)
        qed
        then show ?thesis by (simp only: e st)
      qed
    qed
  qed
qed

lemma raw_refines:
  assumes w: "writes w a"
  shows "refines (jkii_write_raw w s) (astep a (W_raw s))"
proof (cases "s = None \<or> s = Some []")
  case True
  then have "jkii_write_raw w s = w_fail w WRITE_ERR_VALUE" by (auto simp: jkii_write_raw_def)
  with True fail_refines [OF w, of WRITE_ERR_VALUE] show ?thesis by auto
next
  case False
  then obtain t where t: "s = Some t" "t \<noteq> []" by auto
  then have "jkii_write_raw w s = write_literal w t"
    by (simp add: jkii_write_raw_def write_literal_def Let_def)
  with t value_refines(3) [OF w, of t] show ?thesis by simp
qed

lemma record_end_refines:
  assumes w: "writes w a"
  shows "refines (jkii_write_record_end w) (astep a W_record_end)"
proof -
  obtain rs tp fs where a: "a = (rs, tp, fs)" by (metis prod_cases3)
  note fl = fail_refines [OF w, of WRITE_ERR_STRUCTURE, simplified]
  note l = writes_levels [OF w [unfolded a]]
  from w have rep: "w_inv w" "w_rep w (astate_text a)" "open_levels w = levels_of fs"
      "astate_ok a" "w_top_done w \<longleftrightarrow> tp \<noteq> None" "w_records w = length rs"
    by (auto simp: writes_def a)
  show ?thesis
  proof (cases fs)
    case (Cons f gs)
    with l(3) l(2) [OF Cons] fl a show ?thesis
      by (cases tp) (simp_all add: jkii_write_record_end_def)
  next
    case Nil
    show ?thesis
    proof (cases tp)
      case None
      with Nil l rep(5) fl a show ?thesis by (simp add: jkii_write_record_end_def)
    next
      case (Some j)
      let ?v = "w_put w [LF]"
      let ?x = "?v\<lparr>w_top_done := False, w_records := w_records ?v + 1\<rparr>"
      have e: "jkii_write_record_end w = ?x"
        using Some Nil l rep(5) by (simp add: jkii_write_record_end_def Let_def)
      have st: "astep a W_record_end = Inr (rs @ [j], None, [])" using Some Nil a by simp
      have p: "put_ok w ?v (astate_text a @ [LF])" by (rule put_ok_put [OF put_ok_refl [OF rep(1,2)]])
      have "refines ?x (Inr (rs @ [j], None, []))"
      proof (cases "stopped ?v")
        case True
        with p show ?thesis by (simp add: refines_def put_ok_def cb_failed_def same_frame_def)
      next
        case False
        with p have v: "w_inv ?v" "w_rep ?v (astate_text a @ [LF])" "same_frame ?v w"
          by (simp_all add: put_ok_def)
        then have "w_inv ?x" "w_rep ?x (astate_text (rs @ [j], None, []))"
          using a Some Nil
          by (auto simp: w_inv_def w_rep_def w_bytes_def w_kept_def stopped_def)
        moreover have "open_levels ?x = levels_of []" "w_records ?x = length (rs @ [j])"
          using v(3) rep(3,6) Nil by (simp_all add: same_frame_def)
        ultimately have "writes ?x (rs @ [j], None, [])" by (simp add: writes_def)
        then show ?thesis by (simp add: refines_def)
      qed
      then show ?thesis by (simp only: e st)
    qed
  qed
qed

lemma write_step_refines: "writes w a \<Longrightarrow> refines (write_step w op) (astep a op)"
proof (cases op)
  case W_object_start
  assume "writes w a"
  from start_refines [OF this, of "F_object [] None" "''{''"] show ?thesis
    by (simp add: W_object_start jkii_write_object_start_def LEVEL_OBJECT_def)
next
  case W_array_start
  assume "writes w a"
  from start_refines [OF this, of "F_array []" "''[''"] show ?thesis
    by (simp add: W_array_start jkii_write_array_start_def)
next
  case (W_string s)
  assume w: "writes w a"
  with value_refines(4) fail_refines [OF w, of WRITE_ERR_VALUE] show ?thesis
    by (cases s) (simp_all add: W_string jkii_write_string_def)
qed (use value_refines end_refines key_refines raw_refines record_end_refines in
    \<open>simp_all add: jkii_write_bool_def jkii_write_null_def\<close>)

section \<open>Whole runs\<close>

fun asteps :: "astate \<Rightarrow> write_op list \<Rightarrow> write_err + astate" where
  "asteps a [] = Inr a"
| "asteps a (op # ops) = (case astep a op of Inl e \<Rightarrow> Inl e | Inr a' \<Rightarrow> asteps a' ops)"

definition a_finish :: "astate \<Rightarrow> write_err + json list" where
  "a_finish a = (case a of
     (rs, Some j, []) \<Rightarrow> Inr (rs @ [j])
   | (rs, None, []) \<Rightarrow> if rs = [] then Inl WRITE_ERR_STRUCTURE else Inr rs
   | _ \<Rightarrow> Inl WRITE_ERR_STRUCTURE)"

text \<open>A run of operations and the finish: the writer, its result and the length it gives.\<close>

definition write_all :: "jkii_writer \<Rightarrow> write_op list \<Rightarrow> jkii_writer \<times> nat" where
  "write_all w ops = jkii_writer_finish (foldl write_step w ops)"

lemma stopped_begin [simp]: "stopped w \<Longrightarrow> begin_value w = w"
  by (simp add: begin_value_def)

lemma stopped_fail [simp]: "stopped w \<Longrightarrow> w_fail w e = w"
  by (simp add: w_fail_def)

lemma write_step_stopped:
  assumes "stopped w"
  shows "write_step w op = w"
  using assms
  by (cases op) (auto simp: jkii_write_object_start_def jkii_write_object_end_def
      jkii_write_array_start_def jkii_write_array_end_def w_start_def w_end_def jkii_write_key_def
      jkii_write_string_def jkii_write_string_n_def jkii_write_int_def write_number_def
      jkii_write_uint_def jkii_write_bool_def jkii_write_null_def write_literal_def
      jkii_write_raw_def jkii_write_record_end_def Let_def stopped_def split: option.split)

lemma write_steps_stopped: "stopped w \<Longrightarrow> foldl write_step w ops = w"
  by (induction ops) (simp_all add: write_step_stopped)

lemma write_steps_refine: "writes w a \<Longrightarrow> refines (foldl write_step w ops) (asteps a ops)"
proof (induction ops arbitrary: w a)
  case Nil
  then show ?case by (simp add: refines_def)
next
  case (Cons op ops)
  from write_step_refines [OF Cons.prems, of op] have r: "refines (write_step w op) (astep a op)" .
  show ?case
  proof (cases "astep a op")
    case (Inl e)
    with r have g: "gave_up (write_step w op) e" by (simp add: refines_def)
    then have "stopped (write_step w op)" by (simp add: gave_up_def)
    with g Inl show ?thesis by (simp add: refines_def write_steps_stopped)
  next
    case (Inr a')
    with r have "writes (write_step w op) a' \<or> cb_failed (write_step w op)" by (simp add: refines_def)
    then show ?thesis
    proof
      assume "writes (write_step w op) a'"
      from Cons.IH [OF this] Inr show ?thesis by simp
    next
      assume f: "cb_failed (write_step w op)"
      then have "foldl write_step (write_step w op) ops = write_step w op"
        by (simp add: write_steps_stopped cb_failed_stopped)
      with f Inr show ?thesis
        by (auto simp: refines_def cb_failed_gave_up split: sum.split)
    qed
  qed
qed

lemma length_mem_write_NUL: "b \<noteq> [] \<Longrightarrow> length (mem_write b 0 [NUL]) = length b"
  by (cases b) (simp_all add: mem_write_def)

lemma init_buff_writes:
  assumes "buff = None \<or> (\<exists>b. buff = Some b \<and> length b = sz \<and> sz \<le> size_max)"
  shows "writes (jkii_writer_init_buff buff sz) ([], None, [])"
  using assms
  by (auto simp: writes_def jkii_writer_init_buff_def w_inv_def w_rep_def w_bytes_def w_kept_def
      stopped_def MAX_DEPTH_def nth_mem_write_one length_mem_write_NUL Let_def)

lemma init_cb_writes:
  assumes "length b = sz" "0 < sz" "sz \<le> size_max"
  shows "writes (jkii_writer_init_cb (Some b) sz (Some cb)) ([], None, [])"
  using assms
  by (auto simp: writes_def jkii_writer_init_cb_def w_inv_def w_rep_def w_bytes_def w_kept_def
      stopped_def MAX_DEPTH_def)

text \<open>The lines of the records: the last one is ended by the caller, or not.\<close>

lemma a_finish_text:
  assumes "a_finish a = Inr js"
  shows "js \<noteq> [] \<and> (astate_text a = records_text js \<or> astate_text a @ [LF] = records_text js)"
  using assms by (auto simp: a_finish_def split: prod.splits option.splits list.splits if_splits)

lemma finish_spec:
  assumes w: "writes w a"
  shows "case a_finish a of
      Inl e \<Rightarrow> gave_up (fst (jkii_writer_finish w)) e \<and> e = WRITE_ERR_STRUCTURE
    | Inr js \<Rightarrow> snd (jkii_writer_finish w) = length (astate_text a) \<and>
        fst (jkii_writer_finish w) = (if w_cb w \<noteq> None then w_flush w else w)"
proof -
  obtain rs tp fs where a: "a = (rs, tp, fs)" by (metis prod_cases3)
  note l = writes_levels [OF w [unfolded a]]
  from w have rep: "w_inv w" "w_rep w (astate_text a)" "w_top_done w \<longleftrightarrow> tp \<noteq> None"
      "w_records w = length rs"
    by (auto simp: writes_def a)
  let ?bad = "fs \<noteq> [] \<or> tp = None \<and> rs = []"
  have bad: "(\<not> stopped w \<and> (w_depth w > 0 \<or> (\<not> w_top_done w \<and> w_records w = 0))) \<longleftrightarrow> ?bad"
    using l rep(3,4) by (cases fs) auto
  have tot: "w_total (w_flush w) = w_total w"
    by (simp add: w_flush_def w_fail_def Let_def)
  have f: "jkii_writer_finish w =
      (let v = (if ?bad then w_fail w WRITE_ERR_STRUCTURE else w);
           u = (if w_cb v \<noteq> None then w_flush v else v)
       in (u, w_total u))"
    unfolding jkii_writer_finish_def bad ..
  show ?thesis
  proof (cases ?bad)
    case True
    let ?f = "w_fail w WRITE_ERR_STRUCTURE"
    have "gave_up ?f WRITE_ERR_STRUCTURE" by (rule fail_rep [OF rep(2)]) simp_all
    then have "gave_up (if w_cb ?f \<noteq> None then w_flush ?f else ?f) WRITE_ERR_STRUCTURE"
      by (auto simp: w_flush_def gave_up_def cb_failed_def stopped_def Let_def)
    moreover have "a_finish a = Inl WRITE_ERR_STRUCTURE"
      using True a by (cases fs; cases tp) (auto simp: a_finish_def)
    ultimately show ?thesis using True by (simp add: f Let_def)
  next
    case False
    then obtain js where "a_finish a = Inr js"
      using a by (cases fs; cases tp) (auto simp: a_finish_def)
    moreover have "jkii_writer_finish w =
        (if w_cb w \<noteq> None then w_flush w else w, w_total (if w_cb w \<noteq> None then w_flush w else w))"
      unfolding f using False by (simp only: if_False Let_def)
    ultimately show ?thesis using rep(2) tot by (cases "w_cb w") (simp_all add: w_rep_def)
  qed
qed

lemma kept_fits:
  assumes "w_inv w" "w_rep w t" "w_cb w = None" "w_buff w \<noteq> None"
  shows "w_err w = (if t = [] \<or> length t < w_buff_size w then WRITE_OK else WRITE_ERR_TOO_LARGE)"
    "w_err w = WRITE_OK \<Longrightarrow> t \<noteq> [] \<Longrightarrow> take (length t + 1) (w_bytes w) = t @ [NUL]"
proof -
  have e: "w_err w = WRITE_OK \<or> w_err w = WRITE_ERR_TOO_LARGE"
    using assms(2) by (auto simp: w_rep_def stopped_def)
  have k: "w_kept w = take (w_used w) (w_bytes w)" using assms(1,3) by (simp add: w_inv_def w_kept_def)
  have len: "length (w_kept w) = w_used w"
    using assms(1,3) k by (auto simp: w_inv_def split: if_splits)
  show "w_err w = (if t = [] \<or> length t < w_buff_size w then WRITE_OK else WRITE_ERR_TOO_LARGE)"
  proof (cases "w_err w = WRITE_OK")
    case True
    with assms have "w_kept w = t" by (simp add: w_rep_def)
    with len True assms(1,3) show ?thesis by (auto simp: w_inv_def split: if_splits)
  next
    case False
    with assms(2,4) e show ?thesis by (auto simp: w_rep_def)
  qed
  assume ok: "w_err w = WRITE_OK" and t: "t \<noteq> []"
  with assms have kt: "w_kept w = t" by (simp add: w_rep_def)
  with len t have u: "w_used w = length t" "w_used w \<noteq> 0" by (simp, metis length_0_conv)
  then have "w_used w < length (w_bytes w)" "w_bytes w ! w_used w = NUL"
    using assms(1,3) by (auto simp: w_inv_def split: if_splits)
  then have "take (Suc (w_used w)) (w_bytes w) = take (w_used w) (w_bytes w) @ [NUL]"
    by (simp add: take_Suc_conv_app_nth)
  with u k kt show "take (length t + 1) (w_bytes w) = t @ [NUL]" by simp
qed

section \<open>Values\<close>

text \<open>A value and the operations that write it.\<close>

datatype jval = V_null | V_bool bool | V_int int | V_uint u64 | V_string string
  | V_array "jval list" | V_object "(string \<times> jval) list"

fun value_ops :: "jval \<Rightarrow> write_op list" where
  "value_ops V_null = [W_null]"
| "value_ops (V_bool b) = [W_bool b]"
| "value_ops (V_int v) = [W_int v]"
| "value_ops (V_uint v) = [W_uint v]"
| "value_ops (V_string s) = [W_string (Some s)]"
| "value_ops (V_array vs) = W_array_start # concat (map value_ops vs) @ [W_array_end]"
| "value_ops (V_object ms) =
     W_object_start # concat (map (\<lambda>(k, v). W_key (Some k) # value_ops v) ms) @ [W_object_end]"

fun value_json :: "jval \<Rightarrow> json" where
  "value_json V_null = J_scalar ''null''"
| "value_json (V_bool b) = J_scalar (if b then ''true'' else ''false'')"
| "value_json (V_int v) = J_scalar (int_text v)"
| "value_json (V_uint v) = J_scalar (decimal v)"
| "value_json (V_string s) = J_scalar (json_string s)"
| "value_json (V_array vs) = J_array (map value_json vs)"
| "value_json (V_object ms) = J_object (map (\<lambda>(k, v). (k, value_json v)) ms)"

fun value_depth :: "jval \<Rightarrow> nat" where
  "value_depth (V_array vs) = Suc (foldr max (map value_depth vs) 0)"
| "value_depth (V_object ms) = Suc (foldr max (map (\<lambda>(k, v). value_depth v) ms) 0)"
| "value_depth _ = 0"

lemma foldr_max_ge: "x \<in> set xs \<Longrightarrow> x \<le> foldr max xs (0 :: nat)"
  by (induction xs) auto

lemma accepts_add_value_scalar [simp]: "accepts a \<Longrightarrow> scalar a s = Inr (add_value a (J_scalar s))"
  by (simp add: scalar_def)

lemma asteps_append:
  "asteps a (xs @ ys) = (case asteps a xs of Inl e \<Rightarrow> Inl e | Inr b \<Rightarrow> asteps b ys)"
  by (induction xs arbitrary: a) (auto split: sum.split)

lemma asteps_value:
  "accepts (rs, tp, fs) \<Longrightarrow> length fs + value_depth v \<le> MAX_DEPTH \<Longrightarrow>
   asteps (rs, tp, fs) (value_ops v) = Inr (add_value (rs, tp, fs) (value_json v))"
proof (induction v arbitrary: rs tp fs)
  case (V_array vs)
  have "asteps (rs, tp, F_array js # fs) (concat (map value_ops ws)) =
      Inr (rs, tp, F_array (js @ map value_json ws) # fs)" if "set ws \<subseteq> set vs" for js ws
    using that
  proof (induction ws arbitrary: js)
    case (Cons w ws)
    then have "w \<in> set vs" by simp
    moreover from this have "length (F_array js # fs) + value_depth w \<le> MAX_DEPTH"
      using V_array.prems(2) foldr_max_ge [of "value_depth w" "map value_depth vs"] by simp
    ultimately show ?case
      using V_array.IH [of w rs tp "F_array js # fs"] Cons by (simp add: asteps_append)
  qed simp
  from this [of vs "[]"] V_array.prems show ?case
    by (simp add: push_def asteps_append)
next
  case (V_object ms)
  have "asteps (rs, tp, F_object js None # fs) (concat (map (\<lambda>(k, v). W_key (Some k) # value_ops v) ns)) =
      Inr (rs, tp, F_object (js @ map (\<lambda>(k, v). (k, value_json v)) ns) None # fs)"
    if "set ns \<subseteq> set ms" for js ns
    using that
  proof (induction ns arbitrary: js)
    case (Cons n ns)
    obtain k v where n: "n = (k, v)" by (cases n)
    with Cons have m: "(k, v) \<in> set ms" by simp
    then have "length (F_object js (Some k) # fs) + value_depth v \<le> MAX_DEPTH"
      using V_object.prems(2) foldr_max_ge [of "value_depth v" "map (\<lambda>(k, v). value_depth v) ms"]
      by force
    then show ?case
      using V_object.IH [OF m, of v rs tp "F_object js (Some k) # fs"] Cons n
      by (simp add: asteps_append)
  qed simp
  from this [of ms "[]"] V_object.prems show ?case
    by (simp add: push_def asteps_append)
qed simp_all

section \<open>Numbers and strings as written\<close>

lemma decimal_loop_udigits: "rev (decimal_loop v ds) = udigits_loop v 1 (length ds) (rev ds)"
proof (induction v ds rule: decimal_loop.induct)
  case (1 v ds)
  show ?case
    using 1 by (subst decimal_loop.simps, subst udigits_loop.simps) (simp add: Let_def)
qed

lemma decimal_udigits: "decimal v = udigits v 1"
  using decimal_loop_udigits [of "unat v" "[]"] by (simp add: decimal_def udigits_def)

lemma int_text_digits:
  assumes "in_int64 v"
  shows "int_text v = int_digits v"
proof -
  have "word_of_int (- (v + 1)) + 1 = (0 - word_of_int v :: u64)" by simp
  then show ?thesis by (simp add: int_text_def int_digits_def magnitude_def decimal_udigits)
qed

text \<open>Reading a JSON string back, to its closing quote.\<close>

fun hex_val :: "char \<Rightarrow> nat" where
  "hex_val c = nat (str_digit c 16)"

fun unescape :: "string \<Rightarrow> (string \<times> string) option" where
  "unescape [] = None"
| "unescape (c # s) =
     (if c = CHR 0x22 then Some ([], s)
      else if c = CHR 0x5C then
        (case s of
           [] \<Rightarrow> None
         | e # t \<Rightarrow>
             if e = CHR ''u'' then
               (case t of
                  a # b # x # y # t' \<Rightarrow>
                    map_option (apfst ((#) (char_of (hex_val a * 4096 + hex_val b * 256 + hex_val x * 16 + hex_val y))))
                      (unescape t')
                | _ \<Rightarrow> None)
             else
               map_option (apfst ((#)
                 (if e = CHR ''b'' then CHR 0x08 else if e = CHR ''f'' then CHR 0x0C
                  else if e = CHR ''n'' then LF else if e = CHR ''r'' then CR
                  else if e = CHR ''t'' then HTAB else e)))
                 (unescape t))
      else if code c < 0x20 then None
      else map_option (apfst ((#) c)) (unescape s))"

lemma json_hex_eq: "json_hex n = hex_digit n"
  by (simp add: json_hex_def hex_digit_def)

lemma code_special:
  "code c = 0x22 \<longleftrightarrow> c = CHR 0x22" "code c = 0x2F \<longleftrightarrow> c = CHR 0x2F"
  "code c = 0x5C \<longleftrightarrow> c = CHR 0x5C" "code c = 0x08 \<longleftrightarrow> c = CHR 0x08"
  "code c = 0x0C \<longleftrightarrow> c = CHR 0x0C" "code c = 0x0A \<longleftrightarrow> c = CHR 0x0A"
  "code c = 0x0D \<longleftrightarrow> c = CHR 0x0D" "code c = 0x09 \<longleftrightarrow> c = CHR 0x09"
  using code_eq_iff [of c "CHR 0x22"] code_eq_iff [of c "CHR 0x2F"] code_eq_iff [of c "CHR 0x5C"]
    code_eq_iff [of c "CHR 0x08"] code_eq_iff [of c "CHR 0x0C"] code_eq_iff [of c "CHR 0x0A"]
    code_eq_iff [of c "CHR 0x0D"] code_eq_iff [of c "CHR 0x09"]
  by simp_all

lemma unescape_char:
  "unescape ((case escape_of c of None \<Rightarrow> [c] | Some e \<Rightarrow> e) @ s) = map_option (apfst ((#) c)) (unescape s)"
proof (cases "escape_of c")
  case None
  then have "c \<noteq> CHR 0x22" "c \<noteq> CHR 0x5C" "\<not> code c < 0x20"
    by (auto simp: escape_of_def Let_def split: if_splits)
  with None show ?thesis by simp
next
  case (Some e)
  have h: "nat (str_digit (hex_digit (code c div 16)) 16) = code c div 16"
      "nat (str_digit (hex_digit (code c mod 16)) 16) = code c mod 16"
    using code_less [of c] by (simp_all add: hex_digit_cases less_mult_imp_div_less)
  have z: "str_digit (CHR ''0'') 16 = 0" by (simp add: str_digit_def)
  show ?thesis
    using Some
    by (auto simp: escape_of_def Let_def json_hex_eq h z code_special split: if_splits)
qed

lemma unescape_json_string:
  "unescape (tl (json_string s) @ t) = Some (s, t)"
proof -
  have "unescape (concat (map (\<lambda>c. case escape_of c of None \<Rightarrow> [c] | Some e \<Rightarrow> e) s) @ CHR 0x22 # t) =
      Some (s, t)"
    by (induction s) (simp_all add: unescape_char del: unescape.simps(2), simp)
  then show ?thesis by (simp add: json_string_def)
qed

text \<open>What a run leaves as it was set up.\<close>

definition setup_of :: "jkii_writer \<Rightarrow> (string list \<Rightarrow> string \<Rightarrow> nat) option \<times> nat \<times> bool" where
  "setup_of w = (w_cb w, w_buff_size w, w_buff w = None)"

lemma setup_updates [frame_simps]:
  "setup_of (w_fail w e) = setup_of w" "setup_of (set_level w l) = setup_of w"
  "setup_of (w_flush w) = setup_of w" "setup_of (w_copy w s) = setup_of w"
  "setup_of (w\<lparr>w_depth := d\<rparr>) = setup_of w" "setup_of (w\<lparr>w_total := d\<rparr>) = setup_of w"
  "setup_of (w\<lparr>w_levels := ls\<rparr>) = setup_of w" "setup_of (w\<lparr>w_err := e\<rparr>) = setup_of w"
  "setup_of (w\<lparr>w_top_done := b\<rparr>) = setup_of w" "setup_of (w\<lparr>w_buff := map_option f (w_buff w)\<rparr>) = setup_of w"
  "setup_of (w\<lparr>w_top_done := b, w_records := n\<rparr>) = setup_of w"
  by (simp_all add: setup_of_def w_fail_def set_level_def w_flush_def Let_def)

lemma setup_put_cb [frame_simps]: "setup_of (w_put_cb w s) = setup_of w"
proof (induction w s rule: w_put_cb.induct)
  case (1 w s)
  then show ?case
    by (subst w_put_cb.simps) (simp add: Let_def frame_simps)
qed

lemma setup_put [frame_simps]: "setup_of (w_put w s) = setup_of w"
  by (simp add: w_put_def Let_def frame_simps)

lemma setup_escaped_loop [frame_simps]: "setup_of (put_escaped_loop w run s) = setup_of w"
  by (induction w run s rule: put_escaped_loop.induct) (simp_all add: frame_simps split: option.split)

lemma setup_escaped [frame_simps]: "setup_of (put_escaped w s) = setup_of w"
  by (simp add: put_escaped_def Let_def frame_simps)

lemma setup_begin [frame_simps]: "setup_of (begin_value w) = setup_of w"
  by (simp add: begin_value_def Let_def frame_simps)

lemma setup_end [frame_simps]: "setup_of (end_value w) = setup_of w"
  by (simp add: end_value_def frame_simps)

lemma setup_step [frame_simps]: "setup_of (write_step w op) = setup_of w"
  by (cases op)
     (simp_all add: jkii_write_object_start_def jkii_write_object_end_def jkii_write_array_start_def
       jkii_write_array_end_def w_start_def w_end_def jkii_write_key_def jkii_write_string_n_def
       write_number_def write_literal_def jkii_write_string_def jkii_write_int_def jkii_write_uint_def
       jkii_write_bool_def jkii_write_null_def jkii_write_raw_def jkii_write_record_end_def Let_def
       frame_simps split: option.split)

lemma setup_steps [frame_simps]: "setup_of (foldl write_step w ops) = setup_of w"
  by (induction ops arbitrary: w) (simp_all add: frame_simps)

text \<open>The whole of a run, from any writer set up: what it wrote, or why not.\<close>

lemma write_all_spec:
  assumes w: "writes w ([], None, [])"
  shows "case asteps ([], None, []) ops of
      Inl e \<Rightarrow> gave_up (fst (write_all w ops)) e
    | Inr a \<Rightarrow>
        (case a_finish a of
           Inl e \<Rightarrow> gave_up (fst (write_all w ops)) e
         | Inr js \<Rightarrow> cb_failed (fst (write_all w ops)) \<or>
             writes (foldl write_step w ops) a \<and> snd (write_all w ops) = length (astate_text a) \<and>
             fst (write_all w ops) = (if w_cb w \<noteq> None then w_flush (foldl write_step w ops)
               else foldl write_step w ops))"
proof -
  let ?v = "foldl write_step w ops"
  have r: "refines ?v (asteps ([], None, []) ops)" by (rule write_steps_refine [OF w])
  have cb: "w_cb ?v = w_cb w" using setup_steps [of w ops] by (simp add: setup_of_def)
  have st: "fst (write_all w ops) = (if w_cb w \<noteq> None then w_flush ?v else ?v)" if "stopped ?v"
    using that cb by (simp add: write_all_def jkii_writer_finish_def Let_def)
  have fl: "w_err (w_flush ?v) = w_err ?v \<and> w_cb (w_flush ?v) = w_cb ?v" if "stopped ?v"
    using that by (simp add: w_flush_def Let_def)
  have keep: "gave_up (fst (write_all w ops)) e" if "gave_up ?v e" for e
  proof -
    have s: "stopped ?v" using that by (simp add: gave_up_def)
    show ?thesis using that st [OF s] fl [OF s] by (simp add: gave_up_def cb_failed_def stopped_def)
  qed
  show ?thesis
  proof (cases "asteps ([], None, []) ops")
    case (Inl e)
    with r keep show ?thesis by (simp add: refines_def)
  next
    case (Inr a)
    with r consider "writes ?v a" | "cb_failed ?v" by (auto simp: refines_def)
    then show ?thesis
    proof cases
      case 1
      from finish_spec [OF 1] show ?thesis
        using Inr 1 cb by (cases "a_finish a") (simp_all add: write_all_def)
    next
      case 2
      then have s: "stopped ?v" by (rule cb_failed_stopped)
      have "cb_failed (fst (write_all w ops))"
        using 2 st [OF s] fl [OF s] by (simp add: cb_failed_def)
      then show ?thesis using Inr by (auto simp: cb_failed_gave_up split: sum.split)
    qed
  qed
qed

lemma init_setup:
  "setup_of (jkii_writer_init_buff (Some b) (length b)) = (None, length b, False)"
  "setup_of (jkii_writer_init_cb (Some b) (length b) (Some cb)) = (Some cb, length b, False)"
  by (simp_all add: setup_of_def jkii_writer_init_buff_def jkii_writer_init_cb_def)

lemma flush_given:
  assumes "w_inv w" "w_rep w t" "w_cb w \<noteq> None"
  shows "if w_err (w_flush w) = WRITE_OK then concat (w_given (w_flush w)) = t
    else w_err (w_flush w) = WRITE_ERR_CALLBACK \<and> refusing w"
proof -
  from assms(3) obtain cb where cb: "w_cb w = Some cb" by blast
  have "w_err w = WRITE_OK" "w_buff w \<noteq> None" "w_used w \<le> length (w_bytes w)"
    using assms by (auto simp: w_inv_def w_rep_def stopped_def)
  moreover from this assms(2) have "w_kept w = t" by (simp add: w_rep_def)
  moreover have "refusing w" if "cb (w_given w) (take (w_used w) (w_bytes w)) \<noteq> w_used w"
      "w_used w \<le> length (w_bytes w)"
    using that cb unfolding refuses_def by (metis length_take min.absorb2)
  ultimately show ?thesis
    using cb by (auto simp: w_flush_def w_fail_def w_kept_def stopped_def Let_def)
qed

section \<open>Properties\<close>



text \<open>
  C3. Out through a callback, whatever the callback takes and whatever the size of the buffer,
  a result of OK means that the pieces the callback was given, joined, are exactly the text of
  whole JSON values the abstract writer writes; any other result is the abstract writer's
  error, or CALLBACK, and never that from a callback that takes all it is given.
\<close>

theorem writer_callback_refines:
  assumes "0 < length b" "length b \<le> size_max"
  shows "let (w, len) = write_all (jkii_writer_init_cb (Some b) (length b) (Some cb)) ops;
             failed = (w_err w = WRITE_ERR_CALLBACK \<and> (\<exists>given s. cb given s \<noteq> length s)) in
    case asteps ([], None, []) ops of
      Inl e \<Rightarrow> w_err w = e \<or> failed
    | Inr a \<Rightarrow>
        (case a_finish a of
           Inl e \<Rightarrow> w_err w = e \<or> failed
         | Inr js \<Rightarrow>
             if w_err w = WRITE_OK
             then concat (w_given w) = astate_text a \<and> len = length (astate_text a)
             else failed)"
proof -
  let ?i = "jkii_writer_init_cb (Some b) (length b) (Some cb)"
  let ?v = "foldl write_step ?i ops"
  have i: "writes ?i ([], None, [])" using assms by (intro init_cb_writes) auto
  have su: "w_cb ?v \<noteq> None" "w_cb ?i \<noteq> None"
    using setup_steps [of ?i ops] init_setup(2) [of b cb] by (simp_all add: setup_of_def)
  note sp = write_all_spec [OF i, of ops]
  have cb: "w_cb (fst (write_all ?i ops)) = Some cb" "w_cb ?v = Some cb"
    using setup_steps [of ?i ops] init_setup(2) [of b cb]
      setup_updates(1) [of ?v WRITE_ERR_STRUCTURE] setup_updates(3) [of ?v]
      setup_updates(3) [of "w_fail ?v WRITE_ERR_STRUCTURE"]
    by (simp_all add: setup_of_def write_all_def jkii_writer_finish_def Let_def)
  show ?thesis
  proof (cases "asteps ([], None, []) ops")
    case (Inl e)
    with sp cb show ?thesis by (auto simp: gave_up_def cb_failed_def refuses_def case_prod_beta)
  next
    case a: (Inr a)
    show ?thesis
    proof (cases "a_finish a")
      case (Inl e)
      with a sp cb show ?thesis
        by (auto simp: gave_up_def cb_failed_def refuses_def case_prod_beta)
    next
      case js: (Inr js)
      show ?thesis
      proof (cases "cb_failed (fst (write_all ?i ops))")
        case True
        with a js cb show ?thesis by (auto simp: cb_failed_def refuses_def case_prod_beta)
      next
        case False
        with a js sp su have w: "writes ?v a" "write_all ?i ops = (w_flush ?v, length (astate_text a))"
          by (auto simp: prod_eq_iff)
        then have "w_inv ?v" "w_rep ?v (astate_text a)" by (simp_all add: writes_def)
        from flush_given [OF this su(1)] show ?thesis
          using a js w(2) cb by (auto simp: refuses_def split: if_splits)
      qed
    qed
  qed
qed

theorem writer_callback_refines_witness:
  "w_err (fst (write_all (jkii_writer_init_cb (Some ''xxx'') 3 (Some (\<lambda>given s. length s)))
     [W_key None])) = WRITE_ERR_VALUE"
proof -
  have "0 < length ''xxx''" "length ''xxx'' \<le> size_max" by (simp_all add: size_max_def)
  from writer_callback_refines [OF this, of "\<lambda>given s. length s" "[W_key None]"]
  show ?thesis by (simp add: case_prod_beta numeral_3_eq_3)
qed

text \<open>
  Completeness.  A JSON value of any shape, nested no deeper than the writer's limit, goes
  out as written: the operations that write it, into a buffer with room, succeed, and the
  buffer holds the value's text, NUL-terminated, its length returned.
\<close>

lemma writer_writes_value:
  assumes "value_depth v \<le> MAX_DEPTH" "length (json_text (value_json v)) < length b"
    "length b \<le> size_max"
  shows "let (w, len) = write_all (jkii_writer_init_buff (Some b) (length b)) (value_ops v);
             text = json_text (value_json v) in
    w_err w = WRITE_OK \<and> len = length text \<and> (text \<noteq> [] \<longrightarrow> take (length text + 1) (w_bytes w) = text @ [NUL])"
proof -
  let ?i = "jkii_writer_init_buff (Some b) (length b)"
  let ?v = "foldl write_step ?i (value_ops v)"
  have i: "writes ?i ([], None, [])" using assms by (intro init_buff_writes) auto
  have su: "w_cb ?v = None" "w_buff ?v \<noteq> None" "w_buff_size ?v = length b" "w_cb ?i = None"
    using setup_steps [of ?i "value_ops v"] init_setup(1) [of b] by (simp_all add: setup_of_def)
  have a: "asteps ([], None, []) (value_ops v) = Inr ([], Some (value_json v), [])"
    using asteps_value [of "[]" None "[]" v] assms(1) by simp
  have "w_cb (fst (write_all ?i (value_ops v))) = None"
    using su by (simp add: write_all_def jkii_writer_finish_def w_fail_def Let_def)
  then have w: "writes ?v ([], Some (value_json v), [])"
      "write_all ?i (value_ops v) = (?v, length (json_text (value_json v)))"
    using write_all_spec [OF i, of "value_ops v"] a su
    by (auto simp: a_finish_def cb_failed_def prod_eq_iff)
  then have "w_inv ?v" "w_rep ?v (json_text (value_json v))" by (simp_all add: writes_def)
  note k = kept_fits [OF this su(1,2), unfolded su(3)]
  show ?thesis using w(2) k assms(2) by simp
qed

text \<open>
  What the writer writes reads back.  A string goes out between quotes, escaped so that
  reading it as JSON to the closing quote gives the same bytes and stops there, for any bytes;
  and an \<open>int64_t\<close> goes out as digits that \<open>ebisu_parse_int\<close> reads as the same number.
\<close>

lemma writer_scalars_read_back:
  "hd (json_string s) = CHR 0x22 \<and> unescape (tl (json_string s) @ t) = Some (s, t) \<and>
   (int64_min \<le> v \<and> v \<le> int64_max \<longrightarrow> ebisu_parse_int (int_text v) int64_min int64_max = Inr v)"
proof -
  have "ebisu_parse_int (int_text v) int64_min int64_max = Inr v" if "in_int64 v"
    using parse_int_digits [of v int64_min int64_max] int_text_digits [OF that] that
    by (simp add: bounded_def)
  then show ?thesis using unescape_json_string [of s t] by (simp add: json_string_def)
qed

end
