(* ===== verification/Khc_Parse.thy ===== *)
theory Khc_Parse
  imports Ebisu_Prelude Ebisu_Str
begin

text \<open>
  khc/src/khc\_impl.c: what khc reads in the lines of a response's head and in the lines that
  open a chunk, and the two numbers khc writes by hand (khc/src/khc\_state\_impl.c).

  A line is the list of its bytes, without its CRLF.  The code's loops over an index are
  recursive functions of the index.  Where the code returns 1, 0 or -1 and a value through a
  pointer, the model returns \<open>Found v\<close>, \<open>NotFound\<close> or \<open>Bad\<close>.
\<close>

section \<open>The code\<close>

datatype 'a parsed = Found 'a | NotFound | Bad

abbreviation is_ws :: "char \<Rightarrow> bool" where
  "is_ws c \<equiv> c = SPC \<or> c = HTAB"

text \<open>The three loops of \<open>_read_transfer_encoding_value\<close>.\<close>

fun te_end :: "string \<Rightarrow> nat \<Rightarrow> nat" where
  "te_end v 0 = 0"
| "te_end v (Suc e) = (if is_ws (v ! e) \<or> v ! e = CHR '','' then te_end v e else Suc e)"

fun te_start :: "string \<Rightarrow> nat \<Rightarrow> nat" where
  "te_start v 0 = 0"
| "te_start v (Suc s) = (if v ! s \<noteq> CHR '','' then te_start v s else Suc s)"

function te_skip :: "string \<Rightarrow> nat \<Rightarrow> nat \<Rightarrow> nat" where
  "te_skip v s e = (if s < e \<and> is_ws (v ! s) then te_skip v (Suc s) e else s)"
  by pat_completeness auto
termination by (relation "measure (\<lambda>(v, s, e). e - s)") auto

declare te_skip.simps [simp del]

definition read_transfer_encoding_value :: "string \<Rightarrow> unit parsed" where
  "read_transfer_encoding_value v =
     (let end' = te_end v (length v);
          start = te_skip v (te_start v end') end' in
      if end' - start \<noteq> length ''chunked'' then Bad
      else if list_all (\<lambda>i. v ! (start + i) = ''CHUNKED'' ! i \<or> v ! (start + i) = ''chunked'' ! i)
                [0..<length ''chunked'']
      then Found () else Bad)"

datatype header_parser_sts = Parse_key | Skip_separator

text \<open>
  The loop \<open>_is_chunked_encoding\<close> and \<open>_extract_content_length\<close> share: the offset of the
  value of the header named, \<open>Bad\<close> if it is empty, \<open>NotFound\<close> for another header.
\<close>

function key_loop :: "string \<Rightarrow> string \<Rightarrow> string \<Rightarrow> nat \<Rightarrow> header_parser_sts \<Rightarrow> nat parsed" where
  "key_loop upper lower header i sts =
     (if i < length header then
        (case sts of
           Parse_key \<Rightarrow>
             if i = length upper then
               (if header ! i \<noteq> CHR '':'' then NotFound
                else key_loop upper lower header (Suc i) Skip_separator)
             else if header ! i = upper ! i \<or> header ! i = lower ! i
               then key_loop upper lower header (Suc i) Parse_key
             else NotFound
         | Skip_separator \<Rightarrow>
             if is_ws (header ! i) then key_loop upper lower header (Suc i) Skip_separator
             else Found i)
      else if sts = Skip_separator then Bad else NotFound)"
  by pat_completeness auto
termination by (relation "measure (\<lambda>(u, l, h, i, s). length h - i)") auto

declare key_loop.simps [simp del]

definition is_chunked_encoding :: "string \<Rightarrow> unit parsed" where
  "is_chunked_encoding header =
     (case key_loop ''TRANSFER-ENCODING'' ''transfer-encoding'' header 0 Parse_key of
        Found i \<Rightarrow> read_transfer_encoding_value (drop i header)
      | NotFound \<Rightarrow> NotFound
      | Bad \<Rightarrow> Bad)"

text \<open>
  The digits of a Content-Length: \<open>None\<close> where the number does not fit a \<open>size_t\<close>, otherwise
  the number and how many digits there are.
\<close>

function cl_loop :: "string \<Rightarrow> nat \<Rightarrow> nat \<Rightarrow> (nat \<times> nat) option" where
  "cl_loop v i n =
     (if i < length v \<and> is_digit (v ! i) then
        (let digit = code (v ! i) - 48 in
         if n > (size_max - digit) div 10 then None else cl_loop v (Suc i) (n * 10 + digit))
      else Some (n, i))"
  by pat_completeness auto
termination by (relation "measure (\<lambda>(v, i, n). length v - i)") auto

declare cl_loop.simps [simp del]

definition read_content_length_value :: "string \<Rightarrow> nat parsed" where
  "read_content_length_value v =
     (case cl_loop v 0 0 of
        None \<Rightarrow> Bad
      | Some (n, i) \<Rightarrow>
          if i = 0 then Bad
          else if list_all is_ws (drop i v) then Found n else Bad)"

definition extract_content_length :: "string \<Rightarrow> nat parsed" where
  "extract_content_length header =
     (case key_loop ''CONTENT-LENGTH'' ''content-length'' header 0 Parse_key of
        Found i \<Rightarrow> read_content_length_value (drop i header)
      | NotFound \<Rightarrow> NotFound
      | Bad \<Rightarrow> Bad)"

definition hex_digit_value :: "char \<Rightarrow> int" where
  "hex_digit_value c =
     (if 48 \<le> code c \<and> code c \<le> 57 then int (code c) - 48
      else if 97 \<le> code c \<and> code c \<le> 102 then int (code c) - 97 + 10
      else if 65 \<le> code c \<and> code c \<le> 70 then int (code c) - 65 + 10
      else -1)"

text \<open>The size of the line before the first CRLF; \<open>cr\<close> is whether the last byte was a CR.\<close>

fun line_loop :: "string \<Rightarrow> nat \<Rightarrow> bool \<Rightarrow> nat option" where
  "line_loop [] i cr = None"
| "line_loop (c # s) i cr =
     (if c = CR then line_loop s (Suc i) True
      else if c = LF \<and> cr then Some (i - 1)
      else line_loop s (Suc i) False)"

function chunk_digits :: "string \<Rightarrow> nat \<Rightarrow> nat \<Rightarrow> (nat \<times> nat) option" where
  "chunk_digits line i n =
     (if i < length line \<and> \<not> hex_digit_value (line ! i) < 0 then
        (if n > size_max div 16 then None
         else chunk_digits line (Suc i) (n * 16 + nat (hex_digit_value (line ! i))))
      else Some (n, i))"
  by pat_completeness auto
termination by (relation "measure (\<lambda>(l, i, n). length l - i)") auto

declare chunk_digits.simps [simp del]

function skip_ws :: "string \<Rightarrow> nat \<Rightarrow> nat" where
  "skip_ws line i = (if i < length line \<and> is_ws (line ! i) then skip_ws line (Suc i) else i)"
  by pat_completeness auto
termination by (relation "measure (\<lambda>(l, i). length l - i)") auto

declare skip_ws.simps [simp del]

definition read_chunk_size :: "string \<Rightarrow> nat parsed" where
  "read_chunk_size buff =
     (case line_loop buff 0 False of
        None \<Rightarrow> NotFound
      | Some line_size \<Rightarrow>
          (let line = take line_size buff in
           case chunk_digits line 0 0 of
             None \<Rightarrow> Bad
           | Some (n, digits_end) \<Rightarrow>
               if digits_end = 0 then Bad
               else
                 (let i = skip_ws line digits_end in
                  if (if i < length line then line ! i \<noteq> CHR '';'' else i \<noteq> digits_end) then Bad
                  else if list_all (\<lambda>c. \<not> (code c < 0x20 \<and> c \<noteq> HTAB \<or> code c = 0x7f)) (drop i line)
                  then Found n else Bad)))"

definition is_field_char :: "char \<Rightarrow> bool" where
  "is_field_char c \<longleftrightarrow> c = HTAB \<or> (code c \<ge> 0x20 \<and> code c \<noteq> 0x7f)"

definition is_field_text :: "string \<Rightarrow> bool" where
  "is_field_text t \<longleftrightarrow> list_all is_field_char t"

definition is_token_char :: "char \<Rightarrow> bool" where
  "is_token_char c \<longleftrightarrow>
     (48 \<le> code c \<and> code c \<le> 57) \<or> (97 \<le> code c \<and> code c \<le> 122) \<or> (65 \<le> code c \<and> code c \<le> 90) \<or>
     (c \<noteq> NUL \<and> c \<in> set (''!#$%&'' @ [CHR 0x27] @ ''*+-.^_'' @ [CHR 0x60] @ ''|~''))"

function name_loop :: "string \<Rightarrow> nat \<Rightarrow> nat" where
  "name_loop data i =
     (if i < length data \<and> is_token_char (data ! i) then name_loop data (Suc i) else i)"
  by pat_completeness auto
termination by (relation "measure (\<lambda>(d, i). length d - i)") auto

declare name_loop.simps [simp del]

definition header_name_length :: "string \<Rightarrow> nat" where
  "header_name_length data =
     (let i = name_loop data 0 in
      if i > 0 \<and> i < length data \<and> data ! i = CHR '':'' then i else 0)"

definition is_header_line :: "string \<Rightarrow> bool" where
  "is_header_line line =
     (let n = header_name_length line in n > 0 \<and> is_field_text (drop (n + 1) line))"

definition is_header_start :: "string \<Rightarrow> bool" where
  "is_header_start data =
     is_header_line (if length data > 0 \<and> data ! (length data - 1) = CR then butlast data else data)"

definition is_status_line :: "string \<Rightarrow> bool" where
  "is_status_line line =
     (if length line < 12 \<or> take 7 line \<noteq> ''HTTP/1.'' \<or> \<not> is_digit (line ! 7) \<or> line ! 8 \<noteq> SPC
      then False
      else if \<not> list_all is_digit (take 3 (drop 9 line)) then False
      else if length line = 12 then True
      else line ! 12 = SPC \<and> is_field_text (drop 13 line))"

text \<open>
  The loop of \<open>_is_header_present\<close>, where the header given is a literal in ASCII; \<open>tolower\<close>
  and \<open>toupper\<close> are those of the C locale.
\<close>

definition ascii_upper :: "char \<Rightarrow> char" where
  "ascii_upper c = (if code c \<ge> 97 \<and> code c \<le> 122 then char_of (code c - 97 + 65) else c)"

function present_loop :: "string \<Rightarrow> string \<Rightarrow> nat \<Rightarrow> bool" where
  "present_loop header buff i =
     (if i < length buff then
        (if buff ! i = CHR '':'' then i = length header
         else if i < length header then
           (if buff ! i \<noteq> ascii_lower (header ! i) \<and> buff ! i \<noteq> ascii_upper (header ! i) then False
            else present_loop header buff (Suc i))
         else False)
      else False)"
  by pat_completeness auto
termination by (relation "measure (\<lambda>(h, b, i). length b - i)") auto

declare present_loop.simps [simp del]

definition is_header_present :: "string \<Rightarrow> string \<Rightarrow> bool" where
  "is_header_present header buff = present_loop header buff 0"

text \<open>\<open>_find_crlf\<close>: the offset of the first CRLF, or \<open>None\<close> for NULL.\<close>

function crlf_loop :: "string \<Rightarrow> nat \<Rightarrow> nat option" where
  "crlf_loop buff i =
     (if i + 1 < length buff then
        (if buff ! i = CR \<and> buff ! (i + 1) = LF then Some i else crlf_loop buff (Suc i))
      else None)"
  by pat_completeness auto
termination by (relation "measure (\<lambda>(b, i). length b - i)") auto

declare crlf_loop.simps [simp del]

definition find_crlf :: "string \<Rightarrow> nat option" where
  "find_crlf buff = crlf_loop buff 0"

text \<open>
  \<open>_decimal\<close> and \<open>_khc_chunk_size_line\<close>: the digits are collected lowest first and then turned
  round.
\<close>

function size_digits :: "nat \<Rightarrow> nat \<Rightarrow> string" where
  "size_digits b v =
     (if b < 2 then [] else hex_digit (v mod b) # (if v div b \<noteq> 0 then size_digits b (v div b) else []))"
  by pat_completeness auto
termination
proof (relation "measure snd")
  fix b v :: nat
  assume b: "\<not> b < 2" and nz: "v div b \<noteq> 0"
  then have "0 < v" by (cases v) auto
  with b show "((b, v div b), (b, v)) \<in> measure snd" by simp
qed simp

declare size_digits.simps [simp del]

definition khc_decimal :: "nat \<Rightarrow> string" where
  "khc_decimal v = rev (size_digits 10 v)"

definition khc_chunk_size_line :: "nat \<Rightarrow> string" where
  "khc_chunk_size_line v = rev (size_digits 16 v) @ [CR, LF]"

text \<open>\<open>_hex_digits\<close>: the number of hex digits of a size.\<close>

function hex_digits_count :: "nat \<Rightarrow> nat" where
  "hex_digits_count v = (if v div 16 \<noteq> 0 then Suc (hex_digits_count (v div 16)) else 1)"
  by pat_completeness auto
termination by (relation "measure id") auto

declare hex_digits_count.simps [simp del]

section \<open>The first CRLF\<close>

lemma crlf_loop_spec:
  "case crlf_loop s i of
     None \<Rightarrow> \<forall>j\<ge>i. j + 1 < length s \<longrightarrow> \<not> (s ! j = CR \<and> s ! (j + 1) = LF)
   | Some k \<Rightarrow> i \<le> k \<and> k + 1 < length s \<and> s ! k = CR \<and> s ! (k + 1) = LF \<and>
       (\<forall>j. i \<le> j \<and> j < k \<longrightarrow> \<not> (s ! j = CR \<and> s ! (j + 1) = LF))"
proof (induction s i rule: crlf_loop.induct)
  case (1 s i)
  show ?case
  proof (cases "i + 1 < length s \<and> \<not> (s ! i = CR \<and> s ! (i + 1) = LF)")
    case False
    then show ?thesis by (subst crlf_loop.simps) auto
  next
    case True
    then have e: "crlf_loop s i = crlf_loop s (Suc i)" by (subst crlf_loop.simps) auto
    have j: "\<not> (s ! j = CR \<and> s ! (j + 1) = LF)" if "Suc i \<le> j \<Longrightarrow> \<not> (s ! j = CR \<and> s ! (j + 1) = LF)" "i \<le> j" for j
      using that True by (cases "i = j") auto
    show ?thesis
    proof (cases "crlf_loop s (Suc i)")
      case None
      with 1 True have n: "\<forall>j\<ge>Suc i. j + 1 < length s \<longrightarrow> \<not> (s ! j = CR \<and> s ! (j + 1) = LF)" by auto
      have "\<forall>j\<ge>i. j + 1 < length s \<longrightarrow> \<not> (s ! j = CR \<and> s ! (j + 1) = LF)"
        using n j by blast
      then show ?thesis unfolding e None option.case .
    next
      case (Some k)
      with 1 True have k: "Suc i \<le> k \<and> k + 1 < length s \<and> s ! k = CR \<and> s ! (k + 1) = LF \<and>
         (\<forall>j. Suc i \<le> j \<and> j < k \<longrightarrow> \<not> (s ! j = CR \<and> s ! (j + 1) = LF))" by auto
      have "i \<le> k \<and> k + 1 < length s \<and> s ! k = CR \<and> s ! (k + 1) = LF \<and>
         (\<forall>j. i \<le> j \<and> j < k \<longrightarrow> \<not> (s ! j = CR \<and> s ! (j + 1) = LF))"
        using k j Suc_leD by blast
      then show ?thesis unfolding e Some option.case .
    qed
  qed
qed

lemma find_crlf_Some:
  assumes "find_crlf s = Some k"
  shows "k + 1 < length s" "s ! k = CR" "s ! (k + 1) = LF"
    "j < k \<Longrightarrow> \<not> (s ! j = CR \<and> s ! (j + 1) = LF)" "k + 2 \<le> length s"
  using crlf_loop_spec [where s = s and i = 0] assms by (auto simp: find_crlf_def)

lemma find_crlf_None:
  "find_crlf s = None \<Longrightarrow> j + 1 < length s \<Longrightarrow> \<not> (s ! j = CR \<and> s ! (j + 1) = LF)"
  using crlf_loop_spec [where s = s and i = 0] by (simp add: find_crlf_def)

lemma find_crlf_unique:
  assumes "k + 1 < length s" "s ! k = CR" "s ! (k + 1) = LF"
    "\<And>j. j < k \<Longrightarrow> \<not> (s ! j = CR \<and> s ! (j + 1) = LF)"
  shows "find_crlf s = Some k"
proof (cases "find_crlf s")
  case None
  with find_crlf_None [OF this assms(1)] assms show ?thesis by blast
next
  case (Some i)
  note i = find_crlf_Some [OF Some]
  have "i = k" using i(2,3) i(4) [of k] assms(2-4) by (metis linorder_neqE_nat)
  with Some show ?thesis by simp
qed

lemma find_crlf_split:
  assumes "find_crlf s = Some k"
  shows "s = take k s @ [CR, LF] @ drop (k + 2) s"
proof -
  note k = find_crlf_Some [OF assms]
  have "s = take k s @ drop k s" by simp
  also have "drop k s = s ! k # s ! Suc k # drop (k + 2) s"
    using k(1) by (simp add: Cons_nth_drop_Suc)
  finally show ?thesis using k(2,3) by simp
qed

text \<open>A line with no CR is found whole, whatever comes after it.\<close>

lemma find_crlf_line: "CR \<notin> set l \<Longrightarrow> find_crlf (l @ [CR, LF] @ r) = Some (length l)"
proof (rule find_crlf_unique)
  fix j
  assume "CR \<notin> set l" "j < length l"
  then have "(l @ [CR, LF] @ r) ! j \<noteq> CR" by (simp add: nth_append) (metis nth_mem)
  then show "\<not> ((l @ [CR, LF] @ r) ! j = CR \<and> (l @ [CR, LF] @ r) ! (j + 1) = LF)" by blast
qed (simp_all add: nth_append)

lemma crlf_loop_Cons: "crlf_loop (c # s) (Suc i) = map_option Suc (crlf_loop s i)"
proof (induction s i rule: crlf_loop.induct)
  case (1 s i)
  show ?case using 1 by (subst (1 2) crlf_loop.simps) auto
qed

lemma find_crlf_Cons:
  "find_crlf (c # s) =
     (if c = CR \<and> s \<noteq> [] \<and> hd s = LF then Some 0 else map_option Suc (find_crlf s))"
proof (cases s)
  case Nil
  then show ?thesis by (simp add: find_crlf_def crlf_loop.simps)
next
  case (Cons d t)
  have "crlf_loop (c # d # t) 0 = (if c = CR \<and> d = LF then Some 0 else crlf_loop (c # d # t) (Suc 0))"
    by (subst crlf_loop.simps) simp
  with Cons show ?thesis by (auto simp: find_crlf_def crlf_loop_Cons)
qed

lemma find_crlf_Nil [simp]: "find_crlf [] = None"
  by (simp add: find_crlf_def crlf_loop.simps)

lemma line_loop_eq:
  "line_loop s i cr =
     (if cr \<and> s \<noteq> [] \<and> hd s = LF then Some (i - 1) else map_option ((+) i) (find_crlf s))"
proof (induction s arbitrary: i cr)
  case Nil
  then show ?case by simp
next
  case (Cons c s)
  have m: "map_option ((+) (Suc i)) (find_crlf s) = map_option ((+) i) (map_option Suc (find_crlf s))"
    by (cases "find_crlf s") simp_all
  show ?case
  proof (cases "c = CR")
    case True
    then show ?thesis using Cons m by (cases "find_crlf s") (auto simp: find_crlf_Cons)
  next
    case False
    then show ?thesis using Cons m by (cases "find_crlf s") (auto simp: find_crlf_Cons)
  qed
qed

lemma line_loop_find: "line_loop s 0 False = find_crlf s"
  by (cases "find_crlf s") (simp_all add: line_loop_eq)

section \<open>Chunk sizes\<close>

lemma hex_digit_value_eq: "hex_digit_value c = str_digit c 16"
  by (simp add: hex_digit_value_def str_digit_def)

lemma chunk_digits_spec:
  assumes "n \<le> size_max"
  shows "chunk_digits l i n =
    (let ds = takeWhile (\<lambda>c. 0 \<le> str_digit c 16) (drop i l);
         v = num_value (\<lambda>c. str_digit c 16) 16 n ds
     in if v \<le> size_max then Some (v, i + length ds) else None)"
  using assms
proof (induction l i n rule: chunk_digits.induct)
  case (1 l i n)
  let ?p = "\<lambda>c. 0 \<le> str_digit c 16"
  show ?case
  proof (cases "i < length l \<and> ?p (l ! i)")
    case False
    then have "takeWhile ?p (drop i l) = []" by (cases "i < length l") (auto simp flip: Cons_nth_drop_Suc)
    with False 1(2) show ?thesis
      by (subst chunk_digits.simps) (auto simp: hex_digit_value_eq Let_def)
  next
    case True
    let ?x = "n * 16 + nat (str_digit (l ! i) 16)"
    let ?ds = "takeWhile ?p (drop (Suc i) l)"
    have tw: "takeWhile ?p (drop i l) = l ! i # ?ds" using True by (simp flip: Cons_nth_drop_Suc)
    have d: "nat (str_digit (l ! i) 16) < 16" using True str_digit_range [of "l ! i" 16] by simp
    have big: "n > size_max div 16 \<longleftrightarrow> \<not> ?x \<le> size_max"
      using d by (auto simp: size_max_def)
    have mono: "?x \<le> num_value (\<lambda>c. str_digit c 16) 16 ?x ?ds" by (intro num_value_ge) simp
    have e: "chunk_digits l i n = (if ?x \<le> size_max then chunk_digits l (Suc i) ?x else None)"
      using True big by (subst chunk_digits.simps) (auto simp: hex_digit_value_eq)
    show ?thesis
    proof (cases "?x \<le> size_max")
      case le: True
      have "chunk_digits l (Suc i) ?x = (let v = num_value (\<lambda>c. str_digit c 16) 16 ?x ?ds
          in if v \<le> size_max then Some (v, Suc i + length ?ds) else None)"
        using 1(1) True big le by (simp add: hex_digit_value_eq Let_def)
      then show ?thesis using le by (simp add: e tw Let_def)
    next
      case False
      with mono show ?thesis by (simp add: e tw Let_def)
    qed
  qed
qed

lemma skip_ws_spec: "skip_ws l i = i + length (takeWhile is_ws (drop i l))"
proof (induction l i rule: skip_ws.induct)
  case (1 l i)
  show ?case
  proof (cases "i < length l")
    case False
    then show ?thesis by (subst skip_ws.simps) simp
  next
    case True
    then have "drop i l = l ! i # drop (Suc i) l" by (simp add: Cons_nth_drop_Suc)
    with 1 True show ?thesis by (subst skip_ws.simps) auto
  qed
qed

definition ext_char :: "char \<Rightarrow> bool" where
  "ext_char c \<longleftrightarrow> \<not> (code c < 0x20 \<and> c \<noteq> HTAB \<or> code c = 0x7f)"

text \<open>What a chunk size line may be: digits, and an extension perhaps.\<close>

definition chunk_ext :: "string \<Rightarrow> bool" where
  "chunk_ext ext \<longleftrightarrow>
     (\<exists>ws e. ext = ws @ CHR '';'' # e \<and> (\<forall>c\<in>set ws. is_ws c) \<and> (\<forall>c\<in>set e. ext_char c))"

definition chunk_line :: "string \<Rightarrow> nat \<Rightarrow> bool" where
  "chunk_line line n \<longleftrightarrow> (\<exists>ds ext. line = ds @ ext \<and> ds \<noteq> [] \<and> (\<forall>c\<in>set ds. 0 \<le> str_digit c 16) \<and>
     hex_value ds = n \<and> n \<le> size_max \<and>
     (ext = [] \<or> chunk_ext ext))"


lemma ext_char_eq: "(\<lambda>c. \<not> (code c < 0x20 \<and> c \<noteq> HTAB \<or> code c = 0x7f)) = ext_char"
  by (simp add: ext_char_def fun_eq_iff)

abbreviation hex_part :: "string \<Rightarrow> string" where
  "hex_part l \<equiv> takeWhile (\<lambda>c. 0 \<le> str_digit c 16) l"

abbreviation ext_part :: "string \<Rightarrow> string" where
  "ext_part l \<equiv> dropWhile (\<lambda>c. 0 \<le> str_digit c 16) l"

definition ext_ok :: "string \<Rightarrow> bool" where
  "ext_ok ext \<longleftrightarrow> ext = [] \<or>
     (let e = dropWhile is_ws ext in e \<noteq> [] \<and> hd e = CHR '';'' \<and> list_all ext_char e)"

lemma drop_length_takeWhile: "drop (length (takeWhile P l)) l = dropWhile P l"
  by (simp add: dropWhile_eq_drop)

lemma read_chunk_size_line:
  assumes "find_crlf buff = Some k"
  shows "read_chunk_size buff =
    (let l = take k buff; n = hex_value (hex_part l) in
     if hex_part l \<noteq> [] \<and> n \<le> size_max \<and> ext_ok (ext_part l) then Found n else Bad)"
proof -
  obtain l where l: "l = take k buff" by blast
  obtain ds where ds: "ds = hex_part l" by blast
  obtain ext where ext: "ext = ext_part l" by blast
  obtain e where e: "e = dropWhile is_ws ext" by blast
  have len: "drop (length ds) l = ext" by (simp add: ds ext drop_length_takeWhile)
  have i: "skip_ws l (length ds) = length ds + length (takeWhile is_ws ext)"
    by (simp add: skip_ws_spec len)
  have d: "drop (skip_ws l (length ds)) l = e"
    by (simp add: i e len [symmetric] add.commute flip: drop_length_takeWhile)
  have less: "skip_ws l (length ds) < length l \<longleftrightarrow> e \<noteq> []"
    unfolding d [symmetric] by auto
  have hd: "skip_ws l (length ds) < length l \<Longrightarrow> l ! skip_ws l (length ds) = hd e"
    unfolding d [symmetric] by (simp add: hd_drop_conv_nth)
  have same: "e = [] \<Longrightarrow> skip_ws l (length ds) = length ds \<longleftrightarrow> ext = []"
  proof -
    assume "e = []"
    moreover have "takeWhile is_ws ext @ e = ext" by (simp add: e)
    ultimately have "takeWhile is_ws ext = ext" by (simp del: takeWhile_eq_all_conv)
    with i show ?thesis by simp
  qed
  have c: "chunk_digits l 0 0 = (if hex_value ds \<le> size_max then Some (hex_value ds, length ds) else None)"
    by (simp add: chunk_digits_spec ds Let_def)
  have ok: "((if skip_ws l (length ds) < length l then l ! skip_ws l (length ds) \<noteq> CHR '';''
       else skip_ws l (length ds) \<noteq> length ds) \<or> \<not> list_all ext_char (drop (skip_ws l (length ds)) l))
     \<longleftrightarrow> \<not> ext_ok ext"
  proof -
    have eo: "ext_ok ext \<longleftrightarrow> ext = [] \<or> (e \<noteq> [] \<and> hd e = CHR '';'' \<and> list_all ext_char e)"
      by (simp add: ext_ok_def Let_def e)
    have ee: "e \<noteq> [] \<Longrightarrow> ext \<noteq> []" by (auto simp: e)
    show ?thesis
    proof (cases "e = []")
      case True
      with less same show ?thesis unfolding d eo by simp
    next
      case False
      with less hd ee show ?thesis unfolding d eo by simp
    qed
  qed
  have lf: "line_loop buff 0 False = Some k" using assms by (simp add: line_loop_find)
  show ?thesis
    unfolding read_chunk_size_def ext_char_eq lf
    using ok by (simp add: Let_def c flip: l ds ext) (auto split: if_splits)
qed

lemma ext_ok_iff:
  assumes "ext \<noteq> []"
  shows "ext_ok ext \<longleftrightarrow> chunk_ext ext"
proof
  assume ok: "ext_ok ext"
  obtain d where d: "d = dropWhile is_ws ext" by blast
  obtain ws where ws: "ws = takeWhile is_ws ext" by blast
  have e: "d \<noteq> []" "hd d = CHR '';''" "list_all ext_char d"
    using ok assms by (simp_all add: ext_ok_def Let_def flip: d)
  have "ext = ws @ d" by (simp add: d ws)
  with e have "ext = ws @ CHR '';'' # tl d" by (cases d) auto
  moreover have "\<forall>c\<in>set ws. is_ws c"
    unfolding ws by (rule ballI) (rule conjunct2 [OF set_takeWhileD])
  moreover have "\<forall>c\<in>set (tl d). ext_char c" using e(1,3) by (cases d) (auto simp: list_all_iff)
  ultimately show "chunk_ext ext" unfolding chunk_ext_def by (intro exI conjI)
next
  assume "chunk_ext ext"
  then obtain ws e where w: "ext = ws @ CHR '';'' # e" "\<forall>c\<in>set ws. is_ws c" "\<forall>c\<in>set e. ext_char c"
    unfolding chunk_ext_def by (elim exE conjE)
  then have "dropWhile is_ws ext = CHR '';'' # e" by (simp add: dropWhile_append2)
  with w show "ext_ok ext" by (simp add: ext_ok_def list_all_iff ext_char_def)
qed

lemma chunk_ext_head: "chunk_ext ext \<Longrightarrow> str_digit (hd ext) 16 < 0"
proof -
  assume "chunk_ext ext"
  then obtain ws e where w: "ext = ws @ CHR '';'' # e" "\<forall>c\<in>set ws. is_ws c"
    unfolding chunk_ext_def by (elim exE conjE)
  have n: "str_digit (CHR '';'') 16 < 0" "str_digit SPC 16 < 0" "str_digit HTAB 16 < 0"
    by (simp_all add: str_digit_def)
  show "str_digit (hd ext) 16 < 0"
  proof (cases ws)
    case Nil
    with w n show ?thesis by (simp only: append_Nil list.sel)
  next
    case (Cons a t)
    with w(2) have "a = SPC \<or> a = HTAB" by simp
    with n have "str_digit a 16 < 0" by (elim disjE) (simp_all only:)
    with w Cons show ?thesis by simp
  qed
qed

lemma chunk_line_parts:
  assumes "chunk_line l n"
  shows "hex_part l \<noteq> []" "hex_value (hex_part l) = n" "n \<le> size_max" "ext_ok (ext_part l)"
proof -
  from assms obtain ds ext where l: "l = ds @ ext" "ds \<noteq> []" "\<forall>c\<in>set ds. 0 \<le> str_digit c 16"
    "hex_value ds = n" "n \<le> size_max" and e: "ext = [] \<or> chunk_ext ext"
    unfolding chunk_line_def by blast
  from e chunk_ext_head have "ext = [] \<or> str_digit (hd ext) 16 < 0" by blast
  then have h: "hex_part ext = []" "ext_part ext = ext" by (cases ext; simp)+
  from l(3) have p: "hex_part l = ds" "ext_part l = ext"
    using h by (simp_all add: l(1) takeWhile_append2 dropWhile_append2)
  from e have "ext_ok ext" using ext_ok_iff [of ext] by (cases "ext = []") (simp_all add: ext_ok_def)
  with l p show "hex_part l \<noteq> []" "hex_value (hex_part l) = n" "n \<le> size_max" "ext_ok (ext_part l)"
    by simp_all
qed

lemma chunk_line_iff:
  "chunk_line l n \<longleftrightarrow>
     hex_part l \<noteq> [] \<and> hex_value (hex_part l) = n \<and> n \<le> size_max \<and> ext_ok (ext_part l)"
proof
  assume r: "hex_part l \<noteq> [] \<and> hex_value (hex_part l) = n \<and> n \<le> size_max \<and> ext_ok (ext_part l)"
  have "l = hex_part l @ ext_part l" by simp
  moreover have "\<forall>c\<in>set (hex_part l). 0 \<le> str_digit c 16" by (meson set_takeWhileD)
  moreover have "ext_part l = [] \<or> chunk_ext (ext_part l)" using r ext_ok_iff [of "ext_part l"] by blast
  ultimately show "chunk_line l n" unfolding chunk_line_def using r by blast
qed (auto dest: chunk_line_parts)

lemma read_chunk_size_Found:
  "read_chunk_size buff = Found n \<longleftrightarrow> (\<exists>k. find_crlf buff = Some k \<and> chunk_line (take k buff) n)"
proof (cases "find_crlf buff")
  case None
  then show ?thesis by (simp add: read_chunk_size_def line_loop_find)
next
  case (Some k)
  then show ?thesis by (auto simp: read_chunk_size_line [OF Some] chunk_line_iff Let_def)
qed

lemma read_chunk_size_NotFound: "read_chunk_size buff = NotFound \<longleftrightarrow> find_crlf buff = None"
proof (cases "find_crlf buff")
  case None
  then show ?thesis by (simp add: read_chunk_size_def line_loop_find)
next
  case (Some k)
  then show ?thesis by (auto simp: read_chunk_size_line [OF Some] Let_def)
qed

lemma size_digits_hex: "rev (size_digits 16 v) @ acc = hexdigits_loop v 0 w acc"
proof (induction v arbitrary: acc w rule: less_induct)
  case (less v)
  show ?case
  proof (cases "v div 16 = 0")
    case True
    then show ?thesis by (subst size_digits.simps, subst hexdigits_loop.simps) (simp add: Let_def)
  next
    case False
    then have "v div 16 < v" by simp
    from less [OF this, of "hex_digit (v mod 16) # acc" "Suc w"] False show ?thesis
      by (subst size_digits.simps, subst hexdigits_loop.simps) (simp add: Let_def)
  qed
qed

lemma size_digits_dec: "rev (size_digits 10 v) @ acc = udigits_loop v 0 w acc"
proof (induction v arbitrary: acc w rule: less_induct)
  case (less v)
  have "v mod 10 \<in> set [0..<10]" by simp
  moreover have "\<forall>d\<in>set [0..<10]. hex_digit d = char_of (48 + d)" by code_simp
  ultimately have d: "hex_digit (v mod 10) = char_of (48 + v mod 10)" by blast
  show ?case
  proof (cases "v div 10 = 0")
    case True
    then show ?thesis using d by (subst size_digits.simps, subst udigits_loop.simps) (simp add: Let_def)
  next
    case False
    then have "v div 10 < v" by simp
    from less [OF this, of "hex_digit (v mod 10) # acc" "Suc w"] False show ?thesis
      using d by (subst size_digits.simps, subst udigits_loop.simps) (simp add: Let_def)
  qed
qed

lemma hex_size_digits: "rev (size_digits 16 v) = hexa.digs v 0"
  using size_digits_hex [of v "[]" 0] by simp

lemma khc_decimal_digs: "khc_decimal v = dec.digs v 0"
  using size_digits_dec [of v "[]" 0] by (simp add: khc_decimal_def)

lemma hex_line_chunk_line: "n \<le> size_max \<Longrightarrow> chunk_line (hexa.digs n 0) n"
  unfolding chunk_line_def
  by (intro exI [of _ "hexa.digs n 0"] exI [of _ "[]"])
     (auto simp: hexa.digs_value hexa.digs_nonempty dest: hexa.digs_val)

lemma hexa_no_cr: "CR \<notin> set (hexa.digs n 0)"
  by (auto dest!: hexa.digs_val simp: str_digit_def)

lemma hex_digits_count_length: "hex_digits_count n = length (size_digits 16 n)"
proof (induction n rule: less_induct)
  case (less n)
  show ?case
  proof (cases "n div 16 = 0")
    case True
    then show ?thesis by (subst hex_digits_count.simps, subst size_digits.simps) simp
  next
    case False
    then have "n div 16 < n" by simp
    from less [OF this] False show ?thesis by (subst hex_digits_count.simps, subst size_digits.simps) simp
  qed
qed


section \<open>Named headers\<close>

lemma ascii_lower_iff:
  assumes "\<not> (65 \<le> code x \<and> code x \<le> 90)"
  shows "ascii_lower c = x \<longleftrightarrow> c = x \<or> c = ascii_upper x"
proof -
  have c: "char_of (code c) = c" "char_of (code x) = x" by simp_all
  have lt: "code c < 256" "code x < 256" by simp_all
  show ?thesis
  proof (cases "65 \<le> code c \<and> code c \<le> 90")
    case True
    then have l: "ascii_lower c = char_of (code c + 32)" by (simp add: ascii_lower_def)
    have "char_of (code c + 32) = x \<longleftrightarrow> code c + 32 = code x"
    proof
      assume "char_of (code c + 32) = x"
      then have "code (char_of (code c + 32)) = code x" by simp
      then show "code c + 32 = code x" using True by simp
    qed (metis c(2))
    also have "\<dots> \<longleftrightarrow> c = ascii_upper x"
    proof
      assume e: "code c + 32 = code x"
      then have "ascii_upper x = char_of (code x - 97 + 65)" using True by (simp add: ascii_upper_def)
      also have "code x - 97 + 65 = code c" using e True by linarith
      finally show "c = ascii_upper x" by simp
    next
      assume e: "c = ascii_upper x"
      have x: "97 \<le> code x \<and> code x \<le> 122"
      proof (rule ccontr)
        assume "\<not> (97 \<le> code x \<and> code x \<le> 122)"
        then have "ascii_upper x = x" unfolding ascii_upper_def by (rule if_not_P)
        then have "c = x" using e by simp
        with True assms show False by simp
      qed
      then have "c = char_of (code x - 97 + 65)" using e by (simp add: ascii_upper_def)
      moreover have "code x - 97 + 65 < 256" using x by linarith
      ultimately have "code c = code x - 97 + 65" by (simp only: code_char_of)
      then show "code c + 32 = code x" using x by linarith
    qed
    moreover have "c \<noteq> x" using True assms by auto
    ultimately show ?thesis by (simp add: l)
  next
    case False
    then have l: "ascii_lower c = c" unfolding ascii_lower_def by (rule if_not_P)
    have "c = ascii_upper x \<Longrightarrow> c = x"
    proof (cases "97 \<le> code x \<and> code x \<le> 122")
      case True
      assume "c = ascii_upper x"
      then have "c = char_of (code x - 97 + 65)" using True by (simp add: ascii_upper_def)
      moreover have "code x - 97 + 65 < 256" using True by linarith
      ultimately have "code c = code x - 97 + 65" by (simp only: code_char_of)
      with True False show "c = x" by linarith
    qed (auto simp: ascii_upper_def)
    then show ?thesis unfolding l by blast
  qed
qed

text \<open>The header line has this name, whatever the case of its letters.\<close>

definition header_named :: "string \<Rightarrow> string \<Rightarrow> bool" where
  "header_named name h \<longleftrightarrow>
     map ascii_lower (take (length name) h) = name \<and> length name < length h \<and>
     h ! length name = CHR '':''"

definition header_value :: "string \<Rightarrow> string \<Rightarrow> string" where
  "header_value name h = dropWhile is_ws (drop (Suc (length name)) h)"

lemma key_loop_skip:
  "key_loop u l h i Skip_separator =
     (let k = i + length (takeWhile is_ws (drop i h)) in if k < length h then Found k else Bad)"
proof (induction "length h - i" arbitrary: i)
  case 0
  then show ?case by (subst key_loop.simps) simp
next
  case (Suc n)
  then have i: "i < length h" by simp
  then have d: "drop i h = h ! i # drop (Suc i) h" by (simp add: Cons_nth_drop_Suc)
  have IH: "key_loop u l h (Suc i) Skip_separator =
    (let k = Suc i + length (takeWhile is_ws (drop (Suc i) h)) in if k < length h then Found k else Bad)"
    using Suc by simp
  show ?case
  proof (cases "is_ws (h ! i)")
    case True
    then have "key_loop u l h i Skip_separator = key_loop u l h (Suc i) Skip_separator"
      using i by (subst key_loop.simps) simp
    with IH True show ?thesis by (simp add: d)
  next
    case False
    then have "key_loop u l h i Skip_separator = Found i" using i by (subst key_loop.simps) simp
    with False i show ?thesis by (simp add: d)
  qed
qed

definition key_matches :: "string \<Rightarrow> string \<Rightarrow> string \<Rightarrow> nat \<Rightarrow> bool" where
  "key_matches u l h i \<longleftrightarrow>
     (\<forall>j. i \<le> j \<and> j < length u \<longrightarrow> j < length h \<and> (h ! j = u ! j \<or> h ! j = l ! j)) \<and>
     length u < length h \<and> h ! length u = CHR '':''"

lemma key_matches_step:
  "i < length u \<Longrightarrow> key_matches u l h i \<longleftrightarrow>
     i < length h \<and> (h ! i = u ! i \<or> h ! i = l ! i) \<and> key_matches u l h (Suc i)"
proof -
  assume i: "i < length u"
  have "i \<le> j \<longleftrightarrow> j = i \<or> Suc i \<le> j" for j by auto
  with i show ?thesis unfolding key_matches_def by (metis (lifting))
qed

lemma key_loop_key:
  "i \<le> length u \<Longrightarrow> key_loop u l h i Parse_key =
     (if key_matches u l h i then key_loop u l h (Suc (length u)) Skip_separator else NotFound)"
proof (induction "length u - i" arbitrary: i)
  case 0
  then have i: "i = length u" by simp
  show ?case using i by (subst key_loop.simps) (auto simp: key_matches_def)
next
  case (Suc n)
  then have i: "i < length u" by simp
  have IH: "key_loop u l h (Suc i) Parse_key =
     (if key_matches u l h (Suc i) then key_loop u l h (Suc (length u)) Skip_separator else NotFound)"
    using Suc by simp
  show ?case using i IH by (subst key_loop.simps) (auto simp: key_matches_step)
qed

lemma key_matches_named:
  assumes "u = map ascii_upper l" "\<forall>c\<in>set l. \<not> (65 \<le> code c \<and> code c \<le> 90)"
  shows "key_matches u l h 0 \<longleftrightarrow> header_named l h"
proof -
  have c: "(h ! j = u ! j \<or> h ! j = l ! j) \<longleftrightarrow> ascii_lower (h ! j) = l ! j" if "j < length l" for j
    using ascii_lower_iff [of "l ! j" "h ! j"] assms that by auto
  have "(\<forall>j < length l. j < length h \<and> (h ! j = u ! j \<or> h ! j = l ! j)) \<and> length l < length h \<longleftrightarrow>
     map ascii_lower (take (length l) h) = l \<and> length l < length h"
    using c by (auto simp: list_eq_iff_nth_eq)
  then show ?thesis unfolding key_matches_def header_named_def using assms(1) by simp blast
qed

lemma key_loop_named:
  assumes "u = map ascii_upper l" "\<forall>c\<in>set l. \<not> (65 \<le> code c \<and> code c \<le> 90)"
  shows "(case key_loop u l h 0 Parse_key of Found i \<Rightarrow> f (drop i h) | NotFound \<Rightarrow> NotFound | Bad \<Rightarrow> Bad) =
    (if \<not> header_named l h then NotFound
     else if header_value l h = [] then Bad else f (header_value l h))"
proof -
  obtain d where d: "d = drop (Suc (length l)) h" by blast
  obtain k where k: "k = Suc (length l) + length (takeWhile is_ws d)" by blast
  have v: "drop k h = header_value l h"
  proof -
    have "header_value l h = drop (length (takeWhile is_ws d)) d"
      unfolding header_value_def d by (rule drop_length_takeWhile [symmetric])
    also have "\<dots> = drop k h" by (simp only: k d drop_drop add.commute)
    finally show ?thesis by (rule sym)
  qed
  have kl: "k < length h \<longleftrightarrow> header_value l h \<noteq> []" unfolding v [symmetric] by auto
  have "key_loop u l h 0 Parse_key =
    (if header_named l h then if k < length h then Found k else Bad else NotFound)"
    unfolding key_loop_key [OF le0] key_matches_named [OF assms] key_loop_skip
    using assms(1) by (simp add: Let_def d k)
  then show ?thesis by (simp add: v kl)
qed


section \<open>Content-Length\<close>

text \<open>A Content-Length value: digits of a number that fits a \<open>size_t\<close>, then blanks.\<close>

definition length_value :: "string \<Rightarrow> nat \<Rightarrow> bool" where
  "length_value v n \<longleftrightarrow> (\<exists>ds ws. v = ds @ ws \<and> ds \<noteq> [] \<and> (\<forall>c\<in>set ds. is_digit c) \<and>
     (\<forall>c\<in>set ws. is_ws c) \<and> dec_value ds = n \<and> n \<le> size_max)"

lemma cl_loop_spec:
  assumes "n \<le> size_max"
  shows "cl_loop v i n =
    (let ds = takeWhile is_digit (drop i v); x = num_value (\<lambda>c. str_digit c 10) 10 n ds
     in if x \<le> size_max then Some (x, i + length ds) else None)"
  using assms
proof (induction v i n rule: cl_loop.induct)
  case (1 v i n)
  show ?case
  proof (cases "i < length v \<and> is_digit (v ! i)")
    case False
    then have "takeWhile is_digit (drop i v) = []"
      by (cases "i < length v") (auto simp flip: Cons_nth_drop_Suc)
    with False 1(2) show ?thesis by (subst cl_loop.simps) (auto simp: Let_def)
  next
    case True
    obtain d where d: "d = code (v ! i) - 48" by blast
    have sd: "nat (str_digit (v ! i) 10) = d" and d9: "d \<le> 9"
      using True by (auto simp: d is_digit_def str_digit_def)
    let ?ds = "takeWhile is_digit (drop (Suc i) v)"
    have tw: "takeWhile is_digit (drop i v) = v ! i # ?ds" using True by (simp flip: Cons_nth_drop_Suc)
    have big: "n > (size_max - d) div 10 \<longleftrightarrow> \<not> n * 10 + d \<le> size_max"
      using d9 by (auto simp: size_max_def)
    have ge: "n * 10 + d \<le> num_value (\<lambda>c. str_digit c 10) 10 (n * 10 + d) ?ds"
      by (intro num_value_ge) simp
    have e: "cl_loop v i n = (if n * 10 + d \<le> size_max then cl_loop v (Suc i) (n * 10 + d) else None)"
      using True big by (subst cl_loop.simps) (auto simp: Let_def simp flip: d)
    show ?thesis
    proof (cases "n * 10 + d \<le> size_max")
      case le: True
      have "cl_loop v (Suc i) (n * 10 + d) =
         (let x = num_value (\<lambda>c. str_digit c 10) 10 (n * 10 + d) ?ds
          in if x \<le> size_max then Some (x, Suc i + length ?ds) else None)"
        using 1(1) True big le by (simp add: Let_def flip: d)
      then show ?thesis using le by (simp add: e tw sd Let_def)
    next
      case False
      with ge show ?thesis by (simp add: e tw sd Let_def)
    qed
  qed
qed

lemma length_value_iff:
  "length_value v n \<longleftrightarrow>
     (let ds = takeWhile is_digit v in ds \<noteq> [] \<and> dec_value ds = n \<and> n \<le> size_max \<and>
       list_all is_ws (dropWhile is_digit v))"
proof
  assume "length_value v n"
  then obtain ds ws where v: "v = ds @ ws" "ds \<noteq> []" "\<forall>c\<in>set ds. is_digit c" "\<forall>c\<in>set ws. is_ws c"
    "dec_value ds = n" "n \<le> size_max"
    unfolding length_value_def by (elim exE conjE)
  have nd: "\<not> is_digit SPC" "\<not> is_digit HTAB" by (simp_all add: is_digit_def)
  have "takeWhile is_digit ws = []" "dropWhile is_digit ws = ws"
    using v(4) nd by (cases ws; auto)+
  with v have "takeWhile is_digit v = ds" "dropWhile is_digit v = ws"
    by (simp_all add: takeWhile_append2 dropWhile_append2)
  with v show "let ds = takeWhile is_digit v in ds \<noteq> [] \<and> dec_value ds = n \<and> n \<le> size_max \<and>
       list_all is_ws (dropWhile is_digit v)"
    by (simp add: Let_def list_all_iff)
next
  assume r: "let ds = takeWhile is_digit v in ds \<noteq> [] \<and> dec_value ds = n \<and> n \<le> size_max \<and>
       list_all is_ws (dropWhile is_digit v)"
  have "\<forall>c\<in>set (takeWhile is_digit v). is_digit c"
    by (rule ballI) (rule conjunct2 [OF set_takeWhileD])
  with r show "length_value v n"
    unfolding length_value_def Let_def list_all_iff
    by (intro exI [of _ "takeWhile is_digit v"] exI [of _ "dropWhile is_digit v"]) simp
qed

lemma read_content_length_value_eq:
  "read_content_length_value v =
     (let ds = takeWhile is_digit v in
      if ds \<noteq> [] \<and> dec_value ds \<le> size_max \<and> list_all is_ws (dropWhile is_digit v)
      then Found (dec_value ds) else Bad)"
proof -
  obtain ds where ds: "ds = takeWhile is_digit v" by blast
  have d: "drop (length ds) v = dropWhile is_digit v" by (simp add: ds drop_length_takeWhile)
  show ?thesis
    by (simp add: read_content_length_value_def cl_loop_spec Let_def d flip: ds)
qed

lemma read_content_length_value_Found: "read_content_length_value v = Found n \<longleftrightarrow> length_value v n"
  by (auto simp: read_content_length_value_eq length_value_iff Let_def)

lemma read_content_length_value_neq [simp]: "read_content_length_value v \<noteq> NotFound"
  by (simp add: read_content_length_value_eq Let_def)

lemma lower_content_length:
  "''CONTENT-LENGTH'' = map ascii_upper ''content-length''"
  "\<forall>c\<in>set ''content-length''. \<not> (65 \<le> code c \<and> code c \<le> 90)"
  by code_simp+

lemma extract_content_length_eq:
  "extract_content_length h =
     (if \<not> header_named ''content-length'' h then NotFound
      else if header_value ''content-length'' h = [] then Bad
      else read_content_length_value (header_value ''content-length'' h))"
  unfolding extract_content_length_def
  by (rule key_loop_named [OF lower_content_length])

section \<open>Transfer-Encoding\<close>

text \<open>The last coding of the list a value is: what is after the last comma but those at the
  end, without the blanks around it.\<close>

definition is_last_coding :: "string \<Rightarrow> string \<Rightarrow> bool" where
  "is_last_coding v c \<longleftrightarrow> (\<exists>pre ws end'. v = pre @ ws @ c @ end' \<and> (pre = [] \<or> last pre = CHR '','') \<and>
     (\<forall>x\<in>set ws. is_ws x) \<and> (\<forall>x\<in>set end'. is_ws x \<or> x = CHR '','') \<and>
     CHR '','' \<notin> set c \<and> c \<noteq> [] \<and> \<not> is_ws (hd c) \<and> \<not> is_ws (last c))"

abbreviation te_sep :: "char \<Rightarrow> bool" where
  "te_sep c \<equiv> is_ws c \<or> c = CHR '',''"

lemma te_end_eq: "n \<le> length v \<Longrightarrow> te_end v n = n - length (takeWhile te_sep (rev (take n v)))"
  by (induction n) (auto simp: take_Suc_conv_app_nth)

lemma te_start_eq:
  "n \<le> length v \<Longrightarrow> te_start v n = n - length (takeWhile (\<lambda>c. c \<noteq> CHR '','') (rev (take n v)))"
  by (induction n) (auto simp: take_Suc_conv_app_nth)

lemma te_skip_eq:
  "e \<le> length v \<Longrightarrow> te_skip v s e = s + length (takeWhile is_ws (drop s (take e v)))"
proof (induction v s e rule: te_skip.induct)
  case (1 v s e)
  show ?case
  proof (cases "s < e")
    case False
    then show ?thesis by (subst te_skip.simps) simp
  next
    case True
    then have d: "drop s (take e v) = v ! s # drop (Suc s) (take e v)"
      using 1(2) by (simp add: Cons_nth_drop_Suc [symmetric])
    show ?thesis
    proof (cases "is_ws (v ! s)")
      case ws: True
      with True have "te_skip v s e = te_skip v (Suc s) e" by (subst te_skip.simps) simp
      with 1 True ws show ?thesis by (simp add: d)
    next
      case False
      with True have "te_skip v s e = s" by (subst te_skip.simps) simp
      with False show ?thesis by (simp add: d)
    qed
  qed
qed

lemma takeWhile_stop:
  "(\<forall>x\<in>set a. P x) \<Longrightarrow> b = [] \<or> \<not> P (hd b) \<Longrightarrow> takeWhile P (a @ b) = a"
  by (cases b) (simp_all add: takeWhile_append2)

lemma lower_chunked:
  "list_all (\<lambda>i. c ! i = ''CHUNKED'' ! i \<or> c ! i = ''chunked'' ! i) [0..<length ''chunked''] \<longleftrightarrow>
   list_all (\<lambda>i. ascii_lower (c ! i) = ''chunked'' ! i) [0..<length ''chunked'']"
proof -
  have "\<forall>i\<in>set [0..<7]. \<not> (65 \<le> code (''chunked'' ! i) \<and> code (''chunked'' ! i) \<le> 90)" by code_simp
  moreover have "\<forall>i\<in>set [0..<7]. ''CHUNKED'' ! i = ascii_upper (''chunked'' ! i)" by code_simp
  ultimately have e: "(c ! i = ''CHUNKED'' ! i \<or> c ! i = ''chunked'' ! i) =
      (ascii_lower (c ! i) = ''chunked'' ! i)" if i: "i \<in> set [0..<7]" for i
  proof -
    assume a: "\<forall>i\<in>set [0..<7]. \<not> (65 \<le> code (''chunked'' ! i) \<and> code (''chunked'' ! i) \<le> 90)"
      and b: "\<forall>i\<in>set [0..<7]. ''CHUNKED'' ! i = ascii_upper (''chunked'' ! i)"
    show ?thesis
      unfolding ascii_lower_iff [OF bspec [OF a i]] bspec [OF b i] by (rule disj_commute)
  qed
  have l: "length ''chunked'' = 7" by simp
  show ?thesis
  proof (rule list.pred_cong [OF refl])
    fix i
    assume "i \<in> set [0..<length ''chunked'']"
    then have "i \<in> set [0..<7]" unfolding l .
    then show "(c ! i = ''CHUNKED'' ! i \<or> c ! i = ''chunked'' ! i) =
      (ascii_lower (c ! i) = ''chunked'' ! i)"
      by (rule e)
  qed
qed

lemma list_all_nth_map:
  "length c = length k \<Longrightarrow> list_all (\<lambda>i. f (c ! i) = k ! i) [0..<length k] \<longleftrightarrow> map f c = k"
  unfolding list_all_iff set_upt list_eq_iff_nth_eq
  by (simp add: Ball_def)

lemma te_decide:
  assumes "is_last_coding v c"
  shows "read_transfer_encoding_value v = (if map ascii_lower c = ''chunked'' then Found () else Bad)"
proof -
  from assms obtain pre ws end' where v: "v = pre @ ws @ c @ end'" and
    pre: "pre = [] \<or> last pre = CHR '',''" and ws: "\<forall>x\<in>set ws. is_ws x" and
    en: "\<forall>x\<in>set end'. te_sep x" and
    c: "CHR '','' \<notin> set c" "c \<noteq> []" "\<not> is_ws (hd c)" "\<not> is_ws (last c)"
    unfolding is_last_coding_def by (elim exE conjE)
  obtain e where e: "e = length (pre @ ws @ c)" by blast
  have "last c \<noteq> CHR '',''" using c(1,2) last_in_set by metis
  then have "takeWhile te_sep (rev end' @ rev (pre @ ws @ c)) = rev end'"
    using c(2,4) en by (intro takeWhile_stop) (simp_all add: hd_append hd_rev)
  then have 1: "te_end v (length v) = e"
    by (simp add: te_end_eq v e)
  have te: "take e v = pre @ ws @ c" by (simp add: v e)
  have el: "e \<le> length v" by (simp add: v e)
  have "CHR '','' \<notin> set ws"
  proof
    assume "CHR '','' \<in> set ws"
    with ws show False by fastforce
  qed
  with c(1) have nc: "\<forall>x\<in>set (rev c @ rev ws). x \<noteq> CHR '',''" by (intro ballI notI) simp
  have "rev pre = [] \<or> \<not> hd (rev pre) \<noteq> CHR '',''"
    using pre by (elim disjE) (simp_all only: rev.simps hd_rev not_not simp_thms)
  then have "takeWhile (\<lambda>x. x \<noteq> CHR '','') ((rev c @ rev ws) @ rev pre) = rev c @ rev ws"
    by (rule takeWhile_stop [OF nc])
  then have 2: "te_start v e = length pre" using el by (simp add: te_start_eq te) (simp add: e)
  have "takeWhile is_ws (ws @ c) = ws" using ws c(3) by (intro takeWhile_stop) simp_all
  then have 3: "te_skip v (length pre) e = length pre + length ws" using el by (simp add: te_skip_eq te)
  have 4: "e - (length pre + length ws) = length c" by (simp add: e)
  have 5: "v ! (length pre + length ws + i) = c ! i" if "i < length c" for i
    using that by (simp add: v nth_append)
  have 6: "list_all (\<lambda>i. v ! (length pre + length ws + i) = ''CHUNKED'' ! i \<or>
      v ! (length pre + length ws + i) = ''chunked'' ! i) [0..<length ''chunked''] \<longleftrightarrow>
     list_all (\<lambda>i. c ! i = ''CHUNKED'' ! i \<or> c ! i = ''chunked'' ! i) [0..<length ''chunked'']"
    if len: "length c = length ''chunked''"
  proof (rule list.pred_cong [OF refl])
    fix i
    assume "i \<in> set [0..<length ''chunked'']"
    with len have "i < length c" by (simp only: set_upt atLeastLessThan_iff)
    then show "(v ! (length pre + length ws + i) = ''CHUNKED'' ! i \<or>
        v ! (length pre + length ws + i) = ''chunked'' ! i) =
       (c ! i = ''CHUNKED'' ! i \<or> c ! i = ''chunked'' ! i)"
      by (simp only: 5)
  qed
  have 7: "list_all (\<lambda>i. ascii_lower (c ! i) = ''chunked'' ! i) [0..<length ''chunked''] \<longleftrightarrow>
     map ascii_lower c = ''chunked''" if "length c = length ''chunked''"
    using that by (rule list_all_nth_map)
  have 8: "map ascii_lower c = ''chunked'' \<Longrightarrow> length c = length ''chunked''" by (metis length_map)
  show ?thesis
  proof (cases "length c = length ''chunked''")
    case True
    then show ?thesis
      unfolding read_transfer_encoding_value_def 1 Let_def 2 3 4
      by (simp only: 6 [OF True] lower_chunked 7 [OF True] refl not_True_eq_False if_False simp_thms)
  next
    case False
    then have "map ascii_lower c \<noteq> ''chunked''" using 8 by (rule contrapos_nn)
    with False show ?thesis
      unfolding read_transfer_encoding_value_def 1 Let_def 2 3 4 by (simp only: if_True if_False simp_thms)
  qed
qed

lemma te_blank: "\<forall>x\<in>set v. te_sep x \<Longrightarrow> read_transfer_encoding_value v = Bad"
proof -
  assume "\<forall>x\<in>set v. te_sep x"
  then have tw: "takeWhile te_sep (rev v) = rev v" by simp
  have "te_end v (length v) = 0"
    unfolding te_end_eq [OF order_refl] take_all [OF order_refl] tw by simp
  then show ?thesis by (simp add: read_transfer_encoding_value_def Let_def)
qed

lemma last_coding_exists:
  assumes "x \<in> set v" "\<not> te_sep x"
  shows "\<exists>c. is_last_coding v c"
proof -
  obtain y where y: "y = dropWhile te_sep (rev v)" by blast
  obtain seg where seg: "seg = rev (takeWhile (\<lambda>c. c \<noteq> CHR '','') y)" by blast
  obtain z where z: "z = dropWhile (\<lambda>c. c \<noteq> CHR '','') y" by blast
  obtain w where w: "w = takeWhile te_sep (rev v)" by blast
  obtain c where c: "c = dropWhile is_ws seg" by blast
  have yn: "y \<noteq> []" using assms by (auto simp: y dropWhile_eq_Nil_conv)
  have hy: "\<not> te_sep (hd y)" using hd_dropWhile [of te_sep "rev v"] yn by (simp add: y)
  have "rev v = w @ y" by (simp add: w y)
  moreover have "y = rev seg @ z" by (simp add: seg z)
  ultimately have "rev v = w @ rev seg @ z" by simp
  then have "v = rev z @ seg @ rev w" by (metis rev_append rev_rev_ident append.assoc)
  moreover have "seg = takeWhile is_ws seg @ c" by (simp add: c)
  ultimately have v: "v = rev z @ takeWhile is_ws seg @ c @ rev w" by (metis append.assoc)
  have "takeWhile (\<lambda>c. c \<noteq> CHR '','') y = hd y # takeWhile (\<lambda>c. c \<noteq> CHR '','') (tl y)"
    using yn hy by (cases y) auto
  then have sl: "seg \<noteq> []" "last seg = hd y" by (simp_all add: seg)
  have "last seg \<in> set seg" using sl(1) by (rule last_in_set)
  with sl(2) hy have cn: "c \<noteq> []" by (auto simp: c dropWhile_eq_Nil_conv)
  then have lc: "last c = hd y" using sl c by (metis last_appendR takeWhile_dropWhile_id)
  have hc: "\<not> is_ws (hd c)" using cn unfolding c by (rule hd_dropWhile)
  have nc: "CHR '','' \<notin> set seg" by (auto simp: seg dest: set_takeWhileD)
  have cs: "set c \<subseteq> set seg" unfolding c by (rule set_dropWhileD [THEN subsetI])
  have hz: "z = [] \<or> hd z = CHR '',''" using hd_dropWhile [of "\<lambda>c. c \<noteq> CHR '',''" y] z by blast
  have "is_last_coding v c"
    unfolding is_last_coding_def
  proof (intro exI conjI)
    show "rev z = [] \<or> last (rev z) = CHR '',''" using hz by (auto simp: last_rev)
    show "\<forall>x\<in>set (takeWhile is_ws seg). is_ws x" by (rule ballI) (rule conjunct2 [OF set_takeWhileD])
    show "\<forall>x\<in>set (rev w). te_sep x" unfolding w set_rev by (rule ballI) (rule conjunct2 [OF set_takeWhileD])
    show "CHR '','' \<notin> set c" using nc cs by blast
    show "\<not> is_ws (last c)" using lc hy by simp
  qed (fact v cn hc)+
  then show ?thesis by blast
qed

lemma read_transfer_encoding_Found:
  "read_transfer_encoding_value v = Found () \<longleftrightarrow>
     (\<exists>c. is_last_coding v c \<and> map ascii_lower c = ''chunked'')"
proof
  assume f: "read_transfer_encoding_value v = Found ()"
  then obtain x where "x \<in> set v" "\<not> te_sep x" using te_blank [of v] by auto
  then obtain c where "is_last_coding v c" using last_coding_exists by blast
  with f te_decide [OF this] show "\<exists>c. is_last_coding v c \<and> map ascii_lower c = ''chunked''"
    by (metis parsed.distinct(3))
qed (auto simp: te_decide)

lemma read_transfer_encoding_neq [simp]: "read_transfer_encoding_value v \<noteq> NotFound"
  by (simp add: read_transfer_encoding_value_def Let_def)

lemma lower_transfer_encoding:
  "''TRANSFER-ENCODING'' = map ascii_upper ''transfer-encoding''"
  "\<forall>c\<in>set ''transfer-encoding''. \<not> (65 \<le> code c \<and> code c \<le> 90)"
  by code_simp+

lemma is_chunked_encoding_eq:
  "is_chunked_encoding h =
     (if \<not> header_named ''transfer-encoding'' h then NotFound
      else if header_value ''transfer-encoding'' h = [] then Bad
      else read_transfer_encoding_value (header_value ''transfer-encoding'' h))"
  unfolding is_chunked_encoding_def
  by (rule key_loop_named [OF lower_transfer_encoding])


section \<open>Properties\<close>

lemma find_crlf_NoneI:
  "find_crlf s = None \<longleftrightarrow> \<not> (\<exists>l r. s = l @ [CR, LF] @ r)"
proof
  assume n: "find_crlf s = None"
  show "\<not> (\<exists>l r. s = l @ [CR, LF] @ r)"
  proof
    assume "\<exists>l r. s = l @ [CR, LF] @ r"
    then obtain l r where "s = l @ [CR, LF] @ r" by blast
    then show False using find_crlf_None [OF n, of "length l"] by (simp add: nth_append)
  qed
next
  assume n: "\<not> (\<exists>l r. s = l @ [CR, LF] @ r)"
  show "find_crlf s = None"
  proof (cases "find_crlf s")
    case (Some k)
    with find_crlf_split [OF Some] n show ?thesis by blast
  qed
qed

lemma find_crlf_take: "find_crlf s = Some k \<Longrightarrow> length (take k s) = k"
  using find_crlf_Some [of s k] by simp

text \<open>
  C34. \<open>_read_chunk_size\<close> decides what it has of a chunk's first line.  It returns a size exactly
  when a whole line is there, up to the first CRLF, and that line is one or more hexadecimal
  digits, whose value is the size and fits a \<open>size_t\<close>, and then nothing, or blanks, a semicolon
  and an extension with no control character.  It asks for more exactly when there is no CRLF,
  and any other line is malformed: no size wraps and none is guessed.
\<close>

theorem read_chunk_size_spec:
  "(read_chunk_size buff = Found n \<longleftrightarrow>
      (\<exists>line rest. buff = line @ [CR, LF] @ rest \<and> find_crlf buff = Some (length line) \<and> chunk_line line n)) \<and>
   (read_chunk_size buff = NotFound \<longleftrightarrow> \<not> (\<exists>line rest. buff = line @ [CR, LF] @ rest))"
proof (intro conjI)
  have "(\<exists>line rest. buff = line @ [CR, LF] @ rest \<and> find_crlf buff = Some (length line) \<and> chunk_line line n)
    \<longleftrightarrow> (\<exists>k. find_crlf buff = Some k \<and> chunk_line (take k buff) n)" (is "?l \<longleftrightarrow> ?r")
  proof
    assume ?l
    then obtain line rest where l: "buff = line @ [CR, LF] @ rest" "find_crlf buff = Some (length line)"
      "chunk_line line n" by (elim exE conjE)
    then have "take (length line) buff = line" by simp
    with l show ?r by metis
  next
    assume ?r
    then obtain k where "find_crlf buff = Some k" "chunk_line (take k buff) n" by blast
    then show ?l using find_crlf_split find_crlf_take by metis
  qed
  then show "read_chunk_size buff = Found n \<longleftrightarrow> ?l" by (simp only: read_chunk_size_Found)
  show "read_chunk_size buff = NotFound \<longleftrightarrow> \<not> (\<exists>line rest. buff = line @ [CR, LF] @ rest)"
    by (simp only: read_chunk_size_NotFound find_crlf_NoneI)
qed

text \<open>
  The line that opens a chunk khc sends is one khc reads as the same size, for every
  \<open>size_t\<close> and whatever follows it, and its length is the \<open>_hex_digits\<close> reserved for it and the
  CRLF.
\<close>

lemma chunk_size_line_reads_back:
  assumes "n \<le> size_max"
  shows "read_chunk_size (khc_chunk_size_line n @ rest) = Found n \<and>
    length (khc_chunk_size_line n) = hex_digits_count n + 2"
proof
  have l: "khc_chunk_size_line n @ rest = hexa.digs n 0 @ [CR, LF] @ rest"
    by (simp add: khc_chunk_size_line_def hex_size_digits)
  have "find_crlf (khc_chunk_size_line n @ rest) = Some (length (hexa.digs n 0))"
    unfolding l by (rule find_crlf_line [OF hexa_no_cr])
  moreover have "take (length (hexa.digs n 0)) (khc_chunk_size_line n @ rest) = hexa.digs n 0"
    unfolding l by simp
  ultimately show "read_chunk_size (khc_chunk_size_line n @ rest) = Found n"
    unfolding read_chunk_size_Found using hex_line_chunk_line [OF assms] by metis
  show "length (khc_chunk_size_line n) = hex_digits_count n + 2"
    by (simp add: khc_chunk_size_line_def hex_digits_count_length)
qed

text \<open>
  C35. \<open>_extract_content_length\<close> decides a header line.  It returns a length exactly when the
  line is named Content-Length, in any case of the letters, and its value, blanks before it
  aside, is one or more digits and then blanks only, and the number they write, which fits a
  \<open>size_t\<close>; a line of that name is otherwise an error and never ignored; and what khc writes
  for a length, \<open>_decimal\<close>, reads back as that length.
\<close>

theorem extract_content_length_spec:
  "(extract_content_length h = Found n \<longleftrightarrow>
      header_named ''content-length'' h \<and> length_value (header_value ''content-length'' h) n) \<and>
   (extract_content_length h = NotFound \<longleftrightarrow> \<not> header_named ''content-length'' h) \<and>
   (m \<le> size_max \<longrightarrow> extract_content_length (''Content-Length: '' @ khc_decimal m) = Found m)"
proof (intro conjI impI)
  have "\<not> length_value [] n" by (simp add: length_value_def)
  then show "extract_content_length h = Found n \<longleftrightarrow>
      header_named ''content-length'' h \<and> length_value (header_value ''content-length'' h) n"
    by (simp add: extract_content_length_eq read_content_length_value_Found)
  show "extract_content_length h = NotFound \<longleftrightarrow> \<not> header_named ''content-length'' h"
    by (simp add: extract_content_length_eq)
  assume m: "m \<le> size_max"
  obtain ds where ds: "ds = dec.digs m 0" by blast
  have d: "\<forall>c\<in>set ds. is_digit c"
    using dec.digs_val [of _ m 0] by (auto simp: ds is_digit_str_digit)
  have ne: "ds \<noteq> []" by (simp add: ds dec.digs_nonempty)
  have named: "header_named ''content-length'' (''Content-Length: '' @ ds)"
  proof -
    have "map ascii_lower ''Content-Length'' = ''content-length''" by code_simp
    then show ?thesis by (simp add: header_named_def)
  qed
  have "is_digit (hd ds)" using d ne by simp
  then have "hd ds \<noteq> SPC" "hd ds \<noteq> HTAB" by (auto simp: is_digit_def)
  then have "dropWhile is_ws ds = ds" by (cases ds) auto
  then have v: "header_value ''content-length'' (''Content-Length: '' @ ds) = ds"
    by (simp add: header_value_def)
  have "length_value ds m"
    unfolding length_value_def using d ne m
    by (intro exI [of _ ds] exI [of _ "[]"]) (simp add: ds dec.digs_value)
  then show "extract_content_length (''Content-Length: '' @ khc_decimal m) = Found m"
    using named v ne
    by (simp only: extract_content_length_eq khc_decimal_digs flip: ds)
       (simp add: read_content_length_value_Found)
qed

lemma extract_content_length_spec_witness:
  "extract_content_length (''Content-Length: '' @ khc_decimal 1024) = Found 1024"
  using extract_content_length_spec [of "[]" 0 1024] by (simp add: size_max_def)

text \<open>
  C36. \<open>_is_chunked_encoding\<close> decides a header line.  It finds a chunked body exactly when the
  line is named Transfer-Encoding, in any case of the letters, and the last coding of the list
  that is its value, where empty elements do not count, is chunked; another header is passed
  over, and a Transfer-Encoding with any other last coding, or with none, is an error.
\<close>

theorem is_chunked_encoding_spec:
  "(is_chunked_encoding h = Found () \<longleftrightarrow>
      header_named ''transfer-encoding'' h \<and>
      (\<exists>c. is_last_coding (header_value ''transfer-encoding'' h) c \<and> map ascii_lower c = ''chunked'')) \<and>
   (is_chunked_encoding h = NotFound \<longleftrightarrow> \<not> header_named ''transfer-encoding'' h)"
proof (intro conjI)
  have "\<not> is_last_coding [] c" for c by (simp add: is_last_coding_def)
  then show "is_chunked_encoding h = Found () \<longleftrightarrow>
      header_named ''transfer-encoding'' h \<and>
      (\<exists>c. is_last_coding (header_value ''transfer-encoding'' h) c \<and> map ascii_lower c = ''chunked'')"
    unfolding is_chunked_encoding_eq
    by (cases "header_value ''transfer-encoding'' h = []") (simp_all add: read_transfer_encoding_Found)
  show "is_chunked_encoding h = NotFound \<longleftrightarrow> \<not> header_named ''transfer-encoding'' h"
    by (simp add: is_chunked_encoding_eq)
qed

end
