(* ===== verification/Khc_Date.thy ===== *)
theory Khc_Date
  imports Ebisu_Prelude Ebisu_Str Ebisu_Time Khc_Parse
begin

text \<open>
  khc/src/khc\_http\_date.c: the Date header of a response, in any of the three forms of
  HTTP-date, and the one date kept for a response.

  The text after the header's name is a list of bytes.  The layout is checked before a byte is
  read, so no index is past the end.  A field holds -1 where the text had no number or name, as
  in the code.
\<close>

section \<open>The code\<close>

definition day_names :: "string list" where
  "day_names = [''Sun'', ''Mon'', ''Tue'', ''Wed'', ''Thu'', ''Fri'', ''Sat'']"

definition day_names_long :: "string list" where
  "day_names_long =
     [''Sunday'', ''Monday'', ''Tuesday'', ''Wednesday'', ''Thursday'', ''Friday'', ''Saturday'']"

definition month_names :: "string list" where
  "month_names = [''Jan'', ''Feb'', ''Mar'', ''Apr'', ''May'', ''Jun'',
     ''Jul'', ''Aug'', ''Sep'', ''Oct'', ''Nov'', ''Dec'']"

record http_date =
  hd_weekday :: int
  hd_day :: int
  hd_month :: int
  hd_year :: int
  hd_hour :: int
  hd_minute :: int
  hd_second :: int

fun find_name_loop :: "string \<Rightarrow> string list \<Rightarrow> int \<Rightarrow> int" where
  "find_name_loop s [] i = -1"
| "find_name_loop s (n # ns) i = (if take 3 s = n then i else find_name_loop s ns (i + 1))"

definition find_name :: "string \<Rightarrow> string list \<Rightarrow> int" where
  "find_name s names = find_name_loop s names 0"

fun date_digits_loop :: "string \<Rightarrow> int \<Rightarrow> int" where
  "date_digits_loop [] v = v"
| "date_digits_loop (c # s) v = (if \<not> is_digit c then -1 else date_digits_loop s (v * 10 + int (code c - 48)))"

definition date_digits :: "string \<Rightarrow> nat \<Rightarrow> int" where
  "date_digits s n = date_digits_loop (take n s) 0"

definition year_of :: "int \<Rightarrow> int" where
  "year_of seconds =
     (if seconds > 0
      then (case ebisu_time_to_civil seconds of Some civil \<Rightarrow> ct_year civil | None \<Rightarrow> 1970)
      else 1970)"

text \<open>The hour, the minute and the second.\<close>

definition parse_time_of_day :: "string \<Rightarrow> (int \<times> int \<times> int) option" where
  "parse_time_of_day s =
     (if s ! 2 \<noteq> CHR '':'' \<or> s ! 5 \<noteq> CHR '':'' then None
      else Some (date_digits s 2, date_digits (drop 3 s) 2, date_digits (drop 6 s) 2))"

definition is_gmt :: "string \<Rightarrow> bool" where
  "is_gmt s \<longleftrightarrow> take 3 s = ''GMT'' \<or> take 3 s = ''UTC''"

definition with_time :: "int \<Rightarrow> int \<Rightarrow> int \<Rightarrow> int \<Rightarrow> (int \<times> int \<times> int) option \<Rightarrow> http_date option" where
  "with_time weekday day month year t =
     (case t of None \<Rightarrow> None
      | Some (h, m, s) \<Rightarrow>
          Some \<lparr>hd_weekday = weekday, hd_day = day, hd_month = month, hd_year = year,
            hd_hour = h, hd_minute = m, hd_second = s\<rparr>)"

definition parse_imf_fixdate :: "string \<Rightarrow> http_date option" where
  "parse_imf_fixdate v =
     (if length v \<noteq> 29 \<or> v ! 3 \<noteq> CHR '','' \<or> v ! 4 \<noteq> SPC \<or> v ! 7 \<noteq> SPC \<or>
         v ! 11 \<noteq> SPC \<or> v ! 16 \<noteq> SPC \<or> v ! 25 \<noteq> SPC \<or> \<not> is_gmt (drop 26 v)
      then None
      else with_time (find_name v day_names) (date_digits (drop 5 v) 2)
        (find_name (drop 8 v) month_names + 1) (date_digits (drop 12 v) 4)
        (parse_time_of_day (drop 17 v)))"

definition parse_asctime :: "string \<Rightarrow> http_date option" where
  "parse_asctime v =
     (if length v \<noteq> 24 \<or> v ! 3 \<noteq> SPC \<or> v ! 7 \<noteq> SPC \<or> v ! 10 \<noteq> SPC \<or> v ! 19 \<noteq> SPC
      then None
      else with_time (find_name v day_names)
        (if v ! 8 = SPC then date_digits (drop 9 v) 1 else date_digits (drop 8 v) 2)
        (find_name (drop 4 v) month_names + 1) (date_digits (drop 20 v) 4)
        (parse_time_of_day (drop 11 v)))"

text \<open>The weekday whose whole name and a comma the text begins with, and the name's length.\<close>

fun long_name_loop :: "string \<Rightarrow> string list \<Rightarrow> int \<Rightarrow> (int \<times> nat) option" where
  "long_name_loop v [] i = None"
| "long_name_loop v (name # names) i =
     (if length v > length name \<and> take (length name) v = name \<and> v ! length name = CHR '',''
      then Some (i, length name) else long_name_loop v names (i + 1))"

definition full_year :: "int \<Rightarrow> int \<Rightarrow> int" where
  "full_year present_year two_digits =
     (let year = present_year - present_year mod 100 + two_digits in
      if year > present_year + 50 then year - 100
      else if year \<le> present_year - 50 then year + 100
      else year)"

definition parse_rfc850 :: "string \<Rightarrow> int \<Rightarrow> http_date option" where
  "parse_rfc850 v present_year =
     (case long_name_loop v day_names_long 0 of
        None \<Rightarrow> None
      | Some (weekday, name_len) \<Rightarrow>
          if length v \<noteq> name_len + 24 then None
          else
            (let s = drop (name_len + 2) v in
             if v ! (name_len + 1) \<noteq> SPC \<or> s ! 2 \<noteq> CHR ''-'' \<or> s ! 6 \<noteq> CHR ''-'' \<or> s ! 9 \<noteq> SPC \<or>
                s ! 18 \<noteq> SPC \<or> \<not> is_gmt (drop 19 s)
             then None
             else
               (let two_digits = date_digits (drop 7 s) 2 in
                if two_digits < 0 then None
                else with_time weekday (date_digits s 2) (find_name (drop 3 s) month_names + 1)
                  (full_year present_year two_digits) (parse_time_of_day (drop 10 s)))))"

definition trim_ws :: "string \<Rightarrow> string" where
  "trim_ws v = rev (dropWhile is_ws (rev (dropWhile is_ws v)))"

definition date_of_text :: "string \<Rightarrow> int \<Rightarrow> http_date option" where
  "date_of_text v floor' =
     (case parse_imf_fixdate v of
        Some d \<Rightarrow> Some d
      | None \<Rightarrow>
          (case parse_asctime v of
             Some d \<Rightarrow> Some d
           | None \<Rightarrow> parse_rfc850 v (year_of floor')))"

definition parse_http_date :: "string option \<Rightarrow> int \<Rightarrow> int" where
  "parse_http_date header floor' =
     (case header of
        None \<Rightarrow> -1
      | Some h \<Rightarrow>
          if length h < length ''date:'' then -1
          else if \<not> list_all (\<lambda>i. ascii_lower (h ! i) = ''date:'' ! i) [0..<length ''date:''] then -1
          else
            (case date_of_text (trim_ws (drop (length ''date:'') h)) floor' of
               None \<Rightarrow> -2
             | Some d \<Rightarrow>
                 if hd_weekday d < 0 \<or> hd_year d < 1970 then -2
                 else
                   (case (ebisu_time_from_civil (hd_year d) (hd_month d) (hd_day d)
                            (hd_hour d) (hd_minute d) (hd_second d),
                          ebisu_time_from_civil (hd_year d) (hd_month d) (hd_day d) 0 0 0) of
                      (Some date, Some midnight) \<Rightarrow>
                        if (midnight div 86400 + 4) mod 7 \<noteq> hd_weekday d then -2
                        else if date < floor' then -2 else date
                    | _ \<Rightarrow> -2)))"

text \<open>The response's date after a header line, from the one before it.\<close>

definition record_resp_date :: "int \<Rightarrow> int \<Rightarrow> string option \<Rightarrow> int" where
  "record_resp_date floor' resp_date line =
     (case line of
        None \<Rightarrow> resp_date
      | Some l \<Rightarrow>
          (let date = parse_http_date (Some l) floor' in
           if date = -1 then resp_date
           else if date = -2 \<or> (resp_date \<noteq> -1 \<and> resp_date \<noteq> date) then -2
           else date))"

section \<open>The three forms\<close>

definition d2 :: "int \<Rightarrow> string" where
  "d2 n = [char_of (48 + nat (n div 10)), char_of (48 + nat (n mod 10))]"

definition d4 :: "int \<Rightarrow> string" where
  "d4 n = d2 (n div 100) @ d2 (n mod 100)"

abbreviation clock_text :: "int \<Rightarrow> int \<Rightarrow> int \<Rightarrow> string" where
  "clock_text h mi se \<equiv> d2 h @ '':'' @ d2 mi @ '':'' @ d2 se"

definition imf_text :: "int \<Rightarrow> int \<Rightarrow> int \<Rightarrow> int \<Rightarrow> int \<Rightarrow> int \<Rightarrow> int \<Rightarrow> string" where
  "imf_text w y mo d h mi se =
     (day_names ! nat w) @ '', '' @ d2 d @ '' '' @ (month_names ! nat (mo - 1)) @ '' '' @ d4 y @
     '' '' @ clock_text h mi se @ '' GMT''"

definition asctime_text :: "int \<Rightarrow> int \<Rightarrow> int \<Rightarrow> int \<Rightarrow> int \<Rightarrow> int \<Rightarrow> int \<Rightarrow> string" where
  "asctime_text w y mo d h mi se =
     (day_names ! nat w) @ '' '' @ (month_names ! nat (mo - 1)) @ '' '' @
     (if d < 10 then [SPC, char_of (48 + nat d)] else d2 d) @ '' '' @ clock_text h mi se @ '' '' @ d4 y"

definition rfc850_text :: "int \<Rightarrow> int \<Rightarrow> int \<Rightarrow> int \<Rightarrow> int \<Rightarrow> int \<Rightarrow> int \<Rightarrow> string" where
  "rfc850_text w y mo d h mi se =
     (day_names_long ! nat w) @ '', '' @ d2 d @ ''-'' @ (month_names ! nat (mo - 1)) @ ''-'' @
     d2 (y mod 100) @ '' '' @ clock_text h mi se @ '' GMT''"

lemma digit_step [simp]:
  assumes "0 \<le> x" "x \<le> 9"
  shows "date_digits_loop (char_of (48 + nat x) # s) v = date_digits_loop s (v * 10 + x)"
proof -
  have "48 + nat x < 256" using assms by simp
  then have "code (char_of (48 + nat x)) = 48 + nat x" by (rule code_char_of)
  moreover have "nat x \<le> 9" "int (nat x) = x" using assms by simp_all
  ultimately show ?thesis by (simp only: date_digits_loop.simps is_digit_def) simp
qed

lemma date_digits_two:
  assumes "0 \<le> a" "a \<le> 9" "0 \<le> b" "b \<le> 9"
  shows "date_digits (char_of (48 + nat a) # char_of (48 + nat b) # s) 2 = a * 10 + b"
proof -
  have "take 2 (x # y # s) = [x, y]" for x y by simp
  with assms show ?thesis by (simp only: date_digits_def digit_step date_digits_loop.simps(1)) simp
qed

lemma date_digits_four:
  assumes "0 \<le> a" "a \<le> 9" "0 \<le> b" "b \<le> 9" "0 \<le> c" "c \<le> 9" "0 \<le> d" "d \<le> 9"
  shows "date_digits (char_of (48 + nat a) # char_of (48 + nat b) # char_of (48 + nat c) #
    char_of (48 + nat d) # s) 4 = ((a * 10 + b) * 10 + c) * 10 + d"
proof -
  have "take 4 (x # y # z # w # s) = [x, y, z, w]" for x y z w by simp
  with assms show ?thesis by (simp only: date_digits_def digit_step date_digits_loop.simps(1)) simp
qed

lemma tens: "(n :: int) div 10 * 10 + n mod 10 = n"
  by simp

lemma date_digits_d2: "0 \<le> n \<Longrightarrow> n < 100 \<Longrightarrow> date_digits (d2 n @ s) 2 = n"
proof -
  assume n: "0 \<le> n" "n < 100"
  then have r: "0 \<le> n div 10" "n div 10 \<le> 9" "0 \<le> n mod 10" "n mod 10 \<le> 9" by auto
  show ?thesis unfolding d2_def append_Cons append_Nil date_digits_two [OF r] tens ..
qed

lemma date_digits_d4: "0 \<le> n \<Longrightarrow> n < 10000 \<Longrightarrow> date_digits (d4 n @ s) 4 = n"
proof -
  assume n: "0 \<le> n" "n < 10000"
  obtain u v where q: "u = n div 100" "v = n mod 100" by blast
  have h: "u * 100 + v = n" by (simp add: q)
  have b: "0 \<le> u" "u < 100" "0 \<le> v" "v < 100" using n by (auto simp: q)
  then have r: "0 \<le> u div 10" "u div 10 \<le> 9" "0 \<le> u mod 10" "u mod 10 \<le> 9"
    "0 \<le> v div 10" "v div 10 \<le> 9" "0 \<le> v mod 10" "v mod 10 \<le> 9" by auto
  have "date_digits (d4 n @ s) 4 = ((u div 10 * 10 + u mod 10) * 10 + v div 10) * 10 + v mod 10"
    unfolding d4_def d2_def append_Cons append_Nil append_assoc q [symmetric] by (rule date_digits_four [OF r])
  also have "\<dots> = u * 100 + (v div 10 * 10 + v mod 10)" unfolding tens by simp
  finally show ?thesis unfolding tens h .
qed

lemma date_digits_one:
  "0 \<le> n \<Longrightarrow> n < 10 \<Longrightarrow> date_digits (char_of (48 + nat n) # s) 1 = n"
  by (simp only: date_digits_def One_nat_def take_Suc_Cons take_0 digit_step date_digits_loop.simps(1))

lemma length_d2 [simp]: "length (d2 n) = 2" and length_d4 [simp]: "length (d4 n) = 4"
  by (simp_all add: d2_def d4_def)

lemma names_lengths:
  "list_all (\<lambda>n. length n = 3) day_names" "list_all (\<lambda>n. length n = 3) month_names"
  "length day_names = 7" "length month_names = 12" "length day_names_long = 7"
  "distinct day_names" "distinct month_names"
  by code_simp+

lemma find_name_loop_nth:
  "list_all (\<lambda>n. length n = 3) names \<Longrightarrow> distinct names \<Longrightarrow> k < length names \<Longrightarrow>
   find_name_loop (names ! k @ s) names i = i + int k"
proof (induction names arbitrary: k i)
  case Nil
  then show ?case by simp
next
  case (Cons n ns)
  show ?case
  proof (cases k)
    case 0
    with Cons.prems show ?thesis by simp
  next
    case (Suc j)
    then have j: "j < length ns" using Cons.prems(3) by simp
    then have "ns ! j \<in> set ns" by simp
    with Cons.prems have "ns ! j \<noteq> n" "length (ns ! j) = 3" by (auto simp: list_all_iff)
    with Suc Cons.IH [of j "i + 1"] Cons.prems j show ?thesis by simp
  qed
qed

lemma find_day: "0 \<le> w \<Longrightarrow> w \<le> 6 \<Longrightarrow> find_name (day_names ! nat w @ s) day_names = w"
  using find_name_loop_nth [of day_names "nat w" s 0] names_lengths by (simp add: find_name_def)

lemma find_month:
  "1 \<le> m \<Longrightarrow> m \<le> 12 \<Longrightarrow> find_name (month_names ! nat (m - 1) @ s) month_names + 1 = m"
  using find_name_loop_nth [of month_names "nat (m - 1)" s 0] names_lengths by (simp add: find_name_def)

lemma three_letters:
  "0 \<le> w \<Longrightarrow> w \<le> 6 \<Longrightarrow> length (day_names ! nat w) = 3"
  "1 \<le> m \<Longrightarrow> m \<le> 12 \<Longrightarrow> length (month_names ! nat (m - 1)) = 3"
  using names_lengths by (simp_all add: list_all_length)

lemma parse_clock:
  assumes "0 \<le> h" "h < 100" "0 \<le> mi" "mi < 100" "0 \<le> se" "se < 100"
  shows "parse_time_of_day (clock_text h mi se @ s) = Some (h, mi, se)"
proof -
  have a: "(clock_text h mi se @ s) ! 2 = CHR '':''" "(clock_text h mi se @ s) ! 5 = CHR '':''"
    by (simp_all add: d2_def nth_append)
  have b: "clock_text h mi se @ s = d2 h @ ('':'' @ d2 mi @ '':'' @ d2 se @ s)"
    "drop 3 (clock_text h mi se @ s) = d2 mi @ ('':'' @ d2 se @ s)"
    "drop 6 (clock_text h mi se @ s) = d2 se @ s"
    by (simp_all add: d2_def)
  show ?thesis
    unfolding parse_time_of_day_def a b(2,3) unfolding b(1)
    using assms by (simp only: date_digits_d2 simp_thms if_False)
qed


lemmas parse_clock_assoc = parse_clock [unfolded append_assoc]

lemma parse_imf_text:
  assumes "0 \<le> w" "w \<le> 6" "1 \<le> mo" "mo \<le> 12" "0 \<le> y" "y < 10000" "0 \<le> d" "d < 100"
    "0 \<le> h" "h < 100" "0 \<le> mi" "mi < 100" "0 \<le> se" "se < 100"
  shows "parse_imf_fixdate (imf_text w y mo d h mi se) =
    Some \<lparr>hd_weekday = w, hd_day = d, hd_month = mo, hd_year = y, hd_hour = h, hd_minute = mi, hd_second = se\<rparr>"
proof -
  obtain v where v: "v = imf_text w y mo d h mi se" by blast
  obtain wn where wn: "wn = day_names ! nat w" by blast
  obtain mn where mn: "mn = month_names ! nat (mo - 1)" by blast
  have l: "length wn = 3" "length mn = 3" using three_letters assms by (simp_all add: wn mn)
  note e = v [unfolded imf_text_def, folded wn mn]
  have len: "length v = 29" by (simp add: e l)
  have at: "v ! 3 = CHR '',''" "v ! 4 = SPC" "v ! 7 = SPC" "v ! 11 = SPC" "v ! 16 = SPC" "v ! 25 = SPC"
    by (simp_all add: e nth_append l)
  have dr: "drop 5 v = d2 d @ ('' '' @ mn @ '' '' @ d4 y @ '' '' @ clock_text h mi se @ '' GMT'')"
    "drop 8 v = mn @ ('' '' @ d4 y @ '' '' @ clock_text h mi se @ '' GMT'')"
    "drop 12 v = d4 y @ ('' '' @ clock_text h mi se @ '' GMT'')"
    "drop 17 v = clock_text h mi se @ '' GMT''"
    "drop 26 v = ''GMT''"
    by (simp_all add: e l)
  have n: "find_name v day_names = w" unfolding v imf_text_def using assms by (intro find_day)
  show ?thesis
    using assms len at dr(5)
    unfolding v [symmetric] parse_imf_fixdate_def n dr(1-4)
    by (simp add: date_digits_d2 date_digits_d4 find_month mn parse_clock_assoc with_time_def is_gmt_def del: append.simps)
qed

lemma not_imf: "length v \<noteq> 29 \<Longrightarrow> parse_imf_fixdate v = None"
  by (simp add: parse_imf_fixdate_def)

lemma not_asctime: "length v \<noteq> 24 \<Longrightarrow> parse_asctime v = None"
  by (simp add: parse_asctime_def)

lemma parse_asctime_text:
  assumes "0 \<le> w" "w \<le> 6" "1 \<le> mo" "mo \<le> 12" "0 \<le> y" "y < 10000" "0 \<le> d" "d < 100"
    "0 \<le> h" "h < 100" "0 \<le> mi" "mi < 100" "0 \<le> se" "se < 100"
  shows "parse_asctime (asctime_text w y mo d h mi se) =
    Some \<lparr>hd_weekday = w, hd_day = d, hd_month = mo, hd_year = y, hd_hour = h, hd_minute = mi, hd_second = se\<rparr>"
    and "length (asctime_text w y mo d h mi se) = 24"
proof -
  obtain v where v: "v = asctime_text w y mo d h mi se" by blast
  obtain wn where wn: "wn = day_names ! nat w" by blast
  obtain mn where mn: "mn = month_names ! nat (mo - 1)" by blast
  obtain dd where dd: "dd = (if d < 10 then [SPC, char_of (48 + nat d)] else d2 d)" by blast
  have l: "length wn = 3" "length mn = 3" "length dd = 2" using three_letters assms by (simp_all add: wn mn dd)
  note e = v [unfolded asctime_text_def, folded wn mn dd]
  have len: "length v = 24" by (simp add: e l)
  then show "length (asctime_text w y mo d h mi se) = 24" by (simp add: v)
  have at: "v ! 3 = SPC" "v ! 7 = SPC" "v ! 10 = SPC" "v ! 19 = SPC"
    by (simp_all add: e nth_append l)
  obtain t where t: "t = '' '' @ clock_text h mi se @ '' '' @ d4 y" by blast
  have dr: "drop 4 v = mn @ ('' '' @ dd @ t)" "drop 8 v = dd @ t"
    "drop 20 v = d4 y" "drop 11 v = clock_text h mi se @ '' '' @ d4 y"
    by (simp_all add: e l t)
  have n: "find_name v day_names = w" unfolding v asctime_text_def using assms by (intro find_day)
  have d: "(if v ! 8 = SPC then date_digits (drop 9 v) 1 else date_digits (drop 8 v) 2) = d"
  proof (cases "d < 10")
    case True
    then have x: "dd @ t = SPC # char_of (48 + nat d) # t" by (simp add: dd)
    have "drop 9 v = drop 1 (drop 8 v)" by simp
    also have "\<dots> = char_of (48 + nat d) # t" by (simp add: dr(2) x)
    finally have "drop 9 v = char_of (48 + nat d) # t" .
    moreover have "v ! 8 = SPC" using len hd_drop_conv_nth [of 8 v] by (simp add: dr(2) x)
    moreover have "date_digits (char_of (48 + nat d) # t) 1 = d" using assms(7) True by (rule date_digits_one)
    ultimately show ?thesis by (simp only: if_True refl)
  next
    case False
    then have x: "dd = d2 d" by (simp add: dd)
    have "v ! 8 = char_of (48 + nat (d div 10))"
      using len hd_drop_conv_nth [of 8 v] by (simp add: dr(2) x d2_def)
    moreover have "char_of (48 + nat (d div 10)) \<noteq> SPC"
    proof
      assume "char_of (48 + nat (d div 10)) = SPC"
      moreover have "48 + nat (d div 10) < 256" using assms by simp
      ultimately have "code SPC = 48 + nat (d div 10)" using code_char_of by metis
      then show False by simp
    qed
    ultimately show ?thesis using assms by (simp add: dr(2) x date_digits_d2)
  qed
  have y: "date_digits (d4 y) 4 = y" using date_digits_d4 [of y "[]"] assms by simp
  show "parse_asctime (asctime_text w y mo d h mi se) =
    Some \<lparr>hd_weekday = w, hd_day = d, hd_month = mo, hd_year = y, hd_hour = h, hd_minute = mi, hd_second = se\<rparr>"
    using assms len at
    unfolding v [symmetric] parse_asctime_def n d dr(1,3,4) y
    by (simp add: find_month mn parse_clock_assoc with_time_def del: append.simps)
qed


lemma weekdays: "0 \<le> w \<Longrightarrow> w \<le> (6 :: int) \<Longrightarrow> w \<in> {0, 1, 2, 3, 4, 5, 6}"
  by auto

lemma long_name:
  assumes "0 \<le> w" "w \<le> 6"
  shows "long_name_loop (day_names_long ! nat w @ '','' @ r) day_names_long 0 =
      Some (w, length (day_names_long ! nat w))"
  using weekdays [OF assms] by (elim insertE emptyE) (simp_all add: day_names_long_def)

lemma long_name_length:
  assumes "0 \<le> w" "w \<le> 6"
  shows "6 \<le> length (day_names_long ! nat w)"
  using weekdays [OF assms] by (elim insertE emptyE) (simp_all add: day_names_long_def)

lemma full_year_window:
  assumes "p - 50 < y" "y \<le> p + 50"
  shows "full_year p (y mod 100) = y"
proof -
  obtain a b c e where q: "a = p div 100" "b = p mod 100" "c = y div 100" "e = y mod 100" by blast
  have p: "p = a * 100 + b" and y: "y = c * 100 + e" by (simp_all add: q)
  have r: "0 \<le> b" "b < 100" "0 \<le> e" "e < 100" by (simp_all add: q)
  have ca: "c = a - 1 \<or> c = a \<or> c = a + 1" using assms p y r by linarith
  have "full_year p (y mod 100) = (let year = a * 100 + e in
      if year > p + 50 then year - 100 else if year \<le> p - 50 then year + 100 else year)"
    unfolding full_year_def q(2,4) [symmetric] by (simp add: p)
  also have "\<dots> = y"
    using ca by (elim disjE) (use assms p y r in \<open>simp_all add: Let_def\<close>)
  finally show ?thesis .
qed

lemma parse_rfc850_text:
  assumes "0 \<le> w" "w \<le> 6" "1 \<le> mo" "mo \<le> 12" "p - 50 < y" "y \<le> p + 50" "0 \<le> d" "d < 100"
    "0 \<le> h" "h < 100" "0 \<le> mi" "mi < 100" "0 \<le> se" "se < 100"
  shows "parse_rfc850 (rfc850_text w y mo d h mi se) p =
    Some \<lparr>hd_weekday = w, hd_day = d, hd_month = mo, hd_year = y, hd_hour = h, hd_minute = mi, hd_second = se\<rparr>"
    and "length (rfc850_text w y mo d h mi se) \<ge> 30"
proof -
  obtain v where v: "v = rfc850_text w y mo d h mi se" by blast
  obtain wn where wn: "wn = day_names_long ! nat w" by blast
  obtain mn where mn: "mn = month_names ! nat (mo - 1)" by blast
  obtain yy where yy: "yy = y mod 100" by blast
  have y2: "0 \<le> yy" "yy < 100" by (simp_all add: yy)
  have l: "length mn = 3" using three_letters assms by (simp add: mn)
  note e = v [unfolded rfc850_text_def, folded wn mn yy]
  obtain s where s: "s = d2 d @ ''-'' @ mn @ ''-'' @ d2 yy @ '' '' @ clock_text h mi se @ '' GMT''" by blast
  have vs: "v = wn @ '', '' @ s" by (simp add: e s)
  have len: "length v = length wn + 24" by (simp add: vs s l)
  then show "length (rfc850_text w y mo d h mi se) \<ge> 30"
    using long_name_length assms by (simp add: v wn)
  have nm: "long_name_loop v day_names_long 0 = Some (w, length wn)"
    using long_name [of w "'' '' @ s"] assms by (simp add: vs wn)
  have dv: "drop (length wn + 2) v = s" "v ! (length wn + 1) = SPC" by (simp_all add: vs nth_append)
  have at: "s ! 2 = CHR ''-''" "s ! 6 = CHR ''-''" "s ! 9 = SPC" "s ! 18 = SPC"
    by (simp_all add: s nth_append l)
  have dr: "drop 3 s = mn @ (''-'' @ d2 yy @ '' '' @ clock_text h mi se @ '' GMT'')"
    "drop 7 s = d2 yy @ ('' '' @ clock_text h mi se @ '' GMT'')"
    "drop 10 s = clock_text h mi se @ '' GMT''" "drop 19 s = ''GMT''"
    by (simp_all add: s l)
  have dd: "date_digits s 2 = d" unfolding s using assms by (intro date_digits_d2)
  have yd: "date_digits (drop 7 s) 2 = yy" unfolding dr(2) using y2 by (rule date_digits_d2)
  have g: "is_gmt ''GMT''" by (simp add: is_gmt_def)
  have m: "find_name (drop 3 s) month_names + 1 = mo"
    unfolding dr(1) mn using assms by (intro find_month)
  have t: "parse_time_of_day (drop 10 s) = Some (h, mi, se)"
    unfolding dr(3) using assms by (intro parse_clock)
  show "parse_rfc850 (rfc850_text w y mo d h mi se) p =
    Some \<lparr>hd_weekday = w, hd_day = d, hd_month = mo, hd_year = y, hd_hour = h, hd_minute = mi, hd_second = se\<rparr>"
    unfolding v [symmetric] parse_rfc850_def nm
    using y2 full_year_window [OF assms(5,6)]
    by (simp only: option.case prod.case len Let_def dv at dr(4) g dd yd m t simp_thms if_False
        with_time_def not_less flip: yy)
       simp
qed

section \<open>The value and its name\<close>

lemma dropWhile_stop: "(\<forall>x\<in>set a. P x) \<Longrightarrow> b = [] \<or> \<not> P (hd b) \<Longrightarrow> dropWhile P (a @ b) = b"
  by (cases b) (simp_all add: dropWhile_append2)

lemma trim_ws_text:
  assumes "\<forall>c\<in>set pre. is_ws c" "\<forall>c\<in>set post. is_ws c" "t \<noteq> []" "\<not> is_ws (hd t)" "\<not> is_ws (last t)"
  shows "trim_ws (pre @ t @ post) = t"
proof -
  have "dropWhile is_ws (pre @ t @ post) = t @ post"
    using assms by (intro dropWhile_stop) simp_all
  moreover have "dropWhile is_ws (rev post @ rev t) = rev t"
    using assms by (intro dropWhile_stop) (simp_all add: hd_rev)
  ultimately show ?thesis by (simp add: trim_ws_def)
qed

lemma day_heads:
  assumes "0 \<le> w" "w \<le> 6"
  shows "day_names ! nat w \<noteq> []" "\<not> is_ws (hd (day_names ! nat w))"
    "day_names_long ! nat w \<noteq> []" "\<not> is_ws (hd (day_names_long ! nat w))"
  using weekdays [OF assms]
  by (elim insertE emptyE; simp add: day_names_def day_names_long_def)+

lemma digit_not_ws: "0 \<le> x \<Longrightarrow> x \<le> 9 \<Longrightarrow> \<not> is_ws (char_of (48 + nat x))"
proof
  assume x: "0 \<le> x" "x \<le> 9" and ws: "is_ws (char_of (48 + nat x))"
  from x have "48 + nat x < 256" by simp
  then have "code (char_of (48 + nat x)) = 48 + nat x" by (rule code_char_of)
  moreover from ws have "code (char_of (48 + nat x)) \<le> 32" by (elim disjE) simp_all
  ultimately show False by simp
qed

lemma last_d4: "last (a @ d4 y) = char_of (48 + nat (y mod 100 mod 10))"
  by (simp add: d4_def d2_def)

lemma parse_http_date_text:
  assumes n: "map ascii_lower name = ''date:''"
    and t: "\<forall>c\<in>set pre. is_ws c" "\<forall>c\<in>set post. is_ws c" "t \<noteq> []" "\<not> is_ws (hd t)" "\<not> is_ws (last t)"
  shows "parse_http_date (Some (name @ pre @ t @ post)) floor' =
    (case date_of_text t floor' of
       None \<Rightarrow> -2
     | Some d \<Rightarrow>
         if hd_weekday d < 0 \<or> hd_year d < 1970 then -2
         else
           (case (ebisu_time_from_civil (hd_year d) (hd_month d) (hd_day d)
                    (hd_hour d) (hd_minute d) (hd_second d),
                  ebisu_time_from_civil (hd_year d) (hd_month d) (hd_day d) 0 0 0) of
              (Some date, Some midnight) \<Rightarrow>
                if (midnight div 86400 + 4) mod 7 \<noteq> hd_weekday d then -2
                else if date < floor' then -2 else date
            | _ \<Rightarrow> -2))"
proof -
  obtain h where h: "h = name @ pre @ t @ post" by blast
  have l: "length name = length ''date:''" using n by (metis length_map)
  then have tk: "take (length ''date:'') h = name" and dr: "drop (length ''date:'') h = pre @ t @ post"
    and len: "\<not> length h < length ''date:''"
    unfolding h by simp_all
  have "list_all (\<lambda>i. ascii_lower (name ! i) = ''date:'' ! i) [0..<length ''date:'']"
    using list_all_nth_map [OF l, of ascii_lower] n by blast
  moreover have "name ! i = h ! i" if "i \<in> set [0..<length ''date:'']" for i
    using that l unfolding h set_upt by (simp add: nth_append)
  ultimately have "list_all (\<lambda>i. ascii_lower (h ! i) = ''date:'' ! i) [0..<length ''date:'']"
    unfolding list_all_iff by metis
  then show ?thesis
    unfolding h [symmetric] parse_http_date_def
    using len by (simp only: option.case if_False if_True not_True_eq_False dr trim_ws_text [OF t])
qed

lemma from_civil_fields:
  assumes "ebisu_time_from_civil y mo d h mi se = Some t"
  shows "1 \<le> y" "y < 10000" "1 \<le> mo" "mo \<le> 12" "0 \<le> d" "d < 100" "0 \<le> h" "h < 100"
    "0 \<le> mi" "mi < 100" "0 \<le> se" "se < 100"
    "ebisu_time_from_civil y mo d 0 0 0 = Some (days_from_civil y mo d * 86400)"
proof -
  from assms have c: "\<not> (y < 1 \<or> y > 9999 \<or> mo < 1 \<or> mo > 12 \<or> d < 1 \<or> d > days_in_month y mo \<or>
         h < 0 \<or> h > 23 \<or> mi < 0 \<or> mi > 59 \<or> se < 0 \<or> se > 60 \<or> (se = 60 \<and> (h \<noteq> 23 \<or> mi \<noteq> 59)))"
    unfolding ebisu_time_from_civil_def by (metis option.distinct(1))
  then have v: "1 \<le> mo" "mo \<le> 12" by auto
  have "days_in_month y mo \<le> 31"
  proof -
    have "mo \<in> {1, 2, 3, 4, 5, 6, 7, 8, 9, 10, 11, 12}" using v by (simp only: insert_iff empty_iff) presburger
    then show ?thesis unfolding days_in_month_def by (elim insertE emptyE) simp_all
  qed
  with c show "1 \<le> y" "y < 10000" "1 \<le> mo" "mo \<le> 12" "0 \<le> d" "d < 100" "0 \<le> h" "h < 100"
    "0 \<le> mi" "mi < 100" "0 \<le> se" "se < 100" by linarith+
  from c show "ebisu_time_from_civil y mo d 0 0 0 = Some (days_from_civil y mo d * 86400)"
    by (simp add: ebisu_time_from_civil_def Let_def)
qed

lemma from_civil_bounds:
  assumes "ebisu_time_from_civil y mo d h mi se = Some t"
  shows "days_from_civil y mo d * 86400 \<le> t"
  using assms by (auto simp: ebisu_time_from_civil_def Let_def split: if_splits)

lemma date_of_text_forms:
  assumes w: "0 \<le> w" "w \<le> 6" and "ebisu_time_from_civil y mo d h mi se = Some t"
    and tx: "v = imf_text w y mo d h mi se \<or> v = asctime_text w y mo d h mi se \<or>
      v = rfc850_text w y mo d h mi se \<and> year_of fl - 50 < y \<and> y \<le> year_of fl + 50"
  shows "date_of_text v fl = Some \<lparr>hd_weekday = w, hd_day = d, hd_month = mo, hd_year = y,
      hd_hour = h, hd_minute = mi, hd_second = se\<rparr>"
    and "v \<noteq> [] \<and> \<not> is_ws (hd v) \<and> \<not> is_ws (last v)"
proof -
  note f = from_civil_fields [OF assms(3)]
  have y0: "0 \<le> y" using f(1) by simp
  note i = parse_imf_text [OF w f(3,4) y0 f(2,5-12)]
  note a = parse_asctime_text [OF w f(3,4) y0 f(2,5-12)]
  note r = parse_rfc850_text [OF w f(3,4) _ _ f(5-12)]
  show "date_of_text v fl = Some \<lparr>hd_weekday = w, hd_day = d, hd_month = mo, hd_year = y,
      hd_hour = h, hd_minute = mi, hd_second = se\<rparr>"
    using tx
  proof (elim disjE conjE)
    assume "v = imf_text w y mo d h mi se"
    then show ?thesis by (simp add: date_of_text_def i)
  next
    assume "v = asctime_text w y mo d h mi se"
    then show ?thesis using a by (simp add: date_of_text_def not_imf)
  next
    assume e: "v = rfc850_text w y mo d h mi se" and p: "year_of fl - 50 < y" "y \<le> year_of fl + 50"
    have "length v \<noteq> 29" "length v \<noteq> 24" using r(2) [OF p] by (simp_all add: e)
    then show ?thesis unfolding e by (simp add: date_of_text_def not_imf not_asctime r(1) [OF p])
  qed
  have x: "0 \<le> y mod 100 mod 10" "y mod 100 mod 10 \<le> 9" by simp_all
  note dh = day_heads [OF w]
  show "v \<noteq> [] \<and> \<not> is_ws (hd v) \<and> \<not> is_ws (last v)"
    using tx
  proof (elim disjE conjE)
    assume "v = imf_text w y mo d h mi se"
    then show ?thesis using dh by (simp add: imf_text_def)
  next
    assume e: "v = asctime_text w y mo d h mi se"
    obtain r where r: "r = '' '' @ (month_names ! nat (mo - 1)) @ '' '' @
      (if d < 10 then [SPC, char_of (48 + nat d)] else d2 d) @ '' '' @ clock_text h mi se @ '' ''" by blast
    obtain q where q0: "q = (day_names ! nat w) @ r" by blast
    have q: "asctime_text w y mo d h mi se = q @ d4 y" by (simp add: asctime_text_def q0 r)
    have hq: "q \<noteq> []" "hd q = hd (day_names ! nat w)" using dh(1) by (simp_all add: q0)
    show ?thesis
      unfolding e q last_d4 using digit_not_ws [OF x] hq dh(2) by simp
  next
    assume "v = rfc850_text w y mo d h mi se"
    then show ?thesis using dh by (simp add: rfc850_text_def)
  qed
qed

lemma days_1970:
  assumes "1970 \<le> y" "1 \<le> mo" "mo \<le> 12" "1 \<le> d"
  shows "0 \<le> days_from_civil y mo d"
proof -
  obtain y' where y': "y' = (if mo \<le> 2 then y - 1 else y)" by blast
  obtain m where m: "m = (if mo \<le> 2 then mo + 9 else mo - 3)" by blast
  have e: "days_from_civil y mo d = y' * 365 + y' div 4 - y' div 100 + y' div 400 + (153 * m + 2) div 5 + d - 1 - 719468"
    unfolding days_from_civil_def Let_def y' m ..
  have m0: "0 \<le> m" and "y' = 1969 \<Longrightarrow> 10 \<le> m" and y1: "1969 \<le> y'"
    using assms by (auto simp: y' m split: if_splits)
  have grow: "a \<le> b \<Longrightarrow> a * 365 + a div 4 - a div 100 \<le> b * 365 + b div 4 - b div 100" for a b :: int
  proof -
    assume "a \<le> b"
    then have "a div 100 \<le> b div 100" "a div 4 \<le> b div 4" by (auto intro: zdiv_mono1)
    moreover obtain u v where u: "u = a mod 100" "v = b mod 100" by blast
    moreover have "a = a div 100 * 100 + u" "b = b div 100 * 100 + v" by (simp_all add: u)
    moreover have "0 \<le> u" "u < 100" "0 \<le> v" "v < 100" by (simp_all add: u)
    moreover have "a div 100 = b div 100 \<or> a div 100 + 1 \<le> b div 100"
      using \<open>a div 100 \<le> b div 100\<close> by linarith
    ultimately show ?thesis using \<open>a \<le> b\<close> by linarith
  qed
  show ?thesis
  proof (cases "y' = 1969")
    case True
    then have "10 \<le> m" using \<open>y' = 1969 \<Longrightarrow> 10 \<le> m\<close> by simp
    then have "(153 * 10 + 2) div 5 \<le> (153 * m + 2) div 5" by (intro zdiv_mono1) simp_all
    with True assms(4) show ?thesis unfolding e True by simp
  next
    case False
    then have y: "1970 \<le> y'" using y1 by linarith
    have "0 \<le> (153 * m + 2) div 5" using m0 by simp
    moreover have "1970 div 400 \<le> y' div 400" using y by (intro zdiv_mono1) simp_all
    ultimately show ?thesis using grow [OF y] assms(4) unfolding e by simp
  qed
qed

lemma parse_http_date_cases:
  "parse_http_date l fl = -1 \<or> parse_http_date l fl = -2 \<or>
   0 \<le> parse_http_date l fl \<and> fl \<le> parse_http_date l fl"
proof (cases "parse_http_date l fl \<in> {-1, -2}")
  case False
  then obtain h d where l: "l = Some h" and
    d: "date_of_text (trim_ws (drop (length ''date:'') h)) fl = Some d"
    unfolding parse_http_date_def by (auto split: option.splits if_splits)
  with False obtain t mid where y: "1970 \<le> hd_year d" and
    t: "ebisu_time_from_civil (hd_year d) (hd_month d) (hd_day d) (hd_hour d) (hd_minute d) (hd_second d) = Some t"
    and r: "parse_http_date l fl = t" "fl \<le> t"
    unfolding parse_http_date_def by (auto split: option.splits if_splits)
  have "1 \<le> hd_month d" "hd_month d \<le> 12" "1 \<le> hd_day d"
    using t unfolding ebisu_time_from_civil_def by (auto split: if_splits)
  then have "0 \<le> days_from_civil (hd_year d) (hd_month d) (hd_day d)"
    by (rule days_1970 [OF y])
  then have "0 \<le> t" using from_civil_bounds [OF t] by linarith
  with r show ?thesis by simp
qed auto

section \<open>Properties\<close>

text \<open>
  C32. Each of the three forms of HTTP-date is read: for every date and time from 1970 to 9999,
  a leap second included, not before the floor, with the right day of the week, a header named
  Date in any case of its letters, with any blanks around the value, is read as its seconds
  since 1970; for the form with two digits of the year, when the year is within 50 of the
  floor's.
\<close>

theorem http_date_forms:
  assumes t: "ebisu_time_from_civil y mo d h mi se = Some t" and y: "1970 \<le> y" and fl: "fl \<le> t"
    and w: "w = weekday_of (days_from_civil y mo d)"
    and name: "map ascii_lower name = ''date:''"
    and blanks: "\<forall>c\<in>set pre. is_ws c" "\<forall>c\<in>set post. is_ws c"
    and v: "v = imf_text w y mo d h mi se \<or> v = asctime_text w y mo d h mi se \<or>
      v = rfc850_text w y mo d h mi se \<and> year_of fl - 50 < y \<and> y \<le> year_of fl + 50"
  shows "parse_http_date (Some (name @ pre @ v @ post)) fl = t"
proof -
  have wr: "0 \<le> w" "w \<le> 6" by (simp_all add: w)
  note dt = date_of_text_forms [OF wr t v]
  have mid: "days_from_civil y mo d * 86400 div 86400 = days_from_civil y mo d" by simp
  show ?thesis
    using wr y fl dt(2) from_civil_fields(13) [OF t]
    by (subst parse_http_date_text [OF name blanks]) (simp_all add: dt(1) t mid flip: w)
qed

lemma http_date_forms_witness:
  "parse_http_date (Some ''DATE:  Sun, 06 Nov 1994 08:49:37 GMT '') 0 = 784111777"
proof -
  have t: "ebisu_time_from_civil 1994 11 6 8 49 37 = Some 784111777" by code_simp
  have v: "''Sun, 06 Nov 1994 08:49:37 GMT'' = imf_text 0 1994 11 6 8 49 37" by code_simp
  have w: "0 = weekday_of (days_from_civil 1994 11 6)" by code_simp
  have n: "map ascii_lower ''DATE:'' = ''date:''" by code_simp
  have p: "\<forall>c\<in>set ''  ''. is_ws c" "\<forall>c\<in>set '' ''. is_ws c" by simp_all
  have f: "(0 :: int) \<le> 784111777" "(1970 :: int) \<le> 1994" by simp_all
  show ?thesis using http_date_forms [OF t f(2,1) w n p disjI1 [OF v]] by simp
qed

lemma record_dates_step:
  "parse_http_date l fl = -1 \<Longrightarrow> record_resp_date fl a l = a"
  "parse_http_date l fl \<noteq> -1 \<Longrightarrow> record_resp_date fl a l =
     (if parse_http_date l fl = -2 \<or> (a \<noteq> -1 \<and> a \<noteq> parse_http_date l fl) then -2
      else parse_http_date l fl)"
  by (cases l; simp add: record_resp_date_def parse_http_date_def [of None] Let_def)+

lemma record_dates_from:
  assumes "a \<noteq> -1"
  shows "foldl (record_resp_date fl) a ls =
    (if a = -2 \<or> (\<forall>l\<in>set ls. parse_http_date l fl \<in> {-1, a}) then a else -2)"
  using assms
proof (induction ls arbitrary: a)
  case Nil
  then show ?case by simp
next
  case (Cons l ls)
  show ?case
  proof (cases "parse_http_date l fl = -1")
    case True
    with Cons show ?thesis by (simp add: record_dates_step)
  next
    case False
    then have "record_resp_date fl a l = (if parse_http_date l fl = a then a else -2)"
      using Cons.prems by (auto simp: record_dates_step)
    with Cons False show ?thesis by auto
  qed
qed

text \<open>
  C33. The date kept for a response does not depend on the order of its header lines: -1 when
  none of them is a Date, the date when every Date among them is read as that same one, and -2
  otherwise, so a malformed Date, one before the floor, or two that disagree leave the response
  without a date.  A date kept is never before the floor nor before 1970.
\<close>

theorem resp_date_agrees:
  "let r = foldl (record_resp_date fl) (-1) ls; dates = {parse_http_date l fl | l. l \<in> set ls} - {-1} in
   (if dates = {} then r = -1 else if \<exists>t. dates = {t} then dates = {r} else r = -2) \<and>
   (r < 0 \<longleftrightarrow> r = -1 \<or> r = -2) \<and> (if r < 0 then True else fl \<le> r)"
proof -
  obtain dates where dates: "dates = (\<lambda>ls. {parse_http_date l fl | l. l \<in> set ls} - {-1})" by blast
  obtain r where r: "r = foldl (record_resp_date fl) (-1) ls" by blast
  have "if dates ls = {} then r = -1 else if \<exists>t. dates ls = {t} then dates ls = {r} else r = -2"
    unfolding r
  proof (induction ls)
    case Nil
    then show ?case by (simp add: dates)
  next
    case (Cons l ls)
    obtain p where p: "p = parse_http_date l fl" by blast
    show ?case
    proof (cases "p = -1")
      case True
      then have "dates (l # ls) = dates ls" by (auto simp: p dates)
      moreover have "foldl (record_resp_date fl) (-1) (l # ls) = foldl (record_resp_date fl) (-1) ls"
        using True by (simp add: record_dates_step p)
      ultimately show ?thesis using Cons by (simp only:)
    next
      case False
      then have s: "record_resp_date fl (-1) l = p" by (simp add: record_dates_step flip: p)
      have d: "dates (l # ls) = insert p (dates ls)" using False by (auto simp: p dates)
      have a: "(\<forall>l\<in>set ls. parse_http_date l fl \<in> {-1, p}) \<longleftrightarrow> dates ls \<subseteq> {p}" by (auto simp: dates)
      have f: "foldl (record_resp_date fl) (-1) (l # ls) = (if p = -2 \<or> dates ls \<subseteq> {p} then p else -2)"
        unfolding foldl_Cons s record_dates_from [OF False, of fl ls] a ..
      have i: "insert p (dates ls) = {t} \<longleftrightarrow> t = p \<and> dates ls \<subseteq> {p}" for t by auto
      show ?thesis unfolding f d i by simp
    qed
  qed
  moreover have "r = -1 \<or> r = -2 \<or> 0 \<le> r \<and> fl \<le> r"
  proof -
    have "r \<in> dates ls \<Longrightarrow> r = -2 \<or> 0 \<le> r \<and> fl \<le> r"
      using parse_http_date_cases [of _ fl] by (auto simp: dates)
    with calculation show ?thesis by (auto split: if_splits)
  qed
  ultimately show ?thesis unfolding Let_def r [symmetric] dates by auto
qed

end
