(* ===== verification/Khc_State.thy ===== *)
theory Khc_State
  imports Ebisu_Prelude Khc_Parse Khc_Date
begin

text \<open>
  khc/src/khc\_state\_impl.c: one step of an HTTP request for each state of khc's machine.

  The socket, the callbacks and the system are functions on a world \<open>'w\<close> that the model is
  generic in: \<open>khc_io\<close> holds them, with whether each pointer that may be NULL is set.  A handler
  takes khc and the world and returns both.  A buffer and its size are one list, and what a call
  writes into it is what the call returns.  Every read and write of a buffer is checked: one out
  of its bounds sets \<open>kh_fault\<close>, which the code has no counterpart of.  Strings are without
  their NUL.  Logging is left out.
\<close>

section \<open>khc and what it calls\<close>

datatype sock_code = SOCK_OK | SOCK_FAIL | SOCK_AGAIN

datatype sock_error =
  ERROR_NONE | ERROR_DNS | ERROR_CONNECT | ERROR_TLS | ERROR_VERIFY | ERROR_TIMEOUT |
  ERROR_CLOSED | ERROR_OTHER

datatype khc_code =
  ERR_OK | ERR_SOCK_CONNECT | ERR_SOCK_CLOSE | ERR_SOCK_SEND | ERR_SOCK_RECV |
  ERR_HEADER_CALLBACK | ERR_WRITE_CALLBACK | ERR_ALLOCATION | ERR_TOO_LARGE_DATA | ERR_FAIL |
  ERR_READ_CALLBACK | ERR_TIMEOUT | ERR_CANCELLED | ERR_INVALID_RESPONSE

datatype khc_state =
  IDLE | CONNECT | REQ_LINE | REQ_HOST_HEADER | REQ_HEADER | REQ_HEADER_SEND |
  REQ_HEADER_SEND_CRLF | REQ_HEADER_END | REQ_BODY_READ | REQ_BODY_SEND_SIZE | REQ_BODY_SEND |
  REQ_BODY_SEND_CRLF |
  RESP_STATUS_READ | RESP_STATUS_PARSE | RESP_HEADER_CALLBACK | RESP_HEADER_READ |
  RESP_HEADER_SKIP | RESP_BODY_FRAGMENT | READ_CHUNK_SIZE_FROM_HEADER_BUFF |
  READ_CHUNK_BODY_FROM_HEADER_BUFF | RESP_BODY_READ | RESP_BODY_CALLBACK |
  RESP_BODY_PARSE_CHUNK_SIZE | RESP_BODY_READ_CHUNK_SIZE | RESP_BODY_PARSE_CHUNK_BODY |
  RESP_BODY_READ_CHUNK_BODY | RESP_BODY_SKIP_CHUNK_BODY_CRLF | RESP_BODY_SKIP_TRAILERS |
  CLOSE | FINISHED

record 'w khc_io =
  has_socket :: bool
  has_last_error :: bool
  has_cb_header :: bool
  has_cb_write :: bool
  has_cb_read :: bool
  has_cb_continue :: bool
  has_clock :: bool
  has_delay :: bool
  io_connect :: "string \<Rightarrow> nat \<Rightarrow> 'w \<Rightarrow> sock_code \<times> 'w"
  io_send :: "string \<Rightarrow> 'w \<Rightarrow> (sock_code \<times> nat) \<times> 'w"
  io_recv :: "nat \<Rightarrow> 'w \<Rightarrow> (sock_code \<times> string) \<times> 'w"
  io_close :: "'w \<Rightarrow> sock_code \<times> 'w"
  io_last_error :: "'w \<Rightarrow> (sock_error \<times> int) \<times> 'w"
  io_header :: "string \<Rightarrow> 'w \<Rightarrow> nat \<times> 'w"
  io_write :: "string \<Rightarrow> 'w \<Rightarrow> nat \<times> 'w"
  io_read :: "nat \<Rightarrow> 'w \<Rightarrow> (nat \<times> string) \<times> 'w"
  io_continue :: "'w \<Rightarrow> bool \<times> 'w"
  io_monotonic :: "'w \<Rightarrow> nat \<times> 'w"
  io_delay :: "nat \<Rightarrow> 'w \<Rightarrow> 'w"
  io_malloc :: "nat \<Rightarrow> 'w \<Rightarrow> string option \<times> 'w"

record khc =
  kh_host :: string
  kh_path :: string
  kh_method :: string
  kh_req_headers :: "string option list"
  kh_current_req_header :: "string option list"
  kh_state :: khc_state
  kh_stream_set :: bool
  kh_stream_buff :: "char list"
  kh_stream_allocated :: bool
  kh_read_size :: nat
  kh_read_req_end :: bool
  kh_req_body_length :: nat
  kh_req_body_left :: nat
  kh_req_body_sent :: nat
  kh_req_frame_start :: nat
  kh_req_frame_size :: nat
  kh_header_set :: bool
  kh_header_buff :: "char list"
  kh_header_allocated :: bool
  kh_header_read_size :: nat
  kh_status_code :: nat
  kh_status_line_given :: bool
  kh_version_1_0 :: bool
  kh_chunked_resp :: bool
  kh_chunk_size :: nat
  kh_chunk_size_written :: nat
  kh_content_length :: nat
  kh_has_content_length :: bool
  kh_body_received :: nat
  kh_trailer_end_matched :: nat
  kh_resp_date :: int
  kh_read_end :: bool
  kh_body_read_size :: nat
  kh_sent_length :: nat
  kh_result :: khc_code
  kh_close_failed :: bool
  kh_header_skipped :: bool
  kh_enable_insecure :: bool
  kh_absolute_target :: bool
  kh_resp_date_floor :: int
  kh_timeout_ms :: nat
  kh_started_ms :: nat
  kh_again :: bool
  kh_sock_error :: sock_error
  kh_sock_error_detail :: int
  kh_fault :: bool

definition BODY_LENGTH_UNKNOWN :: nat where
  "BODY_LENGTH_UNKNOWN = size_max"

abbreviation hsize :: "khc \<Rightarrow> nat" where
  "hsize k \<equiv> length (kh_header_buff k)"

abbreviation ssize :: "khc \<Rightarrow> nat" where
  "ssize k \<equiv> length (kh_stream_buff k)"

text \<open>What has been read into each buffer.\<close>

abbreviation header_data :: "khc \<Rightarrow> string" where
  "header_data k \<equiv> take (kh_header_read_size k) (kh_header_buff k)"

abbreviation stream_data :: "khc \<Rightarrow> string" where
  "stream_data k \<equiv> take (kh_body_read_size k) (kh_stream_buff k)"

abbreviation fault :: "khc \<Rightarrow> khc" where
  "fault k \<equiv> k\<lparr>kh_fault := True\<rparr>"

abbreviation close_with :: "khc_code \<Rightarrow> khc \<Rightarrow> khc" where
  "close_with r k \<equiv> k\<lparr>kh_state := CLOSE, kh_result := r\<rparr>"

section \<open>Connecting and sending the head\<close>

definition record_sock_error :: "'w khc_io \<Rightarrow> khc \<Rightarrow> 'w \<Rightarrow> khc \<times> 'w" where
  "record_sock_error io k w =
     (if has_last_error io
      then (case io_last_error io w of
              ((e, detail), w') \<Rightarrow> (k\<lparr>kh_sock_error := e, kh_sock_error_detail := detail\<rparr>, w'))
      else (k\<lparr>kh_sock_error := ERROR_NONE, kh_sock_error_detail := 0\<rparr>, w))"

definition closed_early :: "khc \<Rightarrow> khc" where
  "closed_early k = k\<lparr>kh_sock_error := ERROR_CLOSED, kh_sock_error_detail := 0\<rparr>"

definition khc_method_can_have_body :: "khc \<Rightarrow> bool" where
  "khc_method_can_have_body k \<longleftrightarrow>
     kh_method k = [] \<or>
     kh_method k \<noteq> ''GET'' \<and> kh_method k \<noteq> ''HEAD'' \<and> kh_method k \<noteq> ''DELETE''"

definition khc_state_idle :: "khc \<Rightarrow> khc" where
  "khc_state_idle k =
     (let k1 = (if kh_host k = [] then k\<lparr>kh_host := ''localhost''\<rparr> else k);
          k2 = (if kh_method k1 = [] then k1\<lparr>kh_method := ''GET''\<rparr> else k1)
      in k2\<lparr>kh_state := CONNECT\<rparr>)"

definition khc_state_connect :: "'w khc_io \<Rightarrow> khc \<Rightarrow> 'w \<Rightarrow> khc \<times> 'w" where
  "khc_state_connect io k w =
     (case io_connect io (kh_host k) (if kh_enable_insecure k then 80 else 443) w of
        (con_res, w') \<Rightarrow>
          (case con_res of
             SOCK_OK \<Rightarrow> (k\<lparr>kh_sent_length := 0, kh_state := REQ_LINE\<rparr>, w')
           | SOCK_AGAIN \<Rightarrow> (k\<lparr>kh_again := True\<rparr>, w')
           | SOCK_FAIL \<Rightarrow>
               (case record_sock_error io k w' of
                  (k', w'') \<Rightarrow>
                    (k'\<lparr>kh_result := ERR_SOCK_CONNECT, kh_state := FINISHED\<rparr>, w''))))"

text \<open>
  How every state that sends does it: what is left of the text, and the next state once all of
  it has gone.
\<close>

definition send_rest :: "'w khc_io \<Rightarrow> string \<Rightarrow> (khc \<Rightarrow> khc) \<Rightarrow> khc \<Rightarrow> 'w \<Rightarrow> khc \<times> 'w" where
  "send_rest io txt next k w =
     (if kh_sent_length k > length txt then (fault k, w)
      else
        (let rest = drop (kh_sent_length k) txt in
         case io_send io rest w of
           ((send_res, sent_len), w') \<Rightarrow>
             (case send_res of
                SOCK_OK \<Rightarrow>
                  (if sent_len < length rest
                   then (k\<lparr>kh_sent_length := kh_sent_length k + sent_len\<rparr>, w')
                   else (next (k\<lparr>kh_sent_length := 0\<rparr>), w'))
              | SOCK_AGAIN \<Rightarrow> (k\<lparr>kh_again := True\<rparr>, w')
              | SOCK_FAIL \<Rightarrow>
                  (case record_sock_error io k w' of
                     (k', w'') \<Rightarrow> (close_with ERR_SOCK_SEND k', w'')))))"

definition request_path :: "khc \<Rightarrow> string" where
  "request_path k = (if kh_path k \<noteq> [] then kh_path k else ''/'')"

definition request_line :: "khc \<Rightarrow> string" where
  "request_line k =
     kh_method k @ '' '' @
     (if kh_absolute_target k
      then (if kh_enable_insecure k then ''http://'' else ''https://'') @ kh_host k else []) @
     request_path k @ '' '' @ ''HTTP/1.1'' @ [CR, LF]"

definition khc_state_req_line :: "'w khc_io \<Rightarrow> khc \<Rightarrow> 'w \<Rightarrow> khc \<times> 'w" where
  "khc_state_req_line io = (\<lambda>k. send_rest io (request_line k) (\<lambda>k. k\<lparr>kh_state := REQ_HOST_HEADER\<rparr>) k)"

definition host_header :: "khc \<Rightarrow> string" where
  "host_header k = ''HOST: '' @ kh_host k @ [CR, LF]"

definition khc_state_req_host_header :: "'w khc_io \<Rightarrow> khc \<Rightarrow> 'w \<Rightarrow> khc \<times> 'w" where
  "khc_state_req_host_header io =
     (\<lambda>k. send_rest io (host_header k)
        (\<lambda>k. k\<lparr>kh_state := REQ_HEADER, kh_current_req_header := kh_req_headers k\<rparr>) k)"

definition khc_state_req_header :: "khc \<Rightarrow> khc" where
  "khc_state_req_header k =
     (case kh_current_req_header k of
        [] \<Rightarrow> k\<lparr>kh_state := REQ_HEADER_END\<rparr>
      | None # next \<Rightarrow> k\<lparr>kh_current_req_header := next\<rparr>
      | Some data # next \<Rightarrow>
          if data = [] then k\<lparr>kh_current_req_header := next\<rparr>
          else k\<lparr>kh_state := REQ_HEADER_SEND\<rparr>)"

definition khc_state_req_header_send :: "'w khc_io \<Rightarrow> khc \<Rightarrow> 'w \<Rightarrow> khc \<times> 'w" where
  "khc_state_req_header_send io k w =
     (case kh_current_req_header k of
        Some data # next \<Rightarrow> send_rest io data (\<lambda>k. k\<lparr>kh_state := REQ_HEADER_SEND_CRLF\<rparr>) k w
      | _ \<Rightarrow> (fault k, w))"

definition khc_state_req_header_send_crlf :: "'w khc_io \<Rightarrow> khc \<Rightarrow> 'w \<Rightarrow> khc \<times> 'w" where
  "khc_state_req_header_send_crlf io k w =
     (case kh_current_req_header k of
        [] \<Rightarrow> (fault k, w)
      | _ # next \<Rightarrow>
          send_rest io [CR, LF] (\<lambda>k. k\<lparr>kh_current_req_header := next, kh_state := REQ_HEADER\<rparr>) k w)"

definition has_req_body :: "'w khc_io \<Rightarrow> khc \<Rightarrow> bool" where
  "has_req_body io k \<longleftrightarrow> khc_method_can_have_body k \<and> has_cb_read io \<and> kh_req_body_length k \<noteq> 0"

definition last_headers :: "'w khc_io \<Rightarrow> khc \<Rightarrow> string" where
  "last_headers io k =
     (if \<not> khc_method_can_have_body k then []
      else if \<not> has_cb_read io then ''Content-Length: 0'' @ [CR, LF]
      else if kh_req_body_length k \<noteq> BODY_LENGTH_UNKNOWN
      then ''Content-Length: '' @ khc_decimal (kh_req_body_length k) @ [CR, LF]
      else ''Transfer-Encoding: chunked'' @ [CR, LF]) @
     ''Connection: Close'' @ [CR, LF, CR, LF]"

definition khc_state_req_header_end :: "'w khc_io \<Rightarrow> khc \<Rightarrow> 'w \<Rightarrow> khc \<times> 'w" where
  "khc_state_req_header_end io =
     (\<lambda>k. send_rest io (last_headers io k)
        (\<lambda>k. let k1 =
                (if has_req_body io k
                 then k\<lparr>kh_req_body_left := kh_req_body_length k, kh_req_body_sent := 0,
                        kh_state := REQ_BODY_READ\<rparr>
                 else k\<lparr>kh_header_read_size := 0, kh_state := RESP_STATUS_READ\<rparr>)
              in k1\<lparr>kh_read_req_end := False\<rparr>) k)"

section \<open>The request's body\<close>

text \<open>The body is read in parts, each framed in the stream buffer as it goes out.\<close>

definition body_read_known :: "'w khc_io \<Rightarrow> khc \<Rightarrow> 'w \<Rightarrow> khc \<times> 'w" where
  "body_read_known io k w =
     (let want = (if kh_req_body_left k < ssize k then kh_req_body_left k else ssize k) in
      case io_read io want w of
        ((got, bytes), w') \<Rightarrow>
          (let k1 = k\<lparr>kh_stream_buff := mem_write (kh_stream_buff k) 0 bytes\<rparr> in
           if got = 0 \<or> got > want then (close_with ERR_READ_CALLBACK k1, w')
           else
             (k1\<lparr>kh_req_body_left := kh_req_body_left k - got,
                 kh_req_body_sent := uadd (kh_req_body_sent k) got,
                 kh_read_size := got,
                 kh_read_req_end := (kh_req_body_left k - got = 0),
                 kh_req_frame_start := 0,
                 kh_req_frame_size := got,
                 kh_state := REQ_BODY_SEND\<rparr>, w')))"

definition body_read_chunk :: "'w khc_io \<Rightarrow> khc \<Rightarrow> 'w \<Rightarrow> khc \<times> 'w" where
  "body_read_chunk io k w =
     (let line_room = hex_digits_count (ssize k) + 2 in
      if ssize k \<le> line_room + 2 then (close_with ERR_TOO_LARGE_DATA k, w)
      else
        (let capacity = ssize k - line_room - 2 in
         case io_read io capacity w of
           ((got, bytes), w') \<Rightarrow>
             (let k1 = k\<lparr>kh_stream_buff := mem_write (kh_stream_buff k) line_room bytes\<rparr> in
              if got > capacity then (close_with ERR_READ_CALLBACK k1, w')
              else
                (let line = khc_chunk_size_line got;
                     start = usub line_room (length line) in
                 if start + length line > ssize k \<or> line_room + got + 2 > ssize k then (fault k1, w')
                 else
                   (k1\<lparr>kh_stream_buff :=
                         mem_write (mem_write (kh_stream_buff k1) start line) (line_room + got) [CR, LF],
                       kh_req_frame_start := start,
                       kh_req_frame_size := length line + got + 2,
                       kh_req_body_sent := uadd (kh_req_body_sent k) got,
                       kh_read_size := got,
                       kh_read_req_end := (got = 0),
                       kh_state := REQ_BODY_SEND\<rparr>, w')))))"

definition khc_state_req_body_read :: "'w khc_io \<Rightarrow> khc \<Rightarrow> 'w \<Rightarrow> khc \<times> 'w" where
  "khc_state_req_body_read io k w =
     (if kh_req_body_length k \<noteq> BODY_LENGTH_UNKNOWN then body_read_known io k w
      else body_read_chunk io k w)"

definition body_frame :: "khc \<Rightarrow> string" where
  "body_frame k = take (kh_req_frame_size k) (drop (kh_req_frame_start k) (kh_stream_buff k))"

definition khc_state_req_body_send :: "'w khc_io \<Rightarrow> khc \<Rightarrow> 'w \<Rightarrow> khc \<times> 'w" where
  "khc_state_req_body_send io k w =
     (if kh_req_frame_start k + kh_req_frame_size k > ssize k then (fault k, w)
      else
        send_rest io (body_frame k)
          (\<lambda>k. if kh_read_req_end k then k\<lparr>kh_header_read_size := 0, kh_state := RESP_STATUS_READ\<rparr>
               else k\<lparr>kh_state := REQ_BODY_READ\<rparr>) k w)"

end
