(* ===== verification/Khc_Response.thy ===== *)
theory Khc_Response
  imports Khc_State
begin

text \<open>
  khc/src/khc\_state\_impl.c, the states that read a response: its status line, its headers, one
  skipped since it is longer than the buffer, and its body, whole or in chunks; and closing.
\<close>

section \<open>Receiving\<close>

text \<open>
  How every state that receives does it: \<open>got\<close> says what is done with the bytes.  The room is
  the caller's to give: \<open>io_recv\<close> returns no more bytes than it is asked for.
\<close>

definition recv_io ::
  "'w khc_io \<Rightarrow> nat \<Rightarrow> (string \<Rightarrow> khc \<Rightarrow> khc) \<Rightarrow> khc \<Rightarrow> 'w \<Rightarrow> khc \<times> 'w" where
  "recv_io io req got k w =
     (case io_recv io req w of
        ((read_res, bytes), w') \<Rightarrow>
          (case read_res of
             SOCK_OK \<Rightarrow> (got bytes k, w')
           | SOCK_AGAIN \<Rightarrow> (k\<lparr>kh_again := True\<rparr>, w')
           | SOCK_FAIL \<Rightarrow>
               (case record_sock_error io k w' of
                  (k', w'') \<Rightarrow> (close_with ERR_SOCK_RECV k', w''))))"

text \<open>The bytes received go after those in the header buffer, with a NUL after them.\<close>

definition store_header :: "string \<Rightarrow> khc \<Rightarrow> khc" where
  "store_header bytes k =
     (let n = kh_header_read_size k + length bytes in
      if n \<ge> hsize k then fault k
      else k\<lparr>kh_header_buff := mem_write (kh_header_buff k) (kh_header_read_size k) (bytes @ [NUL]),
             kh_header_read_size := n\<rparr>)"

definition header_room :: "khc \<Rightarrow> nat" where
  "header_room k = usub (usub (hsize k) (kh_header_read_size k)) 1"

definition recv_header ::
  "'w khc_io \<Rightarrow> (string \<Rightarrow> khc \<Rightarrow> khc) \<Rightarrow> khc \<Rightarrow> 'w \<Rightarrow> khc \<times> 'w" where
  "recv_header io got k w =
     (if kh_header_read_size k + header_room k > hsize k then (fault k, w)
      else recv_io io (header_room k) (\<lambda>bytes k. got bytes (store_header bytes k)) k w)"

text \<open>The \<open>memmove\<close> that takes the first bytes off the header buffer, the NUL moving along.\<close>

definition drop_header :: "nat \<Rightarrow> khc \<Rightarrow> khc" where
  "drop_header n k =
     (if kh_header_read_size k \<ge> hsize k \<or> n > kh_header_read_size k then fault k
      else k\<lparr>kh_header_buff :=
                mem_write (kh_header_buff k) 0
                  (take (kh_header_read_size k - n + 1) (drop n (kh_header_buff k))),
             kh_header_read_size := kh_header_read_size k - n\<rparr>)"

text \<open>The \<open>memmove\<close> that takes the first bytes off the stream buffer.\<close>

definition drop_stream :: "nat \<Rightarrow> khc \<Rightarrow> khc" where
  "drop_stream n k =
     (if kh_body_read_size k > ssize k \<or> n > kh_body_read_size k then fault k
      else k\<lparr>kh_stream_buff :=
                mem_write (kh_stream_buff k) 0
                  (take (kh_body_read_size k - n) (drop n (kh_stream_buff k))),
             kh_body_read_size := kh_body_read_size k - n\<rparr>)"

section \<open>The head\<close>

definition khc_state_resp_status_read :: "'w khc_io \<Rightarrow> khc \<Rightarrow> 'w \<Rightarrow> khc \<times> 'w" where
  "khc_state_resp_status_read io =
     recv_header io
       (\<lambda>bytes k.
          (let k1 = (if bytes = [] then k\<lparr>kh_read_end := True\<rparr> else k) in
           if find_crlf (header_data k1) \<noteq> None then k1\<lparr>kh_state := RESP_STATUS_PARSE\<rparr>
           else if kh_header_read_size k1 + 1 = hsize k1 then close_with ERR_TOO_LARGE_DATA k1
           else if bytes = [] then closed_early (close_with ERR_SOCK_RECV k1)
           else k1))"

definition khc_state_resp_status_parse :: "khc \<Rightarrow> khc" where
  "khc_state_resp_status_parse k =
     (case find_crlf (header_data k) of
        None \<Rightarrow> close_with ERR_INVALID_RESPONSE k
      | Some line_end \<Rightarrow>
          (let line = take line_end (kh_header_buff k);
               digit = (\<lambda>i. code (kh_header_buff k ! (9 + i)) - 48) in
           if \<not> is_status_line line then close_with ERR_INVALID_RESPONSE k
           else
             k\<lparr>kh_status_code := digit 0 * 100 + digit 1 * 10 + digit 2,
                kh_status_line_given := False,
                kh_version_1_0 := (kh_header_buff k ! 7 = CHR ''0''),
                kh_resp_date := -1,
                kh_content_length := 0,
                kh_has_content_length := False,
                kh_chunked_resp := False,
                kh_state := RESP_HEADER_CALLBACK\<rparr>))"

text \<open>What a header says of the framing; \<open>False\<close> where it cannot be read, or contradicts one before.\<close>

definition frame_header :: "string \<Rightarrow> khc \<Rightarrow> khc \<times> bool" where
  "frame_header line k =
     (case is_chunked_encoding line of
        Found _ \<Rightarrow> (k\<lparr>kh_chunked_resp := True\<rparr>, True)
      | Bad \<Rightarrow> (close_with ERR_INVALID_RESPONSE k, False)
      | NotFound \<Rightarrow>
          (case extract_content_length line of
             Found n \<Rightarrow>
               if kh_has_content_length k \<and> n \<noteq> kh_content_length k
               then (close_with ERR_INVALID_RESPONSE k, False)
               else (k\<lparr>kh_content_length := n, kh_has_content_length := True\<rparr>, True)
           | Bad \<Rightarrow> (close_with ERR_INVALID_RESPONSE k, False)
           | NotFound \<Rightarrow> (k, True)))"

text \<open>After the empty line.\<close>

definition end_of_head :: "khc \<Rightarrow> khc" where
  "end_of_head k =
     (if 100 \<le> kh_status_code k \<and> kh_status_code k < 200
      then (if find_crlf (header_data k) \<noteq> None then k\<lparr>kh_state := RESP_STATUS_PARSE\<rparr>
            else k\<lparr>kh_state := RESP_STATUS_READ\<rparr>)
      else if kh_method k = ''HEAD'' \<or> kh_status_code k = 204 \<or> kh_status_code k = 304
      then k\<lparr>kh_state := CLOSE\<rparr>
      else if kh_chunked_resp k \<and> (kh_has_content_length k \<or> kh_version_1_0 k)
      then close_with ERR_INVALID_RESPONSE k
      else if kh_chunked_resp k
      then k\<lparr>kh_body_read_size := 0, kh_state := RESP_BODY_PARSE_CHUNK_SIZE\<rparr>
      else k\<lparr>kh_state := RESP_BODY_FRAGMENT\<rparr>)"

definition khc_state_resp_header_callback :: "'w khc_io \<Rightarrow> khc \<Rightarrow> 'w \<Rightarrow> khc \<times> 'w" where
  "khc_state_resp_header_callback io k w =
     (if kh_header_read_size k > hsize k then (fault k, w)
      else
        (case find_crlf (header_data k) of
           None \<Rightarrow>
             (if hsize k = kh_header_read_size k + 1
              then (if \<not> is_header_start (header_data k) then (close_with ERR_INVALID_RESPONSE k, w)
                    else (k\<lparr>kh_header_skipped := True, kh_state := RESP_HEADER_SKIP\<rparr>, w))
              else (k\<lparr>kh_state := RESP_HEADER_READ\<rparr>, w))
         | Some header_size \<Rightarrow>
             (let line = take header_size (kh_header_buff k) in
              if header_size > 0 \<and> kh_status_line_given k \<and> \<not> is_header_line line
              then (close_with ERR_INVALID_RESPONSE k, w)
              else if header_size > 0
              then
                (case io_header io line w of
                   (header_written, w') \<Rightarrow>
                     (if header_written \<noteq> header_size then (close_with ERR_HEADER_CALLBACK k, w')
                      else
                        (let k1 = k\<lparr>kh_status_line_given := True,
                                    kh_resp_date :=
                                      record_resp_date (kh_resp_date_floor k) (kh_resp_date k) (Some line)\<rparr>
                         in case frame_header line k1 of
                              (k2, ok) \<Rightarrow>
                                (if ok then (drop_header (header_size + 2) k2, w') else (k2, w')))))
              else (end_of_head (drop_header 2 k), w))))"

definition khc_state_resp_header_read :: "'w khc_io \<Rightarrow> khc \<Rightarrow> 'w \<Rightarrow> khc \<times> 'w" where
  "khc_state_resp_header_read io =
     recv_header io
       (\<lambda>bytes k.
          if bytes = [] then closed_early (close_with ERR_SOCK_RECV k)
          else k\<lparr>kh_state := RESP_HEADER_CALLBACK\<rparr>)"

text \<open>What follows of a header too long for the buffer, once read.\<close>

definition skip_read :: "string \<Rightarrow> khc \<Rightarrow> khc" where
  "skip_read bytes k =
     (if bytes = [] then closed_early (close_with ERR_SOCK_RECV k)
      else
        (let boundary = find_crlf (header_data k);
             value_size =
               (case boundary of
                  Some b \<Rightarrow> b
                | None \<Rightarrow>
                    if kh_header_buff k ! (kh_header_read_size k - 1) = CR
                    then kh_header_read_size k - 1 else kh_header_read_size k)
         in if \<not> is_field_text (take value_size (kh_header_buff k))
            then close_with ERR_INVALID_RESPONSE k
            else
              (case boundary of
                 None \<Rightarrow> k
               | Some header_size \<Rightarrow>
                   (drop_header (header_size + 2) k)\<lparr>kh_state := RESP_HEADER_CALLBACK\<rparr>)))"

definition khc_state_resp_header_skip :: "'w khc_io \<Rightarrow> khc \<Rightarrow> 'w \<Rightarrow> khc \<times> 'w" where
  "khc_state_resp_header_skip io k w =
     (if is_header_present ''Content-Length'' (header_data k) \<or>
         is_header_present ''Transfer-Encoding'' (header_data k)
      then (close_with ERR_TOO_LARGE_DATA k, w)
      else if usub (kh_header_read_size k) 1 \<ge> hsize k then (fault k, w)
      else
        (let k1 =
               (if kh_header_buff k ! (usub (kh_header_read_size k) 1) = CR
                then k\<lparr>kh_header_buff := mem_write (kh_header_buff k) 0 [CR], kh_header_read_size := 1\<rparr>
                else k\<lparr>kh_header_read_size := 0\<rparr>)
         in recv_header io skip_read k1 w))"

section \<open>A body that is not chunked\<close>

definition end_resp_body :: "khc \<Rightarrow> khc" where
  "end_resp_body k =
     (let k1 = k\<lparr>kh_state := CLOSE\<rparr> in
      if kh_body_received k < kh_content_length k
      then closed_early (k1\<lparr>kh_result := ERR_SOCK_RECV\<rparr>) else k1)"

definition resp_body_complete :: "khc \<Rightarrow> bool" where
  "resp_body_complete k \<longleftrightarrow> kh_has_content_length k \<and> kh_body_received k \<ge> kh_content_length k"

definition resp_body_part :: "khc \<Rightarrow> nat \<Rightarrow> nat" where
  "resp_body_part k n =
     (if \<not> kh_has_content_length k then n
      else if resp_body_complete k then 0
      else (let remain = kh_content_length k - kh_body_received k in if n < remain then n else remain))"

text \<open>The end of a step that gave part of the body to the write callback.\<close>

definition body_given :: "khc_state \<Rightarrow> khc \<Rightarrow> khc" where
  "body_given next k =
     (if kh_read_end k \<or> resp_body_complete k then end_resp_body k else k\<lparr>kh_state := next\<rparr>)"

definition khc_state_resp_body_fragment :: "'w khc_io \<Rightarrow> khc \<Rightarrow> 'w \<Rightarrow> khc \<times> 'w" where
  "khc_state_resp_body_fragment io k w =
     (let n = resp_body_part k (kh_header_read_size k) in
      if n > 0
      then
        (if n > hsize k then (fault k, w)
         else
           (case io_write io (take n (kh_header_buff k)) w of
              (written, w') \<Rightarrow>
                (if written \<noteq> n then (close_with ERR_WRITE_CALLBACK k, w')
                 else
                   (body_given RESP_BODY_READ
                      (k\<lparr>kh_body_received := uadd (kh_body_received k) written\<rparr>), w'))))
      else (body_given RESP_BODY_READ k, w))"

text \<open>Receiving into the stream buffer, at an offset.\<close>

definition recv_stream ::
  "'w khc_io \<Rightarrow> nat \<Rightarrow> nat \<Rightarrow> (string \<Rightarrow> khc \<Rightarrow> khc) \<Rightarrow> khc \<Rightarrow> 'w \<Rightarrow> khc \<times> 'w" where
  "recv_stream io off req got k w =
     (if off + req > ssize k then (fault k, w)
      else
        recv_io io req
          (\<lambda>bytes k. got bytes (k\<lparr>kh_stream_buff := mem_write (kh_stream_buff k) off bytes\<rparr>)) k w)"

definition khc_state_resp_body_read :: "'w khc_io \<Rightarrow> khc \<Rightarrow> 'w \<Rightarrow> khc \<times> 'w" where
  "khc_state_resp_body_read io k =
     recv_stream io 0 (ssize k)
       (\<lambda>bytes k.
          (let k1 = k\<lparr>kh_body_read_size := length bytes\<rparr> in
           if bytes = [] then end_resp_body (k1\<lparr>kh_read_end := True\<rparr>)
           else k1\<lparr>kh_state := RESP_BODY_CALLBACK\<rparr>)) k"

definition khc_state_resp_body_callback :: "'w khc_io \<Rightarrow> khc \<Rightarrow> 'w \<Rightarrow> khc \<times> 'w" where
  "khc_state_resp_body_callback io k w =
     (let n = resp_body_part k (kh_body_read_size k) in
      if n > ssize k then (fault k, w)
      else
        (case io_write io (take n (kh_stream_buff k)) w of
           (written, w') \<Rightarrow>
             (if written < n then (close_with ERR_WRITE_CALLBACK k, w')
              else
                (body_given RESP_BODY_READ
                   (k\<lparr>kh_body_received := uadd (kh_body_received k) written\<rparr>), w'))))"

section \<open>A body in chunks\<close>

text \<open>\<open>None\<close> for the 1 it returns.\<close>

definition move_resp_header_to_stream :: "khc \<Rightarrow> khc option" where
  "move_resp_header_to_stream k =
     (let remain = int (ssize k) - int (kh_body_read_size k) in
      if remain \<le> 0 then None
      else
        (let move_size =
               (if nat remain > kh_header_read_size k then kh_header_read_size k else nat remain)
         in Some
              (if move_size > hsize k then fault k
               else
                 drop_header move_size
                   (k\<lparr>kh_stream_buff :=
                         mem_write (kh_stream_buff k) (kh_body_read_size k)
                           (take move_size (kh_header_buff k)),
                      kh_body_read_size := kh_body_read_size k + move_size\<rparr>))))"

definition khc_state_read_chunk_size_from_header_buff :: "khc \<Rightarrow> khc" where
  "khc_state_read_chunk_size_from_header_buff k =
     (case move_resp_header_to_stream k of
        Some k' \<Rightarrow> k'\<lparr>kh_state := RESP_BODY_PARSE_CHUNK_SIZE\<rparr>
      | None \<Rightarrow> close_with ERR_TOO_LARGE_DATA k)"

definition khc_state_read_chunk_body_from_header_buff :: "khc \<Rightarrow> khc" where
  "khc_state_read_chunk_body_from_header_buff k =
     (case move_resp_header_to_stream k of
        Some k' \<Rightarrow> k'\<lparr>kh_state := RESP_BODY_PARSE_CHUNK_BODY\<rparr>
      | None \<Rightarrow> close_with ERR_TOO_LARGE_DATA k)"

definition khc_state_resp_body_parse_chunk_size :: "khc \<Rightarrow> khc" where
  "khc_state_resp_body_parse_chunk_size k =
     (if kh_body_read_size k > ssize k then fault k
      else
        (case read_chunk_size (stream_data k) of
           Found n \<Rightarrow>
             (case find_crlf (stream_data k) of
                None \<Rightarrow> fault k
              | Some chunk_end \<Rightarrow>
                  (let k1 = drop_stream (chunk_end + 2) (k\<lparr>kh_chunk_size := n, kh_chunk_size_written := 0\<rparr>)
                   in if n > 0 then k1\<lparr>kh_state := RESP_BODY_PARSE_CHUNK_BODY\<rparr>
                      else k1\<lparr>kh_trailer_end_matched := 2, kh_state := RESP_BODY_SKIP_TRAILERS\<rparr>))
         | Bad \<Rightarrow> close_with ERR_INVALID_RESPONSE k
         | NotFound \<Rightarrow>
             (if kh_header_read_size k > 0 then k\<lparr>kh_state := READ_CHUNK_SIZE_FROM_HEADER_BUFF\<rparr>
              else k\<lparr>kh_state := RESP_BODY_READ_CHUNK_SIZE\<rparr>)))"

definition khc_state_resp_body_read_chunk_size :: "'w khc_io \<Rightarrow> khc \<Rightarrow> 'w \<Rightarrow> khc \<times> 'w" where
  "khc_state_resp_body_read_chunk_size io k w =
     (let remain = int (ssize k) - int (kh_body_read_size k) in
      if remain \<le> 0 then (close_with ERR_TOO_LARGE_DATA k, w)
      else
        recv_stream io (kh_body_read_size k) (nat remain)
          (\<lambda>bytes k.
             (let k1 = k\<lparr>kh_body_read_size := kh_body_read_size k + length bytes\<rparr> in
              if bytes = [] then closed_early (close_with ERR_SOCK_RECV k1)
              else k1\<lparr>kh_state := RESP_BODY_PARSE_CHUNK_SIZE\<rparr>)) k w)"

definition khc_state_resp_body_parse_chunk_body :: "'w khc_io \<Rightarrow> khc \<Rightarrow> 'w \<Rightarrow> khc \<times> 'w" where
  "khc_state_resp_body_parse_chunk_body io k w =
     (let chunk_remain = usub (kh_chunk_size k) (kh_chunk_size_written k);
          target_size = (if chunk_remain > kh_body_read_size k then kh_body_read_size k else chunk_remain)
      in if target_size > ssize k then (fault k, w)
         else
           (case io_write io (take target_size (kh_stream_buff k)) w of
              (written, w') \<Rightarrow>
                (if written < target_size then (close_with ERR_WRITE_CALLBACK k, w')
                 else
                   (let k1 = k\<lparr>kh_chunk_size_written := kh_chunk_size_written k + target_size,
                               kh_body_received := uadd (kh_body_received k) written\<rparr>
                    in if kh_chunk_size k1 > kh_chunk_size_written k1
                       then (if kh_header_read_size k1 > 0
                             then (k1\<lparr>kh_body_read_size := 0,
                                      kh_state := READ_CHUNK_BODY_FROM_HEADER_BUFF\<rparr>, w')
                             else (k1\<lparr>kh_state := RESP_BODY_READ_CHUNK_BODY\<rparr>, w'))
                       else
                         ((drop_stream target_size k1)
                            \<lparr>kh_state := RESP_BODY_SKIP_CHUNK_BODY_CRLF\<rparr>, w')))))"

definition khc_state_resp_body_read_chunk_body :: "'w khc_io \<Rightarrow> khc \<Rightarrow> 'w \<Rightarrow> khc \<times> 'w" where
  "khc_state_resp_body_read_chunk_body io k =
     recv_stream io 0 (ssize k)
       (\<lambda>bytes k.
          if bytes = [] then closed_early (close_with ERR_SOCK_RECV k)
          else k\<lparr>kh_body_read_size := length bytes, kh_state := RESP_BODY_PARSE_CHUNK_BODY\<rparr>) k"

definition is_chunk_data_end :: "string \<Rightarrow> bool" where
  "is_chunk_data_end data \<longleftrightarrow> data = take (length data) [CR, LF]"

text \<open>What was received of the CRLF after a chunk's data.\<close>

definition crlf_read :: "string \<Rightarrow> khc \<Rightarrow> khc" where
  "crlf_read tmp k =
     (if tmp = [] then closed_early (close_with ERR_SOCK_RECV k)
      else if tmp \<noteq> take (length tmp) (drop (kh_body_read_size k) [CR, LF])
      then close_with ERR_INVALID_RESPONSE k
      else
        (let k1 = k\<lparr>kh_body_read_size := kh_body_read_size k + length tmp\<rparr> in
         if kh_body_read_size k1 < 2
         then (if ssize k1 = 0 then fault k1
               else k1\<lparr>kh_stream_buff := mem_write (kh_stream_buff k1) 0 [CR]\<rparr>)
         else k1\<lparr>kh_body_read_size := 0, kh_state := RESP_BODY_PARSE_CHUNK_SIZE\<rparr>))"

definition khc_state_resp_body_skip_chunk_body_crlf :: "'w khc_io \<Rightarrow> khc \<Rightarrow> 'w \<Rightarrow> khc \<times> 'w" where
  "khc_state_resp_body_skip_chunk_body_crlf io k w =
     (let n = (if kh_body_read_size k < 2 then kh_body_read_size k else 2) in
      if n > ssize k then (fault k, w)
      else if \<not> is_chunk_data_end (take n (kh_stream_buff k)) then (close_with ERR_INVALID_RESPONSE k, w)
      else if kh_body_read_size k < 2
      then
        (if kh_header_read_size k > 0
         then ((case move_resp_header_to_stream k of Some k' \<Rightarrow> k' | None \<Rightarrow> k), w)
         else recv_io io (2 - kh_body_read_size k) crlf_read k w)
      else ((drop_stream 2 k)\<lparr>kh_state := RESP_BODY_PARSE_CHUNK_SIZE\<rparr>, w))"

text \<open>
  The loop of \<open>_find_trailer_end\<close>: how much of CRLF CRLF has come, and whether all of it has.
\<close>

fun find_trailer_end :: "nat \<Rightarrow> string \<Rightarrow> nat \<times> bool" where
  "find_trailer_end m [] = (m, False)"
| "find_trailer_end m (c # data) =
     (if c = [CR, LF, CR, LF] ! m
      then (if m + 1 = 4 then (m + 1, True) else find_trailer_end (m + 1) data)
      else find_trailer_end (if c = CR then 1 else 0) data)"

definition khc_state_resp_body_skip_trailers :: "'w khc_io \<Rightarrow> khc \<Rightarrow> 'w \<Rightarrow> khc \<times> 'w" where
  "khc_state_resp_body_skip_trailers io k w =
     (if kh_body_read_size k > ssize k \<or> kh_header_read_size k > hsize k \<or> kh_trailer_end_matched k > 3
      then (fault k, w)
      else
        (case find_trailer_end (kh_trailer_end_matched k) (stream_data k) of
           (m, True) \<Rightarrow> (k\<lparr>kh_trailer_end_matched := m, kh_state := CLOSE\<rparr>, w)
         | (m, False) \<Rightarrow>
             (case find_trailer_end m (header_data k) of
                (m', True) \<Rightarrow> (k\<lparr>kh_trailer_end_matched := m', kh_state := CLOSE\<rparr>, w)
              | (m', False) \<Rightarrow>
                  recv_stream io 0 (ssize k)
                    (\<lambda>bytes k. if bytes = [] then k\<lparr>kh_state := CLOSE\<rparr>
                       else k\<lparr>kh_body_read_size := length bytes\<rparr>)
                    (k\<lparr>kh_trailer_end_matched := m', kh_body_read_size := 0, kh_header_read_size := 0\<rparr>) w)))"

section \<open>Closing\<close>

definition khc_state_close :: "'w khc_io \<Rightarrow> khc \<Rightarrow> 'w \<Rightarrow> khc \<times> 'w" where
  "khc_state_close io k w =
     (case io_close io w of
        (close_res, w') \<Rightarrow>
          (case close_res of
             SOCK_OK \<Rightarrow> (k\<lparr>kh_state := FINISHED\<rparr>, w')
           | SOCK_AGAIN \<Rightarrow> (k\<lparr>kh_again := True\<rparr>, w')
           | SOCK_FAIL \<Rightarrow> (k\<lparr>kh_state := FINISHED, kh_close_failed := True\<rparr>, w')))"

text \<open>The table of the handlers.  There is none for \<open>FINISHED\<close>, where the loop ends.\<close>

definition state_handlers :: "'w khc_io \<Rightarrow> khc \<Rightarrow> 'w \<Rightarrow> khc \<times> 'w" where
  "state_handlers io k w =
     (case kh_state k of
        IDLE \<Rightarrow> (khc_state_idle k, w)
      | CONNECT \<Rightarrow> khc_state_connect io k w
      | REQ_LINE \<Rightarrow> khc_state_req_line io k w
      | REQ_HOST_HEADER \<Rightarrow> khc_state_req_host_header io k w
      | REQ_HEADER \<Rightarrow> (khc_state_req_header k, w)
      | REQ_HEADER_SEND \<Rightarrow> khc_state_req_header_send io k w
      | REQ_HEADER_SEND_CRLF \<Rightarrow> khc_state_req_header_send_crlf io k w
      | REQ_HEADER_END \<Rightarrow> khc_state_req_header_end io k w
      | REQ_BODY_READ \<Rightarrow> khc_state_req_body_read io k w
      | REQ_BODY_SEND_SIZE \<Rightarrow> khc_state_req_body_send io k w
      | REQ_BODY_SEND \<Rightarrow> khc_state_req_body_send io k w
      | REQ_BODY_SEND_CRLF \<Rightarrow> khc_state_req_body_send io k w
      | RESP_STATUS_READ \<Rightarrow> khc_state_resp_status_read io k w
      | RESP_STATUS_PARSE \<Rightarrow> (khc_state_resp_status_parse k, w)
      | RESP_HEADER_CALLBACK \<Rightarrow> khc_state_resp_header_callback io k w
      | RESP_HEADER_READ \<Rightarrow> khc_state_resp_header_read io k w
      | RESP_HEADER_SKIP \<Rightarrow> khc_state_resp_header_skip io k w
      | RESP_BODY_FRAGMENT \<Rightarrow> khc_state_resp_body_fragment io k w
      | READ_CHUNK_SIZE_FROM_HEADER_BUFF \<Rightarrow> (khc_state_read_chunk_size_from_header_buff k, w)
      | READ_CHUNK_BODY_FROM_HEADER_BUFF \<Rightarrow> (khc_state_read_chunk_body_from_header_buff k, w)
      | RESP_BODY_READ \<Rightarrow> khc_state_resp_body_read io k w
      | RESP_BODY_CALLBACK \<Rightarrow> khc_state_resp_body_callback io k w
      | RESP_BODY_PARSE_CHUNK_SIZE \<Rightarrow> (khc_state_resp_body_parse_chunk_size k, w)
      | RESP_BODY_READ_CHUNK_SIZE \<Rightarrow> khc_state_resp_body_read_chunk_size io k w
      | RESP_BODY_PARSE_CHUNK_BODY \<Rightarrow> khc_state_resp_body_parse_chunk_body io k w
      | RESP_BODY_READ_CHUNK_BODY \<Rightarrow> khc_state_resp_body_read_chunk_body io k w
      | RESP_BODY_SKIP_CHUNK_BODY_CRLF \<Rightarrow> khc_state_resp_body_skip_chunk_body_crlf io k w
      | RESP_BODY_SKIP_TRAILERS \<Rightarrow> khc_state_resp_body_skip_trailers io k w
      | CLOSE \<Rightarrow> khc_state_close io k w
      | FINISHED \<Rightarrow> (fault k, w))"

end
