(* ===== verification/Khc_Perform.thy ===== *)
theory Khc_Perform
  imports Khc_Response
begin

text \<open>
  khc/src/khc.c and the setters of khc/src/khc\_state\_impl.c: khc set up, and a request
  performed, the loop that takes a step for the state khc is in until it is finished, with its
  timeout and the callback that may cancel it.

  The loop need not end (a socket may say again for ever), so it is run with fuel: \<open>None\<close> is a
  request not finished within it.  \<open>uint64_t\<close> and \<open>size_t\<close> are both 64 bits, so \<open>usub\<close> is
  the subtraction of both.
\<close>

section \<open>Setting khc up\<close>

definition HOST_MAX_SIZE :: nat where "HOST_MAX_SIZE = 128"
definition PATH_MAX_SIZE :: nat where "PATH_MAX_SIZE = 256"
definition METHOD_MAX_SIZE :: nat where "METHOD_MAX_SIZE = 16"
definition AGAIN_WAIT_MS :: nat where "AGAIN_WAIT_MS = 10"
definition DEFAULT_HEADER_BUFF_SIZE :: nat where "DEFAULT_HEADER_BUFF_SIZE = 256"
definition DEFAULT_STREAM_BUFF_SIZE :: nat where "DEFAULT_STREAM_BUFF_SIZE = 1024"

definition khc_set_host :: "khc \<Rightarrow> string \<Rightarrow> khc \<times> khc_code" where
  "khc_set_host k host =
     (if HOST_MAX_SIZE < length host + 1 then (k, ERR_TOO_LARGE_DATA)
      else (k\<lparr>kh_host := host\<rparr>, ERR_OK))"

definition khc_set_path :: "khc \<Rightarrow> string \<Rightarrow> khc \<times> khc_code" where
  "khc_set_path k path =
     (if PATH_MAX_SIZE < length path + 1 then (k, ERR_TOO_LARGE_DATA)
      else (k\<lparr>kh_path := path\<rparr>, ERR_OK))"

definition khc_set_method :: "khc \<Rightarrow> string \<Rightarrow> khc \<times> khc_code" where
  "khc_set_method k method' =
     (if METHOD_MAX_SIZE < length method' + 1 then (k, ERR_TOO_LARGE_DATA)
      else (k\<lparr>kh_method := method'\<rparr>, ERR_OK))"

definition khc_set_req_headers :: "khc \<Rightarrow> string option list \<Rightarrow> khc \<times> khc_code" where
  "khc_set_req_headers k headers = (k\<lparr>kh_req_headers := headers\<rparr>, ERR_OK)"

definition khc_set_resp_header_buff :: "khc \<Rightarrow> char list option \<Rightarrow> khc" where
  "khc_set_resp_header_buff k buffer =
     k\<lparr>kh_header_set := (buffer \<noteq> None),
        kh_header_buff := (case buffer of Some b \<Rightarrow> b | None \<Rightarrow> [])\<rparr>"

definition khc_set_stream_buff :: "khc \<Rightarrow> char list option \<Rightarrow> khc" where
  "khc_set_stream_buff k buffer =
     k\<lparr>kh_stream_set := (buffer \<noteq> None),
        kh_stream_buff := (case buffer of Some b \<Rightarrow> b | None \<Rightarrow> [])\<rparr>"

definition khc_set_timeout_ms :: "khc \<Rightarrow> nat \<Rightarrow> khc" where
  "khc_set_timeout_ms k timeout_ms = k\<lparr>kh_timeout_ms := timeout_ms\<rparr>"

definition khc_set_req_body_length :: "khc \<Rightarrow> nat \<Rightarrow> khc" where
  "khc_set_req_body_length k n = k\<lparr>kh_req_body_length := n\<rparr>"

definition khc_enable_insecure :: "khc \<Rightarrow> bool \<Rightarrow> khc" where
  "khc_enable_insecure k b = k\<lparr>kh_enable_insecure := b\<rparr>"

definition khc_enable_absolute_target :: "khc \<Rightarrow> bool \<Rightarrow> khc" where
  "khc_enable_absolute_target k b = k\<lparr>kh_absolute_target := b\<rparr>"

definition khc_get_status_code :: "khc \<Rightarrow> nat" where
  "khc_get_status_code k = kh_status_code k"

definition khc_get_sock_error :: "khc \<Rightarrow> sock_error \<times> int" where
  "khc_get_sock_error k = (kh_sock_error k, kh_sock_error_detail k)"

definition khc_get_close_failed :: "khc \<Rightarrow> bool" where
  "khc_get_close_failed k = kh_close_failed k"

definition khc_get_resp_header_skipped :: "khc \<Rightarrow> bool" where
  "khc_get_resp_header_skipped k = kh_header_skipped k"

definition khc_get_resp_date :: "khc \<Rightarrow> int" where
  "khc_get_resp_date k = (if kh_resp_date k \<ge> 0 then kh_resp_date k else -1)"

definition khc_reset_except_request :: "khc \<Rightarrow> khc" where
  "khc_reset_except_request k =
     k\<lparr>kh_state := IDLE, kh_current_req_header := [], kh_read_size := 0, kh_read_req_end := False,
        kh_req_body_left := 0, kh_req_body_sent := 0, kh_req_frame_start := 0, kh_req_frame_size := 0,
        kh_header_read_size := 0, kh_status_code := 0, kh_status_line_given := False,
        kh_version_1_0 := False, kh_chunked_resp := False, kh_chunk_size := 0,
        kh_chunk_size_written := 0, kh_content_length := 0, kh_has_content_length := False,
        kh_body_received := 0, kh_trailer_end_matched := 0, kh_resp_date := -1,
        kh_read_end := False, kh_body_read_size := 0, kh_result := ERR_OK, kh_close_failed := False,
        kh_header_skipped := False, kh_sent_length := 0, kh_started_ms := 0, kh_again := False,
        kh_sock_error := ERROR_NONE, kh_sock_error_detail := 0\<rparr>"

definition khc_reset_except_cb :: "khc \<Rightarrow> khc" where
  "khc_reset_except_cb k =
     (khc_reset_except_request
        (k\<lparr>kh_req_headers := [], kh_host := [], kh_path := [], kh_method := [],
            kh_req_body_length := BODY_LENGTH_UNKNOWN\<rparr>))
       \<lparr>kh_header_set := False, kh_header_buff := [], kh_header_allocated := False,
        kh_stream_set := False, kh_stream_buff := [], kh_stream_allocated := False\<rparr>"

text \<open>
  What \<open>khc_init\<close> sets besides the pointers \<open>khc_io\<close> stands for; \<open>source_time\<close> is the
  build's \<open>EBISU_SOURCE_TIME\<close>.
\<close>

definition khc_init :: "int \<Rightarrow> khc \<Rightarrow> khc" where
  "khc_init source_time k =
     khc_reset_except_cb
       (k\<lparr>kh_timeout_ms := 0, kh_enable_insecure := False, kh_absolute_target := False,
           kh_resp_date_floor := source_time - 7 * 86400\<rparr>)"

section \<open>The loop\<close>

definition stop_reason :: "'w khc_io \<Rightarrow> khc \<Rightarrow> 'w \<Rightarrow> khc_code \<times> 'w" where
  "stop_reason io k w =
     (case (if kh_timeout_ms k > 0
            then (case io_monotonic io w of
                    (now, w') \<Rightarrow> (usub now (kh_started_ms k) \<ge> kh_timeout_ms k, w'))
            else (False, w)) of
        (timed_out, w1) \<Rightarrow>
          if timed_out then (ERR_TIMEOUT, w1)
          else if has_cb_continue io
          then (case io_continue io w1 of
                  (goes_on, w2) \<Rightarrow> (if goes_on then ERR_OK else ERR_CANCELLED, w2))
          else (ERR_OK, w1))"

definition stop :: "khc \<Rightarrow> khc_code \<Rightarrow> khc" where
  "stop k reason =
     (if kh_state k = IDLE \<or> kh_state k = CONNECT
      then k\<lparr>kh_result := reason, kh_state := FINISHED\<rparr>
      else if kh_state k = CLOSE then k\<lparr>kh_close_failed := True, kh_state := FINISHED\<rparr>
      else k\<lparr>kh_result := reason, kh_state := CLOSE\<rparr>)"

text \<open>The body of the loop that goes on.\<close>

definition run_handler :: "'w khc_io \<Rightarrow> khc \<Rightarrow> 'w \<Rightarrow> khc \<times> 'w" where
  "run_handler io k w =
     (case state_handlers io (k\<lparr>kh_again := False\<rparr>) w of
        (k', w') \<Rightarrow>
          (k', if kh_again k' \<and> has_delay io then io_delay io AGAIN_WAIT_MS w' else w'))"

definition khc_step :: "'w khc_io \<Rightarrow> khc \<times> 'w \<Rightarrow> khc \<times> 'w" where
  "khc_step io s =
     (case s of
        (k, w) \<Rightarrow>
          (case stop_reason io k w of
             (reason, w1) \<Rightarrow>
               (if reason \<noteq> ERR_OK
                then (let k1 = stop k reason in
                      if kh_state k1 \<noteq> CLOSE then (k1, w1) else run_handler io k1 w1)
                else run_handler io k w1)))"

definition is_finished :: "khc \<times> 'w \<Rightarrow> bool" where
  "is_finished s \<longleftrightarrow> kh_state (fst s) = FINISHED"

abbreviation khc_run :: "'w khc_io \<Rightarrow> nat \<Rightarrow> khc \<times> 'w \<Rightarrow> khc \<times> 'w" where
  "khc_run io \<equiv> run_steps (khc_step io) is_finished"

text \<open>What comes before the loop: an error code, or khc with its buffers.\<close>

definition alloc_header :: "'w khc_io \<Rightarrow> khc \<Rightarrow> 'w \<Rightarrow> (khc option) \<times> 'w" where
  "alloc_header io k w =
     (if kh_header_set k then (Some k, w)
      else
        (case io_malloc io DEFAULT_HEADER_BUFF_SIZE w of
           (None, w') \<Rightarrow> (None, w')
         | (Some b, w') \<Rightarrow>
             (Some (k\<lparr>kh_header_set := True, kh_header_buff := b, kh_header_allocated := True\<rparr>), w')))"

definition free_header :: "khc \<Rightarrow> khc" where
  "free_header k =
     (if kh_header_allocated k
      then k\<lparr>kh_header_set := False, kh_header_buff := [], kh_header_allocated := False\<rparr> else k)"

definition free_stream :: "khc \<Rightarrow> khc" where
  "free_stream k =
     (if kh_stream_allocated k
      then k\<lparr>kh_stream_set := False, kh_stream_buff := [], kh_stream_allocated := False\<rparr> else k)"

definition alloc_stream :: "'w khc_io \<Rightarrow> khc \<Rightarrow> 'w \<Rightarrow> (khc + khc) \<times> 'w" where
  "alloc_stream io k w =
     (if kh_stream_set k then (Inr k, w)
      else
        (case io_malloc io DEFAULT_STREAM_BUFF_SIZE w of
           (None, w') \<Rightarrow> (Inl (free_header k), w')
         | (Some b, w') \<Rightarrow>
             (Inr (k\<lparr>kh_stream_set := True, kh_stream_buff := b, kh_stream_allocated := True\<rparr>), w')))"

definition khc_start :: "'w khc_io \<Rightarrow> khc \<Rightarrow> 'w \<Rightarrow> (khc_code \<times> khc + khc) \<times> 'w" where
  "khc_start io k w =
     (if \<not> has_socket io \<or> \<not> has_cb_header io \<or> \<not> has_cb_write io then (Inl (ERR_FAIL, k), w)
      else if kh_timeout_ms k > 0 \<and> \<not> has_clock io then (Inl (ERR_FAIL, k), w)
      else
        (case (if kh_timeout_ms k > 0
               then (case io_monotonic io w of (now, w') \<Rightarrow> (k\<lparr>kh_started_ms := now\<rparr>, w'))
               else (k, w)) of
           (k1, w1) \<Rightarrow>
             (let k2 = k1\<lparr>kh_state := IDLE, kh_result := ERR_OK, kh_close_failed := False,
                          kh_header_skipped := False, kh_resp_date := -1\<rparr> in
              case alloc_header io k2 w1 of
                (None, w2) \<Rightarrow> (Inl (ERR_ALLOCATION, k2), w2)
              | (Some k3, w2) \<Rightarrow>
                  (case alloc_stream io k3 w2 of
                     (Inl k4, w3) \<Rightarrow> (Inl (ERR_ALLOCATION, k4), w3)
                   | (Inr k4, w3) \<Rightarrow> (Inr k4, w3)))))"

text \<open>What comes after it: the buffers allocated are freed, and the result is given.\<close>

definition khc_end :: "khc \<Rightarrow> khc_code \<times> khc" where
  "khc_end k =
     (let k1 = free_header (free_stream k)
      in (kh_result k1, k1\<lparr>kh_state := IDLE, kh_result := ERR_OK\<rparr>))"

definition khc_perform :: "nat \<Rightarrow> 'w khc_io \<Rightarrow> khc \<Rightarrow> 'w \<Rightarrow> (khc_code \<times> khc \<times> 'w) option" where
  "khc_perform fuel io k w =
     (case khc_start io k w of
        (Inl (c, k'), w') \<Rightarrow> Some (c, k', w')
      | (Inr k', w') \<Rightarrow>
          (case khc_run io fuel (k', w') of
             (k'', w'') \<Rightarrow>
               (if kh_state k'' = FINISHED
                then (case khc_end k'' of (c, k3) \<Rightarrow> Some (c, k3, w'')) else None)))"

end
