(* ===== verification/Khc_Safety.thy ===== *)
theory Khc_Safety
  imports Khc_Perform
begin

text \<open>
  The memory safety of a request: the invariant every step of the loop keeps, and what it rests
  on.  \<open>io_ok\<close> is what the headers document of the socket, the read callback and \<open>malloc\<close>:
  none gives more bytes than it was asked for.
\<close>

section \<open>The contract and the invariant\<close>

definition io_ok :: "'w khc_io \<Rightarrow> bool" where
  "io_ok io \<longleftrightarrow>
     (\<forall>n w c b w'. io_recv io n w = ((c, b), w') \<longrightarrow> length b \<le> n) \<and>
     (\<forall>n w got b w'. io_read io n w = ((got, b), w') \<longrightarrow> length b \<le> n \<and> (got \<le> n \<longrightarrow> length b = got)) \<and>
     (\<forall>n w b w'. io_malloc io n w = (Some b, w') \<longrightarrow> length b = n)"

text \<open>Whether a receive may say again: a blocking socket never does.\<close>

definition recv_again :: "'w khc_io \<Rightarrow> bool" where
  "recv_again io \<longleftrightarrow> (\<exists>n w b w'. io_recv io n w = ((SOCK_AGAIN, b), w'))"

definition base_ok :: "khc \<Rightarrow> bool" where
  "base_ok k \<longleftrightarrow> \<not> kh_fault k \<and> 1 \<le> hsize k \<and> hsize k \<le> size_max \<and> ssize k \<le> size_max \<and>
     kh_header_read_size k < hsize k \<and> kh_body_read_size k \<le> ssize k"

definition state_ok :: "'w khc_io \<Rightarrow> khc \<Rightarrow> bool" where
  "state_ok io k \<longleftrightarrow>
     (case kh_state k of
        REQ_LINE \<Rightarrow> kh_sent_length k \<le> length (request_line k)
      | REQ_HOST_HEADER \<Rightarrow> kh_sent_length k \<le> length (host_header k)
      | REQ_HEADER \<Rightarrow> kh_sent_length k = 0
      | REQ_HEADER_SEND \<Rightarrow>
          (\<exists>d ds. kh_current_req_header k = Some d # ds \<and> d \<noteq> [] \<and> kh_sent_length k \<le> length d)
      | REQ_HEADER_SEND_CRLF \<Rightarrow> kh_current_req_header k \<noteq> [] \<and> kh_sent_length k \<le> 2
      | REQ_HEADER_END \<Rightarrow> kh_sent_length k \<le> length (last_headers io k)
      | REQ_BODY_READ \<Rightarrow> kh_sent_length k = 0
      | REQ_BODY_SEND_SIZE \<Rightarrow> False
      | REQ_BODY_SEND \<Rightarrow>
          kh_req_frame_start k + kh_req_frame_size k \<le> ssize k \<and> kh_sent_length k \<le> kh_req_frame_size k
      | REQ_BODY_SEND_CRLF \<Rightarrow> False
      | RESP_HEADER_SKIP \<Rightarrow> 1 \<le> kh_header_read_size k \<or> recv_again io
      | READ_CHUNK_BODY_FROM_HEADER_BUFF \<Rightarrow> 1 \<le> ssize k
      | RESP_BODY_PARSE_CHUNK_BODY \<Rightarrow> 1 \<le> ssize k
      | RESP_BODY_READ_CHUNK_BODY \<Rightarrow> 1 \<le> ssize k
      | RESP_BODY_SKIP_CHUNK_BODY_CRLF \<Rightarrow> 1 \<le> ssize k
      | RESP_BODY_SKIP_TRAILERS \<Rightarrow> kh_trailer_end_matched k \<le> 3
      | _ \<Rightarrow> True)"

definition khc_inv :: "'w khc_io \<Rightarrow> khc \<Rightarrow> bool" where
  "khc_inv io k \<longleftrightarrow> base_ok k \<and> state_ok io k"

text \<open>
  The one state in which a step reads out of bounds: a header is being skipped and nothing of
  it is in the buffer, as when a receive said again after the buffer was emptied.
\<close>

definition skip_empty :: "khc \<times> 'w \<Rightarrow> bool" where
  "skip_empty s \<longleftrightarrow> kh_state (fst s) = RESP_HEADER_SKIP \<and> kh_header_read_size (fst s) = 0"

lemma base_okD:
  assumes "base_ok k"
  shows "\<not> kh_fault k" "1 \<le> hsize k" "hsize k \<le> size_max" "ssize k \<le> size_max"
    "kh_header_read_size k < hsize k" "kh_body_read_size k \<le> ssize k"
  using assms by (simp_all add: base_ok_def)

lemma khc_inv_close [inv_intros]:
  "base_ok k \<Longrightarrow> kh_state k = CLOSE \<or> kh_state k = FINISHED \<Longrightarrow> khc_inv io k"
  by (auto simp: khc_inv_def state_ok_def)

lemma record_sock_error_frame:
  "record_sock_error io k w = (k', w') \<Longrightarrow>
   \<exists>e d. k' = k\<lparr>kh_sock_error := e, kh_sock_error_detail := d\<rparr>"
  by (cases "io_last_error io w") (auto simp: record_sock_error_def split: prod.splits if_splits)

lemma send_rest_cases:
  assumes "kh_sent_length k \<le> length txt"
  obtains (more) n where "fst (send_rest io txt nxt k w) = k\<lparr>kh_sent_length := kh_sent_length k + n\<rparr>"
      "kh_sent_length k + n < length txt"
    | (all) "fst (send_rest io txt nxt k w) = nxt (k\<lparr>kh_sent_length := 0\<rparr>)"
    | (again) "fst (send_rest io txt nxt k w) = k\<lparr>kh_again := True\<rparr>"
    | (fail) e d where "fst (send_rest io txt nxt k w) =
        close_with ERR_SOCK_SEND (k\<lparr>kh_sock_error := e, kh_sock_error_detail := d\<rparr>)"
proof -
  obtain c n w' where s: "io_send io (drop (kh_sent_length k) txt) w = ((c, n), w')"
    by (metis prod.exhaust)
  obtain k' w'' where r: "record_sock_error io k w' = (k', w'')" by (metis prod.exhaust)
  show thesis
  proof (cases c)
    case SOCK_OK
    then show thesis
      using s assms more [of n] all by (cases "n < length (drop (kh_sent_length k) txt)") (auto simp: send_rest_def)
  next
    case SOCK_FAIL
    moreover obtain e d where "k' = k\<lparr>kh_sock_error := e, kh_sock_error_detail := d\<rparr>"
      using record_sock_error_frame [OF r] by blast
    ultimately show thesis using s assms r by (intro fail) (simp add: send_rest_def)
  next
    case SOCK_AGAIN
    then show thesis using s assms again by (auto simp: send_rest_def)
  qed
qed

lemma recv_io_cases:
  assumes "io_ok io"
  obtains (got) bytes where "fst (recv_io io req got k w) = got bytes k" "length bytes \<le> req"
    | (again) "fst (recv_io io req got k w) = k\<lparr>kh_again := True\<rparr>" "recv_again io"
    | (fail) e d where "fst (recv_io io req got k w) =
        close_with ERR_SOCK_RECV (k\<lparr>kh_sock_error := e, kh_sock_error_detail := d\<rparr>)"
proof -
  obtain c b w' where r: "io_recv io req w = ((c, b), w')" by (metis prod.exhaust)
  obtain k' w'' where e: "record_sock_error io k w' = (k', w'')" by (metis prod.exhaust)
  have l: "length b \<le> req" using assms r unfolding io_ok_def by blast
  show thesis
  proof (cases c)
    case SOCK_OK
    then show thesis using r l got by (auto simp: recv_io_def)
  next
    case SOCK_FAIL
    moreover obtain x d where "k' = k\<lparr>kh_sock_error := x, kh_sock_error_detail := d\<rparr>"
      using record_sock_error_frame [OF e] by blast
    ultimately show thesis using r e by (intro fail) (simp add: recv_io_def)
  next
    case SOCK_AGAIN
    then show thesis using r again by (auto simp: recv_io_def recv_again_def)
  qed
qed

text \<open>A state that sends is kept, is left for the next, or fails.\<close>

lemma send_rest_inv:
  assumes "base_ok k" "kh_sent_length k \<le> length txt"
    and "\<And>n. n < length txt \<Longrightarrow> khc_inv io (k\<lparr>kh_sent_length := n\<rparr>)"
    and "khc_inv io (nxt (k\<lparr>kh_sent_length := 0\<rparr>))"
    and "khc_inv io (k\<lparr>kh_again := True\<rparr>)"
  shows "khc_inv io (fst (send_rest io txt nxt k w))"
  using assms(2)
proof (cases rule: send_rest_cases [where io = io and nxt = nxt and w = w])
  case (more n)
  then show ?thesis using assms by simp
next
  case all
  then show ?thesis using assms by simp
next
  case again
  then show ?thesis using assms by simp
next
  case (fail e d)
  then show ?thesis using assms(1) by (auto intro!: inv_intros simp: base_ok_def)
qed

lemma recv_io_inv:
  assumes "io_ok io" "base_ok k"
    and "\<And>bytes. length bytes \<le> req \<Longrightarrow> khc_inv io (got bytes k)"
    and "recv_again io \<Longrightarrow> khc_inv io (k\<lparr>kh_again := True\<rparr>)"
  shows "khc_inv io (fst (recv_io io req got k w))"
  using assms(1)
proof (cases rule: recv_io_cases [where req = req and got = got and k = k and w = w])
  case (got bytes)
  then show ?thesis using assms(3) by simp
next
  case again
  then show ?thesis using assms(4) by simp
next
  case (fail e d)
  then show ?thesis using assms(2) by (auto intro!: inv_intros simp: base_ok_def)
qed

section \<open>The request\<close>

lemmas inv_defs = khc_inv_def base_ok_def state_ok_def

lemma connect_inv:
  assumes "khc_inv io k" "kh_state k = CONNECT"
  shows "khc_inv io (fst (khc_state_connect io k w))"
proof -
  obtain c w' where c: "io_connect io (kh_host k) (if kh_enable_insecure k then 80 else 443) w = (c, w')"
    by (metis prod.exhaust)
  obtain k' w'' where r: "record_sock_error io k w' = (k', w'')" by (metis prod.exhaust)
  show ?thesis
    using assms c r record_sock_error_frame [OF r]
    by (cases c) (auto simp: khc_state_connect_def inv_defs)
qed

lemma idle_inv: "khc_inv io k \<Longrightarrow> khc_inv io (khc_state_idle k)"
  by (simp add: khc_state_idle_def inv_defs Let_def)

lemma request_line_sent [simp]:
  "request_line (k\<lparr>kh_sent_length := n\<rparr>) = request_line k"
  "request_line (k\<lparr>kh_again := b\<rparr>) = request_line k"
  "host_header (k\<lparr>kh_sent_length := n\<rparr>) = host_header k"
  "host_header (k\<lparr>kh_again := b\<rparr>) = host_header k"
  "last_headers io (k\<lparr>kh_sent_length := n\<rparr>) = last_headers io k"
  "last_headers io (k\<lparr>kh_again := b\<rparr>) = last_headers io k"
  by (simp_all add: request_line_def request_path_def host_header_def last_headers_def
      khc_method_can_have_body_def)

lemma req_line_inv:
  "khc_inv io k \<Longrightarrow> kh_state k = REQ_LINE \<Longrightarrow> khc_inv io (fst (khc_state_req_line io k w))"
  unfolding khc_state_req_line_def by (rule send_rest_inv) (auto simp: inv_defs)

lemma req_host_inv:
  "khc_inv io k \<Longrightarrow> kh_state k = REQ_HOST_HEADER \<Longrightarrow> khc_inv io (fst (khc_state_req_host_header io k w))"
  unfolding khc_state_req_host_header_def by (rule send_rest_inv) (auto simp: inv_defs)

lemma req_header_inv:
  "khc_inv io k \<Longrightarrow> kh_state k = REQ_HEADER \<Longrightarrow> khc_inv io (khc_state_req_header k)"
  by (auto simp: khc_state_req_header_def inv_defs split: list.splits option.splits)

lemma req_header_send_inv:
  assumes "khc_inv io k" "kh_state k = REQ_HEADER_SEND"
  shows "khc_inv io (fst (khc_state_req_header_send io k w))"
proof -
  obtain d ds where d: "kh_current_req_header k = Some d # ds" "d \<noteq> []" "kh_sent_length k \<le> length d"
    using assms by (auto simp: inv_defs)
  have "khc_inv io (fst (send_rest io d (\<lambda>k. k\<lparr>kh_state := REQ_HEADER_SEND_CRLF\<rparr>) k w))"
    using assms d by (intro send_rest_inv) (auto simp: inv_defs)
  then show ?thesis using d by (simp add: khc_state_req_header_send_def)
qed

lemma req_header_crlf_inv:
  assumes "khc_inv io k" "kh_state k = REQ_HEADER_SEND_CRLF"
  shows "khc_inv io (fst (khc_state_req_header_send_crlf io k w))"
proof -
  obtain d ds where d: "kh_current_req_header k = d # ds" "kh_sent_length k \<le> 2"
    using assms by (cases "kh_current_req_header k") (auto simp: inv_defs)
  have "khc_inv io (fst (send_rest io [CR, LF]
      (\<lambda>k. k\<lparr>kh_current_req_header := ds, kh_state := REQ_HEADER\<rparr>) k w))"
    using assms d by (intro send_rest_inv) (auto simp: inv_defs)
  then show ?thesis using d by (simp add: khc_state_req_header_send_crlf_def)
qed

lemma req_header_end_inv:
  "khc_inv io k \<Longrightarrow> kh_state k = REQ_HEADER_END \<Longrightarrow> khc_inv io (fst (khc_state_req_header_end io k w))"
  unfolding khc_state_req_header_end_def by (rule send_rest_inv) (auto simp: inv_defs Let_def)

lemma hex_digits_count_mono: "a \<le> b \<Longrightarrow> hex_digits_count a \<le> hex_digits_count b"
proof (induction b arbitrary: a rule: less_induct)
  case (less b)
  show ?case
  proof (cases "a div 16 = 0")
    case True
    then have "hex_digits_count a = 1" by (subst hex_digits_count.simps) simp
    moreover have "1 \<le> hex_digits_count b" by (subst hex_digits_count.simps) simp
    ultimately show ?thesis by simp
  next
    case False
    have le: "a div 16 \<le> b div 16" using less.prems by (rule div_le_mono)
    with False have nz: "b div 16 \<noteq> 0" by simp
    then have "b div 16 < b" by simp
    from less.IH [OF this le] False nz show ?thesis
      by (subst (1 2) hex_digits_count.simps) simp
  qed
qed

lemma length_chunk_line: "length (khc_chunk_size_line n) = hex_digits_count n + 2"
  by (simp add: khc_chunk_size_line_def hex_digits_count_length)

lemma io_ok_read:
  "io_ok io \<Longrightarrow> io_read io n w = ((got, b), w') \<Longrightarrow> length b \<le> n \<and> (got \<le> n \<longrightarrow> length b = got)"
  unfolding io_ok_def by blast

lemma body_read_known_inv:
  assumes "io_ok io" "khc_inv io k" "kh_state k = REQ_BODY_READ"
  shows "khc_inv io (fst (body_read_known io k w))"
proof -
  obtain want where want: "want = (if kh_req_body_left k < ssize k then kh_req_body_left k else ssize k)" by blast
  obtain got b w' where r: "io_read io want w = ((got, b), w')" by (metis prod.exhaust)
  have "want \<le> ssize k" by (simp add: want)
  note e = body_read_known_def [of io k w, unfolded Let_def want [symmetric] r prod.case]
  from \<open>want \<le> ssize k\<close> io_ok_read [OF assms(1) r] assms(2,3) show ?thesis
    by (auto simp: e inv_defs)
qed

lemma body_read_chunk_inv:
  assumes "io_ok io" "khc_inv io k" "kh_state k = REQ_BODY_READ"
  shows "khc_inv io (fst (body_read_chunk io k w))"
proof (cases "ssize k \<le> hex_digits_count (ssize k) + 2 + 2")
  case True
  then show ?thesis using assms by (simp add: body_read_chunk_def inv_defs Let_def)
next
  case False
  obtain room where room: "room = hex_digits_count (ssize k) + 2" by blast
  obtain cap where cap: "cap = ssize k - room - 2" by blast
  obtain got b w' where r: "io_read io cap w = ((got, b), w')" by (metis prod.exhaust)
  have b: "length b \<le> cap" "got \<le> cap \<Longrightarrow> length b = got" using io_ok_read [OF assms(1) r] by auto
  have s: "room + cap + 2 = ssize k" using False by (simp add: cap room)
  have k1: "length (mem_write (kh_stream_buff k) room b) = ssize k" using b s by simp
  have nle: "\<not> ssize k \<le> room + 2" using False by (simp add: room)
  note e = body_read_chunk_def [of io k w, unfolded Let_def room [symmetric] cap [symmetric] r
      prod.case if_not_P [OF nle]]
  show ?thesis
  proof (cases "got > cap")
    case True
    then show ?thesis using assms k1 by (simp add: e inv_defs)
  next
    case got: False
    obtain line where line: "line = khc_chunk_size_line got" by blast
    have "hex_digits_count got \<le> hex_digits_count (ssize k)"
      using got s by (intro hex_digits_count_mono) simp
    then have ll: "length line \<le> room" by (simp add: line length_chunk_line room)
    have us: "usub room (length line) = room - length line"
      using ll s assms(2) by (intro usub_le) (simp_all add: inv_defs)
    have fits: "room - length line + length line \<le> ssize k" "room + got + 2 \<le> ssize k"
      using ll s got by simp_all
    show ?thesis
      using assms k1 got us fits ll by (simp add: e inv_defs flip: line)
  qed
qed

lemma req_body_read_inv:
  "io_ok io \<Longrightarrow> khc_inv io k \<Longrightarrow> kh_state k = REQ_BODY_READ \<Longrightarrow>
   khc_inv io (fst (khc_state_req_body_read io k w))"
  by (simp add: khc_state_req_body_read_def body_read_known_inv body_read_chunk_inv)

lemma req_body_send_inv:
  assumes "khc_inv io k" "kh_state k = REQ_BODY_SEND"
  shows "khc_inv io (fst (khc_state_req_body_send io k w))"
proof -
  have l: "length (body_frame k) = kh_req_frame_size k"
    using assms by (auto simp: body_frame_def inv_defs min_def)
  have "khc_inv io (fst (send_rest io (body_frame k)
      (\<lambda>k. if kh_read_req_end k then k\<lparr>kh_header_read_size := 0, kh_state := RESP_STATUS_READ\<rparr>
           else k\<lparr>kh_state := REQ_BODY_READ\<rparr>) k w))"
    using assms l by (intro send_rest_inv) (auto simp: inv_defs)
  then show ?thesis using assms by (auto simp: khc_state_req_body_send_def inv_defs)
qed

section \<open>The response\<close>

lemma store_header_ok:
  assumes "base_ok k" "length bytes \<le> header_room k"
  shows "base_ok (store_header bytes k)"
    "store_header bytes k = k\<lparr>kh_header_buff := kh_header_buff (store_header bytes k),
       kh_header_read_size := kh_header_read_size k + length bytes\<rparr>"
    "hsize (store_header bytes k) = hsize k"
proof -
  have r: "header_room k = hsize k - kh_header_read_size k - 1"
    using base_okD [OF assms(1)] by (simp add: header_room_def)
  then have n: "kh_header_read_size k + length bytes < hsize k"
    using assms(2) base_okD [OF assms(1)] by simp
  then have l: "length (mem_write (kh_header_buff k) (kh_header_read_size k) (bytes @ [NUL])) = hsize k"
    by (intro length_mem_write) simp
  show "base_ok (store_header bytes k)"
    "store_header bytes k = k\<lparr>kh_header_buff := kh_header_buff (store_header bytes k),
       kh_header_read_size := kh_header_read_size k + length bytes\<rparr>"
    "hsize (store_header bytes k) = hsize k"
    using assms(1) n l by (simp_all add: store_header_def base_ok_def Let_def)
qed

lemma header_room_fits: "base_ok k \<Longrightarrow> kh_header_read_size k + header_room k \<le> hsize k"
  using base_okD [of k] by (simp add: header_room_def)

lemma recv_header_inv:
  assumes "io_ok io" "base_ok k"
    and got: "\<And>bytes k'. base_ok k' \<Longrightarrow> hsize k' = hsize k \<Longrightarrow>
      k' = k\<lparr>kh_header_buff := kh_header_buff k', kh_header_read_size := kh_header_read_size k + length bytes\<rparr> \<Longrightarrow>
      khc_inv io (got bytes k')"
    and again: "recv_again io \<Longrightarrow> khc_inv io (k\<lparr>kh_again := True\<rparr>)"
  shows "khc_inv io (fst (recv_header io got k w))"
proof -
  have "khc_inv io (fst (recv_io io (header_room k) (\<lambda>bytes k. got bytes (store_header bytes k)) k w))"
    using assms(1,2)
  proof (rule recv_io_inv)
    fix bytes :: string
    assume "length bytes \<le> header_room k"
    from store_header_ok [OF assms(2) this] show "khc_inv io (got bytes (store_header bytes k))"
      by (intro got)
  qed (rule again)
  then show ?thesis using header_room_fits [OF assms(2)] by (simp add: recv_header_def)
qed

lemma drop_header_ok:
  assumes "base_ok k" "n \<le> kh_header_read_size k"
  shows "base_ok (drop_header n k)"
    "drop_header n k = k\<lparr>kh_header_buff := kh_header_buff (drop_header n k),
       kh_header_read_size := kh_header_read_size k - n\<rparr>"
    "hsize (drop_header n k) = hsize k"
proof -
  have "length (mem_write (kh_header_buff k) 0
      (take (kh_header_read_size k - n + 1) (drop n (kh_header_buff k)))) = hsize k"
    using assms(2) base_okD [OF assms(1)] by (intro length_mem_write) simp
  with assms(2) base_okD [OF assms(1)] show "base_ok (drop_header n k)"
    "drop_header n k = k\<lparr>kh_header_buff := kh_header_buff (drop_header n k),
       kh_header_read_size := kh_header_read_size k - n\<rparr>"
    "hsize (drop_header n k) = hsize k"
    by (simp_all add: drop_header_def base_ok_def)
qed

lemma drop_stream_ok:
  assumes "base_ok k" "n \<le> kh_body_read_size k"
  shows "base_ok (drop_stream n k)"
    "drop_stream n k = k\<lparr>kh_stream_buff := kh_stream_buff (drop_stream n k),
       kh_body_read_size := kh_body_read_size k - n\<rparr>"
    "ssize (drop_stream n k) = ssize k"
proof -
  have "length (mem_write (kh_stream_buff k) 0
      (take (kh_body_read_size k - n) (drop n (kh_stream_buff k)))) = ssize k"
    using assms(2) base_okD [OF assms(1)] by (intro length_mem_write) simp
  with assms(2) base_okD [OF assms(1)] show "base_ok (drop_stream n k)"
    "drop_stream n k = k\<lparr>kh_stream_buff := kh_stream_buff (drop_stream n k),
       kh_body_read_size := kh_body_read_size k - n\<rparr>"
    "ssize (drop_stream n k) = ssize k"
    by (simp_all add: drop_stream_def base_ok_def)
qed

text \<open>States that ask nothing more of khc.\<close>

definition plain_state :: "khc_state \<Rightarrow> bool" where
  "plain_state s \<longleftrightarrow> s \<in> {IDLE, CONNECT, RESP_STATUS_READ, RESP_STATUS_PARSE, RESP_HEADER_CALLBACK,
     RESP_HEADER_READ, RESP_BODY_FRAGMENT, READ_CHUNK_SIZE_FROM_HEADER_BUFF, RESP_BODY_READ,
     RESP_BODY_CALLBACK, RESP_BODY_PARSE_CHUNK_SIZE, RESP_BODY_READ_CHUNK_SIZE, CLOSE, FINISHED}"

lemma plain_inv: "base_ok k \<Longrightarrow> plain_state (kh_state k) \<Longrightarrow> khc_inv io k"
  by (auto simp: plain_state_def khc_inv_def state_ok_def)

lemma base_ok_updates [simp]:
  "base_ok (k\<lparr>kh_state := s\<rparr>) = base_ok k" "base_ok (k\<lparr>kh_result := r\<rparr>) = base_ok k"
  "base_ok (k\<lparr>kh_read_end := b\<rparr>) = base_ok k" "base_ok (k\<lparr>kh_again := b\<rparr>) = base_ok k"
  "base_ok (k\<lparr>kh_sock_error := e\<rparr>) = base_ok k" "base_ok (k\<lparr>kh_sock_error_detail := d\<rparr>) = base_ok k"
  "base_ok (k\<lparr>kh_status_code := n\<rparr>) = base_ok k" "base_ok (k\<lparr>kh_status_line_given := b\<rparr>) = base_ok k"
  "base_ok (k\<lparr>kh_version_1_0 := b\<rparr>) = base_ok k" "base_ok (k\<lparr>kh_resp_date := t\<rparr>) = base_ok k"
  "base_ok (k\<lparr>kh_content_length := n\<rparr>) = base_ok k" "base_ok (k\<lparr>kh_has_content_length := b\<rparr>) = base_ok k"
  "base_ok (k\<lparr>kh_chunked_resp := b\<rparr>) = base_ok k" "base_ok (k\<lparr>kh_header_skipped := b\<rparr>) = base_ok k"
  "base_ok (k\<lparr>kh_body_received := n\<rparr>) = base_ok k" "base_ok (k\<lparr>kh_chunk_size := n\<rparr>) = base_ok k"
  "base_ok (k\<lparr>kh_chunk_size_written := n\<rparr>) = base_ok k" "base_ok (k\<lparr>kh_trailer_end_matched := n\<rparr>) = base_ok k"
  "base_ok (k\<lparr>kh_close_failed := b\<rparr>) = base_ok k" "base_ok (k\<lparr>kh_started_ms := n\<rparr>) = base_ok k"
  by (simp_all add: base_ok_def)

lemma closed_early_ok [simp]:
  "base_ok (closed_early k) = base_ok k" "kh_state (closed_early k) = kh_state k"
  by (simp_all add: closed_early_def)

lemma status_read_inv:
  assumes "io_ok io" "khc_inv io k" "kh_state k = RESP_STATUS_READ"
  shows "khc_inv io (fst (khc_state_resp_status_read io k w))"
  unfolding khc_state_resp_status_read_def
proof (rule recv_header_inv [OF assms(1)])
  show "base_ok k" using assms by (simp add: khc_inv_def)
  then show "khc_inv io (k\<lparr>kh_again := True\<rparr>)" using assms by (intro plain_inv) (simp_all add: plain_state_def)
  fix bytes k'
  assume b: "base_ok k'" and k': "k' = k\<lparr>kh_header_buff := kh_header_buff k',
      kh_header_read_size := kh_header_read_size k + length bytes\<rparr>"
  have s: "kh_state k' = RESP_STATUS_READ" by (subst k') (simp add: assms(3))
  show "khc_inv io (let k1 = if bytes = [] then k'\<lparr>kh_read_end := True\<rparr> else k'
      in if find_crlf (header_data k1) \<noteq> None then k1\<lparr>kh_state := RESP_STATUS_PARSE\<rparr>
         else if kh_header_read_size k1 + 1 = hsize k1 then close_with ERR_TOO_LARGE_DATA k1
              else if bytes = [] then closed_early (close_with ERR_SOCK_RECV k1) else k1)"
    using b s by (intro plain_inv) (simp_all add: Let_def plain_state_def)
qed

lemma status_parse_inv:
  "khc_inv io k \<Longrightarrow> khc_inv io (khc_state_resp_status_parse k)"
  by (intro plain_inv)
    (auto simp: khc_state_resp_status_parse_def Let_def plain_state_def khc_inv_def split: option.splits)

lemma frame_header_ok:
  assumes "frame_header line k = (k', ok)" "base_ok k"
  shows "base_ok k'" "kh_header_buff k' = kh_header_buff k" "kh_header_read_size k' = kh_header_read_size k"
    "if ok then kh_state k' = kh_state k else kh_state k' = CLOSE"
  using assms by (auto simp: frame_header_def split: parsed.splits if_splits)

lemma end_of_head_ok:
  assumes "base_ok k"
  shows "khc_inv io (end_of_head k)"
proof -
  have "base_ok (k\<lparr>kh_body_read_size := 0\<rparr>)" using assms by (simp add: base_ok_def)
  with assms show ?thesis by (intro plain_inv) (auto simp: end_of_head_def plain_state_def)
qed

lemma find_crlf_data:
  assumes "base_ok k" "find_crlf (header_data k) = Some n"
  shows "n + 2 \<le> kh_header_read_size k"
  using find_crlf_Some(5) [OF assms(2)] by simp

lemma header_start_long: "is_header_start d \<Longrightarrow> 1 \<le> length d"
proof (cases d)
  case Nil
  have "name_loop [] 0 = 0" by (subst name_loop.simps) simp
  then have "\<not> is_header_start []"
    by (simp add: is_header_start_def is_header_line_def header_name_length_def)
  moreover assume "is_header_start d"
  ultimately show ?thesis using Nil by simp
qed simp

lemma header_callback_inv:
  assumes "io_ok io" "khc_inv io k" "kh_state k = RESP_HEADER_CALLBACK"
  shows "khc_inv io (fst (khc_state_resp_header_callback io k w))"
proof -
  have b: "base_ok k" using assms by (simp add: khc_inv_def)
  then have le: "\<not> kh_header_read_size k > hsize k" by (simp add: base_ok_def)
  show ?thesis
  proof (cases "find_crlf (header_data k)")
    case None
    have "is_header_start (header_data k) \<Longrightarrow> 1 \<le> kh_header_read_size k"
      using header_start_long [of "header_data k"] by simp
    then show ?thesis
      using b le None by (auto simp: khc_state_resp_header_callback_def khc_inv_def state_ok_def)
  next
    case (Some n)
    have n: "n + 2 \<le> kh_header_read_size k" using find_crlf_data [OF b Some] .
    have d: "base_ok (drop_header (n + 2) k2)" "kh_state (drop_header (n + 2) k2) = kh_state k2"
      if "base_ok k2" "kh_header_read_size k2 = kh_header_read_size k" for k2
    proof -
      have "n + 2 \<le> kh_header_read_size k2" using n that by simp
      note d = drop_header_ok [OF that(1) this]
      show "base_ok (drop_header (n + 2) k2)" by (rule d)
      show "kh_state (drop_header (n + 2) k2) = kh_state k2" by (subst d(2)) simp
    qed
    obtain line where line: "line = take n (kh_header_buff k)" by blast
    obtain k1 where k1: "k1 = k\<lparr>kh_status_line_given := True,
        kh_resp_date := record_resp_date (kh_resp_date_floor k) (kh_resp_date k) (Some line)\<rparr>" by blast
    obtain hw w' where hw: "io_header io line w = (hw, w')" by (metis prod.exhaust)
    obtain k2 ok where k2: "frame_header line k1 = (k2, ok)" by (metis prod.exhaust)
    have "base_ok k1" using b by (simp add: k1)
    note f = frame_header_ok [OF k2 this]
    have h2: "kh_header_read_size k2 = kh_header_read_size k" using f(3) by (simp add: k1)
    have s2: "plain_state (kh_state k2)" using f(4) assms(3) by (auto simp: k1 plain_state_def split: if_splits)
    have ok2: "khc_inv io (drop_header (n + 2) k2)" "khc_inv io k2"
      using d [OF f(1) h2] s2 f(1) by (auto intro: plain_inv)
    have e2: "khc_inv io (end_of_head (drop_header 2 k))" if "n = 0"
      using d(1) [OF b refl] that by (intro end_of_head_ok) (simp add: numeral_2_eq_2)
    note e = khc_state_resp_header_callback_def [of io k w, unfolded Some option.case if_not_P [OF le]
        Let_def line [symmetric] k1 [symmetric] hw k2 prod.case]
    show ?thesis
      unfolding e using b ok2 e2 by (auto intro: inv_intros)
  qed
qed

lemma header_read_inv:
  assumes "io_ok io" "khc_inv io k" "kh_state k = RESP_HEADER_READ"
  shows "khc_inv io (fst (khc_state_resp_header_read io k w))"
  unfolding khc_state_resp_header_read_def
proof (rule recv_header_inv [OF assms(1)])
  show "base_ok k" using assms by (simp add: khc_inv_def)
  then show "khc_inv io (k\<lparr>kh_again := True\<rparr>)" using assms by (intro plain_inv) (simp_all add: plain_state_def)
  fix bytes k'
  assume "base_ok k'"
  then show "khc_inv io (if bytes = [] then closed_early (close_with ERR_SOCK_RECV k')
      else k'\<lparr>kh_state := RESP_HEADER_CALLBACK\<rparr>)"
    by (intro plain_inv) (simp_all add: plain_state_def)
qed

lemma skip_read_inv:
  assumes "base_ok k" "kh_state k = RESP_HEADER_SKIP" "bytes \<noteq> [] \<Longrightarrow> 1 \<le> kh_header_read_size k"
  shows "khc_inv io (skip_read bytes k)"
proof (cases "bytes = []")
  case True
  then show ?thesis using assms by (intro plain_inv) (simp_all add: skip_read_def plain_state_def)
next
  case False
  have same: "khc_inv io k" using assms False by (simp add: khc_inv_def state_ok_def)
  show ?thesis
  proof (cases "find_crlf (header_data k)")
    case None
    then show ?thesis using assms False same by (auto simp: skip_read_def Let_def intro: inv_intros)
  next
    case (Some n)
    note d = drop_header_ok [OF assms(1) find_crlf_data [OF assms(1) Some]]
    have "khc_inv io ((drop_header (n + 2) k)\<lparr>kh_state := RESP_HEADER_CALLBACK\<rparr>)"
      using d(1) by (intro plain_inv) (simp_all add: plain_state_def)
    then show ?thesis using assms False Some by (auto simp: skip_read_def Let_def intro: inv_intros)
  qed
qed

lemma header_skip_inv:
  assumes "io_ok io" "khc_inv io k" "kh_state k = RESP_HEADER_SKIP" "kh_header_read_size k \<noteq> 0"
  shows "khc_inv io (fst (khc_state_resp_header_skip io k w))"
proof -
  have b: "base_ok k" using assms by (simp add: khc_inv_def)
  have u: "usub (kh_header_read_size k) 1 = kh_header_read_size k - 1" using assms(4) by simp
  have lt: "\<not> usub (kh_header_read_size k) 1 \<ge> hsize k" using base_okD [OF b] u by simp
  obtain k1 where k1: "k1 = (if kh_header_buff k ! (usub (kh_header_read_size k) 1) = CR
      then k\<lparr>kh_header_buff := mem_write (kh_header_buff k) 0 [CR], kh_header_read_size := 1\<rparr>
      else k\<lparr>kh_header_read_size := 0\<rparr>)" by blast
  have b1: "base_ok k1" "kh_state k1 = RESP_HEADER_SKIP"
    using b assms(3,4) by (auto simp: k1 base_ok_def)
  have "khc_inv io (fst (recv_header io skip_read k1 w))"
  proof (rule recv_header_inv [OF assms(1) b1(1)])
    show "khc_inv io (k1\<lparr>kh_again := True\<rparr>)" if "recv_again io"
      using b1 that by (simp add: khc_inv_def state_ok_def)
    fix bytes :: string and k'
    assume b': "base_ok k'" and k': "k' = k1\<lparr>kh_header_buff := kh_header_buff k',
        kh_header_read_size := kh_header_read_size k1 + length bytes\<rparr>"
    have "kh_state k' = RESP_HEADER_SKIP" by (subst k') (simp add: b1)
    moreover have "kh_header_read_size k' = kh_header_read_size k1 + length bytes" by (subst k') simp
    ultimately show "khc_inv io (skip_read bytes k')"
      using b' by (intro skip_read_inv) (cases bytes; simp)+
  qed
  then show ?thesis
    unfolding khc_state_resp_header_skip_def Let_def if_not_P [OF lt] k1 [symmetric]
    using b by (auto intro: inv_intros)
qed

lemma end_resp_body_ok: "base_ok k \<Longrightarrow> khc_inv io (end_resp_body k)"
  by (intro plain_inv) (auto simp: end_resp_body_def plain_state_def Let_def)

lemma body_given_ok: "base_ok k \<Longrightarrow> plain_state next' \<Longrightarrow> khc_inv io (body_given next' k)"
  unfolding body_given_def using end_resp_body_ok [of k io] plain_inv [of "k\<lparr>kh_state := next'\<rparr>" io] by simp

lemma resp_body_part_le: "resp_body_part k n \<le> n"
  by (simp add: resp_body_part_def Let_def)

lemma fragment_inv:
  assumes "khc_inv io k"
  shows "khc_inv io (fst (khc_state_resp_body_fragment io k w))"
proof -
  have b: "base_ok k" using assms by (simp add: khc_inv_def)
  obtain n where n: "n = resp_body_part k (kh_header_read_size k)" by blast
  have "n \<le> kh_header_read_size k" by (simp add: n resp_body_part_le)
  then have le: "\<not> n > hsize k" using base_okD [OF b] by simp
  obtain wr w' where wr: "io_write io (take n (kh_header_buff k)) w = (wr, w')" by (metis prod.exhaust)
  have p: "plain_state RESP_BODY_READ" by (simp add: plain_state_def)
  show ?thesis
    unfolding khc_state_resp_body_fragment_def Let_def n [symmetric] wr if_not_P [OF le] prod.case
    using b p by (auto intro: inv_intros body_given_ok)
qed

lemma recv_stream_inv:
  assumes "io_ok io" "base_ok k" "off + req \<le> ssize k"
    and "\<And>bytes k'. base_ok k' \<Longrightarrow> ssize k' = ssize k \<Longrightarrow> length bytes \<le> req \<Longrightarrow>
      k' = k\<lparr>kh_stream_buff := kh_stream_buff k'\<rparr> \<Longrightarrow> khc_inv io (got bytes k')"
    and "recv_again io \<Longrightarrow> khc_inv io (k\<lparr>kh_again := True\<rparr>)"
  shows "khc_inv io (fst (recv_stream io off req got k w))"
proof -
  have "khc_inv io (fst (recv_io io req
      (\<lambda>bytes k. got bytes (k\<lparr>kh_stream_buff := mem_write (kh_stream_buff k) off bytes\<rparr>)) k w))"
    using assms(1,2)
  proof (rule recv_io_inv)
    fix bytes :: string
    assume l: "length bytes \<le> req"
    with assms(3) have m: "length (mem_write (kh_stream_buff k) off bytes) = ssize k"
      by (intro length_mem_write) simp
    then show "khc_inv io (got bytes (k\<lparr>kh_stream_buff := mem_write (kh_stream_buff k) off bytes\<rparr>))"
      using l assms(2) by (intro assms(4)) (simp_all add: base_ok_def)
  qed (rule assms(5))
  then show ?thesis using assms(3) by (simp add: recv_stream_def)
qed

lemma body_read_size_ok: "base_ok k \<Longrightarrow> n \<le> ssize k \<Longrightarrow> base_ok (k\<lparr>kh_body_read_size := n\<rparr>)"
  by (simp add: base_ok_def)

lemma body_read_inv:
  assumes "io_ok io" "khc_inv io k" "kh_state k = RESP_BODY_READ"
  shows "khc_inv io (fst (khc_state_resp_body_read io k w))"
  unfolding khc_state_resp_body_read_def
proof (rule recv_stream_inv [OF assms(1)])
  show b: "base_ok k" using assms by (simp add: khc_inv_def)
  then show "khc_inv io (k\<lparr>kh_again := True\<rparr>)" using assms by (intro plain_inv) (simp_all add: plain_state_def)
  fix bytes k'
  assume b': "base_ok k'" "ssize k' = ssize k" "length bytes \<le> ssize k"
  have "base_ok (k'\<lparr>kh_body_read_size := length bytes\<rparr>)" using b' by (intro body_read_size_ok) simp_all
  then show "khc_inv io (let k1 = k'\<lparr>kh_body_read_size := length bytes\<rparr>
      in if bytes = [] then end_resp_body (k1\<lparr>kh_read_end := True\<rparr>) else k1\<lparr>kh_state := RESP_BODY_CALLBACK\<rparr>)"
    unfolding Let_def
    by (cases "bytes = []") (auto intro!: end_resp_body_ok plain_inv simp: plain_state_def)
qed simp

lemma body_callback_inv:
  assumes "khc_inv io k"
  shows "khc_inv io (fst (khc_state_resp_body_callback io k w))"
proof -
  have b: "base_ok k" using assms by (simp add: khc_inv_def)
  obtain n where n: "n = resp_body_part k (kh_body_read_size k)" by blast
  have "n \<le> kh_body_read_size k" by (simp add: n resp_body_part_le)
  then have le: "\<not> n > ssize k" using base_okD [OF b] by simp
  obtain wr w' where wr: "io_write io (take n (kh_stream_buff k)) w = (wr, w')" by (metis prod.exhaust)
  have p: "plain_state RESP_BODY_READ" by (simp add: plain_state_def)
  show ?thesis
    unfolding khc_state_resp_body_callback_def Let_def n [symmetric] wr if_not_P [OF le] prod.case
    using b p by (auto intro: inv_intros body_given_ok)
qed

section \<open>Chunks\<close>

lemma move_header_ok:
  assumes "base_ok k"
  shows "case move_resp_header_to_stream k of
      None \<Rightarrow> ssize k \<le> kh_body_read_size k
    | Some k' \<Rightarrow> base_ok k' \<and> kh_state k' = kh_state k \<and> ssize k' = ssize k \<and> 1 \<le> ssize k"
proof (cases "ssize k \<le> kh_body_read_size k")
  case True
  then show ?thesis by (simp add: move_resp_header_to_stream_def)
next
  case False
  note b = base_okD [OF assms]
  obtain r where r: "r = ssize k - kh_body_read_size k" by blast
  have int_r: "int (ssize k) - int (kh_body_read_size k) = int r" "0 < r" using False by (simp_all add: r)
  obtain m where m: "m = (if r > kh_header_read_size k then kh_header_read_size k else r)" by blast
  have mr: "m \<le> kh_header_read_size k" "m \<le> r" by (auto simp: m)
  obtain k1 where k1: "k1 = k\<lparr>kh_stream_buff :=
      mem_write (kh_stream_buff k) (kh_body_read_size k) (take m (kh_header_buff k)),
      kh_body_read_size := kh_body_read_size k + m\<rparr>" by blast
  have "length (mem_write (kh_stream_buff k) (kh_body_read_size k) (take m (kh_header_buff k))) = ssize k"
    using mr b r False by (intro length_mem_write) simp
  then have b1: "base_ok k1" "ssize k1 = ssize k"
    using b mr r by (simp_all add: k1 base_ok_def)
  have "m \<le> kh_header_read_size k1" using mr by (simp add: k1)
  note d = drop_header_ok [OF b1(1) this]
  have s: "kh_state (drop_header m k1) = kh_state k" "ssize (drop_header m k1) = ssize k"
    by (subst d(2), simp add: k1)+ (use b1 in \<open>simp add: k1\<close>)
  have e: "move_resp_header_to_stream k = Some (drop_header m k1)"
    unfolding move_resp_header_to_stream_def Let_def int_r(1) nat_int m [symmetric] k1 [symmetric]
    using int_r(2) mr b by simp
  show ?thesis using d(1) s False by (simp add: e)
qed

lemma size_from_header_inv:
  "khc_inv io k \<Longrightarrow> khc_inv io (khc_state_read_chunk_size_from_header_buff k)"
  using move_header_ok [of k]
  by (auto simp: khc_state_read_chunk_size_from_header_buff_def khc_inv_def state_ok_def split: option.splits)

lemma body_from_header_inv:
  "khc_inv io k \<Longrightarrow> khc_inv io (khc_state_read_chunk_body_from_header_buff k)"
  using move_header_ok [of k]
  by (auto simp: khc_state_read_chunk_body_from_header_buff_def khc_inv_def state_ok_def split: option.splits)

lemma parse_chunk_size_inv:
  assumes "khc_inv io k"
  shows "khc_inv io (khc_state_resp_body_parse_chunk_size k)"
proof -
  have b: "base_ok k" using assms by (simp add: khc_inv_def)
  then have le: "\<not> kh_body_read_size k > ssize k" by (simp add: base_ok_def)
  show ?thesis
  proof (cases "read_chunk_size (stream_data k)")
    case (Found n)
    then obtain e where e: "find_crlf (stream_data k) = Some e"
      using read_chunk_size_Found by blast
    have el: "e + 2 \<le> kh_body_read_size k" using find_crlf_Some(5) [OF e] by simp
    obtain k0 where k0: "k0 = k\<lparr>kh_chunk_size := n, kh_chunk_size_written := 0\<rparr>" by blast
    have b0: "base_ok k0" "e + 2 \<le> kh_body_read_size k0" using b el by (simp_all add: k0)
    note d = drop_stream_ok [OF b0]
    have "1 \<le> ssize k0" using b0 base_okD(6) [OF b0(1)] by linarith
    then show ?thesis
      using d b le Found e by (auto simp: khc_state_resp_body_parse_chunk_size_def Let_def khc_inv_def
          state_ok_def simp flip: k0)
  next
    case NotFound
    then show ?thesis
      using b le by (auto simp: khc_state_resp_body_parse_chunk_size_def khc_inv_def state_ok_def)
  next
    case Bad
    then show ?thesis
      using b le by (auto simp: khc_state_resp_body_parse_chunk_size_def intro: inv_intros)
  qed
qed

lemma read_chunk_size_inv:
  assumes "io_ok io" "khc_inv io k" "kh_state k = RESP_BODY_READ_CHUNK_SIZE"
  shows "khc_inv io (fst (khc_state_resp_body_read_chunk_size io k w))"
proof (cases "ssize k \<le> kh_body_read_size k")
  case True
  then show ?thesis
    using assms(2) by (auto simp: khc_state_resp_body_read_chunk_size_def khc_inv_def state_ok_def)
next
  case False
  obtain r where r: "r = ssize k - kh_body_read_size k" by blast
  have int_r: "int (ssize k) - int (kh_body_read_size k) = int r" "\<not> int r \<le> 0" using False by (simp_all add: r)
  have b: "base_ok k" using assms by (simp add: khc_inv_def)
  show ?thesis
    unfolding khc_state_resp_body_read_chunk_size_def Let_def int_r if_not_P [OF int_r(2)] nat_int
  proof (rule recv_stream_inv [OF assms(1) b])
    show "kh_body_read_size k + r \<le> ssize k" using False by (simp add: r)
    show "khc_inv io (k\<lparr>kh_again := True\<rparr>)" using assms b by (intro plain_inv) (simp_all add: plain_state_def)
    fix bytes k'
    assume b': "base_ok k'" "ssize k' = ssize k" "length bytes \<le> r"
      and k': "k' = k\<lparr>kh_stream_buff := kh_stream_buff k'\<rparr>"
    have "kh_body_read_size k' = kh_body_read_size k" by (subst k') simp
    then have "base_ok (k'\<lparr>kh_body_read_size := kh_body_read_size k' + length bytes\<rparr>)"
      using b' False by (intro body_read_size_ok) (simp_all add: r)
    then show "khc_inv io (if bytes = []
        then closed_early (close_with ERR_SOCK_RECV (k'\<lparr>kh_body_read_size := kh_body_read_size k' + length bytes\<rparr>))
        else k'\<lparr>kh_body_read_size := kh_body_read_size k' + length bytes, kh_state := RESP_BODY_PARSE_CHUNK_SIZE\<rparr>)"
      by (intro plain_inv) (auto simp: plain_state_def)
  qed
qed

lemma parse_chunk_body_inv:
  assumes "khc_inv io k" "kh_state k = RESP_BODY_PARSE_CHUNK_BODY"
  shows "khc_inv io (fst (khc_state_resp_body_parse_chunk_body io k w))"
proof -
  have b: "base_ok k" and s1: "1 \<le> ssize k" using assms by (simp_all add: khc_inv_def state_ok_def)
  obtain cr where cr: "cr = usub (kh_chunk_size k) (kh_chunk_size_written k)" by blast
  obtain t where t: "t = (if cr > kh_body_read_size k then kh_body_read_size k else cr)" by blast
  have tb: "t \<le> kh_body_read_size k" by (simp add: t)
  then have le: "\<not> t > ssize k" using base_okD [OF b] by simp
  obtain wr w' where wr: "io_write io (take t (kh_stream_buff k)) w = (wr, w')" by (metis prod.exhaust)
  obtain k1 where k1: "k1 = k\<lparr>kh_chunk_size_written := kh_chunk_size_written k + t,
      kh_body_received := uadd (kh_body_received k) wr\<rparr>" by blast
  have b1: "base_ok k1" "t \<le> kh_body_read_size k1" "ssize k1 = ssize k" using b tb by (simp_all add: k1)
  note d = drop_stream_ok [OF b1(1,2)]
  have z: "base_ok (k1\<lparr>kh_body_read_size := 0\<rparr>)" using b1(1) by (simp add: base_ok_def)
  show ?thesis
    unfolding khc_state_resp_body_parse_chunk_body_def Let_def cr [symmetric] t [symmetric] wr
      if_not_P [OF le] prod.case k1 [symmetric]
    using b b1 d z s1 by (auto simp: khc_inv_def state_ok_def)
qed

lemma read_chunk_body_inv:
  assumes "io_ok io" "khc_inv io k" "kh_state k = RESP_BODY_READ_CHUNK_BODY"
  shows "khc_inv io (fst (khc_state_resp_body_read_chunk_body io k w))"
  unfolding khc_state_resp_body_read_chunk_body_def
proof (rule recv_stream_inv [OF assms(1)])
  show b: "base_ok k" using assms by (simp add: khc_inv_def)
  show "khc_inv io (k\<lparr>kh_again := True\<rparr>)" using assms by (simp add: khc_inv_def state_ok_def)
  fix bytes k'
  assume b': "base_ok k'" "ssize k' = ssize k" "length bytes \<le> ssize k"
  have s1: "1 \<le> ssize k" using assms by (simp add: khc_inv_def state_ok_def)
  have "base_ok (k'\<lparr>kh_body_read_size := length bytes\<rparr>)" using b' by (intro body_read_size_ok) simp_all
  then show "khc_inv io (if bytes = [] then closed_early (close_with ERR_SOCK_RECV k')
      else k'\<lparr>kh_body_read_size := length bytes, kh_state := RESP_BODY_PARSE_CHUNK_BODY\<rparr>)"
    using b' s1 by (auto simp: khc_inv_def state_ok_def)
qed simp

lemma crlf_read_inv:
  assumes "khc_inv io k" "kh_state k = RESP_BODY_SKIP_CHUNK_BODY_CRLF" "kh_body_read_size k < 2"
    "length tmp \<le> 2 - kh_body_read_size k"
  shows "khc_inv io (crlf_read tmp k)"
proof -
  have b: "base_ok k" and s1: "1 \<le> ssize k" using assms by (simp_all add: khc_inv_def state_ok_def)
  obtain n where n: "n = kh_body_read_size k + length tmp" by blast
  have "length (mem_write (kh_stream_buff k) 0 [CR]) = ssize k" using s1 by (intro length_mem_write) simp
  then have "n < 2 \<Longrightarrow> khc_inv io (k\<lparr>kh_body_read_size := n, kh_stream_buff := mem_write (kh_stream_buff k) 0 [CR]\<rparr>)"
    using b s1 assms(2) by (simp add: khc_inv_def state_ok_def base_ok_def)
  moreover have "khc_inv io (k\<lparr>kh_body_read_size := 0, kh_state := RESP_BODY_PARSE_CHUNK_SIZE\<rparr>)"
    using b by (simp add: khc_inv_def state_ok_def base_ok_def)
  moreover have "ssize k \<noteq> 0" using s1 by linarith
  ultimately show ?thesis
    using b by (auto simp: crlf_read_def Let_def intro: inv_intros simp flip: n)
qed

lemma skip_crlf_inv:
  assumes "io_ok io" "khc_inv io k" "kh_state k = RESP_BODY_SKIP_CHUNK_BODY_CRLF"
  shows "khc_inv io (fst (khc_state_resp_body_skip_chunk_body_crlf io k w))"
proof -
  have b: "base_ok k" and s1: "1 \<le> ssize k" using assms by (simp_all add: khc_inv_def state_ok_def)
  obtain n where n: "n = (if kh_body_read_size k < 2 then kh_body_read_size k else 2)" by blast
  have le: "\<not> n > ssize k" using base_okD [OF b] by (auto simp: n)
  have m: "khc_inv io (case move_resp_header_to_stream k of Some k' \<Rightarrow> k' | None \<Rightarrow> k)"
    using move_header_ok [OF b] assms s1 by (auto simp: khc_inv_def state_ok_def split: option.splits)
  have r: "khc_inv io (fst (recv_io io (2 - kh_body_read_size k) crlf_read k w))"
    if "kh_body_read_size k < 2"
    using assms that b by (intro recv_io_inv crlf_read_inv) (simp_all add: khc_inv_def state_ok_def)
  have d: "khc_inv io ((drop_stream 2 k)\<lparr>kh_state := RESP_BODY_PARSE_CHUNK_SIZE\<rparr>)"
    if "\<not> kh_body_read_size k < 2"
    using drop_stream_ok(1) [OF b, of 2] that by (intro plain_inv) (simp_all add: plain_state_def)
  show ?thesis
    unfolding khc_state_resp_body_skip_chunk_body_crlf_def Let_def n [symmetric] if_not_P [OF le]
    using m r d b by (auto intro: inv_intros)
qed

lemma find_trailer_end_le: "m \<le> 3 \<Longrightarrow> find_trailer_end m d = (m', b) \<Longrightarrow> if b then m' = 4 else m' \<le> 3"
  by (induction m d rule: find_trailer_end.induct) (auto split: if_splits)

lemma skip_trailers_inv:
  assumes "io_ok io" "khc_inv io k" "kh_state k = RESP_BODY_SKIP_TRAILERS"
  shows "khc_inv io (fst (khc_state_resp_body_skip_trailers io k w))"
proof -
  have b: "base_ok k" and m3: "kh_trailer_end_matched k \<le> 3"
    using assms by (simp_all add: khc_inv_def state_ok_def)
  have le: "\<not> (kh_body_read_size k > ssize k \<or> kh_header_read_size k > hsize k \<or> kh_trailer_end_matched k > 3)"
    using base_okD [OF b] m3 by simp
  obtain m1 e1 where f1: "find_trailer_end (kh_trailer_end_matched k) (stream_data k) = (m1, e1)"
    by (metis prod.exhaust)
  obtain m2 e2 where f2: "find_trailer_end m1 (header_data k) = (m2, e2)" by (metis prod.exhaust)
  obtain k1 where k1: "k1 = k\<lparr>kh_trailer_end_matched := m2, kh_body_read_size := 0, kh_header_read_size := 0\<rparr>"
    by blast
  have b1: "base_ok k1" using base_okD [OF b] by (auto simp: k1 base_ok_def)
  have "khc_inv io (fst (recv_stream io 0 (ssize k)
      (\<lambda>bytes k. if bytes = [] then k\<lparr>kh_state := CLOSE\<rparr> else k\<lparr>kh_body_read_size := length bytes\<rparr>) k1 w))"
    if "m2 \<le> 3"
  proof (rule recv_stream_inv [OF assms(1) b1])
    show "0 + ssize k \<le> ssize k1" by (simp add: k1)
    show "khc_inv io (k1\<lparr>kh_again := True\<rparr>)" using b1 assms(3) that by (simp add: khc_inv_def state_ok_def k1)
    fix bytes k'
    assume b': "base_ok k'" "ssize k' = ssize k1" "length bytes \<le> ssize k"
      and k': "k' = k1\<lparr>kh_stream_buff := kh_stream_buff k'\<rparr>"
    have "base_ok (k'\<lparr>kh_body_read_size := length bytes\<rparr>)"
      using b' by (intro body_read_size_ok) (simp_all add: k1)
    moreover have "kh_state k' = RESP_BODY_SKIP_TRAILERS" "kh_trailer_end_matched k' = m2"
      by (subst k', simp add: k1 assms(3))+
    ultimately show "khc_inv io (if bytes = [] then k'\<lparr>kh_state := CLOSE\<rparr> else k'\<lparr>kh_body_read_size := length bytes\<rparr>)"
      using b' that by (auto simp: khc_inv_def state_ok_def)
  qed
  moreover have "\<not> e1 \<Longrightarrow> m1 \<le> 3" using find_trailer_end_le [OF m3 f1] by simp
  moreover have "m1 \<le> 3 \<Longrightarrow> \<not> e2 \<Longrightarrow> m2 \<le> 3" using find_trailer_end_le [OF _ f2] by simp
  ultimately show ?thesis
    unfolding khc_state_resp_body_skip_trailers_def if_not_P [OF le] f1 prod.case
    using b f2 by (cases e1; cases e2) (auto intro: inv_intros simp flip: k1)
qed

lemma close_inv:
  assumes "khc_inv io k" "kh_state k = CLOSE"
  shows "khc_inv io (fst (khc_state_close io k w))"
proof -
  obtain c w' where c: "io_close io w = (c, w')" by (metis prod.exhaust)
  show ?thesis using assms by (cases c) (auto simp: khc_state_close_def c khc_inv_def state_ok_def)
qed


section \<open>A step of the loop\<close>

lemma handler_inv:
  assumes "io_ok io" "khc_inv io k" "kh_state k \<noteq> FINISHED"
    "\<not> (kh_state k = RESP_HEADER_SKIP \<and> kh_header_read_size k = 0)"
  shows "khc_inv io (fst (state_handlers io k w))"
proof (cases "kh_state k")
  case REQ_BODY_SEND_SIZE
  with assms(2) show ?thesis by (simp add: khc_inv_def state_ok_def)
next
  case REQ_BODY_SEND_CRLF
  with assms(2) show ?thesis by (simp add: khc_inv_def state_ok_def)
qed (use assms in \<open>simp_all add: state_handlers_def idle_inv connect_inv req_line_inv req_host_inv
    req_header_inv req_header_send_inv req_header_crlf_inv req_header_end_inv req_body_read_inv
    req_body_send_inv status_read_inv status_parse_inv header_callback_inv header_read_inv
    header_skip_inv fragment_inv size_from_header_inv body_from_header_inv body_read_inv
    body_callback_inv parse_chunk_size_inv read_chunk_size_inv parse_chunk_body_inv
    read_chunk_body_inv skip_crlf_inv skip_trailers_inv close_inv\<close>)

lemma again_inv [simp]: "khc_inv io (k\<lparr>kh_again := b\<rparr>) = khc_inv io k"
  by (simp add: khc_inv_def state_ok_def split: khc_state.splits)

lemma run_handler_inv:
  assumes "io_ok io" "khc_inv io k" "kh_state k \<noteq> FINISHED"
    "\<not> (kh_state k = RESP_HEADER_SKIP \<and> kh_header_read_size k = 0)"
  shows "khc_inv io (fst (run_handler io k w))"
  using handler_inv [of io "k\<lparr>kh_again := False\<rparr>" w] assms
  by (auto simp: run_handler_def split: prod.splits)

lemma stop_inv: "khc_inv io k \<Longrightarrow> khc_inv io (stop k r)"
  by (auto simp: stop_def khc_inv_def state_ok_def)

lemma khc_step_inv:
  assumes "io_ok io" "khc_inv io (fst s)" "\<not> is_finished s" "\<not> skip_empty s"
  shows "khc_inv io (fst (khc_step io s))"
proof -
  obtain k w where s: "s = (k, w)" by (metis prod.exhaust)
  obtain r w1 where r: "stop_reason io k w = (r, w1)" by (metis prod.exhaust)
  have "khc_inv io (stop k r)" using assms by (intro stop_inv) (simp add: s)
  moreover from this have "kh_state (stop k r) = CLOSE \<Longrightarrow> khc_inv io (fst (run_handler io (stop k r) w1))"
    using assms(1) by (intro run_handler_inv) simp_all
  moreover have "khc_inv io (fst (run_handler io k w1))"
    using assms by (intro run_handler_inv) (auto simp: s is_finished_def skip_empty_def)
  ultimately show ?thesis by (simp add: khc_step_def s r Let_def)
qed

interpretation kh: machine "khc_step io" "\<lambda>s. is_finished s \<or> skip_empty s"
  "\<lambda>s. io_ok io \<and> khc_inv io (fst s)" for io :: "'w khc_io"
  by unfold_locales (auto intro: khc_step_inv)

text \<open>Up to a state where a step would read out of bounds, a run is the machine's.\<close>

lemma khc_run_until:
  "(\<forall>i<n. \<not> skip_empty (khc_run io i s)) \<Longrightarrow>
   khc_run io n s = run_steps (khc_step io) (\<lambda>s. is_finished s \<or> skip_empty s) n s"
proof (induction n arbitrary: s)
  case 0
  then show ?case by simp
next
  case (Suc n)
  have s0: "\<not> skip_empty s" using Suc.prems by force
  show ?case
  proof (cases "is_finished s")
    case False
    have "\<forall>i<n. \<not> skip_empty (khc_run io i (khc_step io s))"
    proof (intro allI impI)
      fix i
      assume "i < n"
      then have "\<not> skip_empty (khc_run io (Suc i) s)" using Suc.prems by blast
      with False show "\<not> skip_empty (khc_run io i (khc_step io s))" by simp
    qed
    from Suc.IH [OF this] False s0 show ?thesis by simp
  qed simp
qed

lemma khc_run_inv:
  assumes "io_ok io" "khc_inv io (fst s)" "\<forall>i<n. \<not> skip_empty (khc_run io i s)"
  shows "khc_inv io (fst (khc_run io n s))"
  using kh.inv_run [of io s n] assms khc_run_until [OF assms(3)] by simp

lemma khc_inv_not_empty: "khc_inv io (fst s) \<Longrightarrow> \<not> recv_again io \<Longrightarrow> \<not> skip_empty s"
  by (auto simp: khc_inv_def state_ok_def skip_empty_def)

lemma khc_run_blocking:
  assumes "io_ok io" "khc_inv io (fst s)" "\<not> recv_again io"
  shows "khc_inv io (fst (khc_run io n s))"
proof -
  have "\<forall>i<n. \<not> skip_empty (khc_run io i s)" for n
  proof (induction n)
    case (Suc n)
    have "\<not> skip_empty (khc_run io n s)"
      using khc_run_inv [OF assms(1,2) Suc] assms(3) by (rule khc_inv_not_empty)
    with Suc show ?case by (simp add: less_Suc_eq)
  qed simp
  then show ?thesis using assms(1,2) by (intro khc_run_inv) blast
qed

text \<open>What \<open>khc_perform\<close> starts the loop with.\<close>

definition ready :: "khc \<Rightarrow> bool" where
  "ready k \<longleftrightarrow> \<not> kh_fault k \<and> kh_header_read_size k = 0 \<and> kh_body_read_size k = 0 \<and>
     (kh_header_set k \<longrightarrow> 1 \<le> hsize k \<and> hsize k \<le> size_max) \<and>
     (kh_stream_set k \<longrightarrow> ssize k \<le> size_max)"

lemma khc_start_inv:
  assumes "io_ok io" "ready k" "khc_start io k w = (Inr k', w')"
  shows "khc_inv io k'"
proof -
  have m: "io_malloc io n w = (Some b, w') \<Longrightarrow> length b = n" for n w b w'
    using assms(1) unfolding io_ok_def by blast
  show ?thesis
    using assms(2,3) m
    by (auto simp: khc_start_def alloc_header_def alloc_stream_def ready_def khc_inv_def base_ok_def
        state_ok_def Let_def DEFAULT_HEADER_BUFF_SIZE_def DEFAULT_STREAM_BUFF_SIZE_def size_max_def
        split: if_splits prod.splits option.splits)
qed

end
