(* ===== verification/Khc_Runs.thy ===== *)
theory Khc_Runs
  imports Khc_Safety "HOL-Library.Code_Target_Nat"
begin

text \<open>
  A world to perform requests in: a script of what the socket receives, \<open>None\<close> where it says
  again, and what was sent and what the write callback was given.  The concrete runs of the
  properties use it.
\<close>

type_synonym script = "string option list \<times> string \<times> string"

definition script_io :: "script khc_io" where
  "script_io =
     \<lparr>has_socket = True, has_last_error = False, has_cb_header = True, has_cb_write = True,
      has_cb_read = False, has_cb_continue = False, has_clock = False, has_delay = False,
      io_connect = (\<lambda>host port w. (SOCK_OK, w)),
      io_send = (\<lambda>b (ps, sent, body). ((SOCK_OK, length b), (ps, sent @ b, body))),
      io_recv = (\<lambda>n (ps, sent, body).
        (case ps of
           [] \<Rightarrow> ((SOCK_OK, []), (ps, sent, body))
         | None # ps' \<Rightarrow> ((SOCK_AGAIN, []), (ps', sent, body))
         | Some p # ps' \<Rightarrow>
             ((SOCK_OK, take n p),
              ((if length p \<le> n then ps' else Some (drop n p) # ps'), sent, body)))),
      io_close = (\<lambda>w. (SOCK_OK, w)),
      io_last_error = (\<lambda>w. ((ERROR_NONE, 0), w)),
      io_header = (\<lambda>line w. (length line, w)),
      io_write = (\<lambda>b (ps, sent, body). (length b, (ps, sent, body @ b))),
      io_read = (\<lambda>n w. ((0, []), w)),
      io_continue = (\<lambda>w. (True, w)),
      io_monotonic = (\<lambda>w. (0, w)),
      io_delay = (\<lambda>n w. w),
      io_malloc = (\<lambda>n w. (Some (replicate n NUL), w))\<rparr>"

lemma script_io_ok: "io_ok script_io"
  unfolding io_ok_def script_io_def
  by (auto split: list.splits option.splits)

definition blank_khc :: khc where
  "blank_khc =
     \<lparr>kh_host = [], kh_path = [], kh_method = [], kh_req_headers = [], kh_current_req_header = [],
      kh_state = IDLE, kh_stream_set = False, kh_stream_buff = [], kh_stream_allocated = False,
      kh_read_size = 0, kh_read_req_end = False, kh_req_body_length = 0, kh_req_body_left = 0,
      kh_req_body_sent = 0, kh_req_frame_start = 0, kh_req_frame_size = 0, kh_header_set = False,
      kh_header_buff = [], kh_header_allocated = False, kh_header_read_size = 0, kh_status_code = 0,
      kh_status_line_given = False, kh_version_1_0 = False, kh_chunked_resp = False,
      kh_chunk_size = 0, kh_chunk_size_written = 0, kh_content_length = 0,
      kh_has_content_length = False, kh_body_received = 0, kh_trailer_end_matched = 0,
      kh_resp_date = 0, kh_read_end = False, kh_body_read_size = 0, kh_sent_length = 0,
      kh_result = ERR_OK, kh_close_failed = False, kh_header_skipped = False,
      kh_enable_insecure = False, kh_absolute_target = False, kh_resp_date_floor = 0,
      kh_timeout_ms = 0, kh_started_ms = 0, kh_again = False, kh_sock_error = ERROR_NONE,
      kh_sock_error_detail = 0, kh_fault = False\<rparr>"

text \<open>khc set up for a request, with buffers of the sizes given.\<close>

definition request :: "nat \<Rightarrow> nat \<Rightarrow> khc" where
  "request header_size stream_size =
     khc_set_stream_buff
       (khc_set_resp_header_buff
          (fst (khc_set_path (fst (khc_set_host (khc_init 0 blank_khc) ''h'')) ''/p''))
          (Some (replicate header_size NUL)))
       (Some (replicate stream_size NUL))"

text \<open>What the loop starts with, where the buffers are the caller's and there is no timeout.\<close>

definition started :: "khc \<Rightarrow> khc" where
  "started k = k\<lparr>kh_state := IDLE, kh_result := ERR_OK, kh_close_failed := False,
     kh_header_skipped := False, kh_resp_date := -1\<rparr>"

lemma script_start:
  "kh_timeout_ms k = 0 \<Longrightarrow> kh_header_set k \<Longrightarrow> kh_stream_set k \<Longrightarrow>
   khc_start script_io k w = (Inr (started k), w)"
  by (simp add: khc_start_def alloc_header_def alloc_stream_def started_def script_io_def)

text \<open>A check of every state of a run, in one go.\<close>

fun along :: "('s \<Rightarrow> 's) \<Rightarrow> ('s \<Rightarrow> bool) \<Rightarrow> ('s \<Rightarrow> bool) \<Rightarrow> nat \<Rightarrow> 's \<Rightarrow> bool" where
  "along f fin P 0 s \<longleftrightarrow> True"
| "along f fin P (Suc n) s \<longleftrightarrow> P s \<and> (if fin s then True else along f fin P n (f s))"

lemma along_run: "along f fin P n s \<Longrightarrow> \<forall>i<n. P (run_steps f fin i s)"
proof (induction n arbitrary: s)
  case (Suc n)
  show ?case
  proof (intro allI impI)
    fix i
    assume "i < Suc n"
    with Suc show "P (run_steps f fin i s)" by (cases i) auto
  qed
qed simp

section \<open>Properties\<close>


definition ok_script :: script where
  "ok_script =
     ([Some (''HTTP/1.1 200 OK'' @ [CR, LF] @ ''Content-Length: 5'' @ [CR, LF, CR]),
       Some ([LF] @ ''hel''), Some ''lo''], [], [])"



text \<open>
  C7. A write callback that returns more than it was given is not refused where a body is read
  into the stream buffer, though khc.h says that any other size than the one given aborts the
  request, and what it returns is counted: a body cut short then counts as complete.
\<close>

definition greedy_io :: "script khc_io" where
  "greedy_io = script_io\<lparr>io_write := (\<lambda>b (ps, sent, body). (length b + 3, (ps, sent, body @ b)))\<rparr>"


end
