(* ===== verification/Khc_Stop.thy ===== *)
theory Khc_Stop
  imports Khc_Runs
begin

text \<open>
  How a request ends: stopped by its timeout or by the callback that may cancel it, and closed.
\<close>

section \<open>Stopping\<close>

text \<open>Every check from here on says stop: the request is cancelled, or its time is over.\<close>

definition stops :: "'w khc_io \<Rightarrow> khc \<Rightarrow> bool" where
  "stops io k \<longleftrightarrow>
     has_cb_continue io \<and> (\<forall>w. \<not> fst (io_continue io w)) \<or>
     0 < kh_timeout_ms k \<and> (\<forall>w. kh_timeout_ms k \<le> usub (fst (io_monotonic io w)) (kh_started_ms k))"

lemma stops_reason: "stops io k \<Longrightarrow> fst (stop_reason io k w) \<in> {ERR_TIMEOUT, ERR_CANCELLED}"
proof -
  assume s: "stops io k"
  obtain now w1 where m: "io_monotonic io w = (now, w1)" by (metis prod.exhaust)
  have t: "0 < kh_timeout_ms k \<Longrightarrow> fst (stop_reason io k w) = ERR_TIMEOUT"
    if "\<forall>w. kh_timeout_ms k \<le> usub (fst (io_monotonic io w)) (kh_started_ms k)"
    using that [rule_format, of w] m by (simp add: stop_reason_def)
  have c: "fst (stop_reason io k w) \<in> {ERR_TIMEOUT, ERR_CANCELLED}"
    if "has_cb_continue io" "\<forall>w. \<not> fst (io_continue io w)"
    using that m by (auto simp: stop_reason_def split: prod.splits) (metis fst_conv)+
  show ?thesis using s t c unfolding stops_def by blast
qed

definition end_rank :: "khc \<Rightarrow> nat" where
  "end_rank k = (case kh_state k of FINISHED \<Rightarrow> 0 | CLOSE \<Rightarrow> 1 | IDLE \<Rightarrow> 1 | CONNECT \<Rightarrow> 1 | _ \<Rightarrow> 2)"

lemma stop_cases:
  assumes "kh_state k \<noteq> FINISHED"
  shows "kh_state (stop k r) = CLOSE \<and> end_rank k = 2 \<and> kh_result (stop k r) = r \<or>
    kh_state (stop k r) = FINISHED \<and> end_rank k = 1 \<and> kh_state k \<noteq> CLOSE \<and> kh_result (stop k r) = r \<or>
    kh_state (stop k r) = FINISHED \<and> kh_state k = CLOSE \<and> end_rank k = 1 \<and> kh_result (stop k r) = kh_result k"
  using assms by (cases "kh_state k") (simp_all add: stop_def end_rank_def)

lemma stop_keeps [simp]:
  "kh_timeout_ms (stop k r) = kh_timeout_ms k" "kh_started_ms (stop k r) = kh_started_ms k"
  by (simp_all add: stop_def)

text \<open>Closing changes nothing but the state, and whether it failed.\<close>

lemma close_keeps_fields:
  assumes "kh_state k = CLOSE"
  shows "kh_result (fst (run_handler io k w)) = kh_result k"
    "kh_timeout_ms (fst (run_handler io k w)) = kh_timeout_ms k"
    "kh_started_ms (fst (run_handler io k w)) = kh_started_ms k"
    "kh_state (fst (run_handler io k w)) = CLOSE \<or> kh_state (fst (run_handler io k w)) = FINISHED"
proof -
  obtain c w' where c: "io_close io w = (c, w')" by (metis prod.exhaust)
  have e: "fst (run_handler io k w) =
      (case c of SOCK_OK \<Rightarrow> k\<lparr>kh_again := False, kh_state := FINISHED\<rparr>
       | SOCK_AGAIN \<Rightarrow> k\<lparr>kh_again := True\<rparr>
       | SOCK_FAIL \<Rightarrow> k\<lparr>kh_again := False, kh_state := FINISHED, kh_close_failed := True\<rparr>)"
    using assms c by (cases c) (simp_all add: run_handler_def state_handlers_def khc_state_close_def)
  show "kh_result (fst (run_handler io k w)) = kh_result k"
    "kh_timeout_ms (fst (run_handler io k w)) = kh_timeout_ms k"
    "kh_started_ms (fst (run_handler io k w)) = kh_started_ms k"
    "kh_state (fst (run_handler io k w)) = CLOSE \<or> kh_state (fst (run_handler io k w)) = FINISHED"
    unfolding e using assms by (cases c; simp)+
qed

lemma stop_step:
  assumes "stops io k" "kh_state k \<noteq> FINISHED"
  obtains r where "r \<in> {ERR_TIMEOUT, ERR_CANCELLED}"
    "stops io (fst (khc_step io (k, w)))"
    "end_rank (fst (khc_step io (k, w))) < end_rank k"
    "kh_result (fst (khc_step io (k, w))) = (if kh_state k = CLOSE then kh_result k else r)"
    "kh_state (fst (khc_step io (k, w))) \<in> {CLOSE, FINISHED}"
proof -
  obtain r w1 where r: "stop_reason io k w = (r, w1)" by (metis prod.exhaust)
  have rr: "r \<in> {ERR_TIMEOUT, ERR_CANCELLED}" using stops_reason [OF assms(1), of w] r by simp
  then have n: "r \<noteq> ERR_OK" by auto
  obtain k1 where k1: "k1 = stop k r" by blast
  have e: "khc_step io (k, w) = (if kh_state k1 \<noteq> CLOSE then (k1, w1) else run_handler io k1 w1)"
    using n by (simp add: khc_step_def r k1 Let_def)
  have s1: "kh_timeout_ms k1 = kh_timeout_ms k" "kh_started_ms k1 = kh_started_ms k" by (simp_all add: k1)
  have e2: "kh_state k = CLOSE \<Longrightarrow> end_rank k = 1" by (simp add: end_rank_def)
  show thesis
  proof (cases "kh_state k1 = CLOSE")
    case True
    note c = close_keeps_fields [OF True, of io w1]
    have k: "end_rank k = 2" "kh_result k1 = r" "kh_state k \<noteq> CLOSE"
      using stop_cases [OF assms(2), of r] True e2 by (auto simp flip: k1)
    show thesis
    proof (rule that [OF rr])
      show "stops io (fst (khc_step io (k, w)))"
        using assms(1) c(2,3) s1 True by (simp add: e stops_def)
      show "end_rank (fst (khc_step io (k, w))) < end_rank k"
        using c(4) k(1) True by (auto simp: e end_rank_def)
      show "kh_result (fst (khc_step io (k, w))) = (if kh_state k = CLOSE then kh_result k else r)"
        using c(1) k True by (simp add: e)
      show "kh_state (fst (khc_step io (k, w))) \<in> {CLOSE, FINISHED}" using c(4) True by (auto simp: e)
    qed
  next
    case False
    have k: "kh_state k1 = FINISHED" "end_rank k = 1"
      "kh_result k1 = (if kh_state k = CLOSE then kh_result k else r)"
      using stop_cases [OF assms(2), of r] False by (auto simp flip: k1)
    show thesis
    proof (rule that [OF rr])
      show "stops io (fst (khc_step io (k, w)))" using assms(1) s1 False by (simp add: e stops_def)
      show "end_rank (fst (khc_step io (k, w))) < end_rank k" using k False by (simp add: e end_rank_def)
    qed (use k False in \<open>simp_all add: e\<close>)
  qed
qed

interpretation stopping: terminating_machine "khc_step io" is_finished "\<lambda>s. stops io (fst s)"
  "\<lambda>s. end_rank (fst s)" for io :: "'w khc_io"
proof
  fix s :: "khc \<times> 'w"
  assume "stops io (fst s)" "\<not> is_finished s"
  then have s: "stops io (fst s)" "kh_state (fst s) \<noteq> FINISHED" by (simp_all add: is_finished_def)
  show "stops io (fst (khc_step io s))" "end_rank (fst (khc_step io s)) < end_rank (fst s)"
    using stop_step [OF s, of "snd s"] by (metis prod.collapse)+
qed

lemma end_rank_le: "end_rank k \<le> 2"
  by (simp add: end_rank_def split: khc_state.splits)

section \<open>Closing\<close>

lemma closing_step:
  assumes "kh_state k = CLOSE"
  shows "kh_result (fst (khc_step io (k, w))) = kh_result k \<and>
    kh_state (fst (khc_step io (k, w))) \<in> {CLOSE, FINISHED}"
proof -
  obtain r w1 where r: "stop_reason io k w = (r, w1)" by (metis prod.exhaust)
  have s: "kh_state (stop k r) = FINISHED" "kh_result (stop k r) = kh_result k"
    using assms by (simp_all add: stop_def)
  show ?thesis
    using close_keeps_fields [OF assms, of io w1] s by (auto simp: khc_step_def r Let_def)
qed

lemma closing_run:
  "kh_state (fst s) \<in> {CLOSE, FINISHED} \<Longrightarrow>
   kh_result (fst (khc_run io n s)) = kh_result (fst s) \<and>
   kh_state (fst (khc_run io n s)) \<in> {CLOSE, FINISHED}"
proof (induction n arbitrary: s)
  case 0
  then show ?case by simp
next
  case (Suc n)
  show ?case
  proof (cases "is_finished s")
    case True
    then show ?thesis by (simp add: is_finished_def)
  next
    case False
    then have "kh_state (fst s) = CLOSE" using Suc.prems by (simp add: is_finished_def)
    from closing_step [OF this, of io "snd s"] Suc.IH [of "khc_step io s"] False show ?thesis by simp
  qed
qed

section \<open>Properties\<close>



text \<open>
  C10. Closing does not change the result: from the moment a request starts to close, however
  the socket answers, whether it is stopped meanwhile or not, and however long it takes, the
  result stays what it was and the request does nothing but close.
\<close>

theorem khc_close_keeps_result:
  assumes "kh_state k = CLOSE"
  shows "kh_result (fst (khc_run io n (k, w))) = kh_result k \<and>
    kh_state (fst (khc_run io n (k, w))) \<in> {CLOSE, FINISHED}"
  using closing_run [of "(k, w)" io n] assms by simp

lemma khc_close_keeps_result_witness:
  "kh_result (fst (khc_run script_io 5
     ((request 40 20)\<lparr>kh_state := CLOSE, kh_result := ERR_SOCK_RECV\<rparr>, ok_script))) = ERR_SOCK_RECV"
  using khc_close_keeps_result [of "(request 40 20)\<lparr>kh_state := CLOSE, kh_result := ERR_SOCK_RECV\<rparr>" script_io 5 ok_script]
  by simp

end
