(* ===== verification/Khc_Trace.thy ===== *)
theory Khc_Trace
  imports Khc_Safety
begin

text \<open>
  What a request exchanges with the world: what it sent, the parts of its body the read callback
  gave, what it received, the lines given to the header callback and what was given to the
  write callback.  \<open>traced\<close> puts a record of them beside the world of any \<open>khc_io\<close>, and does
  not change what khc sees of it; the properties of what is sent and given are of the trace.
\<close>

record trace =
  tr_sent :: string
  tr_parts :: "string list"
  tr_received :: string
  tr_lines :: "string list"
  tr_given :: string

definition no_trace :: trace where
  "no_trace = \<lparr>tr_sent = [], tr_parts = [], tr_received = [], tr_lines = [], tr_given = []\<rparr>"

definition lift :: "('w \<Rightarrow> 'r \<times> 'w) \<Rightarrow> ('r \<Rightarrow> trace \<Rightarrow> trace) \<Rightarrow> 'w \<times> trace \<Rightarrow> 'r \<times> 'w \<times> trace" where
  "lift f upd s = (case f (fst s) of (r, w') \<Rightarrow> (r, (w', upd r (snd s))))"

definition traced :: "'w khc_io \<Rightarrow> ('w \<times> trace) khc_io" where
  "traced io =
     \<lparr>has_socket = has_socket io, has_last_error = has_last_error io,
      has_cb_header = has_cb_header io, has_cb_write = has_cb_write io,
      has_cb_read = has_cb_read io, has_cb_continue = has_cb_continue io,
      has_clock = has_clock io, has_delay = has_delay io,
      io_connect = (\<lambda>host port. lift (io_connect io host port) (\<lambda>_ t. t)),
      io_send = (\<lambda>b. lift (io_send io b)
        (\<lambda>(c, n) t. if c = SOCK_OK then t\<lparr>tr_sent := tr_sent t @ take n b\<rparr> else t)),
      io_recv = (\<lambda>n. lift (io_recv io n)
        (\<lambda>(c, b) t. if c = SOCK_OK then t\<lparr>tr_received := tr_received t @ b\<rparr> else t)),
      io_close = lift (io_close io) (\<lambda>_ t. t),
      io_last_error = lift (io_last_error io) (\<lambda>_ t. t),
      io_header = (\<lambda>line. lift (io_header io line) (\<lambda>_ t. t\<lparr>tr_lines := tr_lines t @ [line]\<rparr>)),
      io_write = (\<lambda>b. lift (io_write io b) (\<lambda>_ t. t\<lparr>tr_given := tr_given t @ b\<rparr>)),
      io_read = (\<lambda>n. lift (io_read io n)
        (\<lambda>(got, b) t. if got \<le> n then t\<lparr>tr_parts := tr_parts t @ [b]\<rparr> else t)),
      io_continue = lift (io_continue io) (\<lambda>_ t. t),
      io_monotonic = lift (io_monotonic io) (\<lambda>_ t. t),
      io_delay = (\<lambda>n s. (io_delay io n (fst s), snd s)),
      io_malloc = (\<lambda>n. lift (io_malloc io n) (\<lambda>_ t. t))\<rparr>"

lemma traced_simps [simp]:
  "has_last_error (traced io) = has_last_error io" "has_cb_read (traced io) = has_cb_read io"
  "has_cb_continue (traced io) = has_cb_continue io" "has_delay (traced io) = has_delay io"
  "io_connect (traced io) h p = lift (io_connect io h p) (\<lambda>_ t. t)"
  "io_send (traced io) b = lift (io_send io b)
     (\<lambda>(c, n) t. if c = SOCK_OK then t\<lparr>tr_sent := tr_sent t @ take n b\<rparr> else t)"
  "io_recv (traced io) n = lift (io_recv io n)
     (\<lambda>(c, b) t. if c = SOCK_OK then t\<lparr>tr_received := tr_received t @ b\<rparr> else t)"
  "io_close (traced io) = lift (io_close io) (\<lambda>_ t. t)"
  "io_last_error (traced io) = lift (io_last_error io) (\<lambda>_ t. t)"
  "io_header (traced io) line = lift (io_header io line) (\<lambda>_ t. t\<lparr>tr_lines := tr_lines t @ [line]\<rparr>)"
  "io_write (traced io) b = lift (io_write io b) (\<lambda>_ t. t\<lparr>tr_given := tr_given t @ b\<rparr>)"
  "io_read (traced io) n = lift (io_read io n)
     (\<lambda>(got, b) t. if got \<le> n then t\<lparr>tr_parts := tr_parts t @ [b]\<rparr> else t)"
  "io_continue (traced io) = lift (io_continue io) (\<lambda>_ t. t)"
  "io_monotonic (traced io) = lift (io_monotonic io) (\<lambda>_ t. t)"
  "io_delay (traced io) n s = (io_delay io n (fst s), snd s)"
  "io_malloc (traced io) n = lift (io_malloc io n) (\<lambda>_ t. t)"
  by (simp_all add: traced_def)

lemma lift_eq: "f w = (r, w') \<Longrightarrow> lift f upd (w, t) = (r, (w', upd r t))"
  by (simp add: lift_def)

lemma lift_result: "lift f upd s = (r, s') \<Longrightarrow> \<exists>w'. f (fst s) = (r, w')"
  by (auto simp: lift_def split: prod.splits)

lemma traced_ok: "io_ok io \<Longrightarrow> io_ok (traced io)"
  unfolding io_ok_def by (simp, meson lift_result)

lemma traced_again: "recv_again (traced io) \<Longrightarrow> recv_again io"
  unfolding recv_again_def by (simp, meson lift_result)

section \<open>Invariants of a traced run\<close>

text \<open>No step of the run is one that would read out of bounds.\<close>

definition in_bounds :: "'w khc_io \<Rightarrow> nat \<Rightarrow> khc \<times> 'w \<Rightarrow> bool" where
  "in_bounds io n s \<longleftrightarrow> \<not> recv_again io \<or> (\<forall>i<n. \<not> skip_empty (khc_run io i s))"

lemma in_bounds_empty:
  assumes "io_ok io" "khc_inv io (fst s)" "in_bounds io n s" "i < n"
  shows "\<not> skip_empty (khc_run io i s)" "khc_inv io (fst (khc_run io i s))"
proof -
  have a: "\<not> skip_empty (khc_run io j s)" if "j < n" for j
    using assms(1-3) khc_run_blocking [of io s j] khc_inv_not_empty [of io "khc_run io j s"] that
    unfolding in_bounds_def by blast
  show "\<not> skip_empty (khc_run io i s)" using assms(4) by (rule a)
  show "khc_inv io (fst (khc_run io i s))"
    using assms(4) a by (intro khc_run_inv [OF assms(1,2)]) simp
qed

text \<open>An invariant along a run, where every state the step is taken in keeps \<open>khc_inv\<close>.\<close>

lemma run_snoc: "run_steps f fin (Suc n) s = (if fin (run_steps f fin n s) then run_steps f fin n s
     else f (run_steps f fin n s))"
proof (induction n arbitrary: s)
  case (Suc n)
  have f: "fin s \<Longrightarrow> run_steps f fin m s = s" for m by (cases m) simp_all
  show ?case
  proof (cases "fin s")
    case True
    then show ?thesis by (simp only: f if_True)
  next
    case False
    have u: "run_steps f fin (Suc m) s = run_steps f fin m (f s)" for m using False by simp
    show ?thesis unfolding u [of "Suc n"] u [of n] by (rule Suc.IH)
  qed
qed simp

lemma khc_run_rule:
  assumes "io_ok io" "khc_inv io (fst s)" "in_bounds io n s" "P s"
    and step: "\<And>s. khc_inv io (fst s) \<Longrightarrow> \<not> is_finished s \<Longrightarrow> \<not> skip_empty s \<Longrightarrow> P s \<Longrightarrow> P (khc_step io s)"
  shows "P (khc_run io n s)"
proof -
  have "i \<le> n \<Longrightarrow> P (khc_run io i s)" for i
  proof (induction i)
    case (Suc i)
    then have "i < n" by simp
    note b = in_bounds_empty [OF assms(1-3) this]
    from Suc have "P (khc_run io i s)" by simp
    with b show ?case unfolding run_snoc using step by simp
  qed (simp add: assms(4))
  then show ?thesis by simp
qed

lemma stop_reason_trace:
  assumes "stop_reason (traced io) k (w, t) = (r, w1)"
  shows "\<exists>w'. w1 = (w', t)"
proof -
  obtain now wa where m: "io_monotonic io w = (now, wa)" by (metis prod.exhaust)
  obtain g wb where g: "io_continue io w = (g, wb)" by (metis prod.exhaust)
  obtain ga wc where ga: "io_continue io wa = (ga, wc)" by (metis prod.exhaust)
  show ?thesis
    using assms m g ga by (auto simp: stop_reason_def lift_eq split: if_splits)
qed

lemma traced_step_rule:
  assumes "khc_inv (traced io) (fst s)" "\<not> is_finished s" "\<not> skip_empty s" "P (fst s) (snd (snd s))"
    and stopP: "\<And>k t r. r \<noteq> ERR_OK \<Longrightarrow> kh_state k \<noteq> FINISHED \<Longrightarrow> P k t \<Longrightarrow> P (stop k r) t"
    and againP: "\<And>k t b. P k t \<Longrightarrow> P (k\<lparr>kh_again := b\<rparr>) t"
    and handlerP: "\<And>k w t k' w' t'. khc_inv (traced io) k \<Longrightarrow> kh_state k \<noteq> FINISHED \<Longrightarrow> P k t \<Longrightarrow>
      state_handlers (traced io) k (w, t) = (k', (w', t')) \<Longrightarrow> P k' t'"
  shows "P (fst (khc_step (traced io) s)) (snd (snd (khc_step (traced io) s)))"
proof -
  obtain k w t where s: "s = (k, (w, t))" by (metis prod.exhaust)
  obtain r w1 where r: "stop_reason (traced io) k (w, t) = (r, (w1, t))"
    using stop_reason_trace by (metis prod.exhaust)
  have h: "P (fst (run_handler (traced io) k0 (w1, t))) (snd (snd (run_handler (traced io) k0 (w1, t))))"
    if k0: "khc_inv (traced io) k0" "kh_state k0 \<noteq> FINISHED" "P k0 t" for k0
  proof -
    obtain k' w' t' where e: "state_handlers (traced io) (k0\<lparr>kh_again := False\<rparr>) (w1, t) = (k', (w', t'))"
      by (metis prod.exhaust)
    have "P k' t'" using k0 by (intro handlerP [OF _ _ _ e] againP) simp_all
    then show ?thesis by (simp add: run_handler_def e)
  qed
  show ?thesis
  proof (cases "r = ERR_OK")
    case True
    have "P (fst (run_handler (traced io) k (w1, t))) (snd (snd (run_handler (traced io) k (w1, t))))"
      using assms by (intro h) (simp_all add: s is_finished_def)
    then show ?thesis using True by (simp add: khc_step_def s r)
  next
    case False
    obtain k1 where k1: "k1 = stop k r" by blast
    have p: "P k1 t" "khc_inv (traced io) k1"
      using assms False by (auto simp: s k1 is_finished_def intro: stopP stop_inv)
    then have "kh_state k1 = CLOSE \<Longrightarrow>
      P (fst (run_handler (traced io) k1 (w1, t))) (snd (snd (run_handler (traced io) k1 (w1, t))))"
      by (intro h) simp_all
    with p False show ?thesis by (simp add: khc_step_def s r Let_def flip: k1)
  qed
qed

lemma traced_run_rule:
  assumes "io_ok io" "khc_inv (traced io) (fst s)" "in_bounds (traced io) n s" "P (fst s) (snd (snd s))"
    and stopP: "\<And>k t r. r \<noteq> ERR_OK \<Longrightarrow> kh_state k \<noteq> FINISHED \<Longrightarrow> P k t \<Longrightarrow> P (stop k r) t"
    and againP: "\<And>k t b. P k t \<Longrightarrow> P (k\<lparr>kh_again := b\<rparr>) t"
    and handlerP: "\<And>k w t k' w' t'. khc_inv (traced io) k \<Longrightarrow> kh_state k \<noteq> FINISHED \<Longrightarrow> P k t \<Longrightarrow>
      state_handlers (traced io) k (w, t) = (k', (w', t')) \<Longrightarrow> P k' t'"
  shows "P (fst (khc_run (traced io) n s)) (snd (snd (khc_run (traced io) n s)))"
proof -
  have "P (fst (khc_step (traced io) s)) (snd (snd (khc_step (traced io) s)))"
    if "khc_inv (traced io) (fst s)" "\<not> is_finished s" "\<not> skip_empty s" "P (fst s) (snd (snd s))" for s
    using that stopP againP handlerP by (rule traced_step_rule)
  then show ?thesis
    by (rule khc_run_rule [where P = "\<lambda>s. P (fst s) (snd (snd s))", OF traced_ok [OF assms(1)] assms(2-4)])
qed

end
