(* ===== verification/Khc_Sent.thy ===== *)
theory Khc_Sent
  imports Khc_Trace Khc_Runs "HOL-Library.Sublist"
begin

text \<open>
  What a request sends: exactly the text of its head, and then its body, framed as the head says,
  however the socket cuts what it takes.
\<close>

section \<open>The text of a request\<close>

definition headers_text :: "string option list \<Rightarrow> string" where
  "headers_text hs = concat (map (\<lambda>h. case h of None \<Rightarrow> [] | Some d \<Rightarrow> if d = [] then [] else d @ [CR, LF]) hs)"

definition head_text :: "'w khc_io \<Rightarrow> khc \<Rightarrow> string" where
  "head_text io k = request_line k @ host_header k @ headers_text (kh_req_headers k) @ last_headers io k"

text \<open>A part of the body as it goes out: as it is, or as a chunk.\<close>

definition part_text :: "khc \<Rightarrow> string \<Rightarrow> string" where
  "part_text k p =
     (if kh_req_body_length k \<noteq> BODY_LENGTH_UNKNOWN then p
      else khc_chunk_size_line (length p) @ p @ [CR, LF])"

definition body_text :: "khc \<Rightarrow> string list \<Rightarrow> string" where
  "body_text k ps = concat (map (part_text k) ps)"

text \<open>The parts are of a body that may go on, and the whole of one.\<close>

definition body_open :: "khc \<Rightarrow> string list \<Rightarrow> bool" where
  "body_open k ps \<longleftrightarrow>
     (if kh_req_body_length k \<noteq> BODY_LENGTH_UNKNOWN
      then length (concat ps) + kh_req_body_left k = kh_req_body_length k
      else [] \<notin> set ps)"

definition body_whole :: "khc \<Rightarrow> string list \<Rightarrow> bool" where
  "body_whole k ps \<longleftrightarrow>
     (if kh_req_body_length k \<noteq> BODY_LENGTH_UNKNOWN then length (concat ps) = kh_req_body_length k
      else \<exists>qs. ps = qs @ [[]] \<and> [] \<notin> set qs)"

text \<open>The states that read the response, and those that end the request.\<close>

definition responding :: "khc_state \<Rightarrow> bool" where
  "responding s \<longleftrightarrow> s \<in> {RESP_STATUS_READ, RESP_STATUS_PARSE, RESP_HEADER_CALLBACK, RESP_HEADER_READ,
     RESP_HEADER_SKIP, RESP_BODY_FRAGMENT, READ_CHUNK_SIZE_FROM_HEADER_BUFF,
     READ_CHUNK_BODY_FROM_HEADER_BUFF, RESP_BODY_READ, RESP_BODY_CALLBACK,
     RESP_BODY_PARSE_CHUNK_SIZE, RESP_BODY_READ_CHUNK_SIZE, RESP_BODY_PARSE_CHUNK_BODY,
     RESP_BODY_READ_CHUNK_BODY, RESP_BODY_SKIP_CHUNK_BODY_CRLF, RESP_BODY_SKIP_TRAILERS}"

definition all_sent :: "'w khc_io \<Rightarrow> khc \<Rightarrow> trace \<Rightarrow> bool" where
  "all_sent io k t \<longleftrightarrow> tr_sent t = head_text io k @ body_text k (tr_parts t) \<and>
     (if has_req_body io k then body_whole k (tr_parts t) else tr_parts t = [])"

definition sent_ok :: "'w khc_io \<Rightarrow> khc \<Rightarrow> trace \<Rightarrow> bool" where
  "sent_ok io k t \<longleftrightarrow>
     (case kh_state k of
        IDLE \<Rightarrow> tr_sent t = [] \<and> tr_parts t = []
      | CONNECT \<Rightarrow> tr_sent t = [] \<and> tr_parts t = []
      | REQ_LINE \<Rightarrow> tr_parts t = [] \<and> tr_sent t = take (kh_sent_length k) (request_line k)
      | REQ_HOST_HEADER \<Rightarrow>
          tr_parts t = [] \<and> tr_sent t = request_line k @ take (kh_sent_length k) (host_header k)
      | REQ_HEADER \<Rightarrow>
          tr_parts t = [] \<and> kh_sent_length k = 0 \<and>
          (\<exists>d. kh_req_headers k = d @ kh_current_req_header k \<and>
             tr_sent t = request_line k @ host_header k @ headers_text d)
      | REQ_HEADER_SEND \<Rightarrow>
          tr_parts t = [] \<and>
          (\<exists>d h r. kh_req_headers k = d @ Some h # r \<and> kh_current_req_header k = Some h # r \<and> h \<noteq> [] \<and>
             tr_sent t = request_line k @ host_header k @ headers_text d @ take (kh_sent_length k) h)
      | REQ_HEADER_SEND_CRLF \<Rightarrow>
          tr_parts t = [] \<and>
          (\<exists>d h r. kh_req_headers k = d @ Some h # r \<and> kh_current_req_header k = Some h # r \<and> h \<noteq> [] \<and>
             tr_sent t = request_line k @ host_header k @ headers_text d @ h @
               take (kh_sent_length k) [CR, LF])
      | REQ_HEADER_END \<Rightarrow>
          tr_parts t = [] \<and>
          tr_sent t = request_line k @ host_header k @ headers_text (kh_req_headers k) @
            take (kh_sent_length k) (last_headers io k)
      | REQ_BODY_READ \<Rightarrow>
          has_req_body io k \<and> body_open k (tr_parts t) \<and>
          tr_sent t = head_text io k @ body_text k (tr_parts t)
      | REQ_BODY_SEND \<Rightarrow>
          has_req_body io k \<and>
          (if kh_read_req_end k then body_whole k (tr_parts t) else body_open k (tr_parts t)) \<and>
          (\<exists>ps p. tr_parts t = ps @ [p] \<and> body_frame k = part_text k p \<and>
             tr_sent t = head_text io k @ body_text k ps @ take (kh_sent_length k) (part_text k p))
      | CLOSE \<Rightarrow> prefix (tr_sent t) (head_text io k @ body_text k (tr_parts t)) \<and>
          (kh_result k = ERR_OK \<longrightarrow> all_sent io k t)
      | FINISHED \<Rightarrow> prefix (tr_sent t) (head_text io k @ body_text k (tr_parts t)) \<and>
          (kh_result k = ERR_OK \<longrightarrow> all_sent io k t)
      | _ \<Rightarrow> all_sent io k t)"

lemma headers_text_simps [simp]:
  "headers_text [] = []" "headers_text (d @ hs) = headers_text d @ headers_text hs"
  "headers_text (None # hs) = headers_text hs" "headers_text (Some [] # hs) = headers_text hs"
  "h \<noteq> [] \<Longrightarrow> headers_text (Some h # hs) = h @ [CR, LF] @ headers_text hs"
  by (simp_all add: headers_text_def)

lemma body_text_simps [simp]:
  "body_text k [] = []" "body_text k (ps @ qs) = body_text k ps @ body_text k qs"
  "body_text k [p] = part_text k p"
  by (simp_all add: body_text_def)

lemmas request_defs = request_line_def request_path_def host_header_def last_headers_def
  khc_method_can_have_body_def head_text_def has_req_body_def

text \<open>What of khc the request's text depends on; a handler but the first keeps it.\<close>

definition req_of :: "khc \<Rightarrow> string \<times> string \<times> string \<times> string option list \<times> bool \<times> bool \<times> nat" where
  "req_of k = (kh_host k, kh_path k, kh_method k, kh_req_headers k, kh_enable_insecure k,
     kh_absolute_target k, kh_req_body_length k)"

lemma req_of_fields:
  "req_of k' = req_of k \<longleftrightarrow> kh_host k' = kh_host k \<and> kh_path k' = kh_path k \<and> kh_method k' = kh_method k \<and>
    kh_req_headers k' = kh_req_headers k \<and> kh_enable_insecure k' = kh_enable_insecure k \<and>
    kh_absolute_target k' = kh_absolute_target k \<and> kh_req_body_length k' = kh_req_body_length k"
  by (auto simp: req_of_def)

lemma req_of_texts:
  assumes "req_of k' = req_of k"
  shows "request_line k' = request_line k" "host_header k' = host_header k"
    "kh_req_headers k' = kh_req_headers k" "part_text k' = part_text k" "body_text k' = body_text k"
    "body_whole k' = body_whole k"
proof -
  show p: "part_text k' = part_text k"
    using assms by (simp add: req_of_fields part_text_def fun_eq_iff)
  show "request_line k' = request_line k" "host_header k' = host_header k"
    "kh_req_headers k' = kh_req_headers k" "body_whole k' = body_whole k" "body_text k' = body_text k"
    using assms by (simp_all add: p body_text_def req_of_fields request_defs body_whole_def fun_eq_iff)
qed

lemma req_of_io_texts:
  assumes "req_of k' = req_of k"
  shows "last_headers io k' = last_headers io k" "head_text io k' = head_text io k"
    "has_req_body io k' = has_req_body io k"
  using assms by (simp_all add: req_of_fields request_defs)

lemmas req_of_all = req_of_texts req_of_io_texts

lemma req_of_updates [simp]:
  "req_of (k\<lparr>kh_state := s\<rparr>) = req_of k" "req_of (k\<lparr>kh_result := r\<rparr>) = req_of k"
  "req_of (k\<lparr>kh_again := b\<rparr>) = req_of k" "req_of (k\<lparr>kh_sent_length := n\<rparr>) = req_of k"
  "req_of (k\<lparr>kh_fault := b\<rparr>) = req_of k" "req_of (k\<lparr>kh_close_failed := b\<rparr>) = req_of k"
  "req_of (k\<lparr>kh_sock_error := e\<rparr>) = req_of k" "req_of (k\<lparr>kh_sock_error_detail := d\<rparr>) = req_of k"
  "req_of (k\<lparr>kh_current_req_header := c\<rparr>) = req_of k" "req_of (k\<lparr>kh_read_req_end := b\<rparr>) = req_of k"
  "req_of (k\<lparr>kh_req_body_left := n\<rparr>) = req_of k" "req_of (k\<lparr>kh_req_body_sent := n\<rparr>) = req_of k"
  "req_of (k\<lparr>kh_header_read_size := n\<rparr>) = req_of k" "req_of (k\<lparr>kh_header_buff := x\<rparr>) = req_of k"
  "req_of (k\<lparr>kh_stream_buff := x\<rparr>) = req_of k" "req_of (k\<lparr>kh_body_read_size := n\<rparr>) = req_of k"
  "req_of (k\<lparr>kh_read_size := n\<rparr>) = req_of k" "req_of (k\<lparr>kh_req_frame_start := n\<rparr>) = req_of k"
  "req_of (k\<lparr>kh_req_frame_size := n\<rparr>) = req_of k" "req_of (k\<lparr>kh_read_end := b\<rparr>) = req_of k"
  "req_of (k\<lparr>kh_status_code := n\<rparr>) = req_of k" "req_of (k\<lparr>kh_status_line_given := b\<rparr>) = req_of k"
  "req_of (k\<lparr>kh_version_1_0 := b\<rparr>) = req_of k" "req_of (k\<lparr>kh_resp_date := x3\<rparr>) = req_of k"
  "req_of (k\<lparr>kh_content_length := n\<rparr>) = req_of k" "req_of (k\<lparr>kh_has_content_length := b\<rparr>) = req_of k"
  "req_of (k\<lparr>kh_chunked_resp := b\<rparr>) = req_of k" "req_of (k\<lparr>kh_header_skipped := b\<rparr>) = req_of k"
  "req_of (k\<lparr>kh_chunk_size := n\<rparr>) = req_of k" "req_of (k\<lparr>kh_chunk_size_written := n\<rparr>) = req_of k"
  "req_of (k\<lparr>kh_body_received := n\<rparr>) = req_of k" "req_of (k\<lparr>kh_trailer_end_matched := n\<rparr>) = req_of k"
  by (simp_all add: req_of_def)

lemma crlf_prefix: "prefix (take n [CR, LF]) (CR # LF # x)"
proof -
  have "prefix (take n [CR, LF]) ([CR, LF] @ x)" by (intro prefix_prefix take_is_prefix)
  then show ?thesis by simp
qed

lemma sent_ok_prefix:
  assumes "sent_ok io k t"
  shows "prefix (tr_sent t) (head_text io k @ body_text k (tr_parts t))"
proof (cases "kh_state k")
  case REQ_BODY_SEND
  with assms obtain ps p where "tr_parts t = ps @ [p]"
    "tr_sent t = head_text io k @ body_text k ps @ take (kh_sent_length k) (part_text k p)"
    by (auto simp: sent_ok_def)
  then show ?thesis by (simp add: take_is_prefix)
next
  case REQ_HEADER_SEND
  with assms show ?thesis
    by (auto simp: sent_ok_def head_text_def take_is_prefix prefix_prefix)
next
  case REQ_HEADER_SEND_CRLF
  with assms show ?thesis
    by (auto simp: sent_ok_def head_text_def crlf_prefix)
qed (use assms in \<open>auto simp: sent_ok_def head_text_def all_sent_def take_is_prefix prefix_prefix\<close>)


lemma record_sock_error_trace:
  assumes "record_sock_error (traced io) k (w, t) = (k', (w', t'))"
  shows "t' = t"
  using assms by (cases "io_last_error io w") (auto simp: record_sock_error_def lift_def split: if_splits)

lemma send_rest_sent:
  assumes r: "send_rest (traced io) txt nxt k (w, t) = (k', (w', t'))" and sl: "kh_sent_length k \<le> length txt"
    and t: "tr_sent t = pre @ take (kh_sent_length k) txt"
  obtains (more) n where "k' = k\<lparr>kh_sent_length := n\<rparr>" "tr_sent t' = pre @ take n txt"
      "tr_parts t' = tr_parts t"
    | (all) "k' = nxt (k\<lparr>kh_sent_length := 0\<rparr>)" "tr_sent t' = pre @ txt" "tr_parts t' = tr_parts t"
    | (again) b where "k' = k\<lparr>kh_again := b\<rparr>" "t' = t"
    | (fail) e d where "k' = close_with ERR_SOCK_SEND (k\<lparr>kh_sock_error := e, kh_sock_error_detail := d\<rparr>)"
        "t' = t"
proof -
  obtain rest where rest: "rest = drop (kh_sent_length k) txt" by blast
  obtain c n w1 where s: "io_send io rest w = ((c, n), w1)" by (metis prod.exhaust)
  note e = r [unfolded send_rest_def Let_def rest [symmetric] if_not_P [OF sl [THEN leD]] traced_simps
      lift_def fst_conv snd_conv s prod.case]
  show thesis
  proof (cases c)
    case SOCK_OK
    show thesis
    proof (cases "n < length rest")
      case True
      have "take (kh_sent_length k) txt @ take n rest = take (kh_sent_length k + n) txt"
        by (simp add: rest take_add)
      with e SOCK_OK True t show thesis by (intro more [of "kh_sent_length k + n"]) auto
    next
      case False
      then have "take n rest = rest" by simp
      then have "take (kh_sent_length k) txt @ take n rest = txt" by (simp add: rest)
      with e SOCK_OK False t show thesis by (intro all) auto
    qed
  next
    case SOCK_AGAIN
    with e show thesis by (intro again [of True]) auto
  next
    case SOCK_FAIL
    obtain k1 w2 t2 where f: "record_sock_error (traced io) k (w1, t) = (k1, (w2, t2))" by (metis prod.exhaust)
    obtain x d where "k1 = k\<lparr>kh_sock_error := x, kh_sock_error_detail := d\<rparr>"
      using record_sock_error_frame [OF f] by blast
    with e SOCK_FAIL f record_sock_error_trace [OF f] show thesis by (intro fail) auto
  qed
qed

text \<open>A failure, or a stop, leaves what was sent a prefix of the request.\<close>

lemma sent_ok_ended:
  assumes "sent_ok io k t" "req_of k' = req_of k" "kh_state k' = CLOSE \<or> kh_state k' = FINISHED"
    and "kh_result k' = ERR_OK \<Longrightarrow> all_sent io k t"
  shows "sent_ok io k' t"
  using sent_ok_prefix [OF assms(1)] assms(3,4)
  by (auto simp: sent_ok_def all_sent_def req_of_all [OF assms(2)])

lemma sent_ok_again:
  assumes "sent_ok io k t"
  shows "sent_ok io (k\<lparr>kh_again := b\<rparr>) t"
proof -
  have "req_of (k\<lparr>kh_again := b\<rparr>) = req_of k" by simp
  note r = req_of_all [OF this]
  have "body_open (k\<lparr>kh_again := b\<rparr>) = body_open k" "body_frame (k\<lparr>kh_again := b\<rparr>) = body_frame k"
    "all_sent io (k\<lparr>kh_again := b\<rparr>) t = all_sent io k t"
    by (simp_all add: body_open_def body_frame_def all_sent_def r fun_eq_iff)
  with assms show ?thesis by (cases "kh_state k") (simp_all add: sent_ok_def r)
qed

text \<open>
  A state that sends, with what it sends, and what it has sent before.
\<close>

lemma send_state:
  assumes "send_rest (traced io) txt nxt k (w, t) = (k', (w', t'))" "kh_sent_length k \<le> length txt"
    and "tr_sent t = pre @ take (kh_sent_length k) txt" "sent_ok io k t"
    and more: "\<And>n t'. tr_sent t' = pre @ take n txt \<Longrightarrow> tr_parts t' = tr_parts t \<Longrightarrow>
      sent_ok io (k\<lparr>kh_sent_length := n\<rparr>) t'"
    and all: "\<And>t'. tr_sent t' = pre @ txt \<Longrightarrow> tr_parts t' = tr_parts t \<Longrightarrow>
      sent_ok io (nxt (k\<lparr>kh_sent_length := 0\<rparr>)) t'"
  shows "sent_ok io k' t'"
proof (rule send_rest_sent [OF assms(1-3)])
  fix n
  assume "k' = k\<lparr>kh_sent_length := n\<rparr>" "tr_sent t' = pre @ take n txt" "tr_parts t' = tr_parts t"
  then show ?thesis using more by simp
next
  assume "k' = nxt (k\<lparr>kh_sent_length := 0\<rparr>)" "tr_sent t' = pre @ txt" "tr_parts t' = tr_parts t"
  then show ?thesis using all by simp
next
  fix b
  assume "k' = k\<lparr>kh_again := b\<rparr>" "t' = t"
  then show ?thesis using assms(4) by (simp add: sent_ok_again)
next
  fix e d
  assume "k' = close_with ERR_SOCK_SEND (k\<lparr>kh_sock_error := e, kh_sock_error_detail := d\<rparr>)" "t' = t"
  then show ?thesis using assms(4) by (auto intro: sent_ok_ended [OF assms(4)])
qed

text \<open>These updates leave the texts, and the framing of the body, as they are.\<close>

lemma texts_sent_length [simp]:
  "head_text io (k\<lparr>kh_sent_length := n\<rparr>) = head_text io k"
  "body_text (k\<lparr>kh_sent_length := n\<rparr>) = body_text k"
  "part_text (k\<lparr>kh_sent_length := n\<rparr>) = part_text k"
  "has_req_body io (k\<lparr>kh_sent_length := n\<rparr>) = has_req_body io k"
  "body_whole (k\<lparr>kh_sent_length := n\<rparr>) = body_whole k"
  "body_open (k\<lparr>kh_sent_length := n\<rparr>) = body_open k"
  "body_frame (k\<lparr>kh_sent_length := n\<rparr>) = body_frame k"
proof -
  have r: "req_of (k\<lparr>kh_sent_length := n\<rparr>) = req_of k" by simp
  show "head_text io (k\<lparr>kh_sent_length := n\<rparr>) = head_text io k"
    "body_text (k\<lparr>kh_sent_length := n\<rparr>) = body_text k"
    "part_text (k\<lparr>kh_sent_length := n\<rparr>) = part_text k"
    "has_req_body io (k\<lparr>kh_sent_length := n\<rparr>) = has_req_body io k"
    "body_whole (k\<lparr>kh_sent_length := n\<rparr>) = body_whole k"
    by (rule req_of_all [OF r])+
  show "body_open (k\<lparr>kh_sent_length := n\<rparr>) = body_open k"
    "body_frame (k\<lparr>kh_sent_length := n\<rparr>) = body_frame k"
    by (simp_all add: body_open_def body_frame_def fun_eq_iff)
qed

lemma texts_state [simp]:
  "request_line (k\<lparr>kh_state := s\<rparr>) = request_line k" "host_header (k\<lparr>kh_state := s\<rparr>) = host_header k"
  "last_headers io (k\<lparr>kh_state := s\<rparr>) = last_headers io k"
  "head_text io (k\<lparr>kh_state := s\<rparr>) = head_text io k"
  "body_text (k\<lparr>kh_state := s\<rparr>) = body_text k" "part_text (k\<lparr>kh_state := s\<rparr>) = part_text k"
  "has_req_body io (k\<lparr>kh_state := s\<rparr>) = has_req_body io k"
  "body_whole (k\<lparr>kh_state := s\<rparr>) = body_whole k"
  "body_open (k\<lparr>kh_state := s\<rparr>) = body_open k"
  "body_frame (k\<lparr>kh_state := s\<rparr>) = body_frame k"
proof -
  have r: "req_of (k\<lparr>kh_state := s\<rparr>) = req_of k" by simp
  show "request_line (k\<lparr>kh_state := s\<rparr>) = request_line k" "host_header (k\<lparr>kh_state := s\<rparr>) = host_header k"
    "last_headers io (k\<lparr>kh_state := s\<rparr>) = last_headers io k"
    "head_text io (k\<lparr>kh_state := s\<rparr>) = head_text io k"
    "body_text (k\<lparr>kh_state := s\<rparr>) = body_text k" "part_text (k\<lparr>kh_state := s\<rparr>) = part_text k"
    "has_req_body io (k\<lparr>kh_state := s\<rparr>) = has_req_body io k"
    "body_whole (k\<lparr>kh_state := s\<rparr>) = body_whole k"
    by (rule req_of_all [OF r])+
  show "body_open (k\<lparr>kh_state := s\<rparr>) = body_open k"
    "body_frame (k\<lparr>kh_state := s\<rparr>) = body_frame k"
    by (simp_all add: body_open_def body_frame_def fun_eq_iff)
qed

lemma req_line_sent:
  assumes "khc_inv (traced io) k" "kh_state k = REQ_LINE" "sent_ok io k t"
    "khc_state_req_line (traced io) k (w, t) = (k', (w', t'))"
  shows "sent_ok io k' t'"
  by (rule send_state [OF assms(4) [unfolded khc_state_req_line_def], where pre = "[]"])
    (use assms in \<open>auto simp: khc_inv_def state_ok_def sent_ok_def\<close>)

lemma req_host_sent:
  assumes "khc_inv (traced io) k" "kh_state k = REQ_HOST_HEADER" "sent_ok io k t"
    "khc_state_req_host_header (traced io) k (w, t) = (k', (w', t'))"
  shows "sent_ok io k' t'"
  by (rule send_state [OF assms(4) [unfolded khc_state_req_host_header_def], where pre = "request_line k"])
    (use assms in \<open>auto simp: khc_inv_def state_ok_def sent_ok_def req_of_texts
      [of "k\<lparr>kh_sent_length := 0, kh_state := REQ_HEADER, kh_current_req_header := kh_req_headers k\<rparr>" k]\<close>)

lemma texts_current [simp]:
  "request_line (k\<lparr>kh_current_req_header := c\<rparr>) = request_line k"
  "host_header (k\<lparr>kh_current_req_header := c\<rparr>) = host_header k"
  by (simp_all add: request_defs)

lemma texts_traced [simp]:
  "last_headers (traced io) k = last_headers io k" "has_req_body (traced io) k = has_req_body io k"
  by (simp_all add: last_headers_def has_req_body_def)

lemma sent_ok_headerI:
  assumes "kh_state k = REQ_HEADER" "tr_parts t = []" "kh_sent_length k = 0"
    "kh_req_headers k = d @ kh_current_req_header k"
    "tr_sent t = request_line k @ host_header k @ headers_text d"
  shows "sent_ok io k t"
  using assms by (auto simp: sent_ok_def)

lemma req_header_sent:
  assumes "kh_state k = REQ_HEADER" "sent_ok io k t"
  shows "sent_ok io (khc_state_req_header k) t"
proof -
  obtain d where d: "tr_parts t = []" "kh_sent_length k = 0" "kh_req_headers k = d @ kh_current_req_header k"
    "tr_sent t = request_line k @ host_header k @ headers_text d"
    using assms by (auto simp: sent_ok_def)
  show ?thesis
  proof (cases "kh_current_req_header k")
    case Nil
    with assms(1) d show ?thesis by (simp add: sent_ok_def khc_state_req_header_def)
  next
    case (Cons h r)
    show ?thesis
    proof (cases "h = None \<or> h = Some []")
      case True
      then have e: "khc_state_req_header k = k\<lparr>kh_current_req_header := r\<rparr>" "headers_text [h] = []"
        using Cons by (auto simp: khc_state_req_header_def)
      have "kh_req_headers k = (d @ [h]) @ r" "headers_text (d @ [h]) = headers_text d"
        using d(3) Cons e(2) by simp_all
      with assms(1) d show ?thesis unfolding e by (intro sent_ok_headerI [of _ _ "d @ [h]"]) simp_all
    next
      case False
      then obtain s where s: "h = Some s" "s \<noteq> []" by (cases h) auto
      with Cons have e: "khc_state_req_header k = k\<lparr>kh_state := REQ_HEADER_SEND\<rparr>"
        by (simp add: khc_state_req_header_def)
      from d Cons s show ?thesis unfolding e sent_ok_def by simp
    qed
  qed
qed

lemma req_header_send_sent:
  assumes "khc_inv (traced io) k" "kh_state k = REQ_HEADER_SEND" "sent_ok io k t"
    "khc_state_req_header_send (traced io) k (w, t) = (k', (w', t'))"
  shows "sent_ok io k' t'"
proof -
  obtain d h r where d: "tr_parts t = []" "kh_req_headers k = d @ Some h # r"
    "kh_current_req_header k = Some h # r" "h \<noteq> []"
    "tr_sent t = (request_line k @ host_header k @ headers_text d) @ take (kh_sent_length k) h"
    using assms(2,3) by (auto simp: sent_ok_def)
  have l: "kh_sent_length k \<le> length h" using assms(1,2) d(3) by (auto simp: khc_inv_def state_ok_def)
  have e: "send_rest (traced io) h (\<lambda>k. k\<lparr>kh_state := REQ_HEADER_SEND_CRLF\<rparr>) k (w, t) = (k', (w', t'))"
    using assms(4) d(3) by (simp add: khc_state_req_header_send_def)
  show ?thesis
  proof (rule send_state [OF e l d(5) assms(3)])
    show "sent_ok io (k\<lparr>kh_sent_length := n\<rparr>) t'"
      if "tr_sent t' = (request_line k @ host_header k @ headers_text d) @ take n h" "tr_parts t' = tr_parts t" for n t'
      using that d assms(2) by (auto simp: sent_ok_def)
    show "sent_ok io ((k\<lparr>kh_sent_length := 0\<rparr>)\<lparr>kh_state := REQ_HEADER_SEND_CRLF\<rparr>) t'"
      if "tr_sent t' = (request_line k @ host_header k @ headers_text d) @ h" "tr_parts t' = tr_parts t" for t'
      using that d by (auto simp: sent_ok_def)
  qed
qed

lemma req_header_crlf_sent:
  assumes "khc_inv (traced io) k" "kh_state k = REQ_HEADER_SEND_CRLF" "sent_ok io k t"
    "khc_state_req_header_send_crlf (traced io) k (w, t) = (k', (w', t'))"
  shows "sent_ok io k' t'"
proof -
  obtain d h r where d: "tr_parts t = []" "kh_req_headers k = d @ Some h # r"
    "kh_current_req_header k = Some h # r" "h \<noteq> []"
    "tr_sent t = (request_line k @ host_header k @ headers_text d @ h) @ take (kh_sent_length k) [CR, LF]"
    using assms(2,3) by (auto simp: sent_ok_def)
  have l: "kh_sent_length k \<le> length [CR, LF]" using assms(1,2) by (auto simp: khc_inv_def state_ok_def)
  have e: "send_rest (traced io) [CR, LF]
      (\<lambda>k. k\<lparr>kh_current_req_header := r, kh_state := REQ_HEADER\<rparr>) k (w, t) = (k', (w', t'))"
    using assms(4) d(3) by (simp add: khc_state_req_header_send_crlf_def)
  have h: "headers_text (d @ [Some h]) = headers_text d @ h @ [CR, LF]" "kh_req_headers k = (d @ [Some h]) @ r"
    using d by simp_all
  show ?thesis
  proof (rule send_state [OF e l d(5) assms(3)])
    show "sent_ok io (k\<lparr>kh_sent_length := n\<rparr>) t'"
      if "tr_sent t' = (request_line k @ host_header k @ headers_text d @ h) @ take n [CR, LF]"
        "tr_parts t' = tr_parts t" for n t'
      using that d assms(2) by (auto simp: sent_ok_def)
    show "sent_ok io ((k\<lparr>kh_sent_length := 0\<rparr>)\<lparr>kh_current_req_header := r, kh_state := REQ_HEADER\<rparr>) t'"
      if "tr_sent t' = (request_line k @ host_header k @ headers_text d @ h) @ [CR, LF]"
        "tr_parts t' = tr_parts t" for t'
      using that d(1) h by (intro sent_ok_headerI [of _ _ "d @ [Some h]"]) simp_all
  qed
qed

lemma req_header_end_sent:
  assumes "khc_inv (traced io) k" "kh_state k = REQ_HEADER_END" "sent_ok io k t"
    "khc_state_req_header_end (traced io) k (w, t) = (k', (w', t'))"
  shows "sent_ok io k' t'"
proof -
  have d: "tr_parts t = []" "tr_sent t = (request_line k @ host_header k @ headers_text (kh_req_headers k)) @
      take (kh_sent_length k) (last_headers io k)"
    using assms(2,3) by (auto simp: sent_ok_def)
  have l: "kh_sent_length k \<le> length (last_headers io k)" using assms(1,2) by (simp add: khc_inv_def state_ok_def)
  note e = assms(4) [unfolded khc_state_req_header_end_def texts_traced]
  show ?thesis
  proof (rule send_state [OF e l d(2) assms(3)])
    fix n and t' :: trace
    assume "tr_sent t' = (request_line k @ host_header k @ headers_text (kh_req_headers k)) @
      take n (last_headers io k)" "tr_parts t' = tr_parts t"
    then show "sent_ok io (k\<lparr>kh_sent_length := n\<rparr>) t'" using d(1) assms(2) by (simp add: sent_ok_def)
  next
    fix t' :: trace
    assume t': "tr_sent t' = (request_line k @ host_header k @ headers_text (kh_req_headers k)) @
      last_headers io k" "tr_parts t' = tr_parts t"
    let ?k = "k\<lparr>kh_sent_length := 0\<rparr>"
    obtain kb where kb: "kb = ?k\<lparr>kh_req_body_left := kh_req_body_length ?k, kh_req_body_sent := 0,
      kh_state := REQ_BODY_READ, kh_read_req_end := False\<rparr>" by blast
    obtain kr where kr: "kr = ?k\<lparr>kh_header_read_size := 0, kh_state := RESP_STATUS_READ, kh_read_req_end := False\<rparr>"
      by blast
    have s: "tr_sent t' = head_text io k" "tr_parts t' = []" using t' d(1) by (simp_all add: head_text_def)
    have b: "req_of kb = req_of k" "req_of kr = req_of k" by (simp_all add: kb kr)
    have st: "kh_state kb = REQ_BODY_READ" "kh_state kr = RESP_STATUS_READ" "body_open kb []"
      by (simp_all add: kb kr body_open_def)
    have "sent_ok io kb t'" if "has_req_body io k"
      using s that by (simp add: sent_ok_def st req_of_all [OF b(1)])
    moreover have "sent_ok io kr t'" if "\<not> has_req_body io k"
      using s that by (simp add: sent_ok_def all_sent_def st req_of_all [OF b(2)])
    ultimately show "sent_ok io (let k1 = if has_req_body io ?k
         then ?k\<lparr>kh_req_body_left := kh_req_body_length ?k, kh_req_body_sent := 0, kh_state := REQ_BODY_READ\<rparr>
         else ?k\<lparr>kh_header_read_size := 0, kh_state := RESP_STATUS_READ\<rparr>
       in k1\<lparr>kh_read_req_end := False\<rparr>) t'"
      by (simp add: kb kr)
  qed
qed

lemma sent_ok_sendI:
  assumes "kh_state k' = REQ_BODY_SEND" "has_req_body io k'" "kh_sent_length k' = 0"
    and "tr_sent t' = head_text io k' @ body_text k' ps" "tr_parts t' = ps @ [p]" "body_frame k' = part_text k' p"
    and "if kh_read_req_end k' then body_whole k' (ps @ [p]) else body_open k' (ps @ [p])"
  shows "sent_ok io k' t'"
  using assms by (simp add: sent_ok_def)

lemma body_read_known_sent:
  assumes "io_ok io" "khc_inv (traced io) k" "kh_state k = REQ_BODY_READ" "sent_ok io k t"
    and known: "kh_req_body_length k \<noteq> BODY_LENGTH_UNKNOWN"
    and "body_read_known (traced io) k (w, t) = (k', (w', t'))"
  shows "sent_ok io k' t'"
proof -
  have s: "has_req_body io k" "body_open k (tr_parts t)" "tr_sent t = head_text io k @ body_text k (tr_parts t)"
    "kh_sent_length k = 0"
    using assms(2-4) by (auto simp: sent_ok_def khc_inv_def state_ok_def)
  obtain want where want: "want = (if kh_req_body_left k < ssize k then kh_req_body_left k else ssize k)" by blast
  obtain got b w1 where r: "io_read io want w = ((got, b), w1)" by (metis prod.exhaust)
  have wl: "want \<le> ssize k" "want \<le> kh_req_body_left k" by (simp_all add: want)
  note b = io_ok_read [OF assms(1) r]
  note e = assms(6) [unfolded body_read_known_def Let_def want [symmetric] traced_simps lift_def
      fst_conv snd_conv r prod.case]
  show ?thesis
  proof (cases "got = 0 \<or> got > want")
    case True
    with e have k': "k' = close_with ERR_READ_CALLBACK (k\<lparr>kh_stream_buff := mem_write (kh_stream_buff k) 0 b\<rparr>)"
      and t': "t' = (if got \<le> want then t\<lparr>tr_parts := tr_parts t @ [b]\<rparr> else t)" by (simp_all add: if_P)
    have c: "req_of k' = req_of k" "kh_state k' = CLOSE" "kh_result k' \<noteq> ERR_OK" by (simp_all add: k')
    have "part_text k b = b" using known by (simp add: part_text_def)
    moreover have "got \<le> want \<Longrightarrow> b = []" using True b by auto
    ultimately show ?thesis
      using s(3) c(2,3) by (simp add: sent_ok_def req_of_all [OF c(1)] t')
  next
    case False
    then have g: "got \<le> want" "length b = got" "0 < got" using b by auto
    obtain left where left: "left = kh_req_body_left k - got" by blast
    from e False have k': "k' = k\<lparr>kh_stream_buff := mem_write (kh_stream_buff k) 0 b, kh_req_body_left := left,
        kh_req_body_sent := uadd (kh_req_body_sent k) got, kh_read_size := got, kh_read_req_end := (left = 0),
        kh_req_frame_start := 0, kh_req_frame_size := got, kh_state := REQ_BODY_SEND\<rparr>"
      and t': "t' = t\<lparr>tr_parts := tr_parts t @ [b]\<rparr>" by (simp_all add: left if_not_P)
    have c: "req_of k' = req_of k" by (simp add: k')
    have "body_frame k' = b" using g wl by (simp add: body_frame_def k' mem_write_def)
    moreover have "part_text k b = b" using known by (simp add: part_text_def)
    moreover have "length (concat (tr_parts t @ [b])) + left = kh_req_body_length k"
      using s(2) known g wl(2) by (simp add: body_open_def left)
    ultimately show ?thesis
      using s known by (intro sent_ok_sendI [of _ _ _ "tr_parts t" b])
        (simp_all add: req_of_all [OF c] body_open_def body_whole_def, simp_all add: k' t')
  qed
qed

text \<open>The line of a chunk, its data and its CRLF, each written in place.\<close>

lemma mem_write_mid: "length a = off \<Longrightarrow> length x = length bs \<Longrightarrow> mem_write (a @ x @ y) off bs = a @ bs @ y"
  by (simp add: mem_write_def)

lemma framed_chunk:
  assumes "length line \<le> room" "length b = got" "room + got + length end' \<le> length buf"
  shows "take (length line + got + length end') (drop (room - length line)
    (mem_write (mem_write (mem_write buf room b) (room - length line) line) (room + got) end')) = line @ b @ end'"
proof -
  define a where "a = take (room - length line) buf"
  define l where "l = take (length line) (drop (room - length line) buf)"
  define d where "d = take got (drop room buf)"
  define e where "e = take (length end') (drop (room + got) buf)"
  define r where "r = drop (room + got + length end') buf"
  have n: "length a = room - length line" "length l = length line" "length d = got" "length e = length end'"
    using assms by (auto simp: a_def l_def d_def e_def)
  have split: "drop i buf = take m (drop i buf) @ drop (i + m) buf" for i m
    by (metis append_take_drop_id drop_drop add.commute)
  have "buf = a @ drop (room - length line) buf" unfolding a_def by simp
  also have "drop (room - length line) buf = l @ drop room buf"
    using split [of "room - length line" "length line"] assms(1) by (simp add: l_def)
  finally have "buf = a @ l @ drop room buf" .
  moreover have "drop room buf = d @ e @ r"
    unfolding d_def e_def r_def by (metis split)
  ultimately have buf: "buf = a @ l @ d @ e @ r" by simp
  have w1: "mem_write buf room b = a @ l @ b @ e @ r"
    using mem_write_mid [of "a @ l" room d b "e @ r"] n assms(1,2) by (simp add: buf)
  have w2: "mem_write (a @ l @ b @ e @ r) (room - length line) line = a @ line @ b @ e @ r"
    using mem_write_mid [of a _ l line "b @ e @ r"] n by simp
  have w3: "mem_write (a @ line @ b @ e @ r) (room + got) end' = a @ line @ b @ end' @ r"
    using mem_write_mid [of "a @ line @ b" "room + got" e end' r] n assms(1,2) by simp
  show ?thesis unfolding w1 w2 w3 using n assms(2) by simp
qed

lemma body_read_chunk_sent:
  assumes "io_ok io" "khc_inv (traced io) k" "kh_state k = REQ_BODY_READ" "sent_ok io k t"
    and unknown: "kh_req_body_length k = BODY_LENGTH_UNKNOWN"
    and h: "body_read_chunk (traced io) k (w, t) = (k', (w', t'))"
  shows "sent_ok io k' t'"
proof (cases "ssize k \<le> hex_digits_count (ssize k) + 2 + 2")
  case True
  with h have "k' = close_with ERR_TOO_LARGE_DATA k" "t' = t" by (simp_all add: body_read_chunk_def Let_def)
  then show ?thesis using sent_ok_ended [OF assms(4), of k'] by simp
next
  case False
  have s: "has_req_body io k" "[] \<notin> set (tr_parts t)" "tr_sent t = head_text io k @ body_text k (tr_parts t)"
    "kh_sent_length k = 0" "ssize k \<le> size_max"
    using assms(2-4) unknown by (auto simp: sent_ok_def khc_inv_def base_ok_def state_ok_def body_open_def)
  obtain room where room: "room = hex_digits_count (ssize k) + 2" by blast
  obtain cap where cap: "cap = ssize k - room - 2" by blast
  obtain got b w1 where r: "io_read io cap w = ((got, b), w1)" by (metis prod.exhaust)
  note b = io_ok_read [OF assms(1) r]
  have sz: "room + cap + 2 = ssize k" using False by (simp add: cap room)
  have nle: "\<not> ssize k \<le> room + 2" using False by (simp add: room)
  note e = h [unfolded body_read_chunk_def Let_def room [symmetric] cap [symmetric] if_not_P [OF nle]
      traced_simps lift_def fst_conv snd_conv r prod.case]
  show ?thesis
  proof (cases "got > cap")
    case True
    with e have "k' = close_with ERR_READ_CALLBACK (k\<lparr>kh_stream_buff := mem_write (kh_stream_buff k) room b\<rparr>)"
      "t' = t" by simp_all
    then show ?thesis using sent_ok_ended [OF assms(4), of k'] by simp
  next
    case g: False
    obtain line where line: "line = khc_chunk_size_line got" by blast
    have "hex_digits_count got \<le> hex_digits_count (ssize k)"
      using g sz by (intro hex_digits_count_mono) simp
    then have ll: "length line \<le> room" by (simp add: line length_chunk_line room)
    have us: "usub room (length line) = room - length line" using ll sz s(5) by (intro usub_le) simp_all
    have lb: "length b = got" "room + got + 2 \<le> ssize k" using b g sz by simp_all
    have l3: "length (mem_write (kh_stream_buff k) room b) = ssize k" using lb by simp
    have fits: "\<not> (room - length line + length line > ssize k \<or> room + got + 2 > ssize k)" using ll lb by simp
    note e2 = e [folded line, unfolded us khc.select_convs khc.update_convs l3 if_not_P [OF g] if_not_P [OF fits]]
    obtain buf where buf: "buf = mem_write (mem_write (mem_write (kh_stream_buff k) room b) (room - length line) line)
      (room + got) [CR, LF]" by blast
    from e2 g us ll lb l3 have k': "k' = k\<lparr>kh_stream_buff := buf, kh_req_frame_start := room - length line,
        kh_req_frame_size := length line + got + 2, kh_req_body_sent := uadd (kh_req_body_sent k) got,
        kh_read_size := got, kh_read_req_end := (got = 0), kh_state := REQ_BODY_SEND\<rparr>"
      and t': "t' = t\<lparr>tr_parts := tr_parts t @ [b]\<rparr>" by (auto simp: buf)
    have c: "req_of k' = req_of k" by (simp add: k')
    have p: "part_text k b = line @ b @ [CR, LF]" using unknown lb by (simp add: part_text_def line)
    have f: "body_frame k' = line @ b @ [CR, LF]"
      using framed_chunk [of line room b got "[CR, LF]" "kh_stream_buff k"] ll lb by (simp add: body_frame_def k' buf)
    have o: "if got = 0 then body_whole k' (tr_parts t @ [b]) else body_open k' (tr_parts t @ [b])"
      using s(2) lb(1) unknown by (auto simp: body_whole_def body_open_def k')
    have st: "kh_state k' = REQ_BODY_SEND" "kh_sent_length k' = 0" "kh_read_req_end k' = (got = 0)"
      "tr_parts t' = tr_parts t @ [b]" "tr_sent t' = head_text io k @ body_text k (tr_parts t)"
      using s by (simp_all add: k' t')
    show ?thesis
      by (rule sent_ok_sendI [of _ _ _ "tr_parts t" b]) (use s(1) st p f o in \<open>simp_all add: req_of_all [OF c]\<close>)
  qed
qed

lemma req_body_read_sent:
  assumes "io_ok io" "khc_inv (traced io) k" "kh_state k = REQ_BODY_READ" "sent_ok io k t"
    and "khc_state_req_body_read (traced io) k (w, t) = (k', (w', t'))"
  shows "sent_ok io k' t'"
  using assms body_read_known_sent [OF assms(1-4)] body_read_chunk_sent [OF assms(1-4)]
  by (auto simp: khc_state_req_body_read_def split: if_splits)

lemma req_body_send_sent:
  assumes "khc_inv (traced io) k" "kh_state k = REQ_BODY_SEND" "sent_ok io k t"
    "khc_state_req_body_send (traced io) k (w, t) = (k', (w', t'))"
  shows "sent_ok io k' t'"
proof -
  obtain ps p where d: "tr_parts t = ps @ [p]" "body_frame k = part_text k p" "has_req_body io k"
    "if kh_read_req_end k then body_whole k (ps @ [p]) else body_open k (ps @ [p])"
    "tr_sent t = (head_text io k @ body_text k ps) @ take (kh_sent_length k) (part_text k p)"
    using assms(2,3) by (auto simp: sent_ok_def simp del: if_split cong: if_cong)
  have i: "kh_req_frame_start k + kh_req_frame_size k \<le> ssize k" "kh_sent_length k \<le> kh_req_frame_size k"
    using assms(1,2) by (simp_all add: khc_inv_def state_ok_def)
  then have "length (body_frame k) = kh_req_frame_size k" by (auto simp: body_frame_def)
  then have l: "kh_sent_length k \<le> length (part_text k p)" using i(2) d(2) by simp
  note e = assms(4) [unfolded khc_state_req_body_send_def if_not_P [OF i(1) [THEN leD]] d(2)]
  show ?thesis
  proof (rule send_state [OF e l d(5) assms(3)])
    fix n and t' :: trace
    assume "tr_sent t' = (head_text io k @ body_text k ps) @ take n (part_text k p)" "tr_parts t' = tr_parts t"
    then show "sent_ok io (k\<lparr>kh_sent_length := n\<rparr>) t'" using d assms(2) by (simp add: sent_ok_def)
  next
    fix t' :: trace
    let ?k = "k\<lparr>kh_sent_length := 0\<rparr>"
    assume t': "tr_sent t' = (head_text io k @ body_text k ps) @ part_text k p" "tr_parts t' = tr_parts t"
    obtain kr where kr: "kr = ?k\<lparr>kh_header_read_size := 0, kh_state := RESP_STATUS_READ\<rparr>" by blast
    have c: "req_of kr = req_of k" "kh_state kr = RESP_STATUS_READ" by (simp_all add: kr)
    have "sent_ok io kr t'" if "kh_read_req_end k"
      using t' d that by (simp add: sent_ok_def all_sent_def c(2) req_of_all [OF c(1)])
    moreover have "sent_ok io (?k\<lparr>kh_state := REQ_BODY_READ\<rparr>) t'" if "\<not> kh_read_req_end k"
      using t' d that by (simp add: sent_ok_def)
    ultimately show "sent_ok io (if kh_read_req_end ?k then ?k\<lparr>kh_header_read_size := 0, kh_state := RESP_STATUS_READ\<rparr>
        else ?k\<lparr>kh_state := REQ_BODY_READ\<rparr>) t'"
      by (simp add: kr)
  qed
qed

section \<open>Reading the response sends nothing\<close>

definition replies :: "khc \<Rightarrow> khc \<Rightarrow> bool" where
  "replies k k' \<longleftrightarrow> req_of k' = req_of k \<and> (responding (kh_state k') \<or> kh_state k' = CLOSE)"

definition quiet :: "khc \<Rightarrow> trace \<Rightarrow> khc \<times> 'w \<times> trace \<Rightarrow> bool" where
  "quiet k t x \<longleftrightarrow> replies k (fst x) \<and> tr_sent (snd (snd x)) = tr_sent t \<and> tr_parts (snd (snd x)) = tr_parts t"

lemma quiet_pair [simp]:
  "quiet k t (k', (w', t')) \<longleftrightarrow> replies k k' \<and> tr_sent t' = tr_sent t \<and> tr_parts t' = tr_parts t"
  by (simp add: quiet_def)

lemma replies_state [simp]:
  "replies k (k'\<lparr>kh_state := s\<rparr>) \<longleftrightarrow> req_of k' = req_of k \<and> (responding s \<or> s = CLOSE)"
  by (simp add: replies_def)

lemma replies_updates [simp]:
  "replies k (k'\<lparr>kh_result := r\<rparr>) = replies k k'" "replies k (k'\<lparr>kh_again := b\<rparr>) = replies k k'"
  "replies k (k'\<lparr>kh_fault := b\<rparr>) = replies k k'"
  "replies k (k'\<lparr>kh_sock_error := e\<rparr>) = replies k k'" "replies k (k'\<lparr>kh_sock_error_detail := d\<rparr>) = replies k k'"
  "replies k (k'\<lparr>kh_header_read_size := n\<rparr>) = replies k k'" "replies k (k'\<lparr>kh_header_buff := x\<rparr>) = replies k k'"
  "replies k (k'\<lparr>kh_stream_buff := x\<rparr>) = replies k k'" "replies k (k'\<lparr>kh_body_read_size := n\<rparr>) = replies k k'"
  "replies k (k'\<lparr>kh_read_end := b\<rparr>) = replies k k'"
  "replies k (k'\<lparr>kh_status_line_given := b\<rparr>) = replies k k'" "replies k (k'\<lparr>kh_resp_date := x3\<rparr>) = replies k k'"
  "replies k (k'\<lparr>kh_content_length := n\<rparr>) = replies k k'" "replies k (k'\<lparr>kh_has_content_length := b\<rparr>) = replies k k'"
  "replies k (k'\<lparr>kh_chunked_resp := b\<rparr>) = replies k k'" "replies k (k'\<lparr>kh_header_skipped := b\<rparr>) = replies k k'"
  "replies k (k'\<lparr>kh_chunk_size := n\<rparr>) = replies k k'" "replies k (k'\<lparr>kh_chunk_size_written := n\<rparr>) = replies k k'"
  "replies k (k'\<lparr>kh_body_received := n\<rparr>) = replies k k'" "replies k (k'\<lparr>kh_trailer_end_matched := n\<rparr>) = replies k k'"
  by (simp_all add: replies_def)

lemma replies_req: "replies k k' \<Longrightarrow> (req_of k' = req_of k) = True"
  by (simp add: replies_def)

lemma replies_self: "responding (kh_state k) \<Longrightarrow> replies k k"
  by (simp add: replies_def)

lemma replies_moves [simp]:
  "replies k (store_header b k') = replies k k'" "replies k (drop_header n k') = replies k k'"
  "replies k (drop_stream n k') = replies k k'" "replies k (closed_early k') = replies k k'"
  "req_of (store_header b k') = req_of k'" "req_of (drop_header n k') = req_of k'"
  "req_of (drop_stream n k') = req_of k'"
  by (simp_all add: store_header_def drop_header_def drop_stream_def closed_early_def Let_def)

lemma record_sock_error_quiet:
  assumes "replies k k'"
  shows "quiet k t (case record_sock_error (traced io) k' (w, t) of (k1, w1) \<Rightarrow> (close_with r k1, w1))"
proof -
  obtain k1 w1 t1 where e: "record_sock_error (traced io) k' (w, t) = (k1, (w1, t1))" by (metis prod.exhaust)
  with record_sock_error_frame [OF e] record_sock_error_trace [OF e] assms show ?thesis
    by (auto simp: replies_def)
qed

lemma recv_io_quiet:
  assumes "replies k k'" "\<And>bytes. replies k (got bytes k')"
  shows "quiet k t (recv_io (traced io) req got k' (w, t))"
proof -
  obtain c b w1 where r: "io_recv io req w = ((c, b), w1)" by (metis prod.exhaust)
  have f: "quiet k t (case record_sock_error (traced io) k' (w1, t) of (k1, w2) \<Rightarrow> (close_with ERR_SOCK_RECV k1, w2))"
    by (rule record_sock_error_quiet [OF assms(1)])
  from f assms show ?thesis by (cases c) (simp_all add: recv_io_def lift_def r)
qed

lemma recv_header_quiet:
  assumes "replies k k'" "\<And>bytes k1. replies k k1 \<Longrightarrow> replies k (got bytes k1)"
  shows "quiet k t (recv_header (traced io) got k' (w, t))"
  using assms by (auto simp: recv_header_def intro!: recv_io_quiet)

lemma recv_stream_quiet:
  assumes "replies k k'" "\<And>bytes k1. replies k k1 \<Longrightarrow> replies k (got bytes k1)"
  shows "quiet k t (recv_stream (traced io) off req got k' (w, t))"
  using assms by (auto simp: recv_stream_def intro!: recv_io_quiet)

lemma replies_end_resp_body [simp]: "replies k (end_resp_body k') \<longleftrightarrow> req_of k' = req_of k"
  by (simp add: end_resp_body_def closed_early_def Let_def)

lemma replies_body_given: "replies k k' \<Longrightarrow> responding s \<Longrightarrow> replies k (body_given s k')"
  by (simp add: body_given_def replies_req)

lemma replies_move:
  assumes "replies k k'" "move_resp_header_to_stream k' = Some k1"
  shows "replies k k1"
  using assms by (auto simp: move_resp_header_to_stream_def Let_def split: if_splits)

lemma responding_simps [simp]:
  "responding RESP_STATUS_READ" "responding RESP_STATUS_PARSE" "responding RESP_HEADER_CALLBACK"
  "responding RESP_HEADER_READ" "responding RESP_HEADER_SKIP" "responding RESP_BODY_FRAGMENT"
  "responding READ_CHUNK_SIZE_FROM_HEADER_BUFF" "responding READ_CHUNK_BODY_FROM_HEADER_BUFF"
  "responding RESP_BODY_READ" "responding RESP_BODY_CALLBACK" "responding RESP_BODY_PARSE_CHUNK_SIZE"
  "responding RESP_BODY_READ_CHUNK_SIZE" "responding RESP_BODY_PARSE_CHUNK_BODY"
  "responding RESP_BODY_READ_CHUNK_BODY" "responding RESP_BODY_SKIP_CHUNK_BODY_CRLF"
  "responding RESP_BODY_SKIP_TRAILERS"
  by (simp_all add: responding_def)

lemma frame_header_replies: "replies k k' \<Longrightarrow> frame_header line k' = (k1, ok) \<Longrightarrow> replies k k1"
  by (auto simp: frame_header_def replies_req split: parsed.splits if_splits)

lemma end_of_head_replies: "replies k k' \<Longrightarrow> replies k (end_of_head k')"
  by (simp add: end_of_head_def replies_req)

lemma status_parse_replies:
  "kh_state k = RESP_STATUS_PARSE \<Longrightarrow> replies k (khc_state_resp_status_parse k)"
  by (simp add: khc_state_resp_status_parse_def Let_def split: option.split)

lemma status_read_quiet:
  "kh_state k = RESP_STATUS_READ \<Longrightarrow> quiet k t (khc_state_resp_status_read (traced io) k (w, t))"
  unfolding khc_state_resp_status_read_def
  by (rule recv_header_quiet) (simp_all add: replies_self replies_req Let_def)

lemma header_callback_quiet:
  assumes "kh_state k = RESP_HEADER_CALLBACK"
  shows "quiet k t (khc_state_resp_header_callback (traced io) k (w, t))"
proof -
  have r: "replies k k" using assms by (simp add: replies_self)
  show ?thesis
  proof (cases "find_crlf (header_data k)")
    case None
    then show ?thesis using r by (simp add: khc_state_resp_header_callback_def)
  next
    case (Some n)
    obtain m w1 where h: "io_header io (take n (kh_header_buff k)) w = (m, w1)" by (metis prod.exhaust)
    obtain k1 where k1: "k1 = k\<lparr>kh_status_line_given := True,
      kh_resp_date := record_resp_date (kh_resp_date_floor k) (kh_resp_date k) (Some (take n (kh_header_buff k)))\<rparr>" by blast
    obtain k2 ok where f: "frame_header (take n (kh_header_buff k)) k1 = (k2, ok)" by (metis prod.exhaust)
    have "replies k k1" using r by (simp add: k1)
    from frame_header_replies [OF this f] have "replies k k2" .
    then show ?thesis
      using r Some h f by (simp add: khc_state_resp_header_callback_def Let_def lift_def end_of_head_replies flip: k1)
  qed
qed

lemma header_read_quiet:
  "kh_state k = RESP_HEADER_READ \<Longrightarrow> quiet k t (khc_state_resp_header_read (traced io) k (w, t))"
  unfolding khc_state_resp_header_read_def
  by (rule recv_header_quiet) (simp_all add: replies_self replies_req)

lemma header_skip_quiet:
  assumes "kh_state k = RESP_HEADER_SKIP"
  shows "quiet k t (khc_state_resp_header_skip (traced io) k (w, t))"
proof -
  have r: "replies k k" using assms by (simp add: replies_self)
  have s: "quiet k t (recv_header (traced io) skip_read k1 (w, t))" if "replies k k1" for k1
    using that
    by (rule recv_header_quiet) (simp add: skip_read_def Let_def replies_req split: option.split)
  show ?thesis using r by (simp add: khc_state_resp_header_skip_def Let_def s)
qed

lemma body_fragment_quiet:
  assumes "kh_state k = RESP_BODY_FRAGMENT"
  shows "quiet k t (khc_state_resp_body_fragment (traced io) k (w, t))"
proof -
  have r: "replies k k" using assms by (simp add: replies_self)
  obtain m w1 where h: "io_write io (take (resp_body_part k (kh_header_read_size k)) (kh_header_buff k)) w = (m, w1)"
    by (metis prod.exhaust)
  show ?thesis
    using r by (simp add: khc_state_resp_body_fragment_def Let_def lift_def h replies_body_given)
qed

lemma body_read_quiet:
  "kh_state k = RESP_BODY_READ \<Longrightarrow> quiet k t (khc_state_resp_body_read (traced io) k (w, t))"
  unfolding khc_state_resp_body_read_def
  by (rule recv_stream_quiet) (simp_all add: replies_self replies_req Let_def)

lemma body_callback_quiet:
  assumes "kh_state k = RESP_BODY_CALLBACK"
  shows "quiet k t (khc_state_resp_body_callback (traced io) k (w, t))"
proof -
  have r: "replies k k" using assms by (simp add: replies_self)
  obtain m w1 where h: "io_write io (take (resp_body_part k (kh_body_read_size k)) (kh_stream_buff k)) w = (m, w1)"
    by (metis prod.exhaust)
  show ?thesis
    using r by (simp add: khc_state_resp_body_callback_def Let_def lift_def h replies_body_given)
qed

lemma from_header_buff_replies:
  assumes "replies k k"
  shows "replies k (khc_state_read_chunk_size_from_header_buff k)"
    "replies k (khc_state_read_chunk_body_from_header_buff k)"
  using assms
  by (simp_all add: khc_state_read_chunk_size_from_header_buff_def
      khc_state_read_chunk_body_from_header_buff_def replies_req [OF replies_move] split: option.split)

lemma parse_chunk_size_replies:
  "replies k k \<Longrightarrow> replies k (khc_state_resp_body_parse_chunk_size k)"
  by (simp add: khc_state_resp_body_parse_chunk_size_def Let_def split: parsed.split option.split)

lemma read_chunk_size_quiet:
  "replies k k \<Longrightarrow> quiet k t (khc_state_resp_body_read_chunk_size (traced io) k (w, t))"
  unfolding khc_state_resp_body_read_chunk_size_def Let_def
  by (simp, intro impI recv_stream_quiet) (simp_all add: replies_req)

lemma parse_chunk_body_quiet:
  assumes "replies k k"
  shows "quiet k t (khc_state_resp_body_parse_chunk_body (traced io) k (w, t))"
proof -
  obtain n where n: "n = (if usub (kh_chunk_size k) (kh_chunk_size_written k) > kh_body_read_size k
    then kh_body_read_size k else usub (kh_chunk_size k) (kh_chunk_size_written k))" by blast
  obtain m w1 where h: "io_write io (take n (kh_stream_buff k)) w = (m, w1)" by (metis prod.exhaust)
  show ?thesis
    unfolding khc_state_resp_body_parse_chunk_body_def Let_def n [symmetric]
    using assms by (simp add: lift_def h)
qed

lemma read_chunk_body_quiet:
  "replies k k \<Longrightarrow> quiet k t (khc_state_resp_body_read_chunk_body (traced io) k (w, t))"
  unfolding khc_state_resp_body_read_chunk_body_def
  by (rule recv_stream_quiet) (simp_all add: replies_req)

lemma skip_crlf_quiet:
  assumes "replies k k"
  shows "quiet k t (khc_state_resp_body_skip_chunk_body_crlf (traced io) k (w, t))"
proof -
  have "quiet k t (recv_io (traced io) req crlf_read k (w, t))" for req
    using assms by (rule recv_io_quiet) (use assms in \<open>simp add: crlf_read_def Let_def\<close>)
  moreover have "replies k (case move_resp_header_to_stream k of None \<Rightarrow> k | Some k' \<Rightarrow> k')"
    using assms replies_move [OF assms] by (simp split: option.split)
  ultimately show ?thesis using assms by (simp add: khc_state_resp_body_skip_chunk_body_crlf_def Let_def)
qed

lemma skip_trailers_quiet:
  assumes "replies k k"
  shows "quiet k t (khc_state_resp_body_skip_trailers (traced io) k (w, t))"
proof -
  have "quiet k t (recv_stream (traced io) 0 n (\<lambda>bytes k. if bytes = [] then k\<lparr>kh_state := CLOSE\<rparr>
      else k\<lparr>kh_body_read_size := length bytes\<rparr>) k1 (w, t))" if "replies k k1" for k1 n
    using that by (rule recv_stream_quiet) (simp add: replies_req)
  moreover obtain m b where m: "find_trailer_end (kh_trailer_end_matched k) (stream_data k) = (m, b)"
    by (metis prod.exhaust)
  moreover obtain m2 b2 where m2: "find_trailer_end m (header_data k) = (m2, b2)" by (metis prod.exhaust)
  ultimately show ?thesis
    using assms by (cases b; cases b2) (simp_all add: khc_state_resp_body_skip_trailers_def)
qed

lemma response_quiet:
  assumes "responding (kh_state k)"
  shows "quiet k t (state_handlers (traced io) k (w, t))"
proof -
  have r: "replies k k" using assms by (rule replies_self)
  show ?thesis
    using assms r
    by (cases "kh_state k")
      (simp_all add: state_handlers_def responding_def status_parse_replies status_read_quiet header_callback_quiet
        header_read_quiet header_skip_quiet body_fragment_quiet body_read_quiet body_callback_quiet
        from_header_buff_replies parse_chunk_size_replies read_chunk_size_quiet parse_chunk_body_quiet
        read_chunk_body_quiet skip_crlf_quiet skip_trailers_quiet)
qed

section \<open>Along a run\<close>

lemma connect_sent:
  assumes "kh_state k = CONNECT" "sent_ok io k t" "khc_state_connect (traced io) k (w, t) = (k', (w', t'))"
  shows "sent_ok io k' t'" "req_of k' = req_of k"
proof -
  obtain c w1 where c: "io_connect io (kh_host k) (if kh_enable_insecure k then 80 else 443) w = (c, w1)"
    by (metis prod.exhaust)
  obtain k1 w2 t2 where e: "record_sock_error (traced io) k (w1, t) = (k1, (w2, t2))" by (metis prod.exhaust)
  obtain x d where k1: "k1 = k\<lparr>kh_sock_error := x, kh_sock_error_detail := d\<rparr>"
    using record_sock_error_frame [OF e] by blast
  have t2: "t2 = t" using e by (rule record_sock_error_trace)
  have s: "tr_sent t = []" "tr_parts t = []" using assms(1,2) by (simp_all add: sent_ok_def)
  show "sent_ok io k' t'" "req_of k' = req_of k"
    using assms(3) c e s by (cases c; auto simp: khc_state_connect_def lift_def sent_ok_def k1 t2 assms(1))+
qed

text \<open>A state but the first keeps what the request's text depends on, and what was sent with it.\<close>

lemma send_rest_req:
  assumes "kh_sent_length k \<le> length txt" "\<And>n. req_of (nxt (k\<lparr>kh_sent_length := n\<rparr>)) = req_of k"
  shows "req_of (fst (send_rest io txt nxt k w)) = req_of k"
  using assms(1) by (cases rule: send_rest_cases [where io = io and nxt = nxt and w = w]) (simp_all add: assms(2))

lemma close_sent:
  assumes "kh_state k = CLOSE" "sent_ok io k t" "khc_state_close (traced io) k (w, t) = (k', (w', t'))"
  shows "sent_ok io k' t'" "req_of k' = req_of k"
proof -
  obtain c w1 where c: "io_close io w = (c, w1)" by (metis prod.exhaust)
  have s: "kh_result k = ERR_OK \<Longrightarrow> all_sent io k t" using assms(1,2) by (simp add: sent_ok_def)
  have k': "req_of k' = req_of k" "kh_state k' = CLOSE \<or> kh_state k' = FINISHED" "kh_result k' = kh_result k" "t' = t"
    using assms(1,3) c by (cases c; auto simp: khc_state_close_def lift_def)+
  then show "sent_ok io k' t'" "req_of k' = req_of k"
    using sent_ok_ended [OF assms(2) k'(1,2)] s by auto
qed

lemma response_sent:
  assumes "responding (kh_state k)" "sent_ok io k t" "state_handlers (traced io) k (w, t) = (k', (w', t'))"
  shows "sent_ok io k' t'" "req_of k' = req_of k"
proof -
  have q: "req_of k' = req_of k" "responding (kh_state k') \<or> kh_state k' = CLOSE"
    "tr_sent t' = tr_sent t" "tr_parts t' = tr_parts t"
    using response_quiet [OF assms(1), of t io w] assms(3) by (simp_all add: replies_def)
  have "all_sent io k t" using assms(1,2) by (auto simp: sent_ok_def responding_def)
  then have a: "all_sent io k' t'" by (simp add: all_sent_def q(3,4) req_of_all [OF q(1)])
  moreover from a have "prefix (tr_sent t') (head_text io k' @ body_text k' (tr_parts t'))" by (simp add: all_sent_def)
  ultimately show "sent_ok io k' t'" using q(2) by (auto simp: sent_ok_def responding_def)
  show "req_of k' = req_of k" by (rule q)
qed

lemma body_read_req:
  assumes "io_ok io" "khc_inv io k" "kh_state k = REQ_BODY_READ"
  shows "req_of (fst (khc_state_req_body_read io k w)) = req_of k"
proof -
  have "req_of (fst (body_read_known io k w)) = req_of k"
    by (simp add: body_read_known_def Let_def split: prod.split)
  moreover have "req_of (fst (body_read_chunk io k w)) = req_of k"
    by (simp add: body_read_chunk_def Let_def split: prod.split)
  ultimately show ?thesis by (simp add: khc_state_req_body_read_def)
qed

definition requesting :: "khc_state \<Rightarrow> bool" where
  "requesting s \<longleftrightarrow> s \<in> {REQ_LINE, REQ_HOST_HEADER, REQ_HEADER, REQ_HEADER_SEND, REQ_HEADER_SEND_CRLF,
     REQ_HEADER_END, REQ_BODY_READ, REQ_BODY_SEND}"

lemma request_req:
  assumes "io_ok io" "khc_inv io k" "requesting (kh_state k)"
  shows "req_of (fst (state_handlers io k w)) = req_of k"
proof (cases "kh_state k")
  case REQ_HEADER
  then show ?thesis
    by (auto simp: state_handlers_def khc_state_req_header_def split: list.split option.split)
next
  case REQ_HEADER_SEND
  with assms(2) obtain d ds where d: "kh_current_req_header k = Some d # ds" "kh_sent_length k \<le> length d"
    by (auto simp: khc_inv_def state_ok_def)
  then show ?thesis
    using REQ_HEADER_SEND by (simp add: state_handlers_def khc_state_req_header_send_def send_rest_req)
next
  case REQ_HEADER_SEND_CRLF
  with assms(2) obtain d ds where d: "kh_current_req_header k = d # ds" "kh_sent_length k \<le> length [CR, LF]"
    by (cases "kh_current_req_header k") (auto simp: khc_inv_def state_ok_def)
  then show ?thesis
    using REQ_HEADER_SEND_CRLF
    by (simp add: state_handlers_def khc_state_req_header_send_crlf_def send_rest_req)
next
  case REQ_BODY_SEND
  with assms(2) have l: "kh_req_frame_start k + kh_req_frame_size k \<le> ssize k" "kh_sent_length k \<le> kh_req_frame_size k"
    by (simp_all add: khc_inv_def state_ok_def)
  then have "kh_sent_length k \<le> length (body_frame k)" by (auto simp: body_frame_def)
  then show ?thesis
    using REQ_BODY_SEND l by (simp add: state_handlers_def khc_state_req_body_send_def send_rest_req)
qed (use assms in \<open>simp_all add: requesting_def state_handlers_def khc_inv_def state_ok_def body_read_req
    khc_state_req_line_def khc_state_req_host_header_def khc_state_req_header_end_def send_rest_req Let_def\<close>)

lemma request_sent:
  assumes "io_ok io" "khc_inv (traced io) k" "requesting (kh_state k)" "sent_ok io k t"
    and h: "state_handlers (traced io) k (w, t) = (k', (w', t'))"
  shows "sent_ok io k' t'"
proof (cases "kh_state k")
  case REQ_LINE
  from req_line_sent [OF assms(2) this assms(4)] h REQ_LINE show ?thesis by (simp add: state_handlers_def)
next
  case REQ_HOST_HEADER
  from req_host_sent [OF assms(2) this assms(4)] h REQ_HOST_HEADER show ?thesis by (simp add: state_handlers_def)
next
  case REQ_HEADER
  from req_header_sent [OF this assms(4)] h REQ_HEADER show ?thesis by (auto simp: state_handlers_def)
next
  case REQ_HEADER_SEND
  from req_header_send_sent [OF assms(2) this assms(4)] h REQ_HEADER_SEND show ?thesis
    by (simp add: state_handlers_def)
next
  case REQ_HEADER_SEND_CRLF
  from req_header_crlf_sent [OF assms(2) this assms(4)] h REQ_HEADER_SEND_CRLF show ?thesis
    by (simp add: state_handlers_def)
next
  case REQ_HEADER_END
  from req_header_end_sent [OF assms(2) this assms(4)] h REQ_HEADER_END show ?thesis
    by (simp add: state_handlers_def)
next
  case REQ_BODY_READ
  from req_body_read_sent [OF assms(1,2) this assms(4)] h REQ_BODY_READ show ?thesis
    by (simp add: state_handlers_def)
next
  case REQ_BODY_SEND
  from req_body_send_sent [OF assms(2) this assms(4)] h REQ_BODY_SEND show ?thesis
    by (simp add: state_handlers_def)
qed (use assms(3) in \<open>simp_all add: requesting_def\<close>)

text \<open>
  What the request is once the first state has filled in what was left out of it.
\<close>

lemma idle_req:
  "req_of k' = req_of k \<Longrightarrow> req_of (khc_state_idle k') = req_of (khc_state_idle k)"
  "req_of (khc_state_idle (khc_state_idle k)) = req_of (khc_state_idle k)"
  by (auto simp: khc_state_idle_def Let_def req_of_def)

definition sends :: "'w khc_io \<Rightarrow> khc \<Rightarrow> khc \<Rightarrow> trace \<Rightarrow> bool" where
  "sends io q k t \<longleftrightarrow> sent_ok io k t \<and> req_of (khc_state_idle k) = req_of q \<and>
     (req_of k = req_of q \<or> kh_state k = IDLE \<or>
      kh_state k = FINISHED \<and> tr_sent t = [] \<and> kh_result k \<noteq> ERR_OK)"

lemma req_of_stop [simp]: "req_of (stop k r) = req_of k"
  by (simp add: stop_def)

lemma sends_stop:
  assumes "sends io q k t" "r \<noteq> ERR_OK" "kh_state k \<noteq> FINISHED"
  shows "sends io q (stop k r) t"
proof -
  have s: "sent_ok io k t" using assms(1) by (simp add: sends_def)
  have r: "kh_state (stop k r) = CLOSE \<or> kh_state (stop k r) = FINISHED"
    "kh_result (stop k r) = ERR_OK \<Longrightarrow> kh_state k = CLOSE \<and> kh_result k = ERR_OK"
    using assms(2) by (auto simp: stop_def split: if_splits)
  have a: "kh_result (stop k r) = ERR_OK \<Longrightarrow> all_sent io k t"
    using r(2) s by (simp add: sent_ok_def)
  have "sent_ok io (stop k r) t" by (rule sent_ok_ended [OF s _ r(1) a]) simp_all
  moreover have "kh_state k = IDLE \<Longrightarrow> kh_state (stop k r) = FINISHED \<and> tr_sent t = [] \<and> kh_result (stop k r) \<noteq> ERR_OK"
    using s assms(2) by (simp add: stop_def sent_ok_def)
  ultimately show ?thesis using assms(1,3) idle_req(1) [of "stop k r" k] by (auto simp: sends_def)
qed

lemma sends_again: "sends io q k t \<Longrightarrow> sends io q (k\<lparr>kh_again := b\<rparr>) t"
  using idle_req(1) [of "k\<lparr>kh_again := b\<rparr>" k] by (simp add: sends_def sent_ok_again)

lemma sends_handler:
  assumes "io_ok io" "khc_inv (traced io) k" "kh_state k \<noteq> FINISHED" "sends io q k t"
    and h: "state_handlers (traced io) k (w, t) = (k', (w', t'))"
  shows "sends io q k' t'"
proof -
  have s: "sent_ok io k t" using assms(4) by (simp add: sends_def)
  have c: "kh_state k = IDLE \<or> kh_state k = CONNECT \<or> requesting (kh_state k) \<or> responding (kh_state k) \<or> kh_state k = CLOSE"
    using assms(2,3) by (cases "kh_state k") (simp_all add: requesting_def khc_inv_def state_ok_def)
  show ?thesis
  proof (cases "kh_state k = IDLE")
    case True
    with h have k': "k' = khc_state_idle k" "t' = t" by (simp_all add: state_handlers_def)
    have "kh_state k' = CONNECT" by (simp add: k' khc_state_idle_def Let_def)
    with k' True s assms(4) show ?thesis by (simp add: sends_def sent_ok_def idle_req(2))
  next
    case False
    have r: "sent_ok io k' t' \<and> req_of k' = req_of k"
      using c
    proof (elim disjE)
      assume "kh_state k = CONNECT"
      with connect_sent [OF this s] h show ?thesis by (simp add: state_handlers_def)
    next
      assume r: "requesting (kh_state k)"
      show ?thesis
        using request_sent [OF assms(1,2) r s h] request_req [OF traced_ok [OF assms(1)] assms(2) r, of "(w, t)"] h by simp
    next
      assume "responding (kh_state k)"
      with response_sent [OF this s h] show ?thesis by simp
    next
      assume "kh_state k = CLOSE"
      with close_sent [OF this s] h show ?thesis by (simp add: state_handlers_def)
    qed (use False in simp)
    with assms(3,4) False idle_req(1) [of k' k] show ?thesis by (simp add: sends_def)
  qed
qed

lemma khc_start_req:
  assumes "khc_start (traced io) k (w, t) = (Inr k', (w', t'))"
  shows "req_of k' = req_of k" "kh_state k' = IDLE" "t' = t" "kh_result k' = ERR_OK"
  using assms
  by (auto simp: khc_start_def alloc_header_def alloc_stream_def lift_def Let_def req_of_fields
      split: if_splits prod.splits option.splits)

section \<open>Property\<close>


text \<open>A world whose socket takes seven bytes at a time, and whose read callback gives the last part of the script.\<close>

definition post_io :: "script khc_io" where
  "post_io = script_io\<lparr>has_cb_read := True,
     io_send := (\<lambda>b (ps, sent, body). ((SOCK_OK, min 7 (length b)), (ps, sent @ take 7 b, body))),
     io_write := (\<lambda>b w. (length b, w)),
     io_read := (\<lambda>n (ps, sent, body). ((min n (length body), take n body), (ps, sent, drop n body)))\<rparr>"

definition post :: khc where
  "post = fst (khc_set_req_headers (fst (khc_set_method (request 40 20) ''POST'')) [Some ''A: b'', None])"

definition post_script :: script where
  "post_script = ([Some (''HTTP/1.1 204 No Content'' @ [CR, LF, CR, LF])], [], ''0123456789abcdefg'')"

lemma post_io_ok: "io_ok post_io"
  unfolding io_ok_def post_io_def script_io_def
  by (auto split: list.splits option.splits)


end
