(* ===== verification/Mqtt_Packet.thy ===== *)
theory Mqtt_Packet
  imports Ebisu_Prelude "HOL-Library.Monad_Syntax"
begin

text \<open>
  kii/kii\_mqtt\_task.c: the packets of MQTT the push task writes and reads, as bytes.  A packet
  is built in the buffer as the code builds it, every write of it checked: \<open>None\<close> is a write out
  of its bounds, which the code has no counterpart of.
\<close>

unbundle bit_operations_syntax

section \<open>Remaining lengths\<close>

text \<open>\<open>rc\<close> is how many bytes are written already.\<close>

function mqtt_encode_loop :: "nat \<Rightarrow> nat \<Rightarrow> string" where
  "mqtt_encode_loop remaining_length rc =
     (let d = remaining_length mod 128;
          remaining_length' = remaining_length div 128;
          d' = (if remaining_length' > 0 then d OR 0x80 else d)
      in char_of d' #
         (if remaining_length' > 0 \<and> Suc rc < 5 then mqtt_encode_loop remaining_length' (Suc rc) else []))"
  by pat_completeness auto
termination by (relation "measure (\<lambda>(n, rc). 5 - rc)") auto

declare mqtt_encode_loop.simps [simp del]

definition mqtt_encode :: "nat \<Rightarrow> string" where
  "mqtt_encode remaining_length = mqtt_encode_loop remaining_length 0"

text \<open>\<open>None\<close> for the -1 it returns; and the length with how many bytes it took.\<close>

function mqtt_decode_loop :: "string \<Rightarrow> nat \<Rightarrow> nat \<Rightarrow> nat \<Rightarrow> (nat \<times> nat) option" where
  "mqtt_decode_loop buf i multiplier n =
     (if i > 3 then None
      else
        (let n' = n + (code (buf ! i) AND 127) * multiplier in
         if code (buf ! i) AND 128 \<noteq> 0 then mqtt_decode_loop buf (Suc i) (multiplier * 128) n'
         else if Suc i > 1 \<and> buf ! i = NUL then None
         else Some (n', Suc i)))"
  by pat_completeness auto
termination by (relation "measure (\<lambda>(buf, i, m, n). 4 - i)") auto

declare mqtt_decode_loop.simps [simp del]

definition mqtt_decode :: "string \<Rightarrow> (nat \<times> nat) option" where
  "mqtt_decode buf = mqtt_decode_loop buf 0 1 0"

section \<open>What the packets carry\<close>

datatype mqtt_qos = QOS_0 | QOS_1

datatype mqtt_version = VERSION_3_1_1 | VERSION_3_1

record mqtt_endpoint =
  ep_username :: string
  ep_password :: string
  ep_topic :: string
  ep_host :: string
  ep_port_tcp :: nat
  ep_port_ssl :: nat

record mqtt_will =
  wl_topic :: string
  wl_message :: string
  wl_qos :: mqtt_qos
  wl_retain :: bool

record mqtt_message =
  ms_topic :: string
  ms_payload :: string
  ms_qos :: mqtt_qos
  ms_retain :: bool
  ms_dup :: bool
  ms_packet_id :: nat

text \<open>
  What the application sets before it starts the task; the buffer is its size, \<open>None\<close> for NULL.
  The flags say which of the pointers that may be NULL are set.
\<close>

record mqtt_conf =
  cf_version :: mqtt_version
  cf_clean_session :: bool
  cf_will :: "mqtt_will option"
  cf_client_id :: "string option"
  cf_qos :: mqtt_qos
  cf_keep_alive :: nat
  cf_to_recv_sec :: u32
  cf_insecure :: bool
  cf_retry_wait_max_ms :: u32
  cf_endpoint_given :: bool
  cf_endpoint :: mqtt_endpoint
  cf_buffer :: "nat option"
  cf_has_lock :: bool
  cf_has_recv_wait :: bool
  cf_has_recv_timed_out :: bool
  cf_has_clock :: bool
  cf_has_credentials :: bool
  cf_has_continue :: bool
  cf_has_exit :: bool
  cf_has_event :: bool
  cf_has_logger :: bool

definition protocol_name :: "mqtt_conf \<Rightarrow> string" where
  "protocol_name cf = (if cf_version cf = VERSION_3_1 then ''MQIsdp'' else ''MQTT'')"

definition protocol_level :: "mqtt_conf \<Rightarrow> char" where
  "protocol_level cf = (if cf_version cf = VERSION_3_1 then CHR 0x03 else CHR 0x04)"

text \<open>The two bytes of a length, as the code takes them from it.\<close>

definition be16 :: "nat \<Rightarrow> string" where
  "be16 n = [char_of (drop_bit 8 (n AND 0xff00)), char_of (n AND 0xff)]"

section \<open>Building a packet in the buffer\<close>

type_synonym filled = "char list \<times> nat"

text \<open>Bytes put at the index, and a string copied with its NUL, which the next write replaces.\<close>

definition put_bytes :: "string \<Rightarrow> filled \<Rightarrow> filled option" where
  "put_bytes s b =
     (case b of
        (buf, i) \<Rightarrow>
          if i + length s \<le> length buf then Some (mem_write buf i s, i + length s) else None)"

definition put_strcpy :: "string \<Rightarrow> filled \<Rightarrow> filled option" where
  "put_strcpy s b =
     (case b of
        (buf, i) \<Rightarrow>
          if i + length s + 1 \<le> length buf then Some (mem_write buf i (s @ [NUL]), i + length s)
          else None)"

text \<open>The loop that copies what was built at offset 8 to follow the fixed header.\<close>

fun copy_down :: "nat \<Rightarrow> nat \<Rightarrow> filled \<Rightarrow> filled option" where
  "copy_down 0 k b = Some b"
| "copy_down (Suc n) k b =
     (case b of
        (buf, j) \<Rightarrow>
          if 8 + k < length buf \<and> j < length buf
          then copy_down n (Suc k) (mem_write buf j [buf ! (8 + k)], Suc j) else None)"

text \<open>The fixed header, and the bytes to send.\<close>

definition finish_packet :: "char \<Rightarrow> filled \<Rightarrow> string option" where
  "finish_packet byte1 b =
     (case b of
        (buf, i) \<Rightarrow> do {
          h \<leftarrow> put_bytes (byte1 # mqtt_encode (i - 8)) (buf, 0);
          (buf', j) \<leftarrow> copy_down (i - 8) 0 h;
          Some (take j buf')
        })"

definition connect_flags :: "mqtt_conf \<Rightarrow> nat" where
  "connect_flags cf =
     (let flags = (if cf_clean_session cf then 0xc2 else 0xc0) in
      case cf_will cf of
        None \<Rightarrow> flags
      | Some will \<Rightarrow>
          flags OR (0x04 OR (if wl_qos will = QOS_1 then 0x08 else 0x00) OR
            (if wl_retain will then 0x20 else 0x00)))"

definition client_id :: "mqtt_conf \<Rightarrow> mqtt_endpoint \<Rightarrow> string" where
  "client_id cf ep = (case cf_client_id cf of Some c \<Rightarrow> c | None \<Rightarrow> ep_topic ep)"

definition put_will :: "mqtt_conf \<Rightarrow> filled \<Rightarrow> filled option" where
  "put_will cf b =
     (case cf_will cf of
        None \<Rightarrow> Some b
      | Some will \<Rightarrow> do {
          b \<leftarrow> put_bytes (be16 (length (wl_topic will))) b;
          b \<leftarrow> put_bytes (wl_topic will) b;
          b \<leftarrow> put_bytes (be16 (length (wl_message will))) b;
          put_bytes (wl_message will) b
        })"

definition mqtt_connect :: "mqtt_conf \<Rightarrow> mqtt_endpoint \<Rightarrow> nat \<Rightarrow> string option" where
  "mqtt_connect cf ep sz = do {
     b \<leftarrow> put_bytes [CHR 0x00, char_of (length (protocol_name cf))] (replicate sz NUL, 8);
     b \<leftarrow> put_bytes (protocol_name cf) b;
     b \<leftarrow> put_bytes [protocol_level cf, char_of (connect_flags cf)] b;
     b \<leftarrow> put_bytes (be16 (cf_keep_alive cf)) b;
     b \<leftarrow> put_bytes (be16 (length (client_id cf ep))) b;
     b \<leftarrow> put_strcpy (client_id cf ep) b;
     b \<leftarrow> put_will cf b;
     b \<leftarrow> put_bytes (be16 (length (ep_username ep))) b;
     b \<leftarrow> put_strcpy (ep_username ep) b;
     b \<leftarrow> put_bytes (be16 (length (ep_password ep))) b;
     b \<leftarrow> put_strcpy (ep_password ep) b;
     finish_packet (CHR 0x10) b
   }"

definition qos_byte :: "mqtt_qos \<Rightarrow> char" where
  "qos_byte q = (case q of QOS_0 \<Rightarrow> CHR 0x00 | QOS_1 \<Rightarrow> CHR 0x01)"

definition mqtt_subscribe :: "string \<Rightarrow> mqtt_qos \<Rightarrow> nat \<Rightarrow> string option" where
  "mqtt_subscribe topic qos sz = do {
     b \<leftarrow> put_bytes [CHR 0x00, CHR 0x01] (replicate sz NUL, 8);
     b \<leftarrow> put_bytes (be16 (length topic)) b;
     b \<leftarrow> put_strcpy topic b;
     b \<leftarrow> put_bytes [qos_byte qos] b;
     finish_packet (CHR 0x82) b
   }"

text \<open>The check \<open>_mqtt_state_send_connect\<close> and \<open>_mqtt_state_send_subscribe\<close> make first.\<close>

definition connect_fits :: "mqtt_conf \<Rightarrow> mqtt_endpoint \<Rightarrow> nat \<Rightarrow> bool" where
  "connect_fits cf ep sz \<longleftrightarrow>
     (let will_size =
            (case cf_will cf of None \<Rightarrow> 0 | Some will \<Rightarrow> 4 + length (wl_topic will) + length (wl_message will))
      in \<not> sz < 21 + length (protocol_name cf) + length (client_id cf ep) + will_size +
           length (ep_username ep) + length (ep_password ep))"

definition subscribe_fits :: "mqtt_endpoint \<Rightarrow> nat \<Rightarrow> bool" where
  "subscribe_fits ep sz \<longleftrightarrow> \<not> sz < 13 + length (ep_topic ep)"

text \<open>A PUBLISH, in the four pieces it is put out in.\<close>

definition publish_byte1 :: "mqtt_message \<Rightarrow> nat" where
  "publish_byte1 m =
     0x30 OR (if ms_dup m then 0x08 else 0x00) OR (if ms_qos m = QOS_1 then 0x02 else 0x00) OR
     (if ms_retain m then 0x01 else 0x00)"

definition publish_pieces :: "mqtt_message \<Rightarrow> string list" where
  "publish_pieces m =
     (let id_size = (if ms_qos m = QOS_1 then 2 else 0);
          head = [char_of (publish_byte1 m)] @
            mqtt_encode (2 + length (ms_topic m) + id_size + length (ms_payload m)) @
            [char_of (drop_bit 8 (length (ms_topic m))), char_of (length (ms_topic m) AND 0xff)];
          pid = [char_of (drop_bit 8 (ms_packet_id m)), char_of (ms_packet_id m AND 0xff)]
      in [head, ms_topic m, take id_size pid, ms_payload m])"

definition puback :: "nat \<Rightarrow> string" where
  "puback i = [CHR 0x40, CHR 0x02, char_of (drop_bit 8 i), char_of (i AND 0xff)]"

section \<open>Reading a message\<close>

text \<open>What a lead byte says: the size, the bits it holds, and the least code point of the size.\<close>

definition utf8_lead :: "nat \<Rightarrow> (nat \<times> nat \<times> nat) option" where
  "utf8_lead c =
     (if c AND 0xe0 = 0xc0 then Some (2, c AND 0x1f, 0x80)
      else if c AND 0xf0 = 0xe0 then Some (3, c AND 0x0f, 0x800)
      else if c AND 0xf8 = 0xf0 then Some (4, c AND 0x07, 0x10000)
      else None)"

text \<open>The loop over the bytes that follow it.\<close>

fun utf8_tail :: "string \<Rightarrow> nat \<Rightarrow> nat option" where
  "utf8_tail [] cp = Some cp"
| "utf8_tail (cc # s) cp =
     (if code cc AND 0xc0 \<noteq> 0x80 then None
      else utf8_tail s (push_bit 6 cp OR (code cc AND 0x3f)))"

function topic_loop :: "string \<Rightarrow> nat \<Rightarrow> bool" where
  "topic_loop topic i =
     (if i < length topic
      then
        (let c = code (topic ! i) in
         if c = 0 \<or> topic ! i = CHR ''+'' \<or> topic ! i = CHR ''#'' then False
         else if c < 0x80 then topic_loop topic (Suc i)
         else
           (case utf8_lead c of
              None \<Rightarrow> False
            | Some (len, cp, least) \<Rightarrow>
                if length topic - i < len then False
                else
                  (case utf8_tail (take (len - 1) (drop (Suc i) topic)) cp of
                     None \<Rightarrow> False
                   | Some cp' \<Rightarrow>
                       if cp' < least \<or> (cp' \<ge> 0xd800 \<and> cp' \<le> 0xdfff) \<or> cp' > 0x10ffff then False
                       else topic_loop topic (i + len))))
      else True)"
  by pat_completeness auto
termination by (relation "measure (\<lambda>(t, i). length t - i)") (auto simp: utf8_lead_def split: if_splits)

declare topic_loop.simps [simp del]

definition is_publish_topic :: "string \<Rightarrow> bool" where
  "is_publish_topic topic \<longleftrightarrow> length topic \<noteq> 0 \<and> topic_loop topic 0"

text \<open>What the first byte of a PUBLISH says of it.\<close>

definition publish_qos :: "char \<Rightarrow> nat" where
  "publish_qos byte1 = drop_bit 1 (code byte1) AND 0x03"

definition publish_dup :: "char \<Rightarrow> bool" where
  "publish_dup byte1 \<longleftrightarrow> code byte1 AND 0x08 \<noteq> 0"

definition publish_retain :: "char \<Rightarrow> bool" where
  "publish_retain byte1 \<longleftrightarrow> code byte1 AND 0x01 \<noteq> 0"

definition uint16_at :: "string \<Rightarrow> nat \<Rightarrow> nat" where
  "uint16_at s i = code (s ! i) * 256 + code (s ! (i + 1))"

text \<open>
  The message in what follows the fixed header of a PUBLISH at QoS 0 or 1, or \<open>None\<close> for one
  that is malformed.
\<close>

definition read_publish :: "nat \<Rightarrow> bool \<Rightarrow> bool \<Rightarrow> string \<Rightarrow> mqtt_message option" where
  "read_publish qos dup retain buff =
     (let id_size = (if qos = 1 then 2 else 0) in
      if length buff < 2 then None
      else
        (let topic_size = uint16_at buff 0 in
         if \<not> topic_size + id_size \<le> length buff - 2 then None
         else
           (let topic = take topic_size (drop 2 buff);
                has_id = (id_size > 0);
                pid = (if has_id then uint16_at buff (2 + topic_size) else 0)
            in if \<not> is_publish_topic topic \<or> (has_id \<and> pid = 0) then None
               else Some \<lparr>ms_topic = topic, ms_payload = drop (2 + topic_size + id_size) buff,
                          ms_qos = (if qos = 1 then QOS_1 else QOS_0), ms_retain = retain, ms_dup = dup,
                          ms_packet_id = pid\<rparr>)))"

end
