(* ===== verification/Mqtt_Codec.thy ===== *)
theory Mqtt_Codec
  imports Mqtt_Packet
begin

text \<open>
  The packets of MQTT read back: a remaining length, the text of a topic, and a whole message;
  and that a packet built in the buffer is the one MQTT lays out, within the buffer.
\<close>

unbundle bit_operations_syntax

section \<open>Bytes\<close>

lemma and_low: "(n :: nat) AND (2 ^ k - 1) = n mod 2 ^ k"
  using take_bit_eq_mask [of k n] by (simp add: take_bit_eq_mod mask_eq_exp_minus_1)

lemma and_push: "(n :: nat) AND push_bit k m = push_bit k (drop_bit k n AND m)"
  by (rule bit_eqI) (auto simp: bit_simps)

lemma and_high:
  assumes "n < 2 ^ (k + j)"
  shows "(n :: nat) AND (2 ^ k * (2 ^ j - 1)) = 2 ^ k * (n div 2 ^ k)"
proof -
  have "n div 2 ^ k < 2 ^ j" using assms by (simp add: power_add less_mult_imp_div_less mult.commute)
  then have "drop_bit k n AND (2 ^ j - 1) = n div 2 ^ k"
    unfolding and_low by (simp add: drop_bit_eq_div)
  then show ?thesis using and_push [of n k "2 ^ j - 1"] by (simp add: push_bit_eq_mult mult.commute)
qed

lemma or_add: "(n :: nat) AND m = 0 \<Longrightarrow> n OR m = n + m"
  by (rule disjunctive_add_eq_or [symmetric])

lemma byte_and:
  assumes "(n :: nat) < 256"
  shows "n AND 127 = n mod 128" "(n AND 128 = 0) = (n < 128)" "n AND 0x3f = n mod 64"
    "(n AND 0xc0 = 0x80) = (128 \<le> n \<and> n < 192)" "(n AND 0xe0 = 0xc0) = (192 \<le> n \<and> n < 224)"
    "(n AND 0xf0 = 0xe0) = (224 \<le> n \<and> n < 240)" "(n AND 0xf8 = 0xf0) = (240 \<le> n \<and> n < 248)"
    "n AND 0x1f = n mod 32" "n AND 0x0f = n mod 16" "n AND 0x07 = n mod 8"
proof -
  have e: "n AND 128 = 128 * (n div 128)" "n AND 0xc0 = 64 * (n div 64)" "n AND 0xe0 = 32 * (n div 32)"
    "n AND 0xf0 = 16 * (n div 16)" "n AND 0xf8 = 8 * (n div 8)"
    using assms and_high [of n 7 1] and_high [of n 6 2] and_high [of n 5 3] and_high [of n 4 4]
      and_high [of n 3 5] by simp_all
  have q: "0 < k \<Longrightarrow> (k * (n div k) = k * j) = (k * j \<le> n \<and> n < k * j + k)" for k j
  proof -
    assume k: "0 < k"
    have "k * (n div k) + n mod k = n" "n mod k < k" using k by simp_all
    then have "n < k * (n div k) + k" by linarith
    moreover have "k * j \<le> n \<and> n < k * j + k \<Longrightarrow> n div k = j"
      by (rule div_nat_eqI) (simp_all add: mult.commute)
    ultimately show ?thesis using k by auto
  qed
  show "(n AND 128 = 0) = (n < 128)"
    "(n AND 0xc0 = 0x80) = (128 \<le> n \<and> n < 192)" "(n AND 0xe0 = 0xc0) = (192 \<le> n \<and> n < 224)"
    "(n AND 0xf0 = 0xe0) = (224 \<le> n \<and> n < 240)" "(n AND 0xf8 = 0xf0) = (240 \<le> n \<and> n < 248)"
    unfolding e using q [of 128 0] q [of 64 2] q [of 32 6] q [of 16 14] q [of 8 30] by simp_all
  show "n AND 127 = n mod 128" "n AND 0x3f = n mod 64" "n AND 0x1f = n mod 32"
    "n AND 0x0f = n mod 16" "n AND 0x07 = n mod 8"
    using and_low [of n 7] and_low [of n 6] and_low [of n 5] and_low [of n 4] and_low [of n 3] by simp_all
qed

lemma byte_or: "(n :: nat) < 128 \<Longrightarrow> n OR 128 = n + 128"
  by (rule or_add) (simp add: byte_and)
lemma code_byte [simp]: "code (char_of (n :: nat)) = n mod 256"
  by simp

lemma char_of_0: "char_of (0 :: nat) = NUL"
proof -
  have "code (char_of (0 :: nat)) = code NUL" by simp
  then show ?thesis unfolding code_eq_iff .
qed

lemma wildcard_codes: "c = CHR ''+'' \<longleftrightarrow> code c = 0x2b" "c = CHR ''#'' \<longleftrightarrow> code c = 0x23"
  using code_eq_iff [of c "CHR ''+''"] code_eq_iff [of c "CHR ''#''"] by simp_all

lemmas code_and = byte_and [OF code_less]

section \<open>Remaining lengths\<close>

lemma encode_unfold:
  "mqtt_encode_loop n rc =
     (if n div 128 > 0 \<and> Suc rc < 5 then char_of (n mod 128 + 128) # mqtt_encode_loop (n div 128) (Suc rc)
      else if n div 128 > 0 then [char_of (n mod 128 + 128)] else [char_of n])"
  by (subst mqtt_encode_loop.simps) (simp add: Let_def byte_or)

lemma length_encode_le: "length (mqtt_encode_loop n rc) \<le> (if rc < 5 then 5 - rc else 1)"
proof (induction n rc rule: mqtt_encode_loop.induct)
  case (1 n rc)
  have "length (mqtt_encode_loop (n div 128) (Suc rc)) \<le> 4 - rc" if "n div 128 > 0" "rc < 4"
    using 1 that by simp
  then show ?case by (subst encode_unfold) fastforce
qed

lemma encode_nonempty: "mqtt_encode_loop n rc \<noteq> []"
  by (subst encode_unfold) simp

lemma decode_encode_loop:
  assumes "length pre = i" "i \<le> 3" "n < 128 ^ (4 - i)" "i > 0 \<longrightarrow> n \<noteq> 0"
  shows "mqtt_decode_loop (pre @ mqtt_encode_loop n i @ rest) i m acc =
    Some (acc + n * m, i + length (mqtt_encode_loop n i))"
  using assms
proof (induction "4 - i" arbitrary: i n m acc pre)
  case 0
  then show ?case by simp
next
  case (Suc k)
  show ?case
  proof (cases "n div 128 > 0")
    case True
    have i3: "i < 3"
    proof (rule ccontr)
      assume "\<not> i < 3"
      with Suc.prems have "n < 128" by simp
      with True show False by simp
    qed
    have e: "mqtt_encode_loop n i = char_of (n mod 128 + 128) # mqtt_encode_loop (n div 128) (Suc i)"
      using True i3 by (subst encode_unfold) simp
    let ?c = "char_of (n mod 128 + 128) :: char"
    have c: "code ?c = n mod 128 + 128" by simp
    have "code ?c AND 127 = code ?c mod 128" "(code ?c AND 128 = 0) = (code ?c < 128)" by (rule code_and)+
    then have b: "code ?c AND 127 = n mod 128" "code ?c AND 128 \<noteq> 0" unfolding c by simp_all
    have nth: "(pre @ ?c # mqtt_encode_loop (n div 128) (Suc i) @ rest) ! i = ?c"
      using Suc.prems(1) by (simp add: nth_append)
    have p: "(128::nat) ^ (4 - i) = 128 * 128 ^ (4 - Suc i)"
      using i3 by (simp add: Suc_diff_Suc flip: power_Suc)
    have IH: "mqtt_decode_loop ((pre @ [?c]) @ mqtt_encode_loop (n div 128) (Suc i) @ rest) (Suc i) (m * 128)
        (acc + n mod 128 * m) =
        Some (acc + n mod 128 * m + n div 128 * (m * 128), Suc i + length (mqtt_encode_loop (n div 128) (Suc i)))"
      using Suc.prems Suc.hyps(2) i3 True p by (intro Suc.hyps(1)) (simp_all add: less_mult_imp_div_less mult.commute)
    have s: "acc + n mod 128 * m + n div 128 * (m * 128) = acc + n * m"
    proof -
      have "n mod 128 * m + n div 128 * (m * 128) = (n div 128 * 128 + n mod 128) * m"
        by (simp only: distrib_right ac_simps distrib_left)
      then show ?thesis by simp
    qed
    show ?thesis
      unfolding e using IH i3 b nth s
      by (subst mqtt_decode_loop.simps) (simp add: Let_def)
  next
    case False
    then have n: "n < 128" by (simp add: div_eq_0_iff)
    then have e: "mqtt_encode_loop n i = [char_of n]" by (subst encode_unfold) simp
    have c: "code (char_of n :: char) = n" using n by simp
    have b: "code (char_of n :: char) AND 127 = n" "code (char_of n :: char) AND 128 = 0"
      unfolding c using byte_and [of n] n by simp_all
    have nth: "(pre @ char_of n # rest) ! i = char_of n" using Suc.prems(1) by (simp add: nth_append)
    have z: "char_of n = NUL \<longleftrightarrow> n = 0"
    proof
      assume "char_of n = NUL"
      then have "code (char_of n) = code NUL" by (rule arg_cong)
      with n show "n = 0" by simp
    qed (simp add: char_of_0)
    show ?thesis
      unfolding e using Suc.prems n b nth z
      by (subst mqtt_decode_loop.simps) (auto simp: Let_def)
  qed
qed

lemma decode_canonical:
  assumes "mqtt_decode_loop buf i m acc = Some (n, j)" "j \<le> length buf"
  shows "i < j \<and> j \<le> 4 \<and> (\<exists>r. n = acc + r * m \<and> r < 128 ^ (j - i) \<and> (i > 0 \<longrightarrow> r \<noteq> 0) \<and>
    mqtt_encode_loop r i = take (j - i) (drop i buf))"
  using assms
proof (induction buf i m acc rule: mqtt_decode_loop.induct)
  case (1 buf i m acc)
  let ?c = "buf ! i"
  have i3: "i \<le> 3" using 1(2) by (subst (asm) mqtt_decode_loop.simps) (simp split: if_splits)
  have e: "mqtt_decode_loop buf i m acc =
     (if code ?c < 128 then (if i > 0 \<and> ?c = NUL then None else Some (acc + code ?c * m, Suc i))
      else mqtt_decode_loop buf (Suc i) (m * 128) (acc + (code ?c mod 128) * m))"
    using i3 by (subst mqtt_decode_loop.simps) (simp add: Let_def code_and)
  show ?case
  proof (cases "code ?c < 128")
    case True
    then have r: "n = acc + code ?c * m" "j = Suc i" "i > 0 \<longrightarrow> ?c \<noteq> NUL"
      using 1(2) unfolding e by (auto split: if_splits)
    have "mqtt_encode_loop (code ?c) i = [?c]" using True by (subst encode_unfold) simp
    moreover have "take 1 (drop i buf) = [?c]"
      using 1(3) r(2) by (simp add: take_Suc_conv_app_nth Cons_nth_drop_Suc [symmetric])
    moreover have "i > 0 \<longrightarrow> code ?c \<noteq> 0"
    proof
      assume "i > 0"
      with r(3) have "?c \<noteq> NUL" by simp
      then have "code ?c \<noteq> code NUL" unfolding code_eq_iff .
      then show "code ?c \<noteq> 0" by simp
    qed
    ultimately show ?thesis using True r i3 by (intro conjI exI [of _ "code ?c"]) simp_all
  next
    case False
    then have d: "mqtt_decode_loop buf (Suc i) (m * 128) (acc + (code ?c mod 128) * m) = Some (n, j)"
      using 1(2) unfolding e by simp
    have "code ?c AND 128 \<noteq> 0" using False by (simp add: code_and)
    from 1(1) [OF _ refl this] i3 d 1(3) obtain r where
      r: "Suc i < j" "j \<le> 4" "n = acc + (code ?c mod 128) * m + r * (m * 128)" "r < 128 ^ (j - Suc i)"
        "r \<noteq> 0" "mqtt_encode_loop r (Suc i) = take (j - Suc i) (drop (Suc i) buf)"
      by (auto simp: code_and)
    let ?r = "code ?c mod 128 + r * 128"
    have dm: "?r div 128 = r" "?r mod 128 = code ?c mod 128" by simp_all
    have cc: "char_of (code ?c mod 128 + 128) = ?c"
    proof -
      have "code ?c mod 128 = (code ?c - 128) mod 128" using False by (intro le_mod_geq) simp
      moreover have "code ?c - 128 < 128" using False code_less [of ?c] by linarith
      ultimately have "code ?c mod 128 = code ?c - 128" by (simp only: mod_less)
      then have "code ?c mod 128 + 128 = code ?c" using False by simp
      then show ?thesis by simp
    qed
    have "mqtt_encode_loop ?r i = ?c # mqtt_encode_loop r (Suc i)"
      using r(1,2,5) cc by (subst encode_unfold) (simp add: dm)
    moreover have "take (j - i) (drop i buf) = ?c # take (j - Suc i) (drop (Suc i) buf)"
    proof -
      have "drop i buf = ?c # drop (Suc i) buf" using 1(3) r(1) by (simp add: Cons_nth_drop_Suc)
      moreover have "j - i = Suc (j - Suc i)" using r(1) by simp
      ultimately show ?thesis by (simp only: take_Suc_Cons)
    qed
    moreover have "?r < 128 ^ (j - i)"
    proof -
      have "?r < (r + 1) * 128" by simp
      also have "\<dots> \<le> 128 ^ (j - Suc i) * 128" using r(4) by (intro mult_le_mono1) simp
      also have "\<dots> = 128 ^ (j - i)" using r(1) by (simp add: Suc_diff_Suc flip: power_Suc2)
      finally show ?thesis .
    qed
    ultimately show ?thesis using r by (intro conjI exI [of _ ?r]) (simp_all add: algebra_simps)
  qed
qed

section \<open>UTF-8\<close>

text \<open>What UTF-8 is, and the characters a topic may have.\<close>

definition utf8 :: "nat \<Rightarrow> string" where
  "utf8 cp =
     map char_of
       (if cp < 0x80 then [cp]
        else if cp < 0x800 then [192 + cp div 64, 128 + cp mod 64]
        else if cp < 0x10000 then [224 + cp div 4096, 128 + cp div 64 mod 64, 128 + cp mod 64]
        else [240 + cp div 262144, 128 + cp div 4096 mod 64, 128 + cp div 64 mod 64, 128 + cp mod 64])"

definition topic_char :: "nat \<Rightarrow> bool" where
  "topic_char cp \<longleftrightarrow> cp \<le> 0x10ffff \<and> \<not> (0xd800 \<le> cp \<and> cp \<le> 0xdfff) \<and> cp \<noteq> 0 \<and> cp \<noteq> 0x2b \<and> cp \<noteq> 0x23"

definition topic_text :: "string \<Rightarrow> bool" where
  "topic_text s \<longleftrightarrow> (\<exists>cps. (\<forall>cp\<in>set cps. topic_char cp) \<and> s = concat (map utf8 cps))"

lemma utf8_nonempty: "utf8 cp \<noteq> []"
  by (simp add: utf8_def)

lemma topic_text_Nil: "topic_text []"
  unfolding topic_text_def by (intro exI [of _ "[]"]) simp

lemma topic_text_step:
  assumes "s \<noteq> []"
  shows "topic_text s \<longleftrightarrow> (\<exists>cp r. topic_char cp \<and> s = utf8 cp @ r \<and> topic_text r)"
proof
  assume "topic_text s"
  then obtain cps where c: "\<forall>cp\<in>set cps. topic_char cp" "s = concat (map utf8 cps)"
    unfolding topic_text_def by blast
  with assms obtain cp cps' where "cps = cp # cps'" by (cases cps) auto
  with c show "\<exists>cp r. topic_char cp \<and> s = utf8 cp @ r \<and> topic_text r"
    unfolding topic_text_def by (intro exI [of _ cp] exI [of _ "concat (map utf8 cps')"]) auto
next
  assume "\<exists>cp r. topic_char cp \<and> s = utf8 cp @ r \<and> topic_text r"
  then obtain cp r cps where "topic_char cp" "s = utf8 cp @ r" "\<forall>cp\<in>set cps. topic_char cp" "r = concat (map utf8 cps)"
    unfolding topic_text_def by blast
  then show "topic_text s" unfolding topic_text_def by (intro exI [of _ "cp # cps"]) auto
qed

lemma push_or: "push_bit 6 (a :: nat) OR (b AND 0x3f) = a * 64 + b mod 64"
proof -
  have "push_bit 6 a AND take_bit 6 b = 0" by (rule bit_eqI) (auto simp: bit_simps)
  then have "push_bit 6 a OR take_bit 6 b = push_bit 6 a + take_bit 6 b" by (rule or_add)
  then show ?thesis using and_low [of b 6] by (simp add: take_bit_eq_mod push_bit_eq_mult)
qed

text \<open>One character, as the loop reads it.\<close>

definition read_char :: "string \<Rightarrow> (nat \<times> nat) option" where
  "read_char s =
     (let c = code (hd s) in
      if c = 0 \<or> hd s = CHR ''+'' \<or> hd s = CHR ''#'' then None
      else if c < 0x80 then Some (c, 1)
      else
        (case utf8_lead c of
           None \<Rightarrow> None
         | Some (len, cp, least) \<Rightarrow>
             if length s < len then None
             else
               (case utf8_tail (take (len - 1) (tl s)) cp of
                  None \<Rightarrow> None
                | Some cp' \<Rightarrow>
                    if cp' < least \<or> (cp' \<ge> 0xd800 \<and> cp' \<le> 0xdfff) \<or> cp' > 0x10ffff then None
                    else Some (cp', len))))"

lemma topic_loop_step:
  assumes "i < length t"
  shows "topic_loop t i = (case read_char (drop i t) of None \<Rightarrow> False | Some (cp, n) \<Rightarrow> topic_loop t (i + n))"
proof -
  have h: "hd (drop i t) = t ! i" "tl (drop i t) = drop (Suc i) t" "length (drop i t) = length t - i"
    using assms by (simp_all add: hd_drop_conv_nth tl_drop drop_Suc)
  show ?thesis
    using assms
    by (subst topic_loop.simps) (simp add: read_char_def h Let_def split: option.split prod.split)
qed

lemma utf8_tail_Cons:
  "utf8_tail (c # s) cp = (if 128 \<le> code c \<and> code c < 192 then utf8_tail s (cp * 64 + code c mod 64) else None)"
  using push_or [of cp "code c"] by (auto simp: code_and)

declare utf8_tail.simps(2) [simp del]

lemma utf8_lead_cases:
  assumes "c < 256"
  shows "utf8_lead c =
    (if 192 \<le> c \<and> c < 224 then Some (2, c - 192, 0x80)
     else if 224 \<le> c \<and> c < 240 then Some (3, c - 224, 0x800)
     else if 240 \<le> c \<and> c < 248 then Some (4, c - 240, 0x10000) else None)"
proof -
  have "192 \<le> c \<and> c < 224 \<Longrightarrow> c mod 32 = c - 192" "224 \<le> c \<and> c < 240 \<Longrightarrow> c mod 16 = c - 224"
    "240 \<le> c \<and> c < 248 \<Longrightarrow> c mod 8 = c - 240"
    by (auto simp: mod_nat_eqI)
  then show ?thesis by (simp add: utf8_lead_def byte_and [OF assms])
qed

lemma read_char_long:
  assumes "128 \<le> code (hd s)"
  shows "read_char s = Some (cp, n) \<longleftrightarrow>
    (\<exists>len c0 least. utf8_lead (code (hd s)) = Some (len, c0, least) \<and> len \<le> length s \<and> n = len \<and>
       utf8_tail (take (len - 1) (tl s)) c0 = Some cp \<and> least \<le> cp \<and> cp \<le> 0x10ffff \<and>
       \<not> (0xd800 \<le> cp \<and> cp \<le> 0xdfff))"
proof -
  have "hd s \<noteq> CHR ''+''" "hd s \<noteq> CHR ''#''" "code (hd s) \<noteq> 0" using assms by auto
  then show ?thesis
    using assms
    by (cases "utf8_lead (code (hd s))") (auto simp: read_char_def Let_def split: option.splits if_splits)
qed

lemma chars_of_codes: "map char_of (map code s) = s"
  by (induction s) simp_all

lemma utf8_codes: "map code (utf8 cp) =
  (if cp < 0x80 then [cp]
   else if cp < 0x800 then [192 + cp div 64, 128 + cp mod 64]
   else if cp < 0x10000 then [224 + cp div 4096, 128 + cp div 64 mod 64, 128 + cp mod 64]
   else [(240 + cp div 262144) mod 256, 128 + cp div 4096 mod 64, 128 + cp div 64 mod 64, 128 + cp mod 64])"
proof -
  have "cp < 0x800 \<Longrightarrow> 192 + cp div 64 < 256" "cp < 0x10000 \<Longrightarrow> 224 + cp div 4096 < 256"
    by (simp_all add: div_less_iff_less_mult)
  then show ?thesis by (simp add: utf8_def)
qed

text \<open>The bytes of a character, and the character of the bytes.\<close>

lemma byte_at: "code c = k + q \<Longrightarrow> char_of (k + q) = c"
proof -
  have "char_of (code c) = c" by simp
  then show "code c = k + q \<Longrightarrow> ?thesis" by simp
qed

lemma base64: "(r :: nat) < 64 \<Longrightarrow> (x * 64 + r) mod 64 = r" "(r :: nat) < 64 \<Longrightarrow> (x * 64 + r) div 64 = x"
  by simp_all

lemma tail_byte:
  assumes "128 \<le> code c" "code c < 192"
  obtains r where "code c = 128 + r" "r < 64" "code c mod 64 = r"
proof -
  obtain r where r: "code c = 128 + r" using assms(1) le_Suc_ex by blast
  moreover have "r < 64" using assms(2) r by linarith
  ultimately show thesis using that [of r] base64(1) [of r 2] by simp
qed

lemma utf8_two:
  assumes "q < 32" "r < 64" "cp = q * 64 + r" "0x80 \<le> cp"
  shows "utf8 cp = [char_of (192 + q), char_of (128 + r)]"
proof -
  have "cp < 0x800" "cp div 64 = q" "cp mod 64 = r" using assms by simp_all
  with assms(4) show ?thesis by (simp add: utf8_def)
qed

lemma utf8_three:
  assumes "q < 16" "r < 64" "u < 64" "cp = (q * 64 + r) * 64 + u" "0x800 \<le> cp"
  shows "utf8 cp = [char_of (224 + q), char_of (128 + r), char_of (128 + u)]"
proof -
  have d: "cp div 64 = q * 64 + r" using assms(3,4) by simp
  then have "cp div 64 div 64 = q" using assms(2) by simp
  then have "cp div 4096 = q" by (simp add: div_mult2_eq [of cp 64 64, simplified])
  moreover have "cp div 64 mod 64 = r" using d assms(2) by simp
  moreover have "cp < 0x10000" using assms(1-4) by simp
  moreover have "cp mod 64 = u" using base64(1) [OF assms(3)] by (simp only: assms(4))
  ultimately show ?thesis using assms(5) by (simp add: utf8_def)
qed

lemma utf8_four:
  assumes "q < 8" "r < 64" "u < 64" "v < 64" "cp = ((q * 64 + r) * 64 + u) * 64 + v" "0x10000 \<le> cp"
  shows "utf8 cp = [char_of (240 + q), char_of (128 + r), char_of (128 + u), char_of (128 + v)]"
proof -
  have d: "cp div 64 = (q * 64 + r) * 64 + u" using assms(4,5) by simp
  then have d2: "cp div 64 div 64 = q * 64 + r" using assms(3) by simp
  then have "cp div 64 div 64 div 64 = q" using assms(2) by simp
  then have "cp div 262144 = q" by (simp add: div_mult2_eq [of cp 64 4096, simplified] div_mult2_eq [of "cp div 64" 64 64, simplified])
  moreover have "cp div 4096 mod 64 = r" using d2 assms(2) by (simp add: div_mult2_eq [of cp 64 64, simplified])
  moreover have "cp div 64 mod 64 = u" using base64(1) [OF assms(3)] by (simp only: d)
  moreover have "cp mod 64 = v" using base64(1) [OF assms(4)] by (simp only: assms(5))
  ultimately show ?thesis using assms(6) by (simp add: utf8_def)
qed

lemma length_two: "2 \<le> length s \<Longrightarrow> \<exists>a b r. s = a # b # r"
  by (cases s; cases "tl s") auto

lemma read_char_sound:
  assumes "read_char s = Some (cp, n)" "128 \<le> code (hd s)"
  shows "s = utf8 cp @ drop n s \<and> topic_char cp"
proof -
  obtain c0 least where l: "utf8_lead (code (hd s)) = Some (n, c0, least)" "n \<le> length s"
    "utf8_tail (take (n - 1) (tl s)) c0 = Some cp" "least \<le> cp" "cp \<le> 0x10ffff"
    "\<not> (0xd800 \<le> cp \<and> cp \<le> 0xdfff)"
    using assms by (auto simp: read_char_long)
  have least: "128 \<le> least" using l(1) by (auto simp: utf8_lead_cases split: if_splits)
  then have tc: "topic_char cp" using l(4-6) by (simp add: topic_char_def)
  obtain q where cases: "n = 2 \<and> c0 = q \<and> q < 32 \<and> code (hd s) = 192 + q \<and> least = 0x80 \<or>
      n = 3 \<and> c0 = q \<and> q < 16 \<and> code (hd s) = 224 + q \<and> least = 0x800 \<or>
      n = 4 \<and> c0 = q \<and> q < 8 \<and> code (hd s) = 240 + q \<and> least = 0x10000"
    using l(1) by (fastforce simp: utf8_lead_cases split: if_splits)
  obtain c b s2 where s2: "s = c # b # s2"
    using l(2) cases length_two [of s] by fastforce
  from cases show ?thesis
  proof (elim disjE conjE)
    assume n: "n = 2" "c0 = q" "q < 32" "code (hd s) = 192 + q" "least = 0x80"
    have b: "128 \<le> code b" "code b < 192" "cp = q * 64 + code b mod 64"
      using l(3) by (auto simp: n s2 utf8_tail_Cons split: if_splits)
    obtain r where r: "code b = 128 + r" "r < 64" "code b mod 64 = r" by (rule tail_byte [OF b(1,2)])
    have "utf8 cp = [char_of (192 + q), char_of (128 + r)]"
      using l(4) n b(3) r by (intro utf8_two) simp_all
    then show ?thesis using tc n(1,4) byte_at [OF r(1)] byte_at [of c 192 q] by (simp add: s2)
  next
    assume n: "n = 3" "c0 = q" "q < 16" "code (hd s) = 224 + q" "least = 0x800"
    obtain b2 s3 where s3: "s2 = b2 # s3" using l(2) n(1) s2 by (cases s2) auto
    have b: "128 \<le> code b" "code b < 192" "128 \<le> code b2" "code b2 < 192"
      "cp = (q * 64 + code b mod 64) * 64 + code b2 mod 64"
      using l(3) by (auto simp: n s2 s3 utf8_tail_Cons split: if_splits)
    obtain r where r: "code b = 128 + r" "r < 64" "code b mod 64 = r" by (rule tail_byte [OF b(1,2)])
    obtain u where u: "code b2 = 128 + u" "u < 64" "code b2 mod 64 = u" by (rule tail_byte [OF b(3,4)])
    have "utf8 cp = [char_of (224 + q), char_of (128 + r), char_of (128 + u)]"
      using l(4) n b(5) r u by (intro utf8_three) simp_all
    then show ?thesis
      using tc n(1,4) byte_at [OF r(1)] byte_at [OF u(1)] byte_at [of c 224 q] by (simp add: s2 s3)
  next
    assume n: "n = 4" "c0 = q" "q < 8" "code (hd s) = 240 + q" "least = 0x10000"
    obtain b2 b3 s3 where s3: "s2 = b2 # b3 # s3" using l(2) n(1) s2 length_two [of s2] by auto
    have b: "128 \<le> code b" "code b < 192" "128 \<le> code b2" "code b2 < 192" "128 \<le> code b3" "code b3 < 192"
      "cp = ((q * 64 + code b mod 64) * 64 + code b2 mod 64) * 64 + code b3 mod 64"
      using l(3) by (auto simp: n s2 s3 utf8_tail_Cons split: if_splits)
    obtain r where r: "code b = 128 + r" "r < 64" "code b mod 64 = r" by (rule tail_byte [OF b(1,2)])
    obtain u where u: "code b2 = 128 + u" "u < 64" "code b2 mod 64 = u" by (rule tail_byte [OF b(3,4)])
    obtain v where v: "code b3 = 128 + v" "v < 64" "code b3 mod 64 = v" by (rule tail_byte [OF b(5,6)])
    have "utf8 cp = [char_of (240 + q), char_of (128 + r), char_of (128 + u), char_of (128 + v)]"
      using l(4) n b(7) r u v by (intro utf8_four) simp_all
    then show ?thesis
      using tc n(1,4) byte_at [OF r(1)] byte_at [OF u(1)] byte_at [OF v(1)] byte_at [of c 240 q]
      by (simp add: s2 s3)
  qed
qed

lemma read_char_complete:
  assumes "topic_char cp"
  shows "read_char (utf8 cp @ r) = Some (cp, length (utf8 cp))"
proof -
  have top: "cp \<le> 0x10ffff" "\<not> (0xd800 \<le> cp \<and> cp \<le> 0xdfff)" using assms by (simp_all add: topic_char_def)
  have m: "x mod 64 < 64" for x :: nat by simp
  have t: "utf8_tail (char_of (128 + x mod 64) # s) c = utf8_tail s (c * 64 + x mod 64)" for x s c
  proof -
    have "code (char_of (128 + x mod 64)) = 128 + x mod 64" using m [of x] by simp
    moreover have "(128 + x mod 64) mod 64 = x mod 64" using base64(1) [OF m [of x], of 2] by simp
    ultimately show ?thesis using m [of x] by (simp add: utf8_tail_Cons)
  qed
  have e: "x div 64 * 64 + x mod 64 = x" for x :: nat by simp
  consider "cp < 0x80" | "0x80 \<le> cp" "cp < 0x800" | "0x800 \<le> cp" "cp < 0x10000" | "0x10000 \<le> cp" by linarith
  then show ?thesis
  proof cases
    case 1
    then have c: "code (char_of cp) = cp" by simp
    have "char_of cp \<noteq> CHR ''+''" "char_of cp \<noteq> CHR ''#''"
      using assms c unfolding wildcard_codes by (auto simp: topic_char_def)
    with 1 c assms show ?thesis by (simp add: utf8_def read_char_def Let_def topic_char_def)
  next
    case 2
    then have u: "utf8 cp = [char_of (192 + cp div 64), char_of (128 + cp mod 64)]" by (simp add: utf8_def)
    have c: "code (char_of (192 + cp div 64)) = 192 + cp div 64" using 2 by simp
    have l: "utf8_lead (192 + cp div 64) = Some (2, cp div 64, 0x80)" using 2 by (subst utf8_lead_cases) auto
    show ?thesis
      unfolding u using 2 top by (subst read_char_long) (simp_all add: c l t e)
  next
    case 3
    then have u: "utf8 cp = [char_of (224 + cp div 4096), char_of (128 + cp div 64 mod 64), char_of (128 + cp mod 64)]"
      by (simp add: utf8_def)
    have c: "code (char_of (224 + cp div 4096)) = 224 + cp div 4096" using 3 by simp
    have l: "utf8_lead (224 + cp div 4096) = Some (3, cp div 4096, 0x800)" using 3 by (subst utf8_lead_cases) auto
    have d: "cp div 4096 = cp div 64 div 64" by (simp add: div_mult2_eq [of cp 64 64, simplified])
    have "(cp div 4096 * 64 + cp div 64 mod 64) * 64 + cp mod 64 = cp" unfolding d e ..
    with 3 top show ?thesis
      unfolding u by (subst read_char_long) (simp_all add: c l t numeral_2_eq_2)
  next
    case 4
    then have u: "utf8 cp = [char_of (240 + cp div 262144), char_of (128 + cp div 4096 mod 64),
        char_of (128 + cp div 64 mod 64), char_of (128 + cp mod 64)]"
      by (simp add: utf8_def)
    have b: "cp div 262144 < 8" using top by (simp add: div_less_iff_less_mult)
    then have c: "code (char_of (240 + cp div 262144)) = 240 + cp div 262144" by simp
    have l: "utf8_lead (240 + cp div 262144) = Some (4, cp div 262144, 0x10000)" using b by (subst utf8_lead_cases) auto
    have d: "cp div 4096 = cp div 64 div 64" "cp div 262144 = cp div 64 div 64 div 64"
      by (simp_all add: div_mult2_eq [of cp 64 64, simplified] div_mult2_eq [of cp 64 4096, simplified]
          div_mult2_eq [of "cp div 64" 64 64, simplified])
    have "((cp div 262144 * 64 + cp div 4096 mod 64) * 64 + cp div 64 mod 64) * 64 + cp mod 64 = cp"
      unfolding d e ..
    with 4 top show ?thesis
      unfolding u by (subst read_char_long) (simp_all add: c l t numeral_3_eq_3)
  qed
qed

lemma read_char_iff:
  assumes "s \<noteq> []"
  shows "read_char s = Some (cp, n) \<longleftrightarrow> topic_char cp \<and> s = utf8 cp @ drop n s \<and> n = length (utf8 cp)"
proof
  assume r: "read_char s = Some (cp, n)"
  show "topic_char cp \<and> s = utf8 cp @ drop n s \<and> n = length (utf8 cp)"
  proof (cases "128 \<le> code (hd s)")
    case True
    from read_char_sound [OF r True] have "topic_char cp" "s = utf8 cp @ drop n s" by auto
    moreover from this read_char_complete [OF this(1), of "drop n s"] r have "n = length (utf8 cp)" by simp
    ultimately show ?thesis by simp
  next
    case False
    with r have "cp = code (hd s)" "n = 1" "cp \<noteq> 0" "hd s \<noteq> CHR ''+''" "hd s \<noteq> CHR ''#''"
      by (auto simp: read_char_def Let_def split: if_splits)
    moreover from this have "cp \<noteq> 0x2b" "cp \<noteq> 0x23" unfolding wildcard_codes by simp_all
    ultimately show ?thesis using False assms by (cases s) (auto simp: topic_char_def utf8_def)
  qed
next
  assume a: "topic_char cp \<and> s = utf8 cp @ drop n s \<and> n = length (utf8 cp)"
  then show "read_char s = Some (cp, n)" using read_char_complete [of cp "drop n s"] by metis
qed

lemma topic_loop_text: "i \<le> length t \<Longrightarrow> topic_loop t i \<longleftrightarrow> topic_text (drop i t)"
proof (induction "length t - i" arbitrary: i rule: less_induct)
  case less
  show ?case
  proof (cases "i < length t")
    case False
    then show ?thesis using less.prems topic_text_Nil by (subst topic_loop.simps) simp
  next
    case True
    let ?s = "drop i t"
    have ne: "?s \<noteq> []" using True by simp
    have tt: "topic_text ?s \<longleftrightarrow> (\<exists>cp n. read_char ?s = Some (cp, n) \<and> topic_text (drop n ?s))"
      unfolding topic_text_step [OF ne] read_char_iff [OF ne]
      by (metis append_eq_conv_conj)
    show ?thesis
    proof (cases "read_char ?s")
      case None
      then show ?thesis using tt by (simp add: topic_loop_step [OF True])
    next
      case (Some p)
      obtain cp n where p: "p = (cp, n)" by fastforce
      have "?s = utf8 cp @ drop n ?s" "n = length (utf8 cp)" using Some read_char_iff [OF ne, of cp n] p by auto
      then have "n \<le> length ?s" "0 < n" using utf8_nonempty [of cp] by (metis length_append le_add1, simp)
      then have "topic_loop t (i + n) \<longleftrightarrow> topic_text (drop (i + n) t)" using True by (intro less.hyps) simp_all
      then show ?thesis using tt Some p by (simp add: topic_loop_step [OF True] add.commute)
    qed
  qed
qed

section \<open>Packets built in the buffer\<close>

text \<open>A string as MQTT has it, and the packets as it lays them out.\<close>

definition mqtt_string :: "string \<Rightarrow> string" where
  "mqtt_string s = be16 (length s) @ s"

definition packet :: "char \<Rightarrow> string \<Rightarrow> string" where
  "packet byte1 body = byte1 # mqtt_encode (length body) @ body"

definition connect_body :: "mqtt_conf \<Rightarrow> mqtt_endpoint \<Rightarrow> string" where
  "connect_body cf ep =
     mqtt_string (protocol_name cf) @ [protocol_level cf, char_of (connect_flags cf)] @ be16 (cf_keep_alive cf) @
     mqtt_string (client_id cf ep) @
     (case cf_will cf of None \<Rightarrow> [] | Some will \<Rightarrow> mqtt_string (wl_topic will) @ mqtt_string (wl_message will)) @
     mqtt_string (ep_username ep) @ mqtt_string (ep_password ep)"

definition subscribe_body :: "string \<Rightarrow> mqtt_qos \<Rightarrow> string" where
  "subscribe_body topic qos = [CHR 0x00, CHR 0x01] @ mqtt_string topic @ [qos_byte qos]"

text \<open>The buffer holds \<open>c\<close> from offset 8 on, and the index is after it.\<close>

definition holds :: "nat \<Rightarrow> string \<Rightarrow> filled \<Rightarrow> bool" where
  "holds sz c b \<longleftrightarrow> length (fst b) = sz \<and> snd b = 8 + length c \<and> 8 + length c \<le> sz \<and>
     take (length c) (drop 8 (fst b)) = c"

lemma take_drop_write:
  assumes "i + length s \<le> length buf" "k \<le> i"
  shows "take (i + n - k) (drop k (mem_write buf i s)) = take (i - k) (drop k buf) @ take n (s @ drop (i + length s) buf)"
  using assms by (simp add: mem_write_def drop_take)

lemma put_bytes_bind:
  assumes "holds sz c b" "8 + length c + length s \<le> sz" "\<And>b'. holds sz (c @ s) b' \<Longrightarrow> f b' = r"
  shows "put_bytes s b \<bind> f = r"
proof -
  obtain buf i where b: "b = (buf, i)" by fastforce
  have h: "length buf = sz" "i = 8 + length c" "take (length c) (drop 8 buf) = c"
    using assms(1) by (simp_all add: holds_def b)
  have "take (length c + length s) (drop 8 (mem_write buf i s)) = c @ s"
    using take_drop_write [of i s buf 8 "length s"] assms(2) h by simp
  then have "f (mem_write buf i s, i + length s) = r" using h assms(2) by (intro assms(3)) (simp add: holds_def)
  then show ?thesis using h assms(2) by (simp add: put_bytes_def b)
qed

lemma put_strcpy_bind:
  assumes "holds sz c b" "8 + length c + length s < sz" "\<And>b'. holds sz (c @ s) b' \<Longrightarrow> f b' = r"
  shows "put_strcpy s b \<bind> f = r"
proof -
  obtain buf i where b: "b = (buf, i)" by fastforce
  have h: "length buf = sz" "i = 8 + length c" "take (length c) (drop 8 buf) = c"
    using assms(1) by (simp_all add: holds_def b)
  have "take (length c + length s) (drop 8 (mem_write buf i (s @ [NUL]))) = c @ s"
    using take_drop_write [of i "s @ [NUL]" buf 8 "length s"] assms(2) h by simp
  moreover have "length (mem_write buf i (s @ [NUL])) = sz" using h assms(2) by simp
  ultimately have "f (mem_write buf i (s @ [NUL]), i + length s) = r"
    using h assms(2) by (intro assms(3)) (simp add: holds_def)
  then show ?thesis using h assms(2) by (simp add: put_strcpy_def b)
qed

lemma drop_mem_write_beyond:
  assumes "j + length s \<le> n" "j \<le> length buf"
  shows "drop n (mem_write buf j s) = drop n buf"
proof -
  have "n = (n - (j + length s)) + (j + length s)" using assms by simp
  then have "drop n (mem_write buf j s) = drop (n - (j + length s)) (drop (j + length s) (mem_write buf j s))"
    by (simp only: drop_drop)
  also have "\<dots> = drop (n - (j + length s)) (drop (j + length s) buf)" using assms by (simp add: mem_write_def)
  also have "\<dots> = drop n buf" using assms by simp
  finally show ?thesis .
qed

lemma copy_down_spec:
  assumes "j \<le> 8 + k" "8 + k + n \<le> length buf"
  shows "\<exists>buf'. copy_down n k (buf, j) = Some (buf', j + n) \<and> length buf' = length buf \<and>
    take (j + n) buf' = take j buf @ take n (drop (8 + k) buf)"
  using assms
proof (induction n arbitrary: k buf j)
  case 0
  then show ?case by simp
next
  case (Suc n)
  define buf1 where "buf1 = mem_write buf j [buf ! (8 + k)]"
  have l: "length buf1 = length buf" using Suc.prems by (simp add: buf1_def)
  obtain buf' where b: "copy_down n (Suc k) (buf1, Suc j) = Some (buf', Suc j + n)" "length buf' = length buf"
    "take (Suc j + n) buf' = take (Suc j) buf1 @ take n (drop (8 + Suc k) buf1)"
    using Suc.IH [of "Suc j" "Suc k" buf1] Suc.prems l by auto
  have "take (Suc j) buf1 = take j buf @ [buf ! (8 + k)]"
    using take_mem_write [of j buf "[buf ! (8 + k)]"] Suc.prems by (simp add: buf1_def)
  moreover have "drop (8 + Suc k) buf1 = drop (8 + Suc k) buf"
    unfolding buf1_def by (rule drop_mem_write_beyond) (use Suc.prems in simp_all)
  moreover have "take (Suc n) (drop (8 + k) buf) = buf ! (8 + k) # take n (drop (8 + Suc k) buf)"
    using Suc.prems by (simp add: Cons_nth_drop_Suc [symmetric])
  ultimately show ?case using b Suc.prems by (simp add: buf1_def)
qed

lemma finish_packet_holds:
  assumes "holds sz c b"
  shows "finish_packet byte1 b = Some (packet byte1 c)"
proof -
  obtain buf i where b: "b = (buf, i)" by fastforce
  have h: "length buf = sz" "i = 8 + length c" "8 + length c \<le> sz" "take (length c) (drop 8 buf) = c"
    using assms by (simp_all add: holds_def b)
  let ?h = "byte1 # mqtt_encode (length c)"
  have e: "length ?h \<le> 6" using length_encode_le [of "length c" 0] by (simp add: mqtt_encode_def)
  define buf1 where "buf1 = mem_write buf 0 ?h"
  have l: "length buf1 = sz" using h e by (simp add: buf1_def)
  have d: "drop 8 buf1 = drop 8 buf" using e by (simp add: buf1_def mem_write_def)
  obtain buf' where c: "copy_down (length c) 0 (buf1, length ?h) = Some (buf', length ?h + length c)"
    "take (length ?h + length c) buf' = take (length ?h) buf1 @ take (length c) (drop 8 buf1)"
    using copy_down_spec [of "length ?h" 0 "length c" buf1] e h l by auto
  have "take (length ?h) buf1 = ?h"
    unfolding buf1_def by (rule take_mem_write_all [of _ "length ?h"]) simp
  with c d h have "take (length ?h + length c) buf' = packet byte1 c" by (simp add: packet_def)
  moreover have "put_bytes ?h (buf, 0) = Some (buf1, length ?h)"
    using e h by (simp add: put_bytes_def buf1_def)
  ultimately show ?thesis using c(1) h(2) by (simp add: finish_packet_def b)
qed

lemma holds_empty: "8 \<le> sz \<Longrightarrow> holds sz [] (replicate sz NUL, 8)"
  by (simp add: holds_def)

lemma length_be16 [simp]: "length (be16 n) = 2"
  by (simp add: be16_def)

lemma put_will_bind:
  assumes "holds sz c b"
    and "8 + length c + (case cf_will cf of None \<Rightarrow> 0 | Some w \<Rightarrow> 4 + length (wl_topic w) + length (wl_message w)) \<le> sz"
    and "\<And>b'. holds sz (c @ (case cf_will cf of None \<Rightarrow> []
      | Some w \<Rightarrow> mqtt_string (wl_topic w) @ mqtt_string (wl_message w))) b' \<Longrightarrow> f b' = r"
  shows "put_will cf b \<bind> f = r"
proof (cases "cf_will cf")
  case None
  then show ?thesis using assms by (simp add: put_will_def)
next
  case (Some w)
  have "put_bytes (be16 (length (wl_topic w))) b \<bind> (\<lambda>b. put_bytes (wl_topic w) b \<bind>
      (\<lambda>b. put_bytes (be16 (length (wl_message w))) b \<bind> (\<lambda>b. put_bytes (wl_message w) b \<bind> f))) = r"
    using assms Some
    by (intro put_bytes_bind [where sz = sz]) (auto simp: mqtt_string_def)
  then show ?thesis by (simp add: put_will_def Some)
qed

lemma encode_length_4:
  assumes "n \<le> 268435455"
  shows "length (mqtt_encode n) \<le> 4"
  using decode_encode_loop [of "[]" 0 n "[]" 1 0] assms decode_canonical [of "mqtt_encode n" 0 1 0 n "length (mqtt_encode n)"]
  by (simp add: mqtt_encode_def)

lemma decode_encode:
  assumes "n \<le> 268435455"
  shows "mqtt_decode (mqtt_encode n @ rest) = Some (n, length (mqtt_encode n))"
  using decode_encode_loop [of "[]" 0 n rest 1 0] assms by (simp add: mqtt_decode_def mqtt_encode_def)

lemma encode_decode:
  assumes "mqtt_decode buf = Some (r, j)" "j \<le> length buf"
  shows "r \<le> 268435455" "j \<le> 4" "mqtt_encode r = take j buf"
proof -
  have c: "j \<le> 4" "r < 128 ^ j" "mqtt_encode r = take j buf"
    using decode_canonical [of buf 0 1 0 r j] assms by (auto simp: mqtt_decode_def mqtt_encode_def)
  have "(128 :: nat) ^ j \<le> 128 ^ 4" using c(1) by (intro power_increasing) simp_all
  with c(2) show "r \<le> 268435455" by simp
  show "j \<le> 4" "mqtt_encode r = take j buf" using c by simp_all
qed

text \<open>
  C18. Remaining lengths: what \<open>_mqtt_encode\<close> writes of any length MQTT allows is at most four
  bytes, and \<open>_mqtt_decode\<close> reads the length back from it and takes just those bytes, whatever
  follows; and whatever it accepts is a length MQTT allows, written as \<open>_mqtt_encode\<close> writes it,
  so a length written in more bytes than it takes is refused.
\<close>

theorem remaining_length_round_trip:
  "(n \<le> 268435455 \<longrightarrow>
      mqtt_decode (mqtt_encode n @ rest) = Some (n, length (mqtt_encode n)) \<and> length (mqtt_encode n) \<le> 4) \<and>
   (mqtt_decode buf = Some (r, j) \<and> j \<le> length buf \<longrightarrow>
      r \<le> 268435455 \<and> j \<le> 4 \<and> mqtt_encode r = take j buf)"
  using decode_encode encode_length_4 encode_decode by blast

theorem remaining_length_round_trip_witness:
  "mqtt_decode (mqtt_encode 321 @ ''x'') = Some (321, 2) \<and>
   mqtt_encode 321 = take 2 [CHR 0xc1, CHR 0x02, CHR ''x'']"
proof -
  have e: "mqtt_encode 321 = [CHR 0xc1, CHR 0x02]"
    by code_simp
  have d: "mqtt_decode [CHR 0xc1, CHR 0x02, CHR ''x''] = Some (321, 2)"
    using decode_encode_loop [of "[]" 0 321 "''x''" 1 0] e by (simp add: mqtt_decode_def mqtt_encode_def)
  show ?thesis
    using remaining_length_round_trip [of 321 "''x''" "[CHR 0xc1, CHR 0x02, CHR ''x'']" 321 2] d e by simp
qed

text \<open>
  C19. \<open>_is_publish_topic\<close> takes as a topic just the well-formed UTF-8 text, at least a character
  long, of Unicode characters other than U+0000, the two wildcards and the surrogates: an
  overlong form, a stray or missing continuation byte and a code point past U+10FFFF are all
  refused, and every text of those characters is accepted.
\<close>

theorem publish_topic_is_text: "is_publish_topic t \<longleftrightarrow> t \<noteq> [] \<and> topic_text t"
  using topic_loop_text [of 0 t] by (simp add: is_publish_topic_def)

lemma be16_bytes: "be16 n = [char_of (n div 256), char_of n]"
proof -
  have "drop_bit 8 (n AND 0xff00) = n div 256 mod 256"
    using and_low [of "n div 256" 8] drop_bit_and [of 8 n "0xff00"] by (simp add: drop_bit_eq_div)
  then have "char_of (drop_bit 8 (n AND 0xff00)) = (char_of (n div 256) :: char)" by (simp flip: code_eq_iff)
  moreover have "char_of (n AND 0xff) = (char_of n :: char)"
    using and_low [of n 8] by (simp flip: code_eq_iff)
  ultimately show ?thesis by (simp add: be16_def)
qed

lemmas put_binds = put_bytes_bind put_strcpy_bind put_will_bind

lemma connect_built:
  assumes "connect_fits cf ep sz"
  shows "mqtt_connect cf ep sz = Some (packet (CHR 0x10) (connect_body cf ep))"
proof -
  have p: "be16 (length (protocol_name cf)) = [CHR 0x00, char_of (length (protocol_name cf))]"
    by (simp add: be16_bytes protocol_name_def char_of_0)
  have l: "20 + length (protocol_name cf) + length (client_id cf ep) +
      (case cf_will cf of None \<Rightarrow> 0 | Some w \<Rightarrow> 4 + length (wl_topic w) + length (wl_message w)) +
      length (ep_username ep) + length (ep_password ep) < sz"
    using assms by (simp add: connect_fits_def Let_def)
  then have "holds sz [] (replicate sz NUL, 8)" by (intro holds_empty) linarith
  then show ?thesis
    unfolding mqtt_connect_def
    apply -
    apply (rule put_binds, assumption, use l in \<open>auto simp: mqtt_string_def split: option.split\<close>)+
    apply (rule finish_packet_holds [THEN trans], assumption)
    apply (simp add: connect_body_def mqtt_string_def p)
    done
qed

lemma subscribe_built:
  assumes "subscribe_fits ep sz"
  shows "mqtt_subscribe (ep_topic ep) qos sz = Some (packet (CHR 0x82) (subscribe_body (ep_topic ep) qos))"
proof -
  have l: "12 + length (ep_topic ep) < sz" using assms by (simp add: subscribe_fits_def)
  then have "holds sz [] (replicate sz NUL, 8)" by (intro holds_empty) linarith
  then show ?thesis
    unfolding mqtt_subscribe_def
    apply -
    apply (rule put_binds, assumption, use l in \<open>simp add: mqtt_string_def\<close>)+
    apply (rule finish_packet_holds [THEN trans], assumption)
    apply (simp add: subscribe_body_def mqtt_string_def)
    done
qed

text \<open>A configuration and an endpoint the witnesses use.\<close>

definition example_conf :: mqtt_conf where
  "example_conf =
     \<lparr>cf_version = VERSION_3_1_1, cf_clean_session = True,
      cf_will = Some \<lparr>wl_topic = ''w'', wl_message = ''bye'', wl_qos = QOS_1, wl_retain = False\<rparr>,
      cf_client_id = None, cf_qos = QOS_1, cf_keep_alive = 300, cf_to_recv_sec = 15, cf_insecure = False,
      cf_retry_wait_max_ms = 0, cf_endpoint_given = True, cf_endpoint =
        \<lparr>ep_username = ''u'', ep_password = ''p'', ep_topic = ''t'', ep_host = ''h'', ep_port_tcp = 1883, ep_port_ssl = 8883\<rparr>,
      cf_buffer = Some 64, cf_has_lock = True, cf_has_recv_wait = False, cf_has_recv_timed_out = False,
      cf_has_clock = False, cf_has_credentials = False, cf_has_continue = True, cf_has_exit = False,
      cf_has_event = True, cf_has_logger = False\<rparr>"

text \<open>
  C17. Where the checks of \<open>_mqtt_state_send_connect\<close> and \<open>_mqtt_state_send_subscribe\<close> let a
  CONNECT or a SUBSCRIBE be built, every byte is written within the buffer, whichever version,
  will and strings there are, and what is sent is the packet MQTT lays out: the first byte, the
  remaining length in as few bytes as it takes, then, of a CONNECT, protocol name and level,
  flags, keep-alive, client identifier, the will's topic and message if there is a will, the user
  name and the password, and of a SUBSCRIBE the packet identifier, the topic and the QoS, each
  string after its length.
\<close>

theorem packets_built:
  "(connect_fits cf ep sz \<longrightarrow> mqtt_connect cf ep sz = Some (packet (CHR 0x10) (connect_body cf ep))) \<and>
   (subscribe_fits ep sz \<longrightarrow>
      mqtt_subscribe (ep_topic ep) qos sz = Some (packet (CHR 0x82) (subscribe_body (ep_topic ep) qos)))"
  by (simp add: connect_built subscribe_built)

theorem packets_built_witness:
  "mqtt_connect example_conf (cf_endpoint example_conf) 64 =
     Some (packet (CHR 0x10) (connect_body example_conf (cf_endpoint example_conf))) \<and>
   mqtt_subscribe (ep_topic (cf_endpoint example_conf)) QOS_1 64 =
     Some (packet (CHR 0x82) (subscribe_body (ep_topic (cf_endpoint example_conf)) QOS_1))"
  using packets_built [of example_conf "cf_endpoint example_conf" 64 QOS_1]
  by (simp add: connect_fits_def subscribe_fits_def example_conf_def protocol_name_def client_id_def)

section \<open>Messages\<close>

lemma uint16_be16:
  assumes "n \<le> 65535"
  shows "uint16_at (be16 n @ s) 0 = n"
proof -
  have "n div 256 < 256" using assms by (simp add: div_less_iff_less_mult)
  then show ?thesis by (simp add: uint16_at_def be16_bytes)
qed

text \<open>What a message has to be for MQTT to carry it, as \<open>kii_mqtt_publish\<close> checks of its own.\<close>

definition publishable :: "mqtt_message \<Rightarrow> bool" where
  "publishable m \<longleftrightarrow>
     is_publish_topic (ms_topic m) \<and> length (ms_topic m) \<le> 65535 \<and> ms_packet_id m \<le> 65535 \<and>
     (ms_qos m = QOS_1 \<longleftrightarrow> ms_packet_id m \<noteq> 0)"

definition publish_body :: "mqtt_message \<Rightarrow> string" where
  "publish_body m =
     mqtt_string (ms_topic m) @ (if ms_qos m = QOS_1 then be16 (ms_packet_id m) else []) @ ms_payload m"

lemma publish_pieces_packet:
  assumes "length (ms_topic m) \<le> 65535" "ms_packet_id m \<le> 65535"
  shows "concat (publish_pieces m) = packet (char_of (publish_byte1 m)) (publish_body m)"
proof -
  have d: "[char_of (drop_bit 8 n), char_of (n AND 0xff)] = be16 n" if "n \<le> 65535" for n
  proof -
    have "char_of (n AND 0xff) = (char_of n :: char)" using and_low [of n 8] by (simp flip: code_eq_iff)
    then show ?thesis by (simp add: be16_bytes drop_bit_eq_div)
  qed
  have n: "length (publish_body m) =
      2 + length (ms_topic m) + (if ms_qos m = QOS_1 then 2 else 0) + length (ms_payload m)"
    by (simp add: publish_body_def mqtt_string_def)
  show ?thesis
    unfolding publish_pieces_def Let_def d [OF assms(1)] d [OF assms(2)] packet_def n
    by (simp add: publish_body_def mqtt_string_def)
qed

lemma publish_byte1_flags:
  "code (char_of (publish_byte1 m)) AND 0xf0 = 0x30"
  "publish_qos (char_of (publish_byte1 m)) = (if ms_qos m = QOS_1 then 1 else 0)"
  "publish_dup (char_of (publish_byte1 m)) \<longleftrightarrow> ms_dup m"
  "publish_retain (char_of (publish_byte1 m)) \<longleftrightarrow> ms_retain m"
  by (cases "ms_dup m"; cases "ms_retain m"; cases "ms_qos m = QOS_1";
      simp add: publish_byte1_def publish_qos_def publish_dup_def publish_retain_def)+

lemma be16_uint16:
  assumes "i + 2 \<le> length s"
  shows "be16 (uint16_at s i) = take 2 (drop i s)"
proof -
  have "drop i s = s ! i # s ! (i + 1) # drop (i + 2) s"
    using assms by (simp add: Cons_nth_drop_Suc)
  then show ?thesis by (simp add: be16_bytes uint16_at_def flip: code_eq_iff)
qed

lemma uint16_le: "uint16_at s i \<le> 65535"
  using code_less [of "s ! i"] code_less [of "s ! (i + 1)"] unfolding uint16_at_def by linarith

lemma publish_body_parts:
  assumes "length (ms_topic m) \<le> 65535" "ms_packet_id m \<le> 65535"
  shows "uint16_at (publish_body m) 0 = length (ms_topic m)"
    and "take (length (ms_topic m)) (drop 2 (publish_body m)) = ms_topic m"
    and "ms_qos m = QOS_1 \<Longrightarrow> uint16_at (publish_body m) (2 + length (ms_topic m)) = ms_packet_id m"
    and "drop (2 + length (ms_topic m) + (if ms_qos m = QOS_1 then 2 else 0)) (publish_body m) = ms_payload m"
    and "length (publish_body m) = 2 + length (ms_topic m) + (if ms_qos m = QOS_1 then 2 else 0) + length (ms_payload m)"
proof -
  have b: "length (be16 n) = Suc (Suc 0)" for n by simp
  show "uint16_at (publish_body m) 0 = length (ms_topic m)"
    using uint16_be16 [OF assms(1)] by (simp add: publish_body_def mqtt_string_def)
  show "take (length (ms_topic m)) (drop 2 (publish_body m)) = ms_topic m"
    "drop (2 + length (ms_topic m) + (if ms_qos m = QOS_1 then 2 else 0)) (publish_body m) = ms_payload m"
    "length (publish_body m) = 2 + length (ms_topic m) + (if ms_qos m = QOS_1 then 2 else 0) + length (ms_payload m)"
    by (simp_all add: publish_body_def mqtt_string_def)
  assume q: "ms_qos m = QOS_1"
  have u: "uint16_at (a @ s) (length a) = uint16_at s 0" for a s by (simp add: uint16_at_def nth_append)
  have "publish_body m = mqtt_string (ms_topic m) @ be16 (ms_packet_id m) @ ms_payload m"
    using q by (simp add: publish_body_def)
  moreover have "2 + length (ms_topic m) = length (mqtt_string (ms_topic m))" by (simp add: mqtt_string_def)
  ultimately show "uint16_at (publish_body m) (2 + length (ms_topic m)) = ms_packet_id m"
    using u uint16_be16 [OF assms(2)] by simp
qed

lemma read_publish_body:
  assumes "publishable m"
  shows "read_publish (if ms_qos m = QOS_1 then 1 else 0) (ms_dup m) (ms_retain m) (publish_body m) = Some m"
proof -
  note p = publish_body_parts [of m]
  have a: "length (ms_topic m) \<le> 65535" "ms_packet_id m \<le> 65535" "is_publish_topic (ms_topic m)"
    "ms_qos m = QOS_1 \<longleftrightarrow> ms_packet_id m \<noteq> 0"
    using assms by (simp_all add: publishable_def)
  define k where "k = (if ms_qos m = QOS_1 then 2 else (0 :: nat))"
  have k: "(if (if ms_qos m = QOS_1 then 1 else 0) = (1 :: nat) then 2 else 0) = k" "0 < k \<longleftrightarrow> ms_qos m = QOS_1"
    by (simp_all add: k_def)
  note p' = p [OF a(1,2), folded k_def]
  have l: "\<not> length (publish_body m) < 2" "length (ms_topic m) + k \<le> length (publish_body m) - 2"
    unfolding p'(5) by simp_all
  have i: "(if 0 < k then uint16_at (publish_body m) (2 + length (ms_topic m)) else 0) = ms_packet_id m"
    using p'(3) a(4) k(2) by auto
  have q: "(if (if ms_qos m = QOS_1 then 1 else 0) = (1 :: nat) then QOS_1 else QOS_0) = ms_qos m"
    by (cases "ms_qos m") simp_all
  have m: "\<lparr>ms_topic = ms_topic m, ms_payload = ms_payload m, ms_qos = ms_qos m, ms_retain = ms_retain m,
      ms_dup = ms_dup m, ms_packet_id = ms_packet_id m\<rparr> = m" by simp
  show ?thesis
    unfolding read_publish_def Let_def k(1) p'(1,2,4) i q m using l a k(2) by auto
qed

lemma read_publish_sound:
  assumes "read_publish q d r buff = Some m"
  shows "publishable m" "publish_body m = buff" "ms_dup m = d" "ms_retain m = r" "ms_qos m = (if q = 1 then QOS_1 else QOS_0)"
proof -
  define t where "t = uint16_at buff 0"
  define k where "k = (if q = 1 then 2 else (0 :: nat))"
  have a: "2 \<le> length buff" "t + k \<le> length buff - 2" "is_publish_topic (take t (drop 2 buff))"
      "k > 0 \<longrightarrow> uint16_at buff (2 + t) \<noteq> 0"
    and m: "m = \<lparr>ms_topic = take t (drop 2 buff), ms_payload = drop (2 + t + k) buff,
        ms_qos = (if q = 1 then QOS_1 else QOS_0), ms_retain = r, ms_dup = d,
        ms_packet_id = (if k > 0 then uint16_at buff (2 + t) else 0)\<rparr>"
    using assms unfolding read_publish_def Let_def t_def [symmetric] k_def [symmetric]
    by (auto split: if_splits)
  show "ms_dup m = d" "ms_retain m = r" "ms_qos m = (if q = 1 then QOS_1 else QOS_0)" using m by simp_all
  have l: "length (take t (drop 2 buff)) = t" using a by simp
  have t: "t \<le> 65535" unfolding t_def by (rule uint16_le)
  show "publishable m"
    using a(3,4) t uint16_le [of buff "2 + t"] l by (auto simp: publishable_def m k_def)
  have "buff = take 2 buff @ take t (drop 2 buff) @ drop (2 + t) buff"
    by (metis append_take_drop_id drop_drop add.commute)
  moreover have "take 2 buff = be16 t" using be16_uint16 [of 0 buff] a(1) by (simp add: t_def)
  moreover have "drop (2 + t) buff = (if q = 1 then be16 (uint16_at buff (2 + t)) else []) @ drop (2 + t + k) buff"
  proof (cases "q = 1")
    case True
    then have "2 + t + 2 \<le> length buff" using a(1,2) by (simp add: k_def)
    with True show ?thesis
      using append_take_drop_id [of 2 "drop (2 + t) buff"] by (simp add: be16_uint16 k_def add.commute add.left_commute)
  qed (simp add: k_def)
  ultimately have "buff = be16 t @ take t (drop 2 buff) @
      (if q = 1 then be16 (uint16_at buff (2 + t)) else []) @ drop (2 + t + k) buff"
    by metis
  note b = this
  have e: "ms_topic m = take t (drop 2 buff)" "ms_payload m = drop (2 + t + k) buff"
    "(if ms_qos m = QOS_1 then be16 (ms_packet_id m) else []) = (if q = 1 then be16 (uint16_at buff (2 + t)) else [])"
    by (simp_all add: m k_def)
  show "publish_body m = buff"
    unfolding publish_body_def mqtt_string_def e l append_assoc by (rule b [symmetric])
qed

text \<open>
  C16. A message MQTT can carry comes through the wire unchanged: what \<open>_mqtt_send_publish\<close> puts
  out starts with a byte whose type is PUBLISH, then a remaining length the receiver decodes, then
  just as many bytes, of which it reads, with the QoS, DUP and RETAIN it takes from the first
  byte, the same message; and a message the task hands to the application of what a broker sent
  is one MQTT can carry, the bytes it was read from being those it would itself put out.
\<close>

theorem publish_round_trip:
  "(publishable m \<and> length (publish_body m) \<le> 268435455 \<longrightarrow>
      (\<exists>b r. concat (publish_pieces m) = b # mqtt_encode (length r) @ r \<and> code b AND 0xf0 = 0x30 \<and>
         mqtt_decode (mqtt_encode (length r) @ r) = Some (length r, length (mqtt_encode (length r))) \<and>
         read_publish (publish_qos b) (publish_dup b) (publish_retain b) r = Some m)) \<and>
   (read_publish q d t buff = Some m' \<longrightarrow>
      publishable m' \<and> ms_dup m' = d \<and> ms_retain m' = t \<and>
      concat (publish_pieces m') = packet (char_of (publish_byte1 m')) buff)"
proof (intro conjI impI)
  assume p: "publishable m \<and> length (publish_body m) \<le> 268435455"
  let ?b = "char_of (publish_byte1 m) :: char" and ?r = "publish_body m"
  have "concat (publish_pieces m) = ?b # mqtt_encode (length ?r) @ ?r"
    using p by (simp add: publish_pieces_packet packet_def publishable_def)
  moreover have "mqtt_decode (mqtt_encode (length ?r) @ ?r) = Some (length ?r, length (mqtt_encode (length ?r)))"
    using p by (intro decode_encode) simp
  moreover have "read_publish (publish_qos ?b) (publish_dup ?b) (publish_retain ?b) ?r = Some m"
    using read_publish_body p by (simp only: publish_byte1_flags)
  ultimately show "\<exists>b r. concat (publish_pieces m) = b # mqtt_encode (length r) @ r \<and> code b AND 0xf0 = 0x30 \<and>
      mqtt_decode (mqtt_encode (length r) @ r) = Some (length r, length (mqtt_encode (length r))) \<and>
      read_publish (publish_qos b) (publish_dup b) (publish_retain b) r = Some m"
    using publish_byte1_flags(1) by blast
next
  assume "read_publish q d t buff = Some m'"
  note s = read_publish_sound [OF this]
  then show "publishable m'" "ms_dup m' = d" "ms_retain m' = t" by simp_all
  show "concat (publish_pieces m') = packet (char_of (publish_byte1 m')) buff"
    using s(1,2) publish_pieces_packet [of m'] by (simp add: publishable_def)
qed

theorem publish_round_trip_witness:
  "(\<exists>b r. concat (publish_pieces \<lparr>ms_topic = ''t'', ms_payload = ''hi'', ms_qos = QOS_1, ms_retain = False,
        ms_dup = True, ms_packet_id = 2\<rparr>) = b # mqtt_encode (length r) @ r \<and> code b AND 0xf0 = 0x30 \<and>
      mqtt_decode (mqtt_encode (length r) @ r) = Some (length r, length (mqtt_encode (length r))) \<and>
      read_publish (publish_qos b) (publish_dup b) (publish_retain b) r =
        Some \<lparr>ms_topic = ''t'', ms_payload = ''hi'', ms_qos = QOS_1, ms_retain = False,
          ms_dup = True, ms_packet_id = 2\<rparr>) \<and>
   publishable \<lparr>ms_topic = ''t'', ms_payload = [], ms_qos = QOS_0, ms_retain = True, ms_dup = False, ms_packet_id = 0\<rparr>"
proof -
  let ?m = "\<lparr>ms_topic = ''t'', ms_payload = ''hi'', ms_qos = QOS_1, ms_retain = False, ms_dup = True, ms_packet_id = 2\<rparr>"
  let ?n = "\<lparr>ms_topic = ''t'', ms_payload = [], ms_qos = QOS_0, ms_retain = True, ms_dup = False, ms_packet_id = 0\<rparr>"
  have "is_publish_topic ''t''" by code_simp
  then have m: "publishable ?m \<and> length (publish_body ?m) \<le> 268435455"
    by (simp add: publishable_def publish_body_def mqtt_string_def)
  have n: "read_publish 0 False True [CHR 0x00, CHR 0x01, CHR ''t''] = Some ?n" by code_simp
  show ?thesis using publish_round_trip [of ?m 0 False True "[CHR 0x00, CHR 0x01, CHR ''t'']" ?n] m n by blast
qed

end
