(* ===== verification/Mqtt_Task.thy ===== *)
theory Mqtt_Task
  imports Mqtt_Packet Khc_State
begin

text \<open>
  kii/kii\_mqtt\_task.c: the task that keeps a connection to the MQTT broker, one handler for each
  state of it.

  What the task calls (the socket, the system, the callbacks of the application, the REST requests
  of the other kii modules) are functions on a world \<open>'w\<close> the model is generic in; \<open>mqtt_conf\<close>
  says which of those that may be NULL are set.  The message \<open>kii_mqtt_publish\<close> shares with the
  task is \<open>pub_slot\<close>; whenever the task takes the lock, \<open>mi_others\<close> says what the callers have
  made of it since.  A result of \<open>None\<close> is a call that does not return (a socket that takes
  nothing for ever) or a write out of a buffer, which the code has no counterpart of.
  Times in milliseconds are at their width.
\<close>

section \<open>The state of the task and what it calls\<close>

datatype mqtt_task_state =
  ST_INSTALL_PUSH | ST_GET_ENDPOINT | ST_SOCK_CONNECT | ST_SEND_CONNECT | ST_RECV_CONNACK |
  ST_SEND_SUBSCRIBE | ST_RECV_SUBACK | ST_RECV_READY | ST_RECV_MSG | ST_SEND_PINGREQ |
  ST_SEND_PUBLISH | ST_RECONNECT | ST_ERR_EXIT | ST_DISCONTINUED

datatype mqtt_error =
  MQTT_ERR_OK | MQTT_ERR_INSTALLATION | MQTT_ERR_GET_ENDPOINT | MQTT_ERR_INSUFFICIENT_BUFF |
  MQTT_ERR_CREDENTIALS

datatype mqtt_event =
  EVENT_INSTALL_FAILED | EVENT_ENDPOINT_FAILED | EVENT_CONNECT_FAILED | EVENT_CONNACK |
  EVENT_SUBACK | EVENT_SEND_FAILED | EVENT_RECV_FAILED | EVENT_CLOSED_BY_BROKER |
  EVENT_UNEXPECTED_PACKET | EVENT_PING_TIMEOUT | EVENT_MESSAGE_TOO_LARGE | EVENT_MESSAGE_MALFORMED

datatype kii_code =
  KII_ERR_OK | KII_ERR_SOCK_CONNECT | KII_ERR_SOCK_CLOSE | KII_ERR_SOCK_SEND | KII_ERR_SOCK_RECV |
  KII_ERR_HEADER_CALLBACK | KII_ERR_WRITE_CALLBACK | KII_ERR_ALLOCATION | KII_ERR_TOO_LARGE_DATA |
  KII_ERR_RESP_STATUS | KII_ERR_PARSE_JSON | KII_ERR_FAIL | KII_ERR_CREATE_TASK | KII_ERR_TIMEOUT |
  KII_ERR_INVALID_RESPONSE

datatype pub_state =
  PUB_FREE | PUB_QUEUED | PUB_SENDING | PUB_AWAITING_PUBACK | PUB_ABANDONED | PUB_DONE

text \<open>
  \<open>pb_given\<close> is whether the pointers to topic and payload are set: they are NULL again once the
  caller, whose they are, has returned.
\<close>

record pub_slot =
  pb_open :: bool
  pb_state :: pub_state
  pb_message :: mqtt_message
  pb_given :: bool
  pb_result :: kii_code
  pb_last_id :: nat

record mqtt =
  mq_ins_id :: string
  mq_endpoint :: mqtt_endpoint
  mq_error :: mqtt_error
  mq_state :: mqtt_task_state
  mq_elapsed_time_ms :: u32
  mq_elapsed_since_ms :: u64
  mq_remaining_message_size :: nat
  mq_message_qos :: nat
  mq_message_dup :: bool
  mq_message_retain :: bool
  mq_awaiting_suback :: bool
  mq_pingresp_received :: bool
  mq_sock_connected :: bool
  mq_mqtt_connected :: bool
  mq_retry_wait_ms :: u32
  mq_wait_left_ms :: u32
  mq_connect_failures :: u32
  mq_pub :: pub_slot
  mq_running :: bool

text \<open>
  \<open>mi_credentials\<close> returns whether it gives credentials, and the endpoint as it leaves it, \<open>None\<close>
  for one with a string that is not terminated; \<open>mi_log\<close> is given whether at the level of a
  warning.
\<close>

record 'w mqtt_io =
  mi_connect :: "string \<Rightarrow> nat \<Rightarrow> 'w \<Rightarrow> sock_code \<times> 'w"
  mi_send :: "string \<Rightarrow> 'w \<Rightarrow> (sock_code \<times> nat) \<times> 'w"
  mi_recv :: "nat \<Rightarrow> 'w \<Rightarrow> (sock_code \<times> string) \<times> 'w"
  mi_close :: "'w \<Rightarrow> sock_code \<times> 'w"
  mi_recv_timed_out :: "'w \<Rightarrow> bool \<times> 'w"
  mi_recv_wait :: "u32 \<Rightarrow> 'w \<Rightarrow> bool \<times> 'w"
  mi_delay :: "u32 \<Rightarrow> 'w \<Rightarrow> 'w"
  mi_monotonic :: "'w \<Rightarrow> u64 \<times> 'w"
  mi_log :: "bool \<Rightarrow> string \<Rightarrow> nat \<Rightarrow> 'w \<Rightarrow> 'w"
  mi_event :: "mqtt_event \<Rightarrow> nat \<Rightarrow> 'w \<Rightarrow> 'w"
  mi_message :: "mqtt_message \<Rightarrow> 'w \<Rightarrow> 'w"
  mi_credentials :: "mqtt_endpoint \<Rightarrow> 'w \<Rightarrow> (bool \<times> mqtt_endpoint option) \<times> 'w"
  mi_install_push :: "'w \<Rightarrow> (kii_code \<times> string) \<times> 'w"
  mi_get_endpoint :: "string \<Rightarrow> 'w \<Rightarrow> (kii_code \<times> mqtt_endpoint) \<times> 'w"
  mi_onboard_again :: "'w \<Rightarrow> kii_code \<times> 'w"
  mi_renews_by_onboarding :: "'w \<Rightarrow> bool"
  mi_status_code :: "'w \<Rightarrow> nat"
  mi_author_id :: "'w \<Rightarrow> string"
  mi_onboarded :: "'w \<Rightarrow> string \<times> string \<times> mqtt_endpoint"
  mi_continue :: "mqtt_task_state \<Rightarrow> mqtt_error \<Rightarrow> 'w \<Rightarrow> bool \<times> 'w"
  mi_exit :: "mqtt_task_state \<Rightarrow> mqtt_error \<Rightarrow> 'w \<Rightarrow> 'w"
  mi_others :: "pub_slot \<Rightarrow> 'w \<Rightarrow> pub_slot \<times> 'w"

definition WAIT_MS :: u32 where "WAIT_MS = 1000"
definition ARRIVED_MSG_READ_TIME :: u32 where "ARRIVED_MSG_READ_TIME = 500"
definition MSG_SEND_TIME :: u32 where "MSG_SEND_TIME = 500"
definition RETRY_WAIT_MIN_MS :: u32 where "RETRY_WAIT_MIN_MS = 2000"
definition RETRY_WAIT_MAX_MS :: u32 where "RETRY_WAIT_MAX_MS = 300000"
definition MAX_CONNECT_FAILURES :: u32 where "MAX_CONNECT_FAILURES = 8"
definition RECV_WAIT_TURN_MS :: u32 where "RECV_WAIT_TURN_MS = 100"

abbreviation UINT32_MAX :: u32 where "UINT32_MAX \<equiv> 0xffffffff"

text \<open>The values of the enums, as the events and the loop use them.\<close>

fun st_value :: "mqtt_task_state \<Rightarrow> nat" where
  "st_value ST_INSTALL_PUSH = 0"
| "st_value ST_GET_ENDPOINT = 1"
| "st_value ST_SOCK_CONNECT = 2"
| "st_value ST_SEND_CONNECT = 3"
| "st_value ST_RECV_CONNACK = 4"
| "st_value ST_SEND_SUBSCRIBE = 5"
| "st_value ST_RECV_SUBACK = 6"
| "st_value ST_RECV_READY = 7"
| "st_value ST_RECV_MSG = 8"
| "st_value ST_SEND_PINGREQ = 9"
| "st_value ST_SEND_PUBLISH = 10"
| "st_value ST_RECONNECT = 11"
| "st_value ST_ERR_EXIT = 12"
| "st_value ST_DISCONTINUED = 13"

fun event_name :: "mqtt_event \<Rightarrow> string" where
  "event_name EVENT_INSTALL_FAILED = ''KII_MQTT_EVENT_INSTALL_FAILED''"
| "event_name EVENT_ENDPOINT_FAILED = ''KII_MQTT_EVENT_ENDPOINT_FAILED''"
| "event_name EVENT_CONNECT_FAILED = ''KII_MQTT_EVENT_CONNECT_FAILED''"
| "event_name EVENT_CONNACK = ''KII_MQTT_EVENT_CONNACK''"
| "event_name EVENT_SUBACK = ''KII_MQTT_EVENT_SUBACK''"
| "event_name EVENT_SEND_FAILED = ''KII_MQTT_EVENT_SEND_FAILED''"
| "event_name EVENT_RECV_FAILED = ''KII_MQTT_EVENT_RECV_FAILED''"
| "event_name EVENT_CLOSED_BY_BROKER = ''KII_MQTT_EVENT_CLOSED_BY_BROKER''"
| "event_name EVENT_UNEXPECTED_PACKET = ''KII_MQTT_EVENT_UNEXPECTED_PACKET''"
| "event_name EVENT_PING_TIMEOUT = ''KII_MQTT_EVENT_PING_TIMEOUT''"
| "event_name EVENT_MESSAGE_TOO_LARGE = ''KII_MQTT_EVENT_MESSAGE_TOO_LARGE''"
| "event_name EVENT_MESSAGE_MALFORMED = ''KII_MQTT_EVENT_MESSAGE_MALFORMED''"

definition log_event :: "mqtt_conf \<Rightarrow> 'w mqtt_io \<Rightarrow> mqtt_event \<Rightarrow> nat \<Rightarrow> 'w \<Rightarrow> 'w" where
  "log_event cf io event detail w =
     (let accepted = ((event = EVENT_CONNACK \<and> detail = 0) \<or> (event = EVENT_SUBACK \<and> detail \<noteq> 0x80))
      in if \<not> cf_has_logger cf then w else mi_log io (\<not> accepted) (event_name event) detail w)"

definition tell_event :: "mqtt_conf \<Rightarrow> 'w mqtt_io \<Rightarrow> mqtt_event \<Rightarrow> nat \<Rightarrow> 'w \<Rightarrow> 'w" where
  "tell_event cf io event detail w =
     (let w' = log_event cf io event detail w
      in if cf_has_event cf then mi_event io event detail w' else w')"

section \<open>Sending and receiving\<close>

text \<open>The loop every send is made in; \<open>err\<close> is what the last one returned.\<close>

partial_function (option) send_loop ::
    "'w mqtt_io \<Rightarrow> string \<Rightarrow> nat \<Rightarrow> sock_code \<Rightarrow> 'w \<Rightarrow> (sock_code \<times> 'w) option" where
  [code]: "send_loop io data total_sent err w =
     (if total_sent < length data
      then
        (case mi_send io (drop total_sent data) w of
           ((res, sent_len), w') \<Rightarrow>
             if res \<noteq> SOCK_OK then Some (SOCK_FAIL, w')
             else send_loop io data (total_sent + sent_len) res w')
      else Some (err, w))"

definition mqtt_send_connect :: "mqtt_conf \<Rightarrow> 'w mqtt_io \<Rightarrow> mqtt_endpoint \<Rightarrow> 'w \<Rightarrow> (sock_code \<times> 'w) option" where
  "mqtt_send_connect cf io ep w = do {
     packet \<leftarrow> mqtt_connect cf ep (case cf_buffer cf of Some n \<Rightarrow> n | None \<Rightarrow> 0);
     send_loop io packet 0 SOCK_FAIL w
   }"

definition mqtt_send_subscribe :: "mqtt_conf \<Rightarrow> 'w mqtt_io \<Rightarrow> string \<Rightarrow> mqtt_qos \<Rightarrow> 'w \<Rightarrow> (sock_code \<times> 'w) option" where
  "mqtt_send_subscribe cf io topic qos w = do {
     packet \<leftarrow> mqtt_subscribe topic qos (case cf_buffer cf of Some n \<Rightarrow> n | None \<Rightarrow> 0);
     send_loop io packet 0 SOCK_FAIL w
   }"

definition mqtt_send_header_only :: "'w mqtt_io \<Rightarrow> char \<Rightarrow> 'w \<Rightarrow> (sock_code \<times> 'w) option" where
  "mqtt_send_header_only io byte1 w = send_loop io [byte1, CHR 0x00] 0 SOCK_FAIL w"

definition mqtt_send_pingreq :: "'w mqtt_io \<Rightarrow> 'w \<Rightarrow> (sock_code \<times> 'w) option" where
  "mqtt_send_pingreq io w = mqtt_send_header_only io (CHR 0xc0) w"

definition mqtt_send_disconnect :: "'w mqtt_io \<Rightarrow> 'w \<Rightarrow> (sock_code \<times> 'w) option" where
  "mqtt_send_disconnect io w = mqtt_send_header_only io (CHR 0xe0) w"

definition mqtt_send_all :: "'w mqtt_io \<Rightarrow> string \<Rightarrow> 'w \<Rightarrow> (sock_code \<times> 'w) option" where
  "mqtt_send_all io data w = send_loop io data 0 SOCK_OK w"

definition mqtt_send_puback :: "'w mqtt_io \<Rightarrow> nat \<Rightarrow> 'w \<Rightarrow> (sock_code \<times> 'w) option" where
  "mqtt_send_puback io i w = send_loop io (puback i) 0 SOCK_FAIL w"

text \<open>A packet on its way out through a buffer of \<open>sz\<close>: what is used of it, and the result so far.\<close>

record mqtt_out =
  ot_used :: string
  ot_res :: sock_code

definition mqtt_out_flush :: "'w mqtt_io \<Rightarrow> mqtt_out \<Rightarrow> 'w \<Rightarrow> (mqtt_out \<times> 'w) option" where
  "mqtt_out_flush io out w =
     (if ot_res out = SOCK_OK \<and> length (ot_used out) > 0
      then do {
        (res, w') \<leftarrow> mqtt_send_all io (ot_used out) w;
        Some (out\<lparr>ot_res := res, ot_used := []\<rparr>, w')
      }
      else Some (out\<lparr>ot_used := []\<rparr>, w))"

text \<open>A buffer of size 0 would never be done with.\<close>

partial_function (option) mqtt_out_put ::
    "'w mqtt_io \<Rightarrow> nat \<Rightarrow> string \<Rightarrow> mqtt_out \<Rightarrow> 'w \<Rightarrow> (mqtt_out \<times> 'w) option" where
  [code]: "mqtt_out_put io sz data out w =
     (if length data > 0 \<and> ot_res out = SOCK_OK
      then do {
        (out', w') \<leftarrow> (if length (ot_used out) = sz then mqtt_out_flush io out w else Some (out, w));
        let n = (if sz - length (ot_used out') > length data then length data else sz - length (ot_used out'));
        mqtt_out_put io sz (drop n data) (out'\<lparr>ot_used := ot_used out' @ take n data\<rparr>) w'
      }
      else Some (out, w))"

fun mqtt_out_puts :: "'w mqtt_io \<Rightarrow> nat \<Rightarrow> string list \<Rightarrow> mqtt_out \<Rightarrow> 'w \<Rightarrow> (mqtt_out \<times> 'w) option" where
  "mqtt_out_puts io sz [] out w = Some (out, w)"
| "mqtt_out_puts io sz (s # ss) out w = do {
     (out', w') \<leftarrow> mqtt_out_put io sz s out w;
     mqtt_out_puts io sz ss out' w'
   }"

definition mqtt_send_publish :: "mqtt_conf \<Rightarrow> 'w mqtt_io \<Rightarrow> mqtt_message \<Rightarrow> 'w \<Rightarrow> (sock_code \<times> 'w) option" where
  "mqtt_send_publish cf io message w = do {
     (out, w') \<leftarrow> mqtt_out_puts io (case cf_buffer cf of Some n \<Rightarrow> n | None \<Rightarrow> 0)
       (publish_pieces message) \<lparr>ot_used = [], ot_res = SOCK_OK\<rparr> w;
     (out', w'') \<leftarrow> mqtt_out_flush io out w';
     Some (ot_res out', w'')
   }"

text \<open>The first byte of a fixed header; \<open>None\<close> is the end of the stream.\<close>

definition recv_fixed_header_byte1 :: "'w mqtt_io \<Rightarrow> 'w \<Rightarrow> ((sock_code \<times> char option) \<times> 'w) option" where
  "recv_fixed_header_byte1 io w =
     (case mi_recv io 1 w of
        ((res, s), w') \<Rightarrow>
          if length s > 1 then None else Some ((res, if s = [] then None else Some (hd s)), w'))"

text \<open>The loop over the bytes of a remaining length, \<open>k\<close> more at most.\<close>

fun header_rest_loop :: "'w mqtt_io \<Rightarrow> nat \<Rightarrow> string \<Rightarrow> 'w \<Rightarrow> (string option \<times> 'w) option" where
  "header_rest_loop io 0 buff w = Some (Some buff, w)"
| "header_rest_loop io (Suc k) buff w =
     (case mi_recv io 1 w of
        ((res, s), w') \<Rightarrow>
          if length s > 1 then None
          else if res \<noteq> SOCK_OK \<or> s = [] then Some (None, w')
          else if code (hd s) AND 128 = 0 then Some (Some (buff @ s), w')
          else header_rest_loop io k (buff @ s) w')"

text \<open>\<open>None\<close> for EBISU_SOCK_FAIL.\<close>

definition recv_fixed_header_rest :: "'w mqtt_io \<Rightarrow> 'w \<Rightarrow> (nat option \<times> 'w) option" where
  "recv_fixed_header_rest io w = do {
     (buff, w') \<leftarrow> header_rest_loop io 4 [] w;
     Some (case buff of None \<Rightarrow> None | Some b \<Rightarrow> map_option fst (mqtt_decode b), w')
   }"

definition recv_fixed_header :: "'w mqtt_io \<Rightarrow> 'w \<Rightarrow> ((char \<times> nat) option \<times> 'w) option" where
  "recv_fixed_header io w = do {
     ((res, byte1), w') \<leftarrow> recv_fixed_header_byte1 io w;
     (case byte1 of
        None \<Rightarrow> Some (None, w')
      | Some c \<Rightarrow>
          if res \<noteq> SOCK_OK then Some (None, w')
          else do {
            (rest, w'') \<leftarrow> recv_fixed_header_rest io w';
            Some (map_option (Pair c) rest, w'')
          })
   }"

text \<open>What is received and kept, and what is received and dropped.\<close>

function recv_loop :: "'w mqtt_io \<Rightarrow> nat \<Rightarrow> string \<Rightarrow> sock_code \<Rightarrow> 'w \<Rightarrow> (string option \<times> 'w) option" where
  "recv_loop io n got res w =
     (if length got < n
      then
        (case mi_recv io (n - length got) w of
           ((res', s), w') \<Rightarrow>
             if length s > n - length got then None
             else if res' \<noteq> SOCK_OK \<or> s = [] then Some (None, w')
             else recv_loop io n (got @ s) res' w')
      else Some (if res = SOCK_OK then Some got else None, w))"
  by pat_completeness auto
termination by (relation "measure (\<lambda>(io, n, got, res, w). n - length got)") (auto intro!: diff_less_mono2)

declare recv_loop.simps [simp del]

text \<open>With nothing to receive it is EBISU_SOCK_FAIL.\<close>

definition recv_remaining :: "'w mqtt_io \<Rightarrow> nat \<Rightarrow> 'w \<Rightarrow> (string option \<times> 'w) option" where
  "recv_remaining io remaining_length w = recv_loop io remaining_length [] SOCK_FAIL w"

function trash_loop :: "'w mqtt_io \<Rightarrow> nat \<Rightarrow> nat \<Rightarrow> 'w \<Rightarrow> (bool \<times> 'w) option" where
  "trash_loop io remaining_length total_received w =
     (if total_received < remaining_length
      then
        (let length_to_read = (if remaining_length - total_received > 256 then 256 else remaining_length - total_received) in
         case mi_recv io length_to_read w of
           ((res, s), w') \<Rightarrow>
             if length s > length_to_read then None
             else if res \<noteq> SOCK_OK \<or> s = [] then Some (False, w')
             else trash_loop io remaining_length (total_received + length s) w')
      else Some (True, w))"
  by pat_completeness auto
termination by (relation "measure (\<lambda>(io, n, i, w). n - i)") (auto intro!: diff_less_mono2)

declare trash_loop.simps [simp del]

text \<open>Whether it is EBISU_SOCK_OK.\<close>

definition recv_remaining_trash :: "'w mqtt_io \<Rightarrow> nat \<Rightarrow> 'w \<Rightarrow> (bool \<times> 'w) option" where
  "recv_remaining_trash io remaining_length w = trash_loop io remaining_length 0 w"

definition sock_recv_lost :: "mqtt_conf \<Rightarrow> 'w mqtt_io \<Rightarrow> 'w \<Rightarrow> bool \<times> 'w" where
  "sock_recv_lost cf io w =
     (if \<not> cf_has_recv_timed_out cf then (False, w)
      else (case mi_recv_timed_out io w of (timed_out, w') \<Rightarrow> (\<not> timed_out, w')))"

section \<open>Time\<close>

definition reset_elapsed :: "mqtt_conf \<Rightarrow> 'w mqtt_io \<Rightarrow> u32 \<Rightarrow> mqtt \<Rightarrow> 'w \<Rightarrow> mqtt \<times> 'w" where
  "reset_elapsed cf io ms m w =
     (if cf_has_clock cf
      then
        (case mi_monotonic io w of
           (now, w') \<Rightarrow> (m\<lparr>mq_elapsed_time_ms := ms, mq_elapsed_since_ms := now - ucast ms\<rparr>, w'))
      else (m\<lparr>mq_elapsed_time_ms := ms\<rparr>, w))"

definition elapsed_ms :: "mqtt_conf \<Rightarrow> 'w mqtt_io \<Rightarrow> mqtt \<Rightarrow> 'w \<Rightarrow> u32 \<times> 'w" where
  "elapsed_ms cf io m w =
     (if \<not> cf_has_clock cf then (mq_elapsed_time_ms m, w)
      else
        (case mi_monotonic io w of
           (now, w') \<Rightarrow>
             let ms = now - mq_elapsed_since_ms m
             in (if ms > ucast UINT32_MAX then UINT32_MAX else ucast ms, w')))"

definition add_elapsed_ms :: "u32 \<Rightarrow> mqtt \<Rightarrow> mqtt" where
  "add_elapsed_ms ms m =
     m\<lparr>mq_elapsed_time_ms :=
         (if ms > UINT32_MAX - mq_elapsed_time_ms m then UINT32_MAX else mq_elapsed_time_ms m + ms)\<rparr>"

definition to_recv_ms :: "mqtt_conf \<Rightarrow> u32" where
  "to_recv_ms cf = (if cf_to_recv_sec cf > UINT32_MAX div 1000 then UINT32_MAX else cf_to_recv_sec cf * 1000)"

definition fnv1a :: "string \<Rightarrow> u32" where
  "fnv1a s = foldl (\<lambda>h c. (h XOR of_nat (code c)) * 16777619) 2166136261 s"

definition schedule_retry :: "mqtt_conf \<Rightarrow> string \<Rightarrow> mqtt \<Rightarrow> mqtt" where
  "schedule_retry cf author_id m =
     (let max_ms = (if cf_retry_wait_max_ms cf \<noteq> 0 then cf_retry_wait_max_ms cf else RETRY_WAIT_MAX_MS);
          wait_ms = (if mq_retry_wait_ms m < max_ms then mq_retry_wait_ms m else max_ms);
          hash = (fnv1a author_id XOR wait_ms) * 16777619
      in m\<lparr>mq_wait_left_ms := wait_ms div 2 + hash mod (wait_ms div 2 + 1),
           mq_retry_wait_ms := (if wait_ms > max_ms div 2 then max_ms else wait_ms * 2)\<rparr>)"

text \<open>Closing a connection, and telling why first, with the elapsed time started again or not.\<close>

definition refuse_packet :: "mqtt_conf \<Rightarrow> 'w mqtt_io \<Rightarrow> mqtt_event \<Rightarrow> nat \<Rightarrow> mqtt \<Rightarrow> 'w \<Rightarrow> mqtt \<times> 'w" where
  "refuse_packet cf io event detail m w =
     (case reset_elapsed cf io 0 m (tell_event cf io event detail w) of
        (m', w') \<Rightarrow> (m'\<lparr>mq_state := ST_RECONNECT\<rparr>, mi_delay io WAIT_MS w'))"

definition reconnect_after :: "mqtt_conf \<Rightarrow> 'w mqtt_io \<Rightarrow> mqtt_event \<Rightarrow> nat \<Rightarrow> mqtt \<Rightarrow> 'w \<Rightarrow> mqtt \<times> 'w" where
  "reconnect_after cf io event detail m w =
     (m\<lparr>mq_state := ST_RECONNECT\<rparr>, mi_delay io WAIT_MS (tell_event cf io event detail w))"

section \<open>The message to publish\<close>

text \<open>Taking the lock: the slot as the callers have left it.\<close>

definition pub_lock :: "'w mqtt_io \<Rightarrow> mqtt \<Rightarrow> 'w \<Rightarrow> mqtt \<times> 'w" where
  "pub_lock io m w = (case mi_others io (mq_pub m) w of (p, w') \<Rightarrow> (m\<lparr>mq_pub := p\<rparr>, w'))"

text \<open>What each does with the slot, with the lock held.\<close>

definition slot_take :: "pub_slot \<Rightarrow> bool \<times> pub_slot" where
  "slot_take p =
     (let taken = (pb_state p = PUB_QUEUED)
      in (taken, if taken then p\<lparr>pb_state := PUB_SENDING\<rparr> else p))"

definition slot_awaits :: "pub_slot \<Rightarrow> bool" where
  "slot_awaits p \<longleftrightarrow> pb_state p = PUB_AWAITING_PUBACK \<or> pb_state p = PUB_ABANDONED"

definition slot_acked :: "nat \<Rightarrow> pub_slot \<Rightarrow> bool \<times> pub_slot" where
  "slot_acked i p =
     (let acked = (slot_awaits p \<and> ms_packet_id (pb_message p) = i)
      in (acked,
          if acked \<and> pb_state p = PUB_AWAITING_PUBACK then p\<lparr>pb_result := KII_ERR_OK, pb_state := PUB_DONE\<rparr>
          else if acked then p\<lparr>pb_state := PUB_FREE\<rparr> else p))"

definition slot_reconnected :: "pub_slot \<Rightarrow> pub_slot" where
  "slot_reconnected p =
     (if pb_state p = PUB_AWAITING_PUBACK
      then p\<lparr>pb_message := (pb_message p)\<lparr>ms_dup := True\<rparr>, pb_state := PUB_QUEUED\<rparr>
      else if pb_state p = PUB_ABANDONED then p\<lparr>pb_state := PUB_FREE\<rparr> else p)"

definition slot_sent :: "sock_code \<Rightarrow> bool \<Rightarrow> pub_slot \<Rightarrow> pub_slot" where
  "slot_sent res qos1 p =
     (if res = SOCK_OK \<and> qos1 then p\<lparr>pb_state := PUB_AWAITING_PUBACK\<rparr>
      else if qos1 then p\<lparr>pb_message := (pb_message p)\<lparr>ms_dup := True\<rparr>, pb_state := PUB_QUEUED\<rparr>
      else p\<lparr>pb_result := (if res = SOCK_OK then KII_ERR_OK else KII_ERR_SOCK_SEND), pb_state := PUB_DONE\<rparr>)"

definition slot_close :: "pub_slot \<Rightarrow> pub_slot" where
  "slot_close p =
     (let p = p\<lparr>pb_open := False\<rparr>
      in if pb_state p = PUB_QUEUED \<or> pb_state p = PUB_AWAITING_PUBACK
         then p\<lparr>pb_result := KII_ERR_FAIL, pb_state := PUB_DONE\<rparr>
         else if pb_state p = PUB_ABANDONED then p\<lparr>pb_state := PUB_FREE\<rparr> else p)"

definition publish_open :: "mqtt_conf \<Rightarrow> 'w mqtt_io \<Rightarrow> bool \<Rightarrow> mqtt \<Rightarrow> 'w \<Rightarrow> mqtt \<times> 'w" where
  "publish_open cf io b m w =
     (if \<not> cf_has_lock cf then (m\<lparr>mq_pub := (mq_pub m)\<lparr>pb_open := b\<rparr>\<rparr>, w)
      else (case pub_lock io m w of (m', w') \<Rightarrow> (m'\<lparr>mq_pub := (mq_pub m')\<lparr>pb_open := b\<rparr>\<rparr>, w')))"

definition publish_queued :: "mqtt_conf \<Rightarrow> 'w mqtt_io \<Rightarrow> mqtt \<Rightarrow> 'w \<Rightarrow> bool \<times> mqtt \<times> 'w" where
  "publish_queued cf io m w =
     (if \<not> cf_has_lock cf then (False, m, w)
      else (case pub_lock io m w of (m', w') \<Rightarrow> (pb_state (mq_pub m') = PUB_QUEUED, m', w')))"

definition publish_take :: "mqtt_conf \<Rightarrow> 'w mqtt_io \<Rightarrow> mqtt \<Rightarrow> 'w \<Rightarrow> bool \<times> mqtt \<times> 'w" where
  "publish_take cf io m w =
     (if \<not> cf_has_lock cf then (False, m, w)
      else
        (case pub_lock io m w of
           (m', w') \<Rightarrow> (case slot_take (mq_pub m') of (taken, p) \<Rightarrow> (taken, m'\<lparr>mq_pub := p\<rparr>, w'))))"

definition publish_awaits_puback :: "mqtt_conf \<Rightarrow> 'w mqtt_io \<Rightarrow> mqtt \<Rightarrow> 'w \<Rightarrow> bool \<times> mqtt \<times> 'w" where
  "publish_awaits_puback cf io m w =
     (if \<not> cf_has_lock cf then (False, m, w)
      else (case pub_lock io m w of (m', w') \<Rightarrow> (slot_awaits (mq_pub m'), m', w')))"

definition publish_acked :: "mqtt_conf \<Rightarrow> 'w mqtt_io \<Rightarrow> nat \<Rightarrow> mqtt \<Rightarrow> 'w \<Rightarrow> bool \<times> mqtt \<times> 'w" where
  "publish_acked cf io i m w =
     (if \<not> cf_has_lock cf then (False, m, w)
      else
        (case pub_lock io m w of
           (m', w') \<Rightarrow> (case slot_acked i (mq_pub m') of (acked, p) \<Rightarrow> (acked, m'\<lparr>mq_pub := p\<rparr>, w'))))"

definition publish_reconnected :: "mqtt_conf \<Rightarrow> 'w mqtt_io \<Rightarrow> mqtt \<Rightarrow> 'w \<Rightarrow> mqtt \<times> 'w" where
  "publish_reconnected cf io m w =
     (if \<not> cf_has_lock cf then (m, w)
      else (case pub_lock io m w of (m', w') \<Rightarrow> (m'\<lparr>mq_pub := slot_reconnected (mq_pub m')\<rparr>, w')))"

definition publish_close :: "mqtt_conf \<Rightarrow> 'w mqtt_io \<Rightarrow> mqtt \<Rightarrow> 'w \<Rightarrow> mqtt \<times> 'w" where
  "publish_close cf io m w =
     (if \<not> cf_has_lock cf then (m\<lparr>mq_pub := (mq_pub m)\<lparr>pb_open := False\<rparr>\<rparr>, w)
      else (case pub_lock io m w of (m', w') \<Rightarrow> (m'\<lparr>mq_pub := slot_close (mq_pub m')\<rparr>, w')))"

section \<open>The handlers\<close>

type_synonym 'w mqtt_handler = "mqtt \<Rightarrow> 'w \<Rightarrow> (mqtt \<times> 'w) option"

definition no_endpoint :: mqtt_endpoint where
  "no_endpoint =
     \<lparr>ep_username = [], ep_password = [], ep_topic = [], ep_host = [], ep_port_tcp = 0, ep_port_ssl = 0\<rparr>"

definition init_mqtt_state :: "mqtt_conf \<Rightarrow> 'w mqtt_io \<Rightarrow> 'w mqtt_handler" where
  "init_mqtt_state cf io m w =
     (let m0 = m\<lparr>mq_elapsed_since_ms := 0, mq_endpoint := no_endpoint, mq_error := MQTT_ERR_OK,
                 mq_state := ST_INSTALL_PUSH\<rparr>;
          m1 = (case mi_onboarded io w of
                  (thing_id, ins_id, endpoint) \<Rightarrow>
                    if cf_endpoint_given cf
                    then m0\<lparr>mq_endpoint := cf_endpoint cf, mq_state := ST_SOCK_CONNECT\<rparr>
                    else if thing_id \<noteq> [] \<and> thing_id = mi_author_id io w
                    then m0\<lparr>mq_ins_id := ins_id, mq_endpoint := endpoint, mq_state := ST_SOCK_CONNECT\<rparr>
                    else m0)
      in (case reset_elapsed cf io 0 m1 w of
            (m2, w') \<Rightarrow>
              Some (m2\<lparr>mq_remaining_message_size := 0, mq_message_qos := 0, mq_message_dup := False,
                       mq_message_retain := False, mq_awaiting_suback := False, mq_pingresp_received := True,
                       mq_sock_connected := False, mq_mqtt_connected := False,
                       mq_retry_wait_ms := RETRY_WAIT_MIN_MS, mq_wait_left_ms := 0, mq_connect_failures := 0\<rparr>,
                    w')))"

definition is_temporary_error :: "'w mqtt_io \<Rightarrow> kii_code \<Rightarrow> 'w \<Rightarrow> bool" where
  "is_temporary_error io res w \<longleftrightarrow>
     res \<in> {KII_ERR_SOCK_CONNECT, KII_ERR_SOCK_CLOSE, KII_ERR_SOCK_SEND, KII_ERR_SOCK_RECV, KII_ERR_TIMEOUT} \<or>
     (500 \<le> mi_status_code io w \<and> mi_status_code io w < 600) \<or> mi_status_code io w = 429"

text \<open>What follows a request that failed: another try, or the end.\<close>

definition request_failed :: "mqtt_conf \<Rightarrow> 'w mqtt_io \<Rightarrow> mqtt_event \<Rightarrow> mqtt_error \<Rightarrow> kii_code \<Rightarrow> 'w mqtt_handler" where
  "request_failed cf io event error res m w =
     (let w' = tell_event cf io event (mi_status_code io w) w
      in if is_temporary_error io res w' then Some (schedule_retry cf (mi_author_id io w') m, w')
         else Some (m\<lparr>mq_error := error, mq_state := ST_ERR_EXIT\<rparr>, w'))"

definition mqtt_state_install_push :: "mqtt_conf \<Rightarrow> 'w mqtt_io \<Rightarrow> 'w mqtt_handler" where
  "mqtt_state_install_push cf io m w =
     (case mi_install_push io w of
        ((res, ins_id), w') \<Rightarrow>
          let m' = m\<lparr>mq_ins_id := ins_id\<rparr> in
          if res \<noteq> KII_ERR_OK then request_failed cf io EVENT_INSTALL_FAILED MQTT_ERR_INSTALLATION res m' w'
          else Some (m'\<lparr>mq_state := ST_GET_ENDPOINT\<rparr>, w'))"

definition onboard_for_endpoint :: "'w mqtt_io \<Rightarrow> mqtt \<Rightarrow> 'w \<Rightarrow> kii_code \<times> mqtt \<times> 'w" where
  "onboard_for_endpoint io m w =
     (case mi_onboard_again io w of
        (res, w') \<Rightarrow>
          if res \<noteq> KII_ERR_OK then (res, m, w')
          else
            (case mi_onboarded io w' of
               (thing_id, ins_id, endpoint) \<Rightarrow>
                 if thing_id = [] \<or> thing_id \<noteq> mi_author_id io w' then (KII_ERR_FAIL, m, w')
                 else (KII_ERR_OK, m\<lparr>mq_ins_id := ins_id, mq_endpoint := endpoint\<rparr>, w')))"

definition mqtt_state_get_endpoint :: "mqtt_conf \<Rightarrow> 'w mqtt_io \<Rightarrow> 'w mqtt_handler" where
  "mqtt_state_get_endpoint cf io m w =
     (let w1 = mi_delay io WAIT_MS w in
      case (if mi_renews_by_onboarding io w1 then onboard_for_endpoint io m w1
            else (case mi_get_endpoint io (mq_ins_id m) w1 of
                    ((res, endpoint), w2) \<Rightarrow> (res, m\<lparr>mq_endpoint := endpoint\<rparr>, w2))) of
        (res, m', w') \<Rightarrow>
          if res \<noteq> KII_ERR_OK then request_failed cf io EVENT_ENDPOINT_FAILED MQTT_ERR_GET_ENDPOINT res m' w'
          else Some (m'\<lparr>mq_state := ST_SOCK_CONNECT\<rparr>, w'))"

definition mqtt_state_sock_connect :: "mqtt_conf \<Rightarrow> 'w mqtt_io \<Rightarrow> 'w mqtt_handler" where
  "mqtt_state_sock_connect cf io m w =
     (let port = (if cf_insecure cf then ep_port_tcp (mq_endpoint m) else ep_port_ssl (mq_endpoint m)) in
      case mi_connect io (ep_host (mq_endpoint m)) port w of
        (con_res, w') \<Rightarrow>
          if con_res \<noteq> SOCK_OK
          then
            (let w'' = tell_event cf io EVENT_CONNECT_FAILED (unat (mq_connect_failures m + 1)) w';
                 m1 = schedule_retry cf (mi_author_id io w'') m;
                 m2 = m1\<lparr>mq_connect_failures := mq_connect_failures m1 + 1\<rparr>
             in if mq_connect_failures m2 \<ge> MAX_CONNECT_FAILURES
                then
                  (let m3 = m2\<lparr>mq_connect_failures := 0\<rparr>
                   in Some (if \<not> cf_endpoint_given cf then m3\<lparr>mq_state := ST_GET_ENDPOINT\<rparr> else m3, w''))
                else Some (m2, w''))
          else Some (m\<lparr>mq_connect_failures := 0, mq_sock_connected := True, mq_state := ST_SEND_CONNECT\<rparr>, w'))"

definition mqtt_state_send_connect :: "mqtt_conf \<Rightarrow> 'w mqtt_io \<Rightarrow> 'w mqtt_handler" where
  "mqtt_state_send_connect cf io m w =
     (if cf_buffer cf = None \<or> cf_buffer cf = Some 0
      then Some (m\<lparr>mq_error := MQTT_ERR_INSUFFICIENT_BUFF, mq_state := ST_ERR_EXIT\<rparr>, w)
      else if \<not> connect_fits cf (mq_endpoint m) (case cf_buffer cf of Some n \<Rightarrow> n | None \<Rightarrow> 0)
      then Some (m\<lparr>mq_error := MQTT_ERR_INSUFFICIENT_BUFF, mq_state := ST_ERR_EXIT\<rparr>, w)
      else do {
        (send_err, w') \<leftarrow> mqtt_send_connect cf io (mq_endpoint m) w;
        (if send_err = SOCK_FAIL
         then Some (reconnect_after cf io EVENT_SEND_FAILED (st_value ST_SEND_CONNECT) m w')
         else
           (case reset_elapsed cf io 0 m w' of
              (m', w'') \<Rightarrow> Some (m'\<lparr>mq_state := ST_RECV_CONNACK\<rparr>, w'')))
      })"

text \<open>What CONNACK's two bytes lead to.\<close>

definition credentials_refused :: "mqtt_conf \<Rightarrow> 'w mqtt_io \<Rightarrow> 'w mqtt_handler" where
  "credentials_refused cf io m w =
     (case mi_close io w of
        (_, w1) \<Rightarrow>
          let m1 = m\<lparr>mq_sock_connected := False\<rparr> in
          if cf_endpoint_given cf
          then
            (case (if cf_has_credentials cf then mi_credentials io (mq_endpoint m1) w1
                   else ((False, Some (mq_endpoint m1)), w1)) of
               ((given, endpoint), w2) \<Rightarrow>
                 (case endpoint of
                    Some ep \<Rightarrow>
                      let m2 = m1\<lparr>mq_endpoint := ep\<rparr> in
                      if given
                      then Some ((schedule_retry cf (mi_author_id io w2) m2)\<lparr>mq_state := ST_SOCK_CONNECT\<rparr>, w2)
                      else Some (m2\<lparr>mq_error := MQTT_ERR_CREDENTIALS, mq_state := ST_ERR_EXIT\<rparr>, w2)
                  | None \<Rightarrow> Some (m1\<lparr>mq_error := MQTT_ERR_CREDENTIALS, mq_state := ST_ERR_EXIT\<rparr>, w2)))
          else Some ((schedule_retry cf (mi_author_id io w1) m1)\<lparr>mq_state := ST_GET_ENDPOINT\<rparr>, w1))"

definition connack_received :: "mqtt_conf \<Rightarrow> 'w mqtt_io \<Rightarrow> string \<Rightarrow> 'w mqtt_handler" where
  "connack_received cf io buff m w =
     (let return_code = code (buff ! 1); ack_flags = code (buff ! 0) in
      if cf_version cf \<noteq> VERSION_3_1 \<and>
         (ack_flags AND 0xfe \<noteq> 0 \<or> (ack_flags AND 0x01 \<noteq> 0 \<and> (return_code \<noteq> 0 \<or> cf_clean_session cf)))
      then Some (refuse_packet cf io EVENT_UNEXPECTED_PACKET 0x20 m w)
      else
        (let w1 = tell_event cf io EVENT_CONNACK return_code w in
         if return_code = 4 \<or> return_code = 5 then credentials_refused cf io m w1
         else if return_code \<noteq> 0 then Some (m\<lparr>mq_state := ST_RECONNECT\<rparr>, mi_delay io WAIT_MS w1)
         else
           (case publish_reconnected cf io (m\<lparr>mq_pingresp_received := True, mq_mqtt_connected := True\<rparr>) w1 of
              (m', w') \<Rightarrow> Some (m'\<lparr>mq_state := ST_SEND_SUBSCRIBE\<rparr>, w'))))"

definition mqtt_state_recv_connack :: "mqtt_conf \<Rightarrow> 'w mqtt_io \<Rightarrow> 'w mqtt_handler" where
  "mqtt_state_recv_connack cf io m w = do {
     (fixed_header, w1) \<leftarrow> recv_fixed_header io w;
     (case fixed_header of
        None \<Rightarrow> Some (reconnect_after cf io EVENT_RECV_FAILED (st_value ST_RECV_CONNACK) m w1)
      | Some (byte1, remaining_length) \<Rightarrow>
          if code byte1 \<noteq> 0x20 \<or> remaining_length \<noteq> 2
          then Some (reconnect_after cf io EVENT_UNEXPECTED_PACKET (code byte1) m w1)
          else do {
            (buff, w2) \<leftarrow> recv_remaining io 2 w1;
            (case buff of
               None \<Rightarrow> Some (reconnect_after cf io EVENT_RECV_FAILED (st_value ST_RECV_CONNACK) m w2)
             | Some b \<Rightarrow> connack_received cf io b m w2)
          })
   }"

definition mqtt_state_send_subscribe :: "mqtt_conf \<Rightarrow> 'w mqtt_io \<Rightarrow> 'w mqtt_handler" where
  "mqtt_state_send_subscribe cf io m w =
     (if \<not> subscribe_fits (mq_endpoint m) (case cf_buffer cf of Some n \<Rightarrow> n | None \<Rightarrow> 0)
      then Some (m\<lparr>mq_error := MQTT_ERR_INSUFFICIENT_BUFF, mq_state := ST_ERR_EXIT\<rparr>, w)
      else do {
        (res, w') \<leftarrow> mqtt_send_subscribe cf io (ep_topic (mq_endpoint m)) (cf_qos cf) w;
        (if res = SOCK_FAIL
         then Some (reconnect_after cf io EVENT_SEND_FAILED (st_value ST_SEND_SUBSCRIBE) m w')
         else Some (m\<lparr>mq_state := ST_RECV_SUBACK\<rparr>, w'))
      })"

text \<open>A PUBLISH whose fixed header is read.\<close>

definition publish_header :: "char \<Rightarrow> nat \<Rightarrow> mqtt \<Rightarrow> mqtt" where
  "publish_header byte1 remaining_length m =
     m\<lparr>mq_remaining_message_size := remaining_length, mq_message_qos := publish_qos byte1,
        mq_message_dup := publish_dup byte1, mq_message_retain := publish_retain byte1\<rparr>"

definition suback_received :: "mqtt_conf \<Rightarrow> 'w mqtt_io \<Rightarrow> char \<Rightarrow> string \<Rightarrow> 'w mqtt_handler" where
  "suback_received cf io byte1 buff m w =
     (let return_code = code (buff ! 2); asked = (if cf_qos cf = QOS_1 then 0x01 else 0x00) in
      if buff ! 0 \<noteq> CHR 0x00 \<or> buff ! 1 \<noteq> CHR 0x01 \<or> (return_code \<noteq> 0x80 \<and> return_code > asked)
      then Some (reconnect_after cf io EVENT_UNEXPECTED_PACKET (code byte1) m w)
      else
        (let w1 = tell_event cf io EVENT_SUBACK return_code w in
         if return_code \<noteq> 0x80
         then Some (m\<lparr>mq_retry_wait_ms := RETRY_WAIT_MIN_MS, mq_state := ST_RECV_READY\<rparr>, w1)
         else Some (m\<lparr>mq_state := ST_RECONNECT\<rparr>, mi_delay io WAIT_MS w1)))"

definition mqtt_state_recv_suback :: "mqtt_conf \<Rightarrow> 'w mqtt_io \<Rightarrow> 'w mqtt_handler" where
  "mqtt_state_recv_suback cf io m0 w = do {
     let m = m0\<lparr>mq_awaiting_suback := False\<rparr>;
     (fixed_header, w1) \<leftarrow> recv_fixed_header io w;
     (case fixed_header of
        None \<Rightarrow> Some (reconnect_after cf io EVENT_RECV_FAILED (st_value ST_RECV_SUBACK) m w1)
      | Some (byte1, remaining_length) \<Rightarrow>
          if code byte1 AND 0xf0 = 0x30
          then Some ((publish_header byte1 remaining_length m)
                       \<lparr>mq_awaiting_suback := True, mq_state := ST_RECV_MSG\<rparr>, w1)
          else if code byte1 \<noteq> 0x90 \<or> remaining_length \<noteq> 3
          then Some (reconnect_after cf io EVENT_UNEXPECTED_PACKET (code byte1) m w1)
          else do {
            (buff, w2) \<leftarrow> recv_remaining io 3 w1;
            (case buff of
               None \<Rightarrow> Some (reconnect_after cf io EVENT_RECV_FAILED (st_value ST_RECV_SUBACK) m w2)
             | Some b \<Rightarrow> suback_received cf io byte1 b m w2)
          })
   }"

text \<open>Waiting for a packet: whether one is arriving, and how long it waited.\<close>

partial_function (option) wait_for_packet_loop ::
    "mqtt_conf \<Rightarrow> 'w mqtt_io \<Rightarrow> u32 \<Rightarrow> mqtt \<Rightarrow> 'w \<Rightarrow> ((bool \<times> u32) \<times> mqtt \<times> 'w) option" where
  [code]: "wait_for_packet_loop cf io waited_ms m w =
     (let turn_ms = (if to_recv_ms cf > 0 \<and> to_recv_ms cf - waited_ms < RECV_WAIT_TURN_MS
                     then to_recv_ms cf - waited_ms else RECV_WAIT_TURN_MS) in
      case mi_recv_wait io turn_ms w of
        (arriving, w1) \<Rightarrow>
          if arriving then Some ((True, waited_ms), m, w1)
          else
            (let waited_ms' = (if waited_ms > UINT32_MAX - turn_ms then UINT32_MAX else waited_ms + turn_ms) in
             case publish_queued cf io m w1 of
               (queued, m2, w2) \<Rightarrow>
                 if queued \<or> (to_recv_ms cf > 0 \<and> waited_ms' \<ge> to_recv_ms cf)
                 then Some ((False, waited_ms'), m2, w2)
                 else wait_for_packet_loop cf io waited_ms' m2 w2))"

definition wait_for_packet :: "mqtt_conf \<Rightarrow> 'w mqtt_io \<Rightarrow> mqtt \<Rightarrow> 'w \<Rightarrow> ((bool \<times> u32) \<times> mqtt \<times> 'w) option" where
  "wait_for_packet cf io m w = wait_for_packet_loop cf io 0 m w"

definition thresh_ms :: "mqtt_conf \<Rightarrow> u32" where
  "thresh_ms cf =
     (let keep_alive = of_nat (cf_keep_alive cf); to_recv = cf_to_recv_sec cf
      in (if to_recv < keep_alive then keep_alive - to_recv else keep_alive) * 1000)"

text \<open>A packet that came while subscribed, by its first byte.\<close>

definition packet_arrived :: "mqtt_conf \<Rightarrow> 'w mqtt_io \<Rightarrow> char \<Rightarrow> nat \<Rightarrow> 'w mqtt_handler" where
  "packet_arrived cf io byte1 remaining_length m w =
     (if code byte1 AND 0xf0 = 0x30
      then Some (add_elapsed_ms (to_recv_ms cf) ((publish_header byte1 remaining_length m)\<lparr>mq_state := ST_RECV_MSG\<rparr>), w)
      else if code byte1 = 0xd0 \<and> remaining_length = 0
      then Some (add_elapsed_ms ARRIVED_MSG_READ_TIME (m\<lparr>mq_pingresp_received := True\<rparr>), w)
      else
        (case (if code byte1 = 0x40 \<and> remaining_length = 2 then publish_awaits_puback cf io m w else (False, m, w)) of
           (awaits, m1, w1) \<Rightarrow>
             if awaits
             then do {
               (buff, w2) \<leftarrow> recv_remaining io 2 w1;
               (case buff of
                  None \<Rightarrow> Some (refuse_packet cf io EVENT_RECV_FAILED (st_value ST_RECV_READY) m1 w2)
                | Some b \<Rightarrow>
                    (case publish_acked cf io (uint16_at b 0) m1 w2 of
                       (acked, m3, w3) \<Rightarrow>
                         if \<not> acked then Some (refuse_packet cf io EVENT_UNEXPECTED_PACKET (code byte1) m3 w3)
                         else Some (add_elapsed_ms ARRIVED_MSG_READ_TIME m3, w3)))
             }
             else Some (refuse_packet cf io EVENT_UNEXPECTED_PACKET (code byte1) m1 w1)))"

text \<open>No packet has started to arrive.\<close>

definition nothing_arrived :: "mqtt_conf \<Rightarrow> 'w mqtt_io \<Rightarrow> 'w mqtt_handler" where
  "nothing_arrived cf io m w =
     (case publish_queued cf io (add_elapsed_ms (to_recv_ms cf) m) w of
        (queued, m', w') \<Rightarrow>
          if queued then Some (m', w') else Some (add_elapsed_ms WAIT_MS m', mi_delay io WAIT_MS w'))"

definition recv_packet :: "mqtt_conf \<Rightarrow> 'w mqtt_io \<Rightarrow> 'w mqtt_handler" where
  "recv_packet cf io m w = do {
     ((res, byte1), w1) \<leftarrow> recv_fixed_header_byte1 io w;
     (if res = SOCK_OK
      then
        (case byte1 of
           None \<Rightarrow> Some (refuse_packet cf io EVENT_CLOSED_BY_BROKER 0 m w1)
         | Some c \<Rightarrow> do {
             (rest, w2) \<leftarrow> recv_fixed_header_rest io w1;
             (case rest of
                None \<Rightarrow> Some (refuse_packet cf io EVENT_RECV_FAILED (st_value ST_RECV_READY) m w2)
              | Some remaining_length \<Rightarrow> packet_arrived cf io c remaining_length m w2)
           })
      else
        (case (if res = SOCK_FAIL then sock_recv_lost cf io w1 else (False, w1)) of
           (lost, w2) \<Rightarrow>
             if lost then Some (refuse_packet cf io EVENT_RECV_FAILED (st_value ST_RECV_READY) m w2)
             else nothing_arrived cf io m w2))
   }"

definition mqtt_state_recv_ready :: "mqtt_conf \<Rightarrow> 'w mqtt_io \<Rightarrow> 'w mqtt_handler" where
  "mqtt_state_recv_ready cf io m w =
     (case (if cf_keep_alive cf > 0 then elapsed_ms cf io m w else (0, w)) of
        (elapsed, w1) \<Rightarrow>
          if cf_keep_alive cf > 0 \<and> elapsed > thresh_ms cf then Some (m\<lparr>mq_state := ST_SEND_PINGREQ\<rparr>, w1)
          else
            (case publish_take cf io m w1 of
               (taken, m2, w2) \<Rightarrow>
                 if taken then Some (m2\<lparr>mq_state := ST_SEND_PUBLISH\<rparr>, w2)
                 else do {
                   ((arriving, waited_ms), m3, w3) \<leftarrow>
                     (if cf_has_lock cf \<and> cf_has_recv_wait cf then wait_for_packet cf io m2 w2
                      else Some ((True, 0), m2, w2));
                   (if \<not> arriving then Some (add_elapsed_ms waited_ms m3, w3) else recv_packet cf io m3 w3)
                 }))"

text \<open>
  A message larger than the buffer, from its end on: \<open>None\<close> where receiving it fails, then whether
  it is malformed and the packet identifier it has.
\<close>

definition trash_payload :: "'w mqtt_io \<Rightarrow> nat \<Rightarrow> nat option \<Rightarrow> 'w \<Rightarrow> ((bool \<times> nat option) option \<times> 'w) option" where
  "trash_payload io left pid w = do {
     (ok, w') \<leftarrow> recv_remaining_trash io left w;
     Some (if ok then Some (False, pid) else None, w')
   }"

definition trash_id :: "'w mqtt_io \<Rightarrow> nat \<Rightarrow> nat \<Rightarrow> 'w \<Rightarrow> ((bool \<times> nat option) option \<times> 'w) option" where
  "trash_id io id_size left w =
     (if id_size > 0
      then do {
        (two, w') \<leftarrow> recv_remaining io 2 w;
        (case two of
           None \<Rightarrow> Some (None, w')
         | Some t \<Rightarrow>
             if uint16_at t 0 = 0 then Some (Some (True, None), w')
             else trash_payload io (left - 2) (Some (uint16_at t 0)) w')
      }
      else trash_payload io left None w)"

definition recv_msg_trash :: "'w mqtt_io \<Rightarrow> mqtt \<Rightarrow> 'w \<Rightarrow> ((bool \<times> nat option) option \<times> 'w) option" where
  "recv_msg_trash io m w =
     (let left = mq_remaining_message_size m; id_size = (if mq_message_qos m = 1 then 2 else 0) in
      if left < 2 then Some (Some (True, None), w)
      else do {
        (two, w1) \<leftarrow> recv_remaining io 2 w;
        (case two of
           None \<Rightarrow> Some (None, w1)
         | Some t \<Rightarrow>
             let topic_size = uint16_at t 0 in
             if topic_size = 0 \<or> topic_size + id_size > left - 2 then Some (Some (True, None), w1)
             else do {
               (ok, w2) \<leftarrow> recv_remaining_trash io topic_size w1;
               (if \<not> ok then Some (None, w2) else trash_id io id_size (left - 2 - topic_size) w2)
             })
      })"

text \<open>The end of it: the acknowledgement of a message at QoS 1.\<close>

definition acknowledge :: "mqtt_conf \<Rightarrow> 'w mqtt_io \<Rightarrow> nat option \<Rightarrow> 'w mqtt_handler" where
  "acknowledge cf io pid m w = do {
     (res, w') \<leftarrow> (case pid of Some i \<Rightarrow> mqtt_send_puback io i w | None \<Rightarrow> Some (SOCK_OK, w));
     (if res \<noteq> SOCK_OK then Some (refuse_packet cf io EVENT_SEND_FAILED (st_value ST_RECV_MSG) m w')
      else Some (m\<lparr>mq_state := (if mq_awaiting_suback m then ST_RECV_SUBACK else ST_RECV_READY)\<rparr>, w'))
   }"

definition mqtt_state_recv_msg :: "mqtt_conf \<Rightarrow> 'w mqtt_io \<Rightarrow> 'w mqtt_handler" where
  "mqtt_state_recv_msg cf io m w =
     (if mq_message_qos m > 1 \<or> (mq_message_qos m = 0 \<and> mq_message_dup m)
      then Some (refuse_packet cf io EVENT_UNEXPECTED_PACKET
        (0x30 OR (if mq_message_dup m then 0x08 else 0x00) OR push_bit 1 (mq_message_qos m)) m w)
      else if mq_remaining_message_size m > (case cf_buffer cf of Some n \<Rightarrow> n | None \<Rightarrow> 0)
      then do {
        (res, w1) \<leftarrow> recv_msg_trash io m w;
        (case res of
           None \<Rightarrow> Some (refuse_packet cf io EVENT_RECV_FAILED (st_value ST_RECV_MSG) m w1)
         | Some (malformed, pid) \<Rightarrow>
             if malformed
             then Some (refuse_packet cf io EVENT_MESSAGE_MALFORMED (mq_remaining_message_size m) m w1)
             else acknowledge cf io pid (add_elapsed_ms (ARRIVED_MSG_READ_TIME + WAIT_MS) m)
               (mi_delay io WAIT_MS (tell_event cf io EVENT_MESSAGE_TOO_LARGE (mq_remaining_message_size m) w1)))
      }
      else do {
        (buff, w1) \<leftarrow> recv_remaining io (mq_remaining_message_size m) w;
        (case buff of
           None \<Rightarrow> Some (refuse_packet cf io EVENT_RECV_FAILED (st_value ST_RECV_MSG) m w1)
         | Some b \<Rightarrow>
             let m1 = add_elapsed_ms ARRIVED_MSG_READ_TIME m in
             (case read_publish (mq_message_qos m1) (mq_message_dup m1) (mq_message_retain m1) b of
                None \<Rightarrow> Some (refuse_packet cf io EVENT_MESSAGE_MALFORMED (mq_remaining_message_size m1) m1 w1)
              | Some message \<Rightarrow>
                  acknowledge cf io (if mq_message_qos m1 = 1 then Some (ms_packet_id message) else None) m1
                    (mi_message io message w1)))
      })"

definition mqtt_state_send_pingreq :: "mqtt_conf \<Rightarrow> 'w mqtt_io \<Rightarrow> 'w mqtt_handler" where
  "mqtt_state_send_pingreq cf io m w =
     (if \<not> mq_pingresp_received m then Some (refuse_packet cf io EVENT_PING_TIMEOUT (cf_keep_alive cf) m w)
      else do {
        (res, w') \<leftarrow> mqtt_send_pingreq io w;
        (if res \<noteq> SOCK_OK then Some (refuse_packet cf io EVENT_SEND_FAILED (st_value ST_SEND_PINGREQ) m w')
         else
           (case reset_elapsed cf io MSG_SEND_TIME (m\<lparr>mq_pingresp_received := False\<rparr>) w' of
              (m', w'') \<Rightarrow> Some (m'\<lparr>mq_state := ST_RECV_READY\<rparr>, w'')))
      })"

text \<open>Only while the pointers to topic and payload are set can they be read.\<close>

definition mqtt_state_send_publish :: "mqtt_conf \<Rightarrow> 'w mqtt_io \<Rightarrow> 'w mqtt_handler" where
  "mqtt_state_send_publish cf io m w =
     (if \<not> pb_given (mq_pub m) then None
      else do {
        (res, w1) \<leftarrow> mqtt_send_publish cf io (pb_message (mq_pub m)) w;
        let qos1 = (ms_qos (pb_message (mq_pub m)) = QOS_1);
        (case pub_lock io m w1 of
           (m1, w2) \<Rightarrow>
             let m2 = m1\<lparr>mq_pub := slot_sent res qos1 (mq_pub m1)\<rparr> in
             if res \<noteq> SOCK_OK then Some (refuse_packet cf io EVENT_SEND_FAILED (st_value ST_SEND_PUBLISH) m2 w2)
             else Some ((add_elapsed_ms MSG_SEND_TIME m2)\<lparr>mq_state := ST_RECV_READY\<rparr>, w2))
      })"

definition mqtt_state_reconnect :: "mqtt_conf \<Rightarrow> 'w mqtt_io \<Rightarrow> 'w mqtt_handler" where
  "mqtt_state_reconnect cf io m w =
     (case mi_close io w of
        (_, w') \<Rightarrow>
          Some ((schedule_retry cf (mi_author_id io w')
                   (m\<lparr>mq_sock_connected := False, mq_mqtt_connected := False\<rparr>))\<lparr>mq_state := ST_SOCK_CONNECT\<rparr>, w'))"

fun mqtt_state_handlers :: "mqtt_task_state \<Rightarrow> mqtt_conf \<Rightarrow> 'w mqtt_io \<Rightarrow> 'w mqtt_handler" where
  "mqtt_state_handlers ST_INSTALL_PUSH = mqtt_state_install_push"
| "mqtt_state_handlers ST_GET_ENDPOINT = mqtt_state_get_endpoint"
| "mqtt_state_handlers ST_SOCK_CONNECT = mqtt_state_sock_connect"
| "mqtt_state_handlers ST_SEND_CONNECT = mqtt_state_send_connect"
| "mqtt_state_handlers ST_RECV_CONNACK = mqtt_state_recv_connack"
| "mqtt_state_handlers ST_SEND_SUBSCRIBE = mqtt_state_send_subscribe"
| "mqtt_state_handlers ST_RECV_SUBACK = mqtt_state_recv_suback"
| "mqtt_state_handlers ST_RECV_READY = mqtt_state_recv_ready"
| "mqtt_state_handlers ST_RECV_MSG = mqtt_state_recv_msg"
| "mqtt_state_handlers ST_SEND_PINGREQ = mqtt_state_send_pingreq"
| "mqtt_state_handlers ST_SEND_PUBLISH = mqtt_state_send_publish"
| "mqtt_state_handlers ST_RECONNECT = mqtt_state_reconnect"
| "mqtt_state_handlers ST_ERR_EXIT = (\<lambda>cf io m w. None)"
| "mqtt_state_handlers ST_DISCONTINUED = (\<lambda>cf io m w. None)"

section \<open>The task\<close>

definition task_running :: "mqtt \<Rightarrow> bool" where
  "task_running m \<longleftrightarrow> st_value (mq_state m) < st_value ST_ERR_EXIT"

text \<open>The body of the loop; a break leaves in a state that ends the loop.\<close>

definition task_step :: "mqtt_conf \<Rightarrow> 'w mqtt_io \<Rightarrow> mqtt \<times> 'w \<Rightarrow> (mqtt \<times> 'w) option" where
  "task_step cf io s =
     (case s of
        (m, w) \<Rightarrow>
          (case (if cf_has_continue cf then mi_continue io (mq_state m) (mq_error m) w else (True, w)) of
             (cont, w1) \<Rightarrow>
               if \<not> cont then Some (m\<lparr>mq_state := ST_DISCONTINUED\<rparr>, w1)
               else if mq_wait_left_ms m > 0
               then
                 (let wait_ms = (if mq_wait_left_ms m < WAIT_MS then mq_wait_left_ms m else WAIT_MS)
                  in Some (m\<lparr>mq_wait_left_ms := mq_wait_left_ms m - wait_ms\<rparr>, mi_delay io wait_ms w1))
               else mqtt_state_handlers (mq_state m) cf io m w1))"

partial_function (option) task_loop :: "mqtt_conf \<Rightarrow> 'w mqtt_io \<Rightarrow> mqtt \<times> 'w \<Rightarrow> (mqtt \<times> 'w) option" where
  [code]: "task_loop cf io s = (if task_running (fst s) then task_step cf io s \<bind> task_loop cf io else Some s)"

text \<open>What follows the loop.\<close>

definition task_end :: "mqtt_conf \<Rightarrow> 'w mqtt_io \<Rightarrow> 'w mqtt_handler" where
  "task_end cf io m w = do {
     (m1, w1) \<leftarrow>
       (if mq_sock_connected m
        then do {
          (m', w') \<leftarrow>
            (if mq_mqtt_connected m
             then do { (_, w') \<leftarrow> mqtt_send_disconnect io w; Some (m\<lparr>mq_mqtt_connected := False\<rparr>, w') }
             else Some (m, w));
          (case mi_close io w' of (_, w'') \<Rightarrow> Some (m'\<lparr>mq_sock_connected := False\<rparr>, w''))
        }
        else Some (m, w));
     (case publish_close cf io (m1\<lparr>mq_endpoint := no_endpoint\<rparr>) w1 of
        (m2, w2) \<Rightarrow>
          Some (m2\<lparr>mq_running := False\<rparr>,
                if cf_has_exit cf then mi_exit io (mq_state m2) (mq_error m2) w2 else w2))
   }"

definition mqtt_start_task :: "mqtt_conf \<Rightarrow> 'w mqtt_io \<Rightarrow> 'w mqtt_handler" where
  "mqtt_start_task cf io m w = do {
     s \<leftarrow> init_mqtt_state cf io m w;
     (m', w') \<leftarrow> task_loop cf io s;
     task_end cf io m' w'
   }"

end
