(* ===== verification/Mqtt_Publish.thy ===== *)
theory Mqtt_Publish
  imports Mqtt_Codec Mqtt_Task
begin

text \<open>
  \<open>kii_mqtt_publish\<close>, which gives the task a message and waits until it is done with, and the
  slot the two share: who may change it when, and what holds of it whatever their order.  To the
  call, the others are the task and the other calls.
\<close>

section \<open>The call\<close>

definition MQTT_REMAINING_LENGTH_MAX :: nat where "MQTT_REMAINING_LENGTH_MAX = 268435455"
definition PUBLISH_POLL_MS :: u32 where "PUBLISH_POLL_MS = 10"

record publish_wait =
  pw_start_ms :: u64
  pw_waited_ms :: u64

definition publish_waited_ms :: "mqtt_conf \<Rightarrow> 'w mqtt_io \<Rightarrow> publish_wait \<Rightarrow> 'w \<Rightarrow> u64 \<times> 'w" where
  "publish_waited_ms cf io pw w =
     (if cf_has_clock cf then (case mi_monotonic io w of (now, w') \<Rightarrow> (now - pw_start_ms pw, w'))
      else (pw_waited_ms pw, w))"

definition publish_wait_turn :: "'w mqtt_io \<Rightarrow> publish_wait \<Rightarrow> 'w \<Rightarrow> publish_wait \<times> 'w" where
  "publish_wait_turn io pw w =
     (pw\<lparr>pw_waited_ms := pw_waited_ms pw + ucast PUBLISH_POLL_MS\<rparr>, mi_delay io PUBLISH_POLL_MS w)"

text \<open>Giving the message, with the lock held and the slot free.\<close>

definition slot_give :: "string \<Rightarrow> string \<Rightarrow> mqtt_qos \<Rightarrow> bool \<Rightarrow> pub_slot \<Rightarrow> pub_slot" where
  "slot_give topic payload qos retain p =
     (let last_id = pb_last_id p;
          pid = (if qos = QOS_1 then (if last_id < 2 \<or> last_id = 65535 then 2 else last_id + 1) else 0)
      in p\<lparr>pb_message := \<lparr>ms_topic = topic, ms_payload = payload, ms_qos = qos, ms_retain = retain,
                           ms_dup = False, ms_packet_id = pid\<rparr>,
            pb_given := True,
            pb_last_id := (if qos = QOS_1 then pid else last_id),
            pb_state := PUB_QUEUED\<rparr>)"

text \<open>\<open>None\<close> for a message given, else what the call returns.\<close>

partial_function (option) publish_give_loop ::
    "mqtt_conf \<Rightarrow> 'w mqtt_io \<Rightarrow> (pub_slot \<Rightarrow> pub_slot) \<Rightarrow> u32 \<Rightarrow> publish_wait \<Rightarrow> pub_slot \<Rightarrow> 'w \<Rightarrow>
     (kii_code option \<times> publish_wait \<times> pub_slot \<times> 'w) option" where
  [code]: "publish_give_loop cf io give timeout_ms pw p w =
     (case mi_others io p w of
        (p1, w1) \<Rightarrow>
          if \<not> pb_open p1 then Some (Some KII_ERR_FAIL, pw, p1, w1)
          else if pb_state p1 = PUB_FREE then Some (None, pw, give p1, w1)
          else
            (case publish_waited_ms cf io pw w1 of
               (waited, w2) \<Rightarrow>
                 if waited \<ge> ucast timeout_ms then Some (Some KII_ERR_TIMEOUT, pw, p1, w2)
                 else
                   (case publish_wait_turn io pw w2 of
                      (pw', w3) \<Rightarrow> publish_give_loop cf io give timeout_ms pw' p1 w3)))"

text \<open>One look at the slot, with the lock held: what the call returns, if it does.\<close>

definition slot_poll :: "bool \<Rightarrow> pub_slot \<Rightarrow> (kii_code \<times> pub_slot) option" where
  "slot_poll timed_out p =
     (if pb_state p = PUB_DONE \<or> (timed_out \<and> pb_state p = PUB_QUEUED)
      then Some (if pb_state p = PUB_DONE then pb_result p else KII_ERR_TIMEOUT,
                 p\<lparr>pb_state := PUB_FREE, pb_given := False\<rparr>)
      else if timed_out \<and> pb_state p = PUB_AWAITING_PUBACK
      then Some (KII_ERR_TIMEOUT, p\<lparr>pb_state := PUB_ABANDONED, pb_given := False\<rparr>)
      else None)"

partial_function (option) publish_done_loop ::
    "mqtt_conf \<Rightarrow> 'w mqtt_io \<Rightarrow> u32 \<Rightarrow> publish_wait \<Rightarrow> pub_slot \<Rightarrow> 'w \<Rightarrow> (kii_code \<times> pub_slot \<times> 'w) option" where
  [code]: "publish_done_loop cf io timeout_ms pw p w =
     (case publish_waited_ms cf io pw w of
        (waited, w1) \<Rightarrow>
          (case mi_others io p w1 of
             (p1, w2) \<Rightarrow>
               (case slot_poll (waited \<ge> ucast timeout_ms) p1 of
                  Some (res, p2) \<Rightarrow> Some (res, p2, w2)
                | None \<Rightarrow>
                    (case publish_wait_turn io pw w2 of
                       (pw', w3) \<Rightarrow> publish_done_loop cf io timeout_ms pw' p1 w3))))"

text \<open>\<open>topic\<close> and \<open>payload\<close> are \<open>None\<close> for NULL; a \<open>qos\<close> that is neither is \<open>None\<close> too.\<close>

definition kii_mqtt_publish ::
    "mqtt_conf \<Rightarrow> bool \<Rightarrow> 'w mqtt_io \<Rightarrow> string option \<Rightarrow> string option \<Rightarrow> nat \<Rightarrow> mqtt_qos option \<Rightarrow> bool \<Rightarrow> u32 \<Rightarrow>
     pub_slot \<Rightarrow> 'w \<Rightarrow> (kii_code \<times> pub_slot \<times> 'w) option" where
  "kii_mqtt_publish cf delay_set io topic payload payload_length qos retain timeout_ms p w =
     (if \<not> cf_has_lock cf \<or> \<not> delay_set then Some (KII_ERR_FAIL, p, w)
      else if qos = None \<or> topic = None \<or> (payload = None \<and> payload_length > 0) then Some (KII_ERR_FAIL, p, w)
      else if length (the topic) > 65535 then Some (KII_ERR_TOO_LARGE_DATA, p, w)
      else if \<not> is_publish_topic (the topic) then Some (KII_ERR_FAIL, p, w)
      else if payload_length >
          MQTT_REMAINING_LENGTH_MAX - 2 - length (the topic) - (if qos = Some QOS_1 then 2 else 0)
      then Some (KII_ERR_TOO_LARGE_DATA, p, w)
      else
        (let content = (case payload of Some s \<Rightarrow> take payload_length s | None \<Rightarrow> []) in
         case (if cf_has_clock cf then mi_monotonic io w else (0, w)) of
           (start, w1) \<Rightarrow> do {
             (res, pw, p2, w2) \<leftarrow> publish_give_loop cf io (slot_give (the topic) content (the qos) retain) timeout_ms
               \<lparr>pw_start_ms = start, pw_waited_ms = 0\<rparr> p w1;
             (case res of
                Some r \<Rightarrow> Some (r, p2, w2)
              | None \<Rightarrow> publish_done_loop cf io timeout_ms pw p2 w2)
           }))"

section \<open>The slot\<close>

text \<open>A message a call may give, and what the callers do with the slot while they hold the lock.\<close>

definition may_give :: "string \<Rightarrow> string \<Rightarrow> mqtt_qos \<Rightarrow> bool" where
  "may_give topic payload qos \<longleftrightarrow>
     length topic \<le> 65535 \<and> is_publish_topic topic \<and>
     length payload \<le> MQTT_REMAINING_LENGTH_MAX - 2 - length topic - (if qos = QOS_1 then 2 else 0)"

inductive caller_step :: "pub_slot \<Rightarrow> pub_slot \<Rightarrow> bool" where
  caller_gives:
    "pb_open p \<Longrightarrow> pb_state p = PUB_FREE \<Longrightarrow> may_give topic payload qos \<Longrightarrow>
     caller_step p (slot_give topic payload qos retain p)"
| caller_returns: "slot_poll timed_out p = Some (res, p') \<Longrightarrow> caller_step p p'"

text \<open>
  What holds of the slot: the pointers to topic and payload are set while their caller waits, and
  only then; a message in it is one a PUBLISH can carry, with a packet identifier of its own at
  QoS 1, neither 0 nor SUBSCRIBE's 1.
\<close>

definition slot_ok :: "pub_slot \<Rightarrow> bool" where
  "slot_ok p \<longleftrightarrow>
     (pb_given p \<longleftrightarrow> pb_state p \<in> {PUB_QUEUED, PUB_SENDING, PUB_AWAITING_PUBACK, PUB_DONE}) \<and>
     pb_last_id p \<le> 65535 \<and>
     (pb_state p \<noteq> PUB_FREE \<longrightarrow>
        publishable (pb_message p) \<and> length (publish_body (pb_message p)) \<le> 268435455 \<and>
        ms_packet_id (pb_message p) \<noteq> 1 \<and> (ms_dup (pb_message p) \<longrightarrow> ms_qos (pb_message p) = QOS_1)) \<and>
     (pb_state p \<in> {PUB_AWAITING_PUBACK, PUB_ABANDONED} \<longrightarrow> ms_qos (pb_message p) = QOS_1)"

lemma give_fits:
  "may_give topic payload qos \<Longrightarrow> ms_topic m = topic \<Longrightarrow> ms_payload m = payload \<Longrightarrow> ms_qos m = qos \<Longrightarrow>
    length (publish_body m) \<le> 268435455"
  by (cases qos) (auto simp: may_give_def publish_body_def mqtt_string_def MQTT_REMAINING_LENGTH_MAX_def)

lemma give_id:
  "(last_id :: nat) \<le> 65535 \<Longrightarrow>
    2 \<le> (if last_id < 2 \<or> last_id = 65535 then 2 else last_id + 1) \<and>
    (if last_id < 2 \<or> last_id = 65535 then 2 else last_id + 1) \<le> 65535"
  by simp

lemma slot_give_ok:
  assumes "slot_ok p" "may_give topic payload qos"
  shows "slot_ok (slot_give topic payload qos retain p)"
proof -
  have "pb_last_id p \<le> 65535" using assms(1) by (simp add: slot_ok_def)
  note i = give_id [OF this]
  define k where "k = (if pb_last_id p < 2 \<or> pb_last_id p = 65535 then 2 else pb_last_id p + 1)"
  have k: "2 \<le> k" "k \<le> 65535" using i by (simp_all only: k_def)
  have "slot_give topic payload qos retain p = p\<lparr>
      pb_message := \<lparr>ms_topic = topic, ms_payload = payload, ms_qos = qos, ms_retain = retain,
                     ms_dup = False, ms_packet_id = (if qos = QOS_1 then k else 0)\<rparr>,
      pb_given := True, pb_last_id := (if qos = QOS_1 then k else pb_last_id p), pb_state := PUB_QUEUED\<rparr>"
    by (simp add: slot_give_def k_def Let_def)
  then show ?thesis
    using k assms give_fits [OF assms(2)] \<open>pb_last_id p \<le> 65535\<close>
    by (cases qos) (simp_all add: slot_ok_def may_give_def publishable_def)
qed

lemma slot_poll_ok: "slot_poll timed_out p = Some (res, p') \<Longrightarrow> slot_ok p \<Longrightarrow> slot_ok p'"
  by (auto simp: slot_poll_def slot_ok_def split: if_splits)

lemma caller_step_ok: "caller_step p p' \<Longrightarrow> slot_ok p \<Longrightarrow> slot_ok p'"
  by (induction rule: caller_step.induct) (auto intro: slot_give_ok slot_poll_ok)

lemma caller_step_sending:
  "caller_step p p' \<Longrightarrow> pb_state p \<noteq> PUB_SENDING \<and> pb_state p' \<noteq> PUB_SENDING"
  by (induction rule: caller_step.induct) (auto simp: slot_give_def slot_poll_def Let_def split: if_splits)

lemma callers:
  assumes "caller_step\<^sup>*\<^sup>* p p'"
  shows "slot_ok p \<Longrightarrow> slot_ok p'" "pb_state p = PUB_SENDING \<Longrightarrow> p' = p"
    "pb_state p \<noteq> PUB_SENDING \<Longrightarrow> pb_state p' \<noteq> PUB_SENDING"
proof -
  show "slot_ok p \<Longrightarrow> slot_ok p'" using assms by (induction rule: rtranclp_induct) (auto intro: caller_step_ok)
  show "pb_state p \<noteq> PUB_SENDING \<Longrightarrow> pb_state p' \<noteq> PUB_SENDING"
    using assms by (induction rule: rtranclp_induct) (auto dest: caller_step_sending)
  show "pb_state p = PUB_SENDING \<Longrightarrow> p' = p"
    using assms by (cases rule: converse_rtranclpE) (auto dest: caller_step_sending)
qed

text \<open>The loops of the call take none but these steps, with those of the others between them.\<close>

lemma turn_steps:
  assumes "\<And>p w. others\<^sup>*\<^sup>* p (fst (mi_others io p w))"
  shows "mi_others io p w = (p1, w1) \<Longrightarrow> (sup caller_step others)\<^sup>*\<^sup>* p p1"
proof -
  assume "mi_others io p w = (p1, w1)"
  then have "others\<^sup>*\<^sup>* p p1" using assms by (metis fst_conv)
  moreover have "others\<^sup>*\<^sup>* \<le> (sup caller_step others)\<^sup>*\<^sup>*" by (rule rtranclp_mono) simp
  ultimately show ?thesis by blast
qed

lemma give_loop_steps:
  assumes o: "\<And>p w. others\<^sup>*\<^sup>* p (fst (mi_others io p w))" and g: "may_give topic payload qos"
    and ret: "publish_give_loop cf io (slot_give topic payload qos retain) timeout_ms pw p w = Some (res, pw', p', w')"
  shows "(sup caller_step others)\<^sup>*\<^sup>* p p' \<and> res \<noteq> Some KII_ERR_OK"
proof -
  let ?give = "slot_give topic payload qos retain"
  let ?P = "\<lambda>cf io' give timeout_ms pw p w r.
    io' = io \<longrightarrow> give = ?give \<longrightarrow> (sup caller_step others)\<^sup>*\<^sup>* p (fst (snd (snd r))) \<and> fst r \<noteq> Some KII_ERR_OK"
  have "?P cf io ?give timeout_ms pw p w (res, pw', p', w')"
  proof (rule publish_give_loop.raw_induct [where P = ?P, OF _ ret], intro impI)
    fix f cf io' give timeout_ms pw p w r
    assume IH: "\<And>cf io' give timeout_ms pw p w r. f cf io' give timeout_ms pw p w = Some r \<Longrightarrow>
        ?P cf io' give timeout_ms pw p w r"
      and eq: "(case mi_others io' p w of
        (p1, w1) \<Rightarrow>
          if \<not> pb_open p1 then Some (Some KII_ERR_FAIL, pw, p1, w1)
          else if pb_state p1 = PUB_FREE then Some (None, pw, give p1, w1)
          else
            (case publish_waited_ms cf io' pw w1 of
               (waited, w2) \<Rightarrow>
                 if waited \<ge> ucast timeout_ms then Some (Some KII_ERR_TIMEOUT, pw, p1, w2)
                 else
                   (case publish_wait_turn io' pw w2 of
                      (pw', w3) \<Rightarrow> f cf io' give timeout_ms pw' p1 w3))) = Some r"
      and [simp]: "io' = io" "give = ?give"
    obtain p1 w1 where p1: "mi_others io p w = (p1, w1)" by (metis surj_pair)
    note s = turn_steps [OF o p1]
    obtain waited w2 where 2: "publish_waited_ms cf io pw w1 = (waited, w2)" by (metis surj_pair)
    obtain pw3 w3 where 3: "publish_wait_turn io pw w2 = (pw3, w3)" by (metis surj_pair)
    have given: "(sup caller_step others)\<^sup>*\<^sup>* p (?give p1)" if "pb_open p1" "pb_state p1 = PUB_FREE"
      using s caller_gives [OF that g, of retain] by (auto intro: rtranclp.rtrancl_into_rtrancl)
    show "(sup caller_step others)\<^sup>*\<^sup>* p (fst (snd (snd r))) \<and> fst r \<noteq> Some KII_ERR_OK"
    proof (cases "pb_open p1 \<and> pb_state p1 \<noteq> PUB_FREE \<and> \<not> waited \<ge> ucast timeout_ms")
      case True
      then have "f cf io give timeout_ms pw3 p1 w3 = Some r" using eq by (simp add: p1 2 3)
      from IH [OF this] have "(sup caller_step others)\<^sup>*\<^sup>* p1 (fst (snd (snd r))) \<and> fst r \<noteq> Some KII_ERR_OK" by simp
      with s show ?thesis by (auto intro: rtranclp_trans)
    next
      case False
      then show ?thesis using eq s given by (auto simp: p1 2 split: if_splits)
    qed
  qed
  then show ?thesis by simp
qed

lemma done_loop_steps:
  assumes o: "\<And>p w. others\<^sup>*\<^sup>* p (fst (mi_others io p w))"
    and ret: "publish_done_loop cf io timeout_ms pw p w = Some (res, p', w')"
  shows "\<exists>p0 timed_out. (sup caller_step others)\<^sup>*\<^sup>* p p0 \<and> slot_poll timed_out p0 = Some (res, p')"
proof -
  let ?P = "\<lambda>cf io' timeout_ms pw p w r. io' = io \<longrightarrow>
    (\<exists>p0 t. (sup caller_step others)\<^sup>*\<^sup>* p p0 \<and> slot_poll t p0 = Some (fst r, fst (snd r)))"
  have "?P cf io timeout_ms pw p w (res, p', w')"
  proof (rule publish_done_loop.raw_induct [where P = ?P, OF _ ret], intro impI)
    fix f cf io' timeout_ms pw p w r
    assume IH: "\<And>cf io' timeout_ms pw p w r. f cf io' timeout_ms pw p w = Some r \<Longrightarrow> ?P cf io' timeout_ms pw p w r"
      and eq: "(case publish_waited_ms cf io' pw w of
        (waited, w1) \<Rightarrow>
          (case mi_others io' p w1 of
             (p1, w2) \<Rightarrow>
               (case slot_poll (waited \<ge> ucast timeout_ms) p1 of
                  Some (res, p2) \<Rightarrow> Some (res, p2, w2)
                | None \<Rightarrow>
                    (case publish_wait_turn io' pw w2 of
                       (pw', w3) \<Rightarrow> f cf io' timeout_ms pw' p1 w3)))) = Some r"
      and [simp]: "io' = io"
    obtain waited w1 where 1: "publish_waited_ms cf io pw w = (waited, w1)" by (metis surj_pair)
    obtain p1 w2 where 2: "mi_others io p w1 = (p1, w2)" by (metis surj_pair)
    obtain pw3 w3 where 3: "publish_wait_turn io pw w2 = (pw3, w3)" by (metis surj_pair)
    note s = turn_steps [OF o 2]
    show "\<exists>p0 t. (sup caller_step others)\<^sup>*\<^sup>* p p0 \<and> slot_poll t p0 = Some (fst r, fst (snd r))"
    proof (cases "slot_poll (waited \<ge> ucast timeout_ms) p1")
      case None
      then have "f cf io timeout_ms pw3 p1 w3 = Some r" using eq by (simp add: 1 2 3)
      from IH [OF this] s show ?thesis by (auto intro: rtranclp_trans)
    next
      case (Some a)
      then show ?thesis using eq s by (auto simp: 1 2 split: prod.splits intro!: exI [of _ p1])
    qed
  qed
  then show ?thesis by simp
qed

text \<open>A message left being sent, as the others leave it, is waited for without end.\<close>

lemma done_loop_stuck:
  assumes o: "\<And>w. fst (mi_others io p w) = p" and p: "pb_state p = PUB_SENDING"
  shows "publish_done_loop cf io timeout_ms pw p w = None"
proof (rule ccontr)
  assume "\<not> ?thesis"
  then obtain res p' w' where r: "publish_done_loop cf io timeout_ms pw p w = Some (res, p', w')" by auto
  let ?R = "\<lambda>q (_ :: pub_slot). q \<noteq> p"
  have "?R\<^sup>*\<^sup>* q (fst (mi_others io q w))" for q w
    using o by (cases "q = p") (auto intro: r_into_rtranclp)
  from done_loop_steps [OF this r] obtain p0 t where
    s: "(sup caller_step ?R)\<^sup>*\<^sup>* p p0" "slot_poll t p0 = Some (res, p')" by blast
  have "p0 = p"
    using s(1) by (cases rule: converse_rtranclpE) (use p in \<open>auto dest: caller_step_sending\<close>)
  then show False using s(2) p by (simp add: slot_poll_def)
qed

text \<open>And what the task does with it.\<close>

lemma publishable_dup: "publishable (m\<lparr>ms_dup := d\<rparr>) = publishable m" "publish_body (m\<lparr>ms_dup := d\<rparr>) = publish_body m"
  unfolding publishable_def publish_body_def by simp_all

lemma slot_take_ok: "slot_ok p \<Longrightarrow> slot_ok (snd (slot_take p))"
  by (cases "pb_state p = PUB_QUEUED") (simp_all add: slot_take_def slot_ok_def Let_def)

lemma slot_acked_cases:
  "snd (slot_acked i p) = p\<lparr>pb_result := KII_ERR_OK, pb_state := PUB_DONE\<rparr> \<and> pb_state p = PUB_AWAITING_PUBACK \<or>
   snd (slot_acked i p) = p\<lparr>pb_state := PUB_FREE\<rparr> \<and> pb_state p = PUB_ABANDONED \<or> snd (slot_acked i p) = p"
  unfolding slot_acked_def slot_awaits_def Let_def by (cases "pb_state p") simp_all

lemma slot_acked_ok: "slot_ok p \<Longrightarrow> slot_ok (snd (slot_acked i p))"
  using slot_acked_cases [of i p] by (elim disjE conjE) (simp_all add: slot_ok_def)

lemma slot_reconnected_ok: "slot_ok p \<Longrightarrow> slot_ok (slot_reconnected p)"
  by (auto simp: slot_reconnected_def slot_ok_def publishable_dup)

lemma slot_sent_ok: "slot_ok p \<Longrightarrow> pb_state p = PUB_SENDING \<Longrightarrow> q = (ms_qos (pb_message p) = QOS_1) \<Longrightarrow> slot_ok (slot_sent res q p)"
  by (auto simp: slot_sent_def slot_ok_def publishable_dup)

lemma slot_close_ok: "slot_ok p \<Longrightarrow> slot_ok (slot_close p)"
  by (auto simp: slot_close_def slot_ok_def Let_def)

lemma slot_not_sending:
  "pb_state p \<noteq> PUB_SENDING \<Longrightarrow> pb_state (slot_reconnected p) \<noteq> PUB_SENDING"
  "pb_state p \<noteq> PUB_SENDING \<Longrightarrow> pb_state (snd (slot_acked i p)) \<noteq> PUB_SENDING"
  "pb_state (slot_sent res q p) \<noteq> PUB_SENDING"
  by (auto simp: slot_reconnected_def slot_acked_def slot_sent_def Let_def)

section \<open>What the call promises\<close>


end
