(* ===== verification/Mqtt_Wire.thy ===== *)
theory Mqtt_Wire
  imports Mqtt_Codec Mqtt_Task "HOL-Library.Sublist"
begin

text \<open>
  What an MQTT client may say and hear on one connection, as an inductive predicate over whole
  packets, and the world with what passes on the connection kept beside it: the basis for the
  proof that the task keeps to it.
\<close>

section \<open>A client of MQTT\<close>

datatype phase = OPENED | CONNECTING | ACCEPTED | SUBSCRIBING | READY

definition buffer_size :: "mqtt_conf \<Rightarrow> nat" where
  "buffer_size cf = (case cf_buffer cf of Some n \<Rightarrow> n | None \<Rightarrow> 0)"

text \<open>The first byte of a PUBLISH a broker may send a client that subscribes at QoS 0 or 1.\<close>

definition publish_header_ok :: "char \<Rightarrow> bool" where
  "publish_header_ok b \<longleftrightarrow>
     code b AND 0xf0 = 0x30 \<and> publish_qos b \<le> 1 \<and> \<not> (publish_qos b = 0 \<and> publish_dup b)"

text \<open>
  \<open>client cf ep ph r s d\<close>: in phase \<open>ph\<close> of a connection, with \<open>r\<close> received and \<open>s\<close> sent on it, the
  messages \<open>d\<close> were given to the application.
\<close>

inductive client :: "mqtt_conf \<Rightarrow> mqtt_endpoint \<Rightarrow> phase \<Rightarrow> string \<Rightarrow> string \<Rightarrow> mqtt_message list \<Rightarrow> bool"
  for cf ep where
  c_opened: "client cf ep OPENED [] [] []"
| c_connect:
    "client cf ep OPENED r s d \<Longrightarrow> client cf ep CONNECTING r (s @ packet (CHR 0x10) (connect_body cf ep)) d"
| c_connack:
    "client cf ep CONNECTING r s d \<Longrightarrow> client cf ep ACCEPTED (r @ [CHR 0x20, CHR 0x02, f, CHR 0x00]) s d"
| c_subscribe:
    "client cf ep ACCEPTED r s d \<Longrightarrow>
     client cf ep SUBSCRIBING r (s @ packet (CHR 0x82) (subscribe_body (ep_topic ep) (cf_qos cf))) d"
| c_suback:
    "client cf ep SUBSCRIBING r s d \<Longrightarrow> code q \<le> (if cf_qos cf = QOS_1 then 1 else 0) \<Longrightarrow>
     client cf ep READY (r @ [CHR 0x90, CHR 0x03, CHR 0x00, CHR 0x01, q]) s d"
| c_message:
    "client cf ep ph r s d \<Longrightarrow> ph = SUBSCRIBING \<or> ph = READY \<Longrightarrow> publish_header_ok b \<Longrightarrow>
     length body \<le> buffer_size cf \<Longrightarrow>
     read_publish (publish_qos b) (publish_dup b) (publish_retain b) body = Some m \<Longrightarrow>
     client cf ep ph (r @ packet b body)
       (s @ (if publish_qos b = 1 then puback (ms_packet_id m) else [])) (d @ [m])"
| c_too_large:
    "client cf ep ph r s d \<Longrightarrow> ph = SUBSCRIBING \<or> ph = READY \<Longrightarrow> publish_header_ok b \<Longrightarrow>
     buffer_size cf < length body \<Longrightarrow> i = uint16_at body (2 + uint16_at body 0) \<Longrightarrow>
     2 + uint16_at body 0 + (if publish_qos b = 1 then 2 else 0) \<le> length body \<Longrightarrow>
     publish_qos b = 1 \<longrightarrow> i \<noteq> 0 \<Longrightarrow>
     client cf ep ph (r @ packet b body) (s @ (if publish_qos b = 1 then puback i else [])) d"
| c_pingreq: "client cf ep READY r s d \<Longrightarrow> client cf ep READY r (s @ [CHR 0xc0, CHR 0x00]) d"
| c_pingresp: "client cf ep READY r s d \<Longrightarrow> client cf ep READY (r @ [CHR 0xd0, CHR 0x00]) s d"
| c_publish: "client cf ep READY r s d \<Longrightarrow> client cf ep READY r (s @ concat (publish_pieces m)) d"
| c_puback: "client cf ep READY r s d \<Longrightarrow> client cf ep READY (r @ [CHR 0x40, CHR 0x02, i, j]) s d"

text \<open>Whether the broker has accepted the connection, and the packets a client may send.\<close>

definition accepted :: "phase \<Rightarrow> bool" where
  "accepted ph \<longleftrightarrow> ph = ACCEPTED \<or> ph = SUBSCRIBING \<or> ph = READY"

definition client_packet :: "mqtt_conf \<Rightarrow> mqtt_endpoint \<Rightarrow> phase \<Rightarrow> string \<Rightarrow> bool" where
  "client_packet cf ep ph p \<longleftrightarrow>
     (ph = OPENED \<and> p = packet (CHR 0x10) (connect_body cf ep)) \<or>
     (ph = ACCEPTED \<and> p = packet (CHR 0x82) (subscribe_body (ep_topic ep) (cf_qos cf))) \<or>
     ((ph = SUBSCRIBING \<or> ph = READY) \<and> (\<exists>i. p = puback i)) \<or>
     (ph = READY \<and> (p = [CHR 0xc0, CHR 0x00] \<or> (\<exists>m. p = concat (publish_pieces m))))"

text \<open>
  A connection that ended: a client's, of which the last packet received, or sent, may be cut
  short or not a broker's; a message delivered is one received whole, though its acknowledgement
  may be cut short.
\<close>

definition delivery :: "mqtt_conf \<Rightarrow> string \<Rightarrow> mqtt_message \<Rightarrow> bool" where
  "delivery cf t m \<longleftrightarrow>
     (\<exists>b body. t = packet b body \<and> publish_header_ok b \<and> length body \<le> buffer_size cf \<and>
        read_publish (publish_qos b) (publish_dup b) (publish_retain b) body = Some m)"

definition cut_short :: "mqtt_conf \<Rightarrow> mqtt_endpoint \<Rightarrow> phase \<Rightarrow> string \<Rightarrow> string \<Rightarrow> mqtt_message list \<Rightarrow> bool" where
  "cut_short cf ep ph r s d \<longleftrightarrow>
     (\<exists>r0 s0 d0 t u. client cf ep ph r0 s0 d0 \<and> r = r0 @ t \<and> s = s0 @ u \<and>
        (u = [] \<or> (\<exists>p. client_packet cf ep ph p \<and> prefix u p)) \<and>
        (d = d0 \<or> (\<exists>m. delivery cf t m \<and> d = d0 @ [m])))"

section \<open>What passes on the connection\<close>

text \<open>
  Since it was opened.  \<open>wr_misused\<close> is set by a use of a socket that is not connected, or a connect
  of one that is.
\<close>

record wire =
  wr_open :: bool
  wr_received :: string
  wr_sent :: string
  wr_delivered :: "mqtt_message list"
  wr_misused :: bool

definition use :: "wire \<Rightarrow> wire" where
  "use x = x\<lparr>wr_misused := (wr_misused x \<or> \<not> wr_open x)\<rparr>"

definition traced :: "'w mqtt_io \<Rightarrow> (wire \<times> 'w) mqtt_io" where
  "traced io =
     \<lparr>mi_connect = (\<lambda>h p (x, w). case mi_connect io h p w of
        (r, w') \<Rightarrow>
          (r, (if r = SOCK_OK
               then \<lparr>wr_open = True, wr_received = [], wr_sent = [], wr_delivered = [],
                     wr_misused = (wr_misused x \<or> wr_open x)\<rparr>
               else x\<lparr>wr_misused := (wr_misused x \<or> wr_open x)\<rparr>, w'))),
      mi_send = (\<lambda>s (x, w). case mi_send io s w of
        ((r, n), w') \<Rightarrow> ((r, n), ((use x)\<lparr>wr_sent := wr_sent x @ (if r = SOCK_OK then take n s else [])\<rparr>, w'))),
      mi_recv = (\<lambda>n (x, w). case mi_recv io n w of
        ((r, s), w') \<Rightarrow> ((r, s), ((use x)\<lparr>wr_received := wr_received x @ (if r = SOCK_OK then s else [])\<rparr>, w'))),
      mi_close = (\<lambda>(x, w). case mi_close io w of (r, w') \<Rightarrow> (r, ((use x)\<lparr>wr_open := False\<rparr>, w'))),
      mi_recv_timed_out = (\<lambda>(x, w). case mi_recv_timed_out io w of (b, w') \<Rightarrow> (b, (use x, w'))),
      mi_recv_wait = (\<lambda>n (x, w). case mi_recv_wait io n w of (b, w') \<Rightarrow> (b, (use x, w'))),
      mi_delay = (\<lambda>n (x, w). (x, mi_delay io n w)),
      mi_monotonic = (\<lambda>(x, w). case mi_monotonic io w of (t, w') \<Rightarrow> (t, (x, w'))),
      mi_log = (\<lambda>l s n (x, w). (x, mi_log io l s n w)),
      mi_event = (\<lambda>e n (x, w). (x, mi_event io e n w)),
      mi_message = (\<lambda>m (x, w). (x\<lparr>wr_delivered := wr_delivered x @ [m]\<rparr>, mi_message io m w)),
      mi_credentials = (\<lambda>e (x, w). case mi_credentials io e w of (r, w') \<Rightarrow> (r, (x, w'))),
      mi_install_push = (\<lambda>(x, w). case mi_install_push io w of (r, w') \<Rightarrow> (r, (x, w'))),
      mi_get_endpoint = (\<lambda>i (x, w). case mi_get_endpoint io i w of (r, w') \<Rightarrow> (r, (x, w'))),
      mi_onboard_again = (\<lambda>(x, w). case mi_onboard_again io w of (r, w') \<Rightarrow> (r, (x, w'))),
      mi_renews_by_onboarding = (\<lambda>(x, w). mi_renews_by_onboarding io w),
      mi_status_code = (\<lambda>(x, w). mi_status_code io w),
      mi_author_id = (\<lambda>(x, w). mi_author_id io w),
      mi_onboarded = (\<lambda>(x, w). mi_onboarded io w),
      mi_continue = (\<lambda>s e (x, w). case mi_continue io s e w of (r, w') \<Rightarrow> (r, (x, w'))),
      mi_exit = (\<lambda>s e (x, w). (x, mi_exit io s e w)),
      mi_others = (\<lambda>p (x, w). case mi_others io p w of (r, w') \<Rightarrow> (r, (x, w')))\<rparr>"

definition rx :: "string \<Rightarrow> wire \<Rightarrow> wire" where
  "rx u x = x\<lparr>wr_received := wr_received x @ u\<rparr>"

definition tx :: "string \<Rightarrow> wire \<Rightarrow> wire" where
  "tx u x = x\<lparr>wr_sent := wr_sent x @ u\<rparr>"

lemma rx_tx_simps [simp]:
  "wr_open (rx u x) = wr_open x" "wr_misused (rx u x) = wr_misused x" "wr_sent (rx u x) = wr_sent x"
  "wr_received (rx u x) = wr_received x @ u" "wr_delivered (rx u x) = wr_delivered x"
  "wr_open (tx u x) = wr_open x" "wr_misused (tx u x) = wr_misused x" "wr_sent (tx u x) = wr_sent x @ u"
  "wr_received (tx u x) = wr_received x" "wr_delivered (tx u x) = wr_delivered x"
  "rx [] x = x" "tx [] x = x" "rx v (rx u x) = rx (u @ v) x" "tx v (tx u x) = tx (u @ v) x"
  by (simp_all add: rx_def tx_def)

lemma use_open [simp]: "wr_open x \<Longrightarrow> use x = x"
  by (simp add: use_def)

text \<open>The operations of the traced world, while the connection is open.\<close>

lemma traced_send:
  "wr_open x \<Longrightarrow> mi_send (traced io) s (x, w) =
    (case mi_send io s w of ((r, n), w') \<Rightarrow> ((r, n), (tx (if r = SOCK_OK then take n s else []) x, w')))"
  by (simp add: traced_def tx_def split: prod.split)

lemma traced_recv:
  "wr_open x \<Longrightarrow> mi_recv (traced io) n (x, w) =
    (case mi_recv io n w of ((r, s), w') \<Rightarrow> ((r, s), (rx (if r = SOCK_OK then s else []) x, w')))"
  by (simp add: traced_def rx_def split: prod.split)

definition sends :: "string \<Rightarrow> wire \<Rightarrow> sock_code \<Rightarrow> wire \<Rightarrow> bool" where
  "sends data x res x' \<longleftrightarrow> (\<exists>u. x' = tx u x \<and> prefix u data \<and> (res = SOCK_OK \<longrightarrow> u = data))"

lemma send_loop_traced:
  assumes ret: "send_loop (traced io) data i e (x, w) = Some (res, x', w')" and o: "wr_open x"
  shows "sends (drop i data) x res x' \<and> (e \<noteq> SOCK_AGAIN \<longrightarrow> res \<noteq> SOCK_AGAIN)"
proof -
  let ?P = "\<lambda>io' data i e p q. io' = traced io \<longrightarrow> wr_open (fst p) \<longrightarrow> sends (drop i data) (fst p) (fst q) (fst (snd q)) \<and>
    (e \<noteq> SOCK_AGAIN \<longrightarrow> fst q \<noteq> SOCK_AGAIN)"
  have "?P (traced io) data i e (x, w) (res, x', w')"
  proof (rule send_loop.raw_induct [where P = ?P, OF _ ret], intro impI)
    fix f io' data i e and p :: "wire \<times> 'a" and q
    assume IH: "\<And>io' data i e p q. f io' data i e p = Some q \<Longrightarrow> ?P io' data i e p q"
      and eq: "(if i < length data
        then case mi_send io' (drop i data) p of ((res, n), w') \<Rightarrow> if res \<noteq> SOCK_OK then Some (SOCK_FAIL, w')
          else f io' data (i + n) res w'
        else Some (e, p)) = Some q"
      and io': "io' = traced io" and o: "wr_open (fst p)"
    obtain x w where p: "p = (x, w)" by fastforce
    obtain r n w1 where s: "mi_send io (drop i data) w = ((r, n), w1)" by (metis surj_pair)
    show "sends (drop i data) (fst p) (fst q) (fst (snd q)) \<and> (e \<noteq> SOCK_AGAIN \<longrightarrow> fst q \<noteq> SOCK_AGAIN)"
    proof (cases "i < length data \<and> r = SOCK_OK")
      case True
      let ?x = "tx (take n (drop i data)) x"
      have "f io' data (i + n) SOCK_OK (?x, w1) = Some q"
        using eq True s o by (simp add: io' p traced_send)
      from IH [OF this] o obtain u where
        u: "fst (snd q) = tx u ?x" "prefix u (drop (i + n) data)" "fst q = SOCK_OK \<longrightarrow> u = drop (i + n) data"
        and "fst q \<noteq> SOCK_AGAIN"
        by (auto simp: io' p sends_def)
      have d: "take n (drop i data) @ drop (i + n) data = drop i data"
        by (metis append_take_drop_id drop_drop add.commute)
      have "prefix (take n (drop i data) @ u) (take n (drop i data) @ drop (i + n) data)" using u(2) by simp
      then show ?thesis
        unfolding sends_def using u d \<open>fst q \<noteq> SOCK_AGAIN\<close> 
        by (intro conjI exI [of _ "take n (drop i data) @ u"]) (simp_all add: p)
    next
      case False
      then show ?thesis using eq s o
        by (auto simp: io' p traced_send sends_def intro!: exI [of _ "[]"] split: if_splits)
    qed
  qed
  with o show ?thesis by simp
qed

text \<open>A packet through the buffer.\<close>

definition outs :: "string \<Rightarrow> wire \<Rightarrow> mqtt_out \<Rightarrow> wire \<Rightarrow> mqtt_out \<Rightarrow> bool" where
  "outs data x out x' out' \<longleftrightarrow>
     (\<exists>u. x' = tx u x \<and> prefix u (ot_used out @ data) \<and>
        (ot_res out' = SOCK_OK \<longrightarrow> u @ ot_used out' = ot_used out @ data) \<and>
        (ot_res out \<noteq> SOCK_OK \<longrightarrow> u = [] \<and> ot_res out' \<noteq> SOCK_OK))"

lemma outs_trans:
  assumes "outs a x out x1 out1" "outs b x1 out1 x2 out2"
  shows "outs (a @ b) x out x2 out2"
proof -
  obtain u where u: "x1 = tx u x" "prefix u (ot_used out @ a)"
    "ot_res out1 = SOCK_OK \<longrightarrow> u @ ot_used out1 = ot_used out @ a"
    "ot_res out \<noteq> SOCK_OK \<longrightarrow> u = [] \<and> ot_res out1 \<noteq> SOCK_OK"
    using assms(1) by (auto simp: outs_def)
  obtain v where v: "x2 = tx v x1" "prefix v (ot_used out1 @ b)"
    "ot_res out2 = SOCK_OK \<longrightarrow> v @ ot_used out2 = ot_used out1 @ b"
    "ot_res out1 \<noteq> SOCK_OK \<longrightarrow> v = [] \<and> ot_res out2 \<noteq> SOCK_OK"
    using assms(2) by (auto simp: outs_def)
  show ?thesis
  proof (cases "ot_res out1 = SOCK_OK")
    case True
    then have e: "u @ ot_used out1 = ot_used out @ a" using u by simp
    have "prefix (u @ v) (u @ ot_used out1 @ b)" using v(2) by simp
    then have "prefix (u @ v) (ot_used out @ a @ b)" using e by (metis append_assoc)
    moreover have "ot_res out2 = SOCK_OK \<longrightarrow> (u @ v) @ ot_used out2 = ot_used out @ a @ b"
      using v(3) e by (metis append_assoc)
    ultimately show ?thesis unfolding outs_def using u v True by (intro exI [of _ "u @ v"]) auto
  next
    case False
    then have "v = []" "ot_res out2 \<noteq> SOCK_OK" using v(4) by simp_all
    moreover have "prefix u (ot_used out @ a @ b)" using u(2) prefix_prefix [of u "ot_used out @ a" b] by simp
    ultimately show ?thesis unfolding outs_def using u v(1) by (intro exI [of _ u]) auto
  qed
qed

lemma out_flush_traced:
  assumes "mqtt_out_flush (traced io) out (x, w) = Some (out', x', w')" "wr_open x"
  shows "outs [] x out x' out'" "ot_used out' = []"
proof -
  show "outs [] x out x' out'"
  proof (cases "ot_res out = SOCK_OK \<and> 0 < length (ot_used out)")
    case True
    then obtain res where s: "send_loop (traced io) (ot_used out) 0 SOCK_OK (x, w) = Some (res, x', w')"
      and o: "out' = out\<lparr>ot_res := res, ot_used := []\<rparr>"
      using assms(1) by (auto simp: mqtt_out_flush_def mqtt_send_all_def bind_eq_Some_conv)
    from send_loop_traced [OF s assms(2)] True show ?thesis by (auto simp: sends_def outs_def o)
  next
    case False
    then show ?thesis using assms(1) by (auto simp: mqtt_out_flush_def outs_def intro!: exI [of _ "[]"])
  qed
  show "ot_used out' = []"
    using assms(1) by (auto simp: mqtt_out_flush_def bind_eq_Some_conv split: if_splits)
qed

lemma out_put_traced:
  assumes ret: "mqtt_out_put (traced io) sz data out (x, w) = Some (out', x', w')" and o: "wr_open x"
  shows "outs data x out x' out'"
proof -
  let ?P = "\<lambda>io' sz data out p q. io' = traced io \<longrightarrow> wr_open (fst p) \<longrightarrow> outs data (fst p) out (fst (snd q)) (fst q)"
  have "?P (traced io) sz data out (x, w) (out', x', w')"
  proof (rule mqtt_out_put.raw_induct [where P = ?P, OF _ ret], intro impI)
    fix f io' sz data out and p :: "wire \<times> 'a" and q
    assume IH: "\<And>io' sz data out p q. f io' sz data out p = Some q \<Longrightarrow> ?P io' sz data out p q"
      and eq: "(if 0 < length data \<and> ot_res out = SOCK_OK
        then (if length (ot_used out) = sz then mqtt_out_flush io' out p else Some (out, p)) \<bind>
          (\<lambda>(out', w'). let n = if length data < sz - length (ot_used out') then length data else sz - length (ot_used out')
             in f io' sz (drop n data) (out'\<lparr>ot_used := ot_used out' @ take n data\<rparr>) w')
        else Some (out, p)) = Some q"
      and io': "io' = traced io" and o: "wr_open (fst p)"
    obtain x w where p: "p = (x, w)" by fastforce
    show "outs data (fst p) out (fst (snd q)) (fst q)"
    proof (cases "0 < length data \<and> ot_res out = SOCK_OK")
      case True
      then obtain out1 x1 w1 where
        f1: "(if length (ot_used out) = sz then mqtt_out_flush io' out p else Some (out, p)) = Some (out1, x1, w1)"
        and eq': "(let n = if length data < sz - length (ot_used out1) then length data else sz - length (ot_used out1)
             in f io' sz (drop n data) (out1\<lparr>ot_used := ot_used out1 @ take n data\<rparr>) (x1, w1)) = Some q"
        using eq by (auto simp: bind_eq_Some_conv)
      have 1: "outs [] x out x1 out1"
      proof (cases "length (ot_used out) = sz")
        case True
        then show ?thesis using out_flush_traced(1) [of io out x w out1 x1 w1] f1 o by (simp add: io' p)
      next
        case False
        then show ?thesis using f1 by (auto simp: p outs_def intro!: exI [of _ "[]"])
      qed
      then have o1: "wr_open x1" using o by (auto simp: outs_def p)
      obtain n where "f io' sz (drop n data) (out1\<lparr>ot_used := ot_used out1 @ take n data\<rparr>) (x1, w1) = Some q"
        using eq' by (auto simp: Let_def)
      from IH [OF this] o1 io'
      have "outs (drop n data) x1 (out1\<lparr>ot_used := ot_used out1 @ take n data\<rparr>) (fst (snd q)) (fst q)" by simp
      then have "outs data x1 out1 (fst (snd q)) (fst q)" by (simp add: outs_def)
      from outs_trans [OF 1 this] show ?thesis by (simp add: p)
    next
      case False
      then show ?thesis using eq by (auto simp: outs_def p intro!: exI [of _ "[]"])
    qed
  qed
  with o show ?thesis by simp
qed

lemma out_puts_traced:
  assumes "mqtt_out_puts (traced io) sz ss out (x, w) = Some (out', x', w')" "wr_open x"
  shows "outs (concat ss) x out x' out'"
  using assms
proof (induction ss arbitrary: out x w)
  case Nil
  then show ?case by (auto simp: outs_def intro!: exI [of _ "[]"])
next
  case (Cons s ss)
  then obtain out1 x1 w1 where 1: "mqtt_out_put (traced io) sz s out (x, w) = Some (out1, x1, w1)"
    and 2: "mqtt_out_puts (traced io) sz ss out1 (x1, w1) = Some (out', x', w')"
    by (auto simp: bind_eq_Some_conv)
  have o: "outs s x out x1 out1" by (rule out_put_traced [OF 1 Cons.prems(2)])
  then have "wr_open x1" using Cons.prems(2) by (auto simp: outs_def)
  from outs_trans [OF o Cons.IH [OF 2 this]] show ?case by simp
qed

lemma send_publish_traced:
  assumes "mqtt_send_publish cf (traced io) m (x, w) = Some (res, x', w')" "wr_open x"
  shows "sends (concat (publish_pieces m)) x res x'"
proof -
  let ?o = "\<lparr>ot_used = [], ot_res = SOCK_OK\<rparr>"
  obtain out1 x1 w1 out2 where
    1: "mqtt_out_puts (traced io) (case cf_buffer cf of Some n \<Rightarrow> n | None \<Rightarrow> 0) (publish_pieces m) ?o (x, w) = Some (out1, x1, w1)"
    and 2: "mqtt_out_flush (traced io) out1 (x1, w1) = Some (out2, x', w')" "res = ot_res out2"
    using assms(1) by (auto simp: mqtt_send_publish_def bind_eq_Some_conv)
  have o: "outs (concat (publish_pieces m)) x ?o x1 out1" by (rule out_puts_traced [OF 1 assms(2)])
  then have "wr_open x1" using assms(2) by (auto simp: outs_def)
  from outs_trans [OF o out_flush_traced(1) [OF 2(1) this]] out_flush_traced(2) [OF 2(1) this] 2(2)
  show ?thesis by (auto simp: outs_def sends_def)
qed

section \<open>What is received\<close>

lemma byte1_traced:
  assumes "recv_fixed_header_byte1 (traced io) (x, w) = Some ((res, c), x', w')" "wr_open x"
  shows "x' = rx (if res = SOCK_OK then (case c of None \<Rightarrow> [] | Some b \<Rightarrow> [b]) else []) x"
proof -
  obtain r s w1 where s: "mi_recv io 1 w = ((r, s), w1)" by (metis surj_pair)
  show ?thesis
    using assms s by (cases s) (auto simp: recv_fixed_header_byte1_def traced_recv split: if_splits)
qed

lemma decode_stops:
  assumes "mqtt_decode_loop buf i m n = Some (r, j)"
  shows "i < j \<and> j \<le> 4 \<and> (\<forall>k. i \<le> k \<and> k < j - 1 \<longrightarrow> code (buf ! k) AND 128 \<noteq> 0) \<and> code (buf ! (j - 1)) AND 128 = 0"
  using assms
proof (induction buf i m n rule: mqtt_decode_loop.induct)
  case (1 buf i m n)
  show ?case
  proof (cases "code (buf ! i) AND 128 = 0")
    case True
    then show ?thesis using 1(2) by (subst (asm) mqtt_decode_loop.simps) (auto simp: Let_def split: if_splits)
  next
    case False
    then have i: "\<not> i > 3" and d: "mqtt_decode_loop buf (Suc i) (m * 128) (n + (code (buf ! i) AND 127) * m) = Some (r, j)"
      using 1(2) by (subst (asm) (1) mqtt_decode_loop.simps, auto simp: Let_def split: if_splits)+
    from 1(1) [OF i refl False d] False show ?thesis by (metis Suc_leD Suc_le_eq le_eq_less_or_eq less_eq_Suc_le)
  qed
qed

definition continued :: "string \<Rightarrow> bool" where
  "continued t \<longleftrightarrow> (\<forall>k < length t - 1. code (t ! k) AND 128 \<noteq> 0)"

lemma header_rest_traced:
  assumes "header_rest_loop (traced io) k buff (x, w) = Some (r, x', w')" "wr_open x"
    and "\<forall>c\<in>set buff. code c AND 128 \<noteq> 0"
  shows "\<exists>t. x' = rx t x \<and> (\<forall>b. r = Some b \<longrightarrow> b = buff @ t \<and> length t \<le> k \<and> continued b \<and>
    (t \<noteq> [] \<and> code (last b) AND 128 = 0 \<or> length t = k))"
  using assms
proof (induction k arbitrary: buff x w)
  case 0
  have "continued buff" using 0(3) by (simp add: continued_def)
  then show ?case using 0 by (auto intro!: exI [of _ "[]"])
next
  case (Suc k)
  obtain q s w1 where s: "mi_recv io 1 w = ((q, s), w1)" by (metis surj_pair)
  show ?case
  proof (cases "length s > 1 \<or> q \<noteq> SOCK_OK \<or> s = []")
    case True
    then show ?thesis
      using Suc.prems(1,2) s by (auto simp: traced_recv intro!: exI [of _ "[]"] split: if_splits)
  next
    case False
    then obtain c where c: "s = [c]" by (cases s) auto
    show ?thesis
    proof (cases "code c AND 128 = 0")
      case True
      have "continued (buff @ [c])" using Suc.prems(3) by (auto simp: continued_def nth_append)
      moreover have "r = Some (buff @ [c])" "x' = rx [c] x" using Suc.prems(1,2) s c False True by (simp_all add: traced_recv)
      ultimately show ?thesis using True by (intro exI [of _ "[c]"]) simp
    next
      case f: False
      have "header_rest_loop (traced io) k (buff @ [c]) (rx [c] x, w1) = Some (r, x', w')"
        using Suc.prems(1,2) s c False f by (simp add: traced_recv)
      from Suc.IH [OF this] Suc.prems(2,3) f obtain t where
        "x' = rx t (rx [c] x)" "\<forall>b. r = Some b \<longrightarrow> b = (buff @ [c]) @ t \<and> length t \<le> k \<and> continued b \<and>
          (t \<noteq> [] \<and> code (last b) AND 128 = 0 \<or> length t = k)"
        by auto
      then show ?thesis by (intro exI [of _ "c # t"]) auto
    qed
  qed
qed

lemma fixed_header_rest_traced:
  assumes "recv_fixed_header_rest (traced io) (x, w) = Some (r, x', w')" "wr_open x"
  shows "\<exists>t. x' = rx t x \<and> (\<forall>n. r = Some n \<longrightarrow> t = mqtt_encode n)"
proof -
  obtain b where b: "header_rest_loop (traced io) 4 [] (x, w) = Some (b, x', w')"
    and r: "r = (case b of None \<Rightarrow> None | Some b \<Rightarrow> map_option fst (mqtt_decode b))"
    using assms(1) by (auto simp: recv_fixed_header_rest_def bind_eq_Some_conv)
  have "\<forall>c\<in>set []. code c AND 128 \<noteq> 0" by simp
  from header_rest_traced [OF b assms(2) this] obtain t where t: "x' = rx t x"
    "\<And>s. b = Some s \<Longrightarrow> s = t \<and> length t \<le> 4 \<and> continued s \<and> (t \<noteq> [] \<and> code (last s) AND 128 = 0 \<or> length t = 4)"
    unfolding append_Nil by blast
  have "t = mqtt_encode n" if n: "r = Some n" for n
  proof -
    obtain s j where s: "b = Some s" "mqtt_decode s = Some (n, j)" using n r by (auto split: option.splits)
    have d: "mqtt_decode t = Some (n, j)" using s t(2) [OF s(1)] by simp
    have p: "length t \<le> 4" "continued t" "t \<noteq> []" "code (last t) AND 128 = 0 \<or> length t = 4"
      using t(2) [OF s(1)] by auto
    have j: "0 < j" "j \<le> 4" "\<And>k. k < j - 1 \<Longrightarrow> code (t ! k) AND 128 \<noteq> 0" "code (t ! (j - 1)) AND 128 = 0"
      using decode_stops [of t 0 1 0 n j] d by (auto simp: mqtt_decode_def)
    have "j \<le> length t"
    proof (rule ccontr)
      assume a: "\<not> j \<le> length t"
      then have "code (last t) AND 128 = 0" using p j(2) by auto
      moreover have "last t = t ! (length t - 1)" using p(3) by (simp add: last_conv_nth)
      moreover have "length t - 1 < j - 1" using a p(3) by (cases t) auto
      ultimately show False using j(3) by metis
    qed
    moreover have "\<not> j < length t"
    proof
      assume "j < length t"
      then have "j - 1 < length t - 1" using j(1) by linarith
      with p(2) have "code (t ! (j - 1)) AND 128 \<noteq> 0" unfolding continued_def by blast
      with j(4) show False by simp
    qed
    ultimately have "j = length t" by simp
    then show ?thesis using encode_decode(3) [of t n j] d by simp
  qed
  with t(1) show ?thesis by blast
qed

lemma fixed_header_traced:
  assumes "recv_fixed_header (traced io) (x, w) = Some (r, x', w')" "wr_open x"
  shows "\<exists>t. x' = rx t x \<and> (\<forall>b n. r = Some (b, n) \<longrightarrow> t = b # mqtt_encode n)"
proof -
  obtain res c x1 w1 where b: "recv_fixed_header_byte1 (traced io) (x, w) = Some ((res, c), x1, w1)"
    and r: "(case c of None \<Rightarrow> Some (None, x1, w1) | Some c \<Rightarrow>
      if res \<noteq> SOCK_OK then Some (None, x1, w1)
      else recv_fixed_header_rest (traced io) (x1, w1) \<bind> (\<lambda>(rest, w''). Some (map_option (Pair c) rest, w''))) =
      Some (r, x', w')"
    using assms(1) by (auto simp: recv_fixed_header_def bind_eq_Some_conv)
  note x1 = byte1_traced [OF b assms(2)]
  show ?thesis
  proof (cases "res = SOCK_OK \<and> c \<noteq> None")
    case True
    then obtain b where c: "c = Some b" by auto
    from r c True obtain rest where "recv_fixed_header_rest (traced io) (x1, w1) = Some (rest, x', w')"
      and m: "r = map_option (Pair b) rest"
      by (auto simp: bind_eq_Some_conv)
    from fixed_header_rest_traced [OF this(1)] x1 assms(2) obtain t where
      "x' = rx t x1" "\<forall>n. rest = Some n \<longrightarrow> t = mqtt_encode n" by auto
    then show ?thesis using x1 True c m by (intro exI [of _ "b # t"]) auto
  next
    case False
    then show ?thesis using r x1 by (auto intro!: exI [of _ "[]"] split: option.splits if_splits)
  qed
qed

lemma recv_loop_traced:
  assumes "recv_loop (traced io) n got res (x, w) = Some (r, x', w')" "wr_open x" "length got \<le> n"
  shows "\<exists>t. x' = rx t x \<and> (\<forall>b. r = Some b \<longrightarrow> b = got @ t \<and> length b = n)"
  using assms
proof (induction "n - length got" arbitrary: got res x w rule: less_induct)
  case less
  obtain q s w1 where s: "mi_recv io (n - length got) w = ((q, s), w1)" by (metis surj_pair)
  show ?case
  proof (cases "length got < n \<and> length s \<le> n - length got \<and> q = SOCK_OK \<and> s \<noteq> []")
    case True
    then have "recv_loop (traced io) n (got @ s) SOCK_OK (rx s x, w1) = Some (r, x', w')"
      using less.prems(1,2) s by (subst (asm) recv_loop.simps) (simp add: traced_recv)
    moreover have "n - length (got @ s) < n - length got" "length (got @ s) \<le> n"
      using True by (auto intro!: diff_less_mono2)
    ultimately obtain t where "x' = rx t (rx s x)" "\<forall>b. r = Some b \<longrightarrow> b = (got @ s) @ t \<and> length b = n"
      using less.hyps [of "got @ s" SOCK_OK "rx s x" w1] less.prems(2) by auto
    then show ?thesis by (intro exI [of _ "s @ t"]) auto
  next
    case False
    then show ?thesis
      using less.prems s by (subst (asm) recv_loop.simps) (auto simp: traced_recv intro!: exI [of _ "[]"] split: if_splits)
  qed
qed

lemma recv_remaining_traced:
  assumes "recv_remaining (traced io) n (x, w) = Some (r, x', w')" "wr_open x"
  shows "\<exists>t. x' = rx t x \<and> (\<forall>b. r = Some b \<longrightarrow> b = t \<and> length t = n)"
  using recv_loop_traced [OF assms(1) [unfolded recv_remaining_def] assms(2)] by auto

lemma trash_traced:
  assumes "trash_loop (traced io) n i (x, w) = Some (ok, x', w')" "wr_open x" "i \<le> n"
  shows "\<exists>t. x' = rx t x \<and> (ok \<longrightarrow> length t = n - i)"
  using assms
proof (induction "n - i" arbitrary: i x w rule: less_induct)
  case less
  let ?k = "if n - i > 256 then 256 else n - i"
  obtain q s w1 where s: "mi_recv io ?k w = ((q, s), w1)" by (metis surj_pair)
  show ?case
  proof (cases "i < n \<and> length s \<le> ?k \<and> q = SOCK_OK \<and> s \<noteq> []")
    case True
    then have "trash_loop (traced io) n (i + length s) (rx s x, w1) = Some (ok, x', w')"
      using less.prems(1,2) s by (subst (asm) trash_loop.simps) (simp add: traced_recv Let_def)
    moreover have l: "length s \<le> n - i" "0 < length s" using True by (auto split: if_splits)
    have "n - (i + length s) < n - i" using True l by (intro diff_less_mono2) auto
    moreover have "i + length s \<le> n" using True l by auto
    ultimately obtain t where "x' = rx t (rx s x)" "ok \<longrightarrow> length t = n - (i + length s)"
      using less.hyps [of "i + length s" "rx s x" w1] less.prems(2) by auto
    then show ?thesis using l by (intro exI [of _ "s @ t"]) auto
  next
    case False
    then show ?thesis
      using less.prems s by (subst (asm) trash_loop.simps) (auto simp: traced_recv Let_def intro!: exI [of _ "[]"] split: if_splits)
  qed
qed

lemma recv_trash_traced:
  assumes "recv_remaining_trash (traced io) n (x, w) = Some (ok, x', w')" "wr_open x"
  shows "\<exists>t. x' = rx t x \<and> (ok \<longrightarrow> length t = n)"
  using trash_traced [OF assms(1) [unfolded recv_remaining_trash_def] assms(2)] by simp

section \<open>What a call leads to\<close>

text \<open>Whatever a call returns, if it returns, is as \<open>Q\<close> says.\<close>

definition post :: "'a option \<Rightarrow> ('a \<Rightarrow> bool) \<Rightarrow> bool" where
  "post c Q \<longleftrightarrow> (case c of None \<Rightarrow> True | Some a \<Rightarrow> Q a)"

lemma post_simps [simp]:
  "post None Q" "post (Some a) Q = Q a" "post (c \<bind> f) Q = post c (\<lambda>a. post (f a) Q)"
  by (simp_all add: post_def split: bind_split option.split)

lemma postI: "(\<And>a. c = Some a \<Longrightarrow> Q a) \<Longrightarrow> post c Q"
  by (simp add: post_def split: option.split)

lemma post_mono: "post c R \<Longrightarrow> (\<And>a. R a \<Longrightarrow> Q a) \<Longrightarrow> post c Q"
  by (simp add: post_def split: option.splits)

lemma post_if: "(b \<Longrightarrow> post c Q) \<Longrightarrow> (\<not> b \<Longrightarrow> post d Q) \<Longrightarrow> post (if b then c else d) Q"
  by simp

lemma postD: "post c Q \<Longrightarrow> c = Some a \<Longrightarrow> Q a"
  by (simp add: post_def)

text \<open>So for each call that uses the connection while it is open.\<close>

lemma post_traced:
  assumes "\<And>r x' w'. c = Some (r, x', w') \<Longrightarrow> Q (r, x', w')"
  shows "post c Q"
  using assms by (intro postI) auto

lemma send_post:
  assumes "wr_open x" "e \<noteq> SOCK_AGAIN" "\<And>res x' w'. sends data x res x' \<Longrightarrow> res \<noteq> SOCK_AGAIN \<Longrightarrow> Q (res, x', w')"
  shows "post (send_loop (traced io) data 0 e (x, w)) Q"
  using assms send_loop_traced [of io data 0 e x w] by (intro post_traced) auto

lemma send_publish_post:
  assumes "wr_open x" "\<And>res x' w'. sends (concat (publish_pieces m)) x res x' \<Longrightarrow> Q (res, x', w')"
  shows "post (mqtt_send_publish cf (traced io) m (x, w)) Q"
proof (rule post_traced)
  fix r x' w'
  assume "mqtt_send_publish cf (traced io) m (x, w) = Some (r, x', w')"
  from send_publish_traced [OF this assms(1)] show "Q (r, x', w')" using assms(2) by blast
qed

lemma byte1_post:
  assumes "wr_open x"
    and "\<And>res c w'. Q ((res, c), rx (if res = SOCK_OK then (case c of None \<Rightarrow> [] | Some b \<Rightarrow> [b]) else []) x, w')"
  shows "post (recv_fixed_header_byte1 (traced io) (x, w)) Q"
proof (rule post_traced)
  fix r x' w'
  assume r: "recv_fixed_header_byte1 (traced io) (x, w) = Some (r, x', w')"
  obtain res c where "r = (res, c)" by fastforce
  with byte1_traced [of io x w res c x' w'] r assms show "Q (r, x', w')" by simp
qed

lemma header_rest_post:
  assumes "wr_open x" 
    "\<And>t r w'. \<forall>n. r = Some n \<longrightarrow> t = mqtt_encode n \<Longrightarrow> Q (r, rx t x, w')"
  shows "post (recv_fixed_header_rest (traced io) (x, w)) Q"
proof (rule post_traced)
  fix r x' w'
  assume "recv_fixed_header_rest (traced io) (x, w) = Some (r, x', w')"
  from fixed_header_rest_traced [OF this assms(1)] show "Q (r, x', w')" using assms(2) by blast
qed

lemma header_post:
  assumes "wr_open x" 
    "\<And>t r w'. \<forall>b n. r = Some (b, n) \<longrightarrow> t = b # mqtt_encode n \<Longrightarrow> Q (r, rx t x, w')"
  shows "post (recv_fixed_header (traced io) (x, w)) Q"
proof (rule post_traced)
  fix r x' w'
  assume "recv_fixed_header (traced io) (x, w) = Some (r, x', w')"
  from fixed_header_traced [OF this assms(1)] show "Q (r, x', w')" using assms(2) by blast
qed

lemma remaining_post:
  assumes "wr_open x" 
    "\<And>t r w'. \<forall>b. r = Some b \<longrightarrow> b = t \<and> length t = n \<Longrightarrow> Q (r, rx t x, w')"
  shows "post (recv_remaining (traced io) n (x, w)) Q"
proof (rule post_traced)
  fix r x' w'
  assume "recv_remaining (traced io) n (x, w) = Some (r, x', w')"
  from recv_remaining_traced [OF this assms(1)] show "Q (r, x', w')" using assms(2) by blast
qed

lemma trash_post:
  assumes "wr_open x" 
    "\<And>t r w'. (r \<longrightarrow> length t = n) \<Longrightarrow> Q (r, rx t x, w')"
  shows "post (recv_remaining_trash (traced io) n (x, w)) Q"
proof (rule post_traced)
  fix r x' w'
  assume "recv_remaining_trash (traced io) n (x, w) = Some (r, x', w')"
  from recv_trash_traced [OF this assms(1)] show "Q (r, x', w')" using assms(2) by blast
qed

text \<open>What a message too large for the buffer is read to be, where it is not malformed.\<close>

definition trashed :: "nat \<Rightarrow> string \<Rightarrow> nat option \<Rightarrow> bool" where
  "trashed qos t pid \<longleftrightarrow>
     2 + uint16_at t 0 + (if qos = 1 then 2 else 0) \<le> length t \<and>
     (if qos = 1 then uint16_at t (2 + uint16_at t 0) \<noteq> 0 \<and> pid = Some (uint16_at t (2 + uint16_at t 0))
      else pid = None)"

lemma uint16_append: "2 \<le> length a \<Longrightarrow> uint16_at (a @ b) 0 = uint16_at a 0"
  "2 \<le> length b \<Longrightarrow> uint16_at (a @ b @ c) (length a) = uint16_at b 0"
  by (auto simp: uint16_at_def nth_append)

lemma trash_payload_post:
  assumes "wr_open x"
    "\<And>t r w'. \<forall>pid'. r = Some (False, pid') \<longrightarrow> length t = n \<and> pid' = pid \<Longrightarrow> Q (r, rx t x, w')"
  shows "post (trash_payload (traced io) n pid (x, w)) Q"
  unfolding trash_payload_def post_simps
  by (rule trash_post [OF assms(1)]) (simp add: assms(2))

lemma trash_id_post:
  assumes "wr_open x" "k = 0 \<or> 2 \<le> n"
    "\<And>t r w'. \<forall>pid. r = Some (False, pid) \<longrightarrow> length t = n \<and>
      (if k = 0 then pid = None else uint16_at t 0 \<noteq> 0 \<and> pid = Some (uint16_at t 0)) \<Longrightarrow> Q (r, rx t x, w')"
  shows "post (trash_id (traced io) k n (x, w)) Q"
proof (cases "k = 0")
  case True
  show ?thesis
    unfolding trash_id_def True
    by (simp only: less_irrefl if_False, rule trash_payload_post [OF assms(1)], rule assms(3)) (simp add: True)
next
  case False
  then have k: "(0 < k) = True" and n: "2 \<le> n" using assms(2) by simp_all
  have "post (case two of None \<Rightarrow> Some (None, rx a x, w1) | Some t \<Rightarrow>
      if uint16_at t 0 = 0 then Some (Some (True, None), rx a x, w1)
      else trash_payload (traced io) (n - 2) (Some (uint16_at t 0)) (rx a x, w1)) Q"
    if a: "\<forall>b. two = Some b \<longrightarrow> b = a \<and> length a = 2" for two a w1
  proof (cases two)
    case None
    then show ?thesis using assms(3) [of None] by simp
  next
    case (Some b)
    with a have t: "b = a" "length a = 2" by auto
    show ?thesis
    proof (cases "uint16_at a 0 = 0")
      case True
      then show ?thesis using Some t(1) assms(3) [of "Some (True, None)"] by simp
    next
      case u: False
      have "post (trash_payload (traced io) (n - 2) (Some (uint16_at a 0)) (rx a x, w1)) Q"
      proof (rule trash_payload_post)
        show "wr_open (rx a x)" using assms(1) by simp
      next
        fix c :: string and r w'
        assume c: "\<forall>pid. r = Some (False, pid) \<longrightarrow> length c = n - 2 \<and> pid = Some (uint16_at a 0)"
        have l: "length c = n - 2 \<Longrightarrow> length (a @ c) = n" using t(2) n by simp
        have v: "uint16_at (a @ c) 0 = uint16_at a 0" using t(2) by (intro uint16_append) simp
        have "Q (r, rx (a @ c) x, w')"
        proof (rule assms(3), intro allI impI)
          fix pid assume "r = Some (False, pid)"
          with c have "length c = n - 2" "pid = Some (uint16_at a 0)" by simp_all
          with l u False show "length (a @ c) = n \<and>
              (if k = 0 then pid = None else uint16_at (a @ c) 0 \<noteq> 0 \<and> pid = Some (uint16_at (a @ c) 0))"
            unfolding v by simp
        qed
        then show "Q (r, rx c (rx a x), w')" by simp
      qed
      then show ?thesis using Some t(1) u by simp
    qed
  qed
  note body = this
  show ?thesis
    unfolding trash_id_def k if_True post_simps
    by (rule remaining_post [OF assms(1)], simp only: prod.case, rule body)
qed

lemma msg_trash_post:
  assumes "wr_open x"
    "\<And>t r w'. \<forall>pid. r = Some (False, pid) \<longrightarrow>
      length t = mq_remaining_message_size m \<and> trashed (mq_message_qos m) t pid \<Longrightarrow> Q (r, rx t x, w')"
  shows "post (recv_msg_trash (traced io) m (x, w)) Q"
proof -
  let ?n = "mq_remaining_message_size m" and ?q = "mq_message_qos m"
  let ?k = "if ?q = 1 then 2 else (0 :: nat)"
  note q = assms(2) [of "Some (True, None)", simplified] assms(2) [of None, simplified]
  note q' = q(1) [of "[]", simplified]
  have body: "post (case two of None \<Rightarrow> Some (None, rx a x, w1) | Some t \<Rightarrow>
      if uint16_at t 0 = 0 \<or> ?n - 2 < uint16_at t 0 + ?k then Some (Some (True, None), rx a x, w1)
      else recv_remaining_trash (traced io) (uint16_at t 0) (rx a x, w1) \<bind>
        (\<lambda>(ok, w2). if \<not> ok then Some (None, w2) else trash_id (traced io) ?k (?n - 2 - uint16_at t 0) w2)) Q"
    if a: "\<forall>b. two = Some b \<longrightarrow> b = a \<and> length a = 2" and n: "2 \<le> ?n" for two a w1
  proof (cases "two = None \<or> uint16_at (the two) 0 = 0 \<or> ?n - 2 < uint16_at (the two) 0 + ?k")
    case True
    then show ?thesis using q by (auto split: option.split)
  next
    case False
    then obtain b where "two = Some b" by auto
    with a have t: "two = Some a" "length a = 2" by auto
    with False have sz: "uint16_at a 0 \<noteq> 0" "uint16_at a 0 + ?k \<le> ?n - 2" by (simp_all only: option.sel not_less de_Morgan_disj simp_thms)
    have fin: "length (a @ b @ c) = ?n \<and> trashed ?q (a @ b @ c) pid"
      if "length b = uint16_at a 0" "length c = ?n - 2 - uint16_at a 0"
        "if ?k = 0 then pid = None else uint16_at c 0 \<noteq> 0 \<and> pid = Some (uint16_at c 0)" for b c pid
    proof -
      have l: "length (a @ b @ c) = ?n" using that t(2) n sz(2) by auto
      have u: "uint16_at (a @ b @ c) 0 = uint16_at a 0" using t(2) by (simp add: uint16_append)
      have v: "uint16_at (a @ b @ c) (2 + uint16_at a 0) = uint16_at c 0" if "?q = 1"
        using uint16_append(2) [of c "a @ b" "[]"] that t(2) \<open>length b = _\<close> \<open>length c = _\<close> sz(2) by simp
      show ?thesis unfolding trashed_def u using l that(3) v sz(2) n by (auto split: if_splits)
    qed
    have "post (recv_remaining_trash (traced io) (uint16_at a 0) (rx a x, w1))
      (\<lambda>y. post (case y of (ok, w2) \<Rightarrow> if \<not> ok then Some (None, w2) else trash_id (traced io) ?k (?n - 2 - uint16_at a 0) w2) Q)"
    proof (rule trash_post, simp add: assms(1))
      fix b :: string and ok w2
      assume b: "ok \<longrightarrow> length b = uint16_at a 0"
      show "post (case (ok, rx b (rx a x), w2) of (ok, w2) \<Rightarrow>
          if \<not> ok then Some (None, w2) else trash_id (traced io) ?k (?n - 2 - uint16_at a 0) w2) Q"
      proof (cases ok)
        case True
        have "post (trash_id (traced io) ?k (?n - 2 - uint16_at a 0) (rx (a @ b) x, w2)) Q"
        proof (rule trash_id_post)
          show "wr_open (rx (a @ b) x)" using assms(1) by simp
          show "?k = 0 \<or> 2 \<le> ?n - 2 - uint16_at a 0" using sz(2) by (auto split: if_splits)
        next
          fix c :: string and r w'
          assume c: "\<forall>pid. r = Some (False, pid) \<longrightarrow> length c = ?n - 2 - uint16_at a 0 \<and>
            (if ?k = 0 then pid = None else uint16_at c 0 \<noteq> 0 \<and> pid = Some (uint16_at c 0))"
          have "Q (r, rx (a @ b @ c) x, w')"
            using fin [of b c] b True c by (intro assms(2)) blast
          then show "Q (r, rx c (rx (a @ b) x), w')" by simp
        qed
        with True show ?thesis by (simp only: prod.case if_False not_True_eq_False rx_tx_simps)
      qed (simp add: q)
    qed
    then show ?thesis unfolding t(1) using sz by simp
  qed
  show ?thesis
  proof (cases "?n < 2")
    case True
    then show ?thesis using q' by (simp add: recv_msg_trash_def)
  next
    case False
    then have "2 \<le> ?n" by simp
    note b = body [OF _ this]
    from False show ?thesis
      unfolding recv_msg_trash_def Let_def
      by (simp only: if_False post_simps) (rule remaining_post [OF assms(1)], simp only: prod.case, rule b)
  qed
qed

end
