(* ===== verification/Mqtt_Client.thy ===== *)
theory Mqtt_Client
  imports Mqtt_Wire
begin

text \<open>
  The push task is a client of MQTT: on every connection it makes, whatever the broker sends and
  however the socket cuts it up, what it sends, what it hears and what it gives the application
  are those of \<open>client\<close>, packet by packet, up to where the connection ends; and it uses the
  socket only while it is connected.
\<close>

section \<open>What the rest leaves as it is\<close>

text \<open>What the invariant rests on.\<close>

definition keeps :: "mqtt \<Rightarrow> mqtt \<Rightarrow> bool" where
  "keeps m m' \<longleftrightarrow>
     mq_endpoint m' = mq_endpoint m \<and> mq_state m' = mq_state m \<and>
     mq_sock_connected m' = mq_sock_connected m \<and> mq_mqtt_connected m' = mq_mqtt_connected m \<and>
     mq_remaining_message_size m' = mq_remaining_message_size m \<and> mq_message_qos m' = mq_message_qos m \<and>
     mq_message_dup m' = mq_message_dup m \<and> mq_message_retain m' = mq_message_retain m \<and>
     mq_awaiting_suback m' = mq_awaiting_suback m"

lemma keeps_refl [simp]: "keeps m m"
  by (simp add: keeps_def)

lemma quiet [simp]:
  "fst (mi_delay (traced io) t p) = fst p"
  "fst (mi_log (traced io) l s n p) = fst p"
  "fst (mi_event (traced io) e n p) = fst p"
  "fst (mi_exit (traced io) st er p) = fst p"
  "fst (snd (mi_monotonic (traced io) p)) = fst p"
  "fst (snd (mi_credentials (traced io) ep p)) = fst p"
  "fst (snd (mi_install_push (traced io) p)) = fst p"
  "fst (snd (mi_get_endpoint (traced io) i p)) = fst p"
  "fst (snd (mi_onboard_again (traced io) p)) = fst p"
  "fst (snd (mi_continue (traced io) st er p)) = fst p"
  "fst (snd (mi_others (traced io) q p)) = fst p"
  by (cases p; simp add: traced_def split: prod.split)+

lemma tell_event_quiet [simp]: "fst (tell_event cf (traced io) e d p) = fst p"
  by (simp add: tell_event_def log_event_def Let_def)

lemma reset_elapsed_quiet:
  assumes "reset_elapsed cf (traced io) ms m p = (m', p')"
  shows "keeps m m'" "fst p' = fst p"
  using assms quiet(5) [of io p] by (auto simp: reset_elapsed_def keeps_def case_prod_beta split: if_splits)

lemma elapsed_ms_quiet: "elapsed_ms cf (traced io) m p = (e, p') \<Longrightarrow> fst p' = fst p"
  using quiet(5) [of io p] by (auto simp: elapsed_ms_def Let_def case_prod_beta split: if_splits)

lemma add_elapsed_keeps [simp]: "keeps m (add_elapsed_ms ms m)"
  by (simp add: add_elapsed_ms_def keeps_def)

lemma schedule_retry_keeps [simp]: "keeps m (schedule_retry cf a m)"
  by (simp add: schedule_retry_def keeps_def Let_def)

lemma slot_quiet: "pub_lock (traced io) m p = (m', p') \<Longrightarrow> keeps m m' \<and> fst p' = fst p"
  using quiet(11) [of io "mq_pub m" p] by (auto simp: pub_lock_def keeps_def case_prod_beta)

lemma keeps_pub [simp]: "keeps m (m'\<lparr>mq_pub := q\<rparr>) = keeps m m'"
  by (simp add: keeps_def)

lemma publish_quiet:
  "publish_queued cf (traced io) m p = (b, m', p') \<Longrightarrow> keeps m m' \<and> fst p' = fst p"
  "publish_take cf (traced io) m p = (b, m', p') \<Longrightarrow> keeps m m' \<and> fst p' = fst p"
  "publish_awaits_puback cf (traced io) m p = (b, m', p') \<Longrightarrow> keeps m m' \<and> fst p' = fst p"
  "publish_acked cf (traced io) i m p = (b, m', p') \<Longrightarrow> keeps m m' \<and> fst p' = fst p"
  "publish_reconnected cf (traced io) m p = (m', p') \<Longrightarrow> keeps m m' \<and> fst p' = fst p"
  "publish_close cf (traced io) m p = (m', p') \<Longrightarrow> keeps m m' \<and> fst p' = fst p"
  by (auto simp: publish_queued_def publish_take_def publish_awaits_puback_def publish_acked_def
      publish_reconnected_def publish_close_def dest!: slot_quiet split: if_splits prod.splits)

section \<open>The invariant\<close>

abbreviation at :: "mqtt_conf \<Rightarrow> mqtt_endpoint \<Rightarrow> phase \<Rightarrow> wire \<Rightarrow> bool" where
  "at cf ep ph x \<equiv> client cf ep ph (wr_received x) (wr_sent x) (wr_delivered x)"

abbreviation ended :: "mqtt_conf \<Rightarrow> mqtt_endpoint \<Rightarrow> phase \<Rightarrow> wire \<Rightarrow> bool" where
  "ended cf ep ph x \<equiv> cut_short cf ep ph (wr_received x) (wr_sent x) (wr_delivered x)"

text \<open>Between a PUBLISH's fixed header and the rest of it.\<close>

definition in_message :: "mqtt_conf \<Rightarrow> mqtt \<Rightarrow> phase \<Rightarrow> wire \<Rightarrow> bool" where
  "in_message cf m ph x \<longleftrightarrow>
     (\<exists>r b. wr_received x = r @ b # mqtt_encode (mq_remaining_message_size m) \<and>
        client cf (mq_endpoint m) ph r (wr_sent x) (wr_delivered x) \<and> code b AND 0xf0 = 0x30 \<and>
        mq_message_qos m = publish_qos b \<and> mq_message_dup m = publish_dup b \<and>
        mq_message_retain m = publish_retain b)"

fun state_inv :: "mqtt_task_state \<Rightarrow> mqtt_conf \<Rightarrow> mqtt \<Rightarrow> wire \<Rightarrow> bool" where
  "state_inv ST_SEND_CONNECT cf m x \<longleftrightarrow> mq_sock_connected m \<and> \<not> mq_mqtt_connected m \<and> at cf (mq_endpoint m) OPENED x"
| "state_inv ST_RECV_CONNACK cf m x \<longleftrightarrow> mq_sock_connected m \<and> \<not> mq_mqtt_connected m \<and> at cf (mq_endpoint m) CONNECTING x"
| "state_inv ST_SEND_SUBSCRIBE cf m x \<longleftrightarrow> mq_sock_connected m \<and> mq_mqtt_connected m \<and> at cf (mq_endpoint m) ACCEPTED x"
| "state_inv ST_RECV_SUBACK cf m x \<longleftrightarrow> mq_sock_connected m \<and> mq_mqtt_connected m \<and> at cf (mq_endpoint m) SUBSCRIBING x"
| "state_inv ST_RECV_READY cf m x \<longleftrightarrow>
     mq_sock_connected m \<and> mq_mqtt_connected m \<and> \<not> mq_awaiting_suback m \<and> at cf (mq_endpoint m) READY x"
| "state_inv ST_SEND_PINGREQ cf m x \<longleftrightarrow>
     mq_sock_connected m \<and> mq_mqtt_connected m \<and> \<not> mq_awaiting_suback m \<and> at cf (mq_endpoint m) READY x"
| "state_inv ST_SEND_PUBLISH cf m x \<longleftrightarrow>
     mq_sock_connected m \<and> mq_mqtt_connected m \<and> \<not> mq_awaiting_suback m \<and> at cf (mq_endpoint m) READY x"
| "state_inv ST_RECV_MSG cf m x \<longleftrightarrow>
     mq_sock_connected m \<and> mq_mqtt_connected m \<and>
     in_message cf m (if mq_awaiting_suback m then SUBSCRIBING else READY) x"
| "state_inv ST_RECONNECT cf m x \<longleftrightarrow>
     mq_sock_connected m \<and> (\<exists>ph. (mq_mqtt_connected m \<longleftrightarrow> accepted ph) \<and> ended cf (mq_endpoint m) ph x)"
| "state_inv ST_ERR_EXIT cf m x \<longleftrightarrow>
     (if mq_sock_connected m
      then (\<exists>ph. (mq_mqtt_connected m \<longleftrightarrow> accepted ph) \<and> ended cf (mq_endpoint m) ph x)
      else \<not> mq_mqtt_connected m)"
| "state_inv ST_DISCONTINUED cf m x \<longleftrightarrow>
     (if mq_sock_connected m
      then (\<exists>ph. (mq_mqtt_connected m \<longleftrightarrow> accepted ph) \<and> ended cf (mq_endpoint m) ph x)
      else \<not> mq_mqtt_connected m)"
| "state_inv _ cf m x \<longleftrightarrow> \<not> mq_sock_connected m \<and> \<not> mq_mqtt_connected m"

definition task_inv :: "mqtt_conf \<Rightarrow> mqtt \<Rightarrow> wire \<Rightarrow> bool" where
  "task_inv cf m x \<longleftrightarrow>
     \<not> wr_misused x \<and> (wr_open x \<longleftrightarrow> mq_sock_connected m) \<and> state_inv (mq_state m) cf m x"

abbreviation invs :: "mqtt_conf \<Rightarrow> (mqtt \<times> wire \<times> 'w) \<Rightarrow> bool" where
  "invs cf s \<equiv> task_inv cf (fst s) (fst (snd s))"

lemma state_inv_keeps:
  "keeps m m' \<Longrightarrow> state_inv st cf m' x = state_inv st cf m x"
  by (cases st) (simp_all add: keeps_def in_message_def)

lemma task_inv_keeps: "keeps m m' \<Longrightarrow> task_inv cf m' x = task_inv cf m x"
  using state_inv_keeps [of m m'] by (simp add: task_inv_def keeps_def)

text \<open>A connection that ends, at a packet's end, or within one received or sent.\<close>

lemma cut_shortI:
  assumes "client cf ep ph r0 s0 d0" "r = r0 @ t" "s = s0 @ u"
    "u = [] \<or> (\<exists>p. client_packet cf ep ph p \<and> prefix u p)" "d = d0 \<or> (\<exists>m. delivery cf t m \<and> d = d0 @ [m])"
  shows "cut_short cf ep ph r s d"
  using assms unfolding cut_short_def by blast

lemma ended_rx: "at cf ep ph x \<Longrightarrow> ended cf ep ph (rx t x)"
  by (rule cut_shortI [where t = t and u = "[]"], assumption) simp_all

lemma ended_at: "at cf ep ph x \<Longrightarrow> ended cf ep ph x"
  using ended_rx [of cf ep ph x "[]"] by simp

lemma ended_tx:
  assumes "at cf ep ph x" "client_packet cf ep ph p" "prefix u p"
  shows "ended cf ep ph (tx u x)"
  by (rule cut_shortI [OF assms(1), where t = "[]" and u = u]) (use assms in auto)

lemma state_ended:
  assumes "state_inv st cf m x" "mq_sock_connected m"
  shows "\<exists>ph. (mq_mqtt_connected m \<longleftrightarrow> accepted ph) \<and> ended cf (mq_endpoint m) ph x"
proof (cases "st = ST_RECV_MSG")
  case True
  let ?ph = "if mq_awaiting_suback m then SUBSCRIBING else READY"
  have "mq_mqtt_connected m" "in_message cf m ?ph x" using assms True by simp_all
  then obtain r b where
    "wr_received x = r @ b # mqtt_encode (mq_remaining_message_size m)"
    "client cf (mq_endpoint m) ?ph r (wr_sent x) (wr_delivered x)"
    unfolding in_message_def by blast
  then have "ended cf (mq_endpoint m) ?ph x" 
    by (intro cut_shortI [where u = "[]" and ?r0.0 = r and ?d0.0 = "wr_delivered x"]) simp_all
  then show ?thesis using \<open>mq_mqtt_connected m\<close> by (intro exI [of _ ?ph]) (simp add: accepted_def)
next
  case False
  then show ?thesis using assms ended_at [of cf "mq_endpoint m"] by (cases st) (fastforce simp: accepted_def)+
qed

section \<open>Every handler keeps it\<close>

text \<open>A connection open and to be closed, and none.\<close>

definition closing :: "mqtt_conf \<Rightarrow> mqtt \<Rightarrow> wire \<Rightarrow> bool" where
  "closing cf m x \<longleftrightarrow>
     \<not> wr_misused x \<and> wr_open x \<and> mq_sock_connected m \<and>
     (\<exists>ph. (mq_mqtt_connected m \<longleftrightarrow> accepted ph) \<and> ended cf (mq_endpoint m) ph x)"

definition idle :: "mqtt \<Rightarrow> wire \<Rightarrow> bool" where
  "idle m x \<longleftrightarrow> \<not> wr_misused x \<and> \<not> wr_open x \<and> \<not> mq_sock_connected m \<and> \<not> mq_mqtt_connected m"

lemma closing_keeps: "keeps m m' \<Longrightarrow> closing cf m' x = closing cf m x"
  by (simp add: closing_def keeps_def)

lemma closing_state [simp]: "closing cf (m\<lparr>mq_state := st\<rparr>) x = closing cf m x"
  by (simp add: closing_def)

lemma closing_reconnect [simp]: "task_inv cf (m\<lparr>mq_state := ST_RECONNECT\<rparr>) x = closing cf m x"
  by (auto simp: task_inv_def closing_def)

lemma idle_states:
  "mq_state m \<in> {ST_INSTALL_PUSH, ST_GET_ENDPOINT, ST_SOCK_CONNECT, ST_ERR_EXIT, ST_DISCONTINUED} \<Longrightarrow>
   idle m x \<Longrightarrow> task_inv cf m x"
  by (auto simp: idle_def task_inv_def)

lemma idle_keeps: "keeps m m' \<Longrightarrow> idle m' x = idle m x"
  by (simp add: idle_def keeps_def)

lemma retry_idle:
  "idle (schedule_retry cf a m) x = idle m x" "mq_state (schedule_retry cf a m) = mq_state m"
  using schedule_retry_keeps [of m cf a] idle_keeps [OF schedule_retry_keeps] by (simp_all add: keeps_def)

lemma refuse_inv [simp]: "invs cf (refuse_packet cf (traced io) e d m p) = closing cf m (fst p)"
proof -
  obtain m' p' where r: "reset_elapsed cf (traced io) 0 m (tell_event cf (traced io) e d p) = (m', p')"
    by (metis surj_pair)
  note q = reset_elapsed_quiet [OF r]
  show ?thesis using q(2) by (simp add: refuse_packet_def r closing_keeps [OF q(1)])
qed

lemma reconnect_inv [simp]: "invs cf (reconnect_after cf (traced io) e d m p) = closing cf m (fst p)"
  by (simp add: reconnect_after_def)

lemma request_failed_inv:
  assumes "idle m (fst p)" "mq_state m \<in> {ST_INSTALL_PUSH, ST_GET_ENDPOINT}"
  shows "post (request_failed cf (traced io) e er res m p) (invs cf)"
proof -
  have k: "idle (schedule_retry cf a m) (fst p)" "mq_state (schedule_retry cf a m) = mq_state m" for a
    using assms(1) by (simp_all add: retry_idle)
  have e: "idle (m\<lparr>mq_error := er, mq_state := ST_ERR_EXIT\<rparr>) (fst p)" using assms(1) by (simp add: idle_def)
  show ?thesis
    using assms(2) k e by (auto simp: request_failed_def Let_def intro!: idle_states)
qed

lemma install_push_inv:
  assumes "idle m (fst p)" "mq_state m = ST_INSTALL_PUSH"
  shows "post (mqtt_state_install_push cf (traced io) m p) (invs cf)"
proof -
  obtain res i p' where r: "mi_install_push (traced io) p = ((res, i), p')" by (metis surj_pair)
  then have p': "fst p' = fst p" using quiet(7) [of io p] by simp
  have i: "idle (m\<lparr>mq_ins_id := i\<rparr>) (fst p')" "idle (m\<lparr>mq_ins_id := i, mq_state := ST_GET_ENDPOINT\<rparr>) (fst p')"
    using assms(1) p' by (simp_all add: idle_def)
  show ?thesis
    using i assms(2) request_failed_inv [OF i(1), where er = MQTT_ERR_INSTALLATION]
    by (auto simp: mqtt_state_install_push_def r Let_def intro!: idle_states)
qed

lemma get_endpoint_inv:
  assumes "idle m (fst p)" "mq_state m = ST_GET_ENDPOINT"
  shows "post (mqtt_state_get_endpoint cf (traced io) m p) (invs cf)"
proof -
  let ?p = "mi_delay (traced io) WAIT_MS p"
  obtain res m' p' where r: "(if mi_renews_by_onboarding (traced io) ?p then onboard_for_endpoint (traced io) m ?p
      else (case mi_get_endpoint (traced io) (mq_ins_id m) ?p of
        ((res, endpoint), w2) \<Rightarrow> (res, m\<lparr>mq_endpoint := endpoint\<rparr>, w2))) = (res, m', p')"
    by (metis surj_pair)
  have "fst p' = fst p \<and> idle m' (fst p) \<and> mq_state m' = ST_GET_ENDPOINT"
    using r assms quiet(8) [of io "mq_ins_id m" ?p] quiet(9) [of io ?p]
    by (auto simp: onboard_for_endpoint_def idle_def case_prod_beta split: if_splits)
  then have i: "idle m' (fst p')" "mq_state m' \<in> {ST_INSTALL_PUSH, ST_GET_ENDPOINT}"
    "idle (m'\<lparr>mq_state := ST_SOCK_CONNECT\<rparr>) (fst p')" by (simp_all add: idle_def)
  show ?thesis
    using i request_failed_inv [OF i(1,2), where er = MQTT_ERR_GET_ENDPOINT]
    by (simp add: mqtt_state_get_endpoint_def r Let_def idle_states)
qed

lemma traced_connect:
  "mi_connect (traced io) h port (x, w) = (r, x', w') \<Longrightarrow>
    x' = (if r = SOCK_OK
          then \<lparr>wr_open = True, wr_received = [], wr_sent = [], wr_delivered = [], wr_misused = (wr_misused x \<or> wr_open x)\<rparr>
          else x\<lparr>wr_misused := (wr_misused x \<or> wr_open x)\<rparr>)"
  by (auto simp: traced_def split: prod.splits if_splits)

lemma sock_connect_inv:
  assumes "idle m x" "mq_state m = ST_SOCK_CONNECT"
  shows "post (mqtt_state_sock_connect cf (traced io) m (x, w)) (invs cf)"
proof -
  let ?port = "if cf_insecure cf then ep_port_tcp (mq_endpoint m) else ep_port_ssl (mq_endpoint m)"
  obtain r x' w' where c: "mi_connect (traced io) (ep_host (mq_endpoint m)) ?port (x, w) = (r, x', w')"
    by (metis surj_pair)
  note x' = traced_connect [OF c]
  show ?thesis
  proof (cases "r = SOCK_OK")
    case True
    then show ?thesis
      using assms x' c_opened
      by (simp add: mqtt_state_sock_connect_def Let_def c [simplified] task_inv_def idle_def)
  next
    case False
    then have xx: "x' = x" using x' assms(1) by (simp add: idle_def)
    have "mq_state (schedule_retry cf a m) = ST_SOCK_CONNECT" "idle (schedule_retry cf a m) x" for a
      using assms by (simp_all add: retry_idle)
    then show ?thesis
      using False xx
      by (auto simp: mqtt_state_sock_connect_def Let_def c [simplified] idle_def intro!: idle_states)
  qed
qed

lemma closing_of: "task_inv cf m x \<Longrightarrow> mq_sock_connected m \<Longrightarrow> closing cf m x"
  using state_ended by (auto simp: task_inv_def closing_def)

lemma exit_inv: "closing cf m x \<Longrightarrow> task_inv cf (m\<lparr>mq_error := e, mq_state := ST_ERR_EXIT\<rparr>) x"
  by (auto simp: task_inv_def closing_def)

text \<open>A packet sent whole, or cut short.\<close>

lemma closing_tx:
  assumes "at cf (mq_endpoint m) ph x" "client_packet cf (mq_endpoint m) ph p" "sends p x res x'"
    "\<not> wr_misused x" "wr_open x" "mq_sock_connected m" "mq_mqtt_connected m \<longleftrightarrow> accepted ph"
  shows "closing cf m x'"
  using assms ended_tx [OF assms(1,2)] by (auto simp: sends_def closing_def)

lemma closing_rx:
  assumes "at cf (mq_endpoint m) ph x"
    "\<not> wr_misused x" "wr_open x" "mq_sock_connected m" "mq_mqtt_connected m \<longleftrightarrow> accepted ph"
  shows "closing cf m (rx t x)"
  using assms ended_rx [OF assms(1)] by (auto simp: closing_def)

lemma sent_all: "sends p x SOCK_OK x' \<Longrightarrow> x' = tx p x"
  by (auto simp: sends_def)

lemma send_connect_inv:
  assumes "task_inv cf m x" "mq_state m = ST_SEND_CONNECT"
  shows "post (mqtt_state_send_connect cf (traced io) m (x, w)) (invs cf)"
proof -
  let ?sz = "case cf_buffer cf of Some n \<Rightarrow> n | None \<Rightarrow> 0" and ?ep = "mq_endpoint m"
  let ?p = "packet (CHR 0x10) (connect_body cf ?ep)"
  have i: "mq_sock_connected m" "\<not> mq_mqtt_connected m" "at cf ?ep OPENED x" "wr_open x" "\<not> wr_misused x"
    using assms by (simp_all add: task_inv_def)
  have e: "task_inv cf (m\<lparr>mq_error := e, mq_state := ST_ERR_EXIT\<rparr>) x" for e
    by (rule exit_inv [OF closing_of [OF assms(1) i(1)]])
  show ?thesis
  proof (cases "connect_fits cf ?ep ?sz")
    case False
    then show ?thesis using e by (simp add: mqtt_state_send_connect_def)
  next
    case True
    then have c: "mqtt_send_connect cf (traced io) ?ep (x, w) = send_loop (traced io) ?p 0 SOCK_FAIL (x, w)"
      by (simp add: mqtt_send_connect_def connect_built)
    have cp: "client_packet cf ?ep OPENED ?p" by (simp add: client_packet_def)
    have "post (if res = SOCK_FAIL
        then Some (reconnect_after cf (traced io) EVENT_SEND_FAILED (st_value ST_SEND_CONNECT) m (x', w'))
        else case reset_elapsed cf (traced io) 0 m (x', w') of (m', w'') \<Rightarrow> Some (m'\<lparr>mq_state := ST_RECV_CONNACK\<rparr>, w'')) (invs cf)"
      if s: "sends ?p x res x'" "res \<noteq> SOCK_AGAIN" for res x' w'
    proof (cases "res = SOCK_FAIL")
      case True
      then show ?thesis using closing_tx [OF i(3) cp s(1)] i by (simp add: accepted_def)
    next
      case False
      then have x': "x' = tx ?p x" using s sent_all by (cases res) auto
      obtain m' q where r: "reset_elapsed cf (traced io) 0 m (x', w') = (m', q)" by (metis surj_pair)
      note k = reset_elapsed_quiet [OF r]
      have "at cf ?ep CONNECTING x'" "wr_open x'" "\<not> wr_misused x'" using c_connect [OF i(3)] x' i by simp_all
      then show ?thesis using False i(1,2) k by (simp add: r keeps_def task_inv_def)
    qed
    then show ?thesis
      using e True by (simp add: mqtt_state_send_connect_def c send_post i)
  qed
qed

lemma send_subscribe_inv:
  assumes "task_inv cf m x" "mq_state m = ST_SEND_SUBSCRIBE"
  shows "post (mqtt_state_send_subscribe cf (traced io) m (x, w)) (invs cf)"
proof -
  let ?sz = "case cf_buffer cf of Some n \<Rightarrow> n | None \<Rightarrow> 0" and ?ep = "mq_endpoint m"
  let ?p = "packet (CHR 0x82) (subscribe_body (ep_topic ?ep) (cf_qos cf))"
  have i: "mq_sock_connected m" "mq_mqtt_connected m" "at cf ?ep ACCEPTED x" "wr_open x" "\<not> wr_misused x"
    using assms by (simp_all add: task_inv_def)
  have e: "task_inv cf (m\<lparr>mq_error := e, mq_state := ST_ERR_EXIT\<rparr>) x" for e
    by (rule exit_inv [OF closing_of [OF assms(1) i(1)]])
  show ?thesis
  proof (cases "subscribe_fits ?ep ?sz")
    case False
    then show ?thesis using e by (simp add: mqtt_state_send_subscribe_def)
  next
    case True
    then have c: "mqtt_send_subscribe cf (traced io) (ep_topic ?ep) (cf_qos cf) (x, w) = send_loop (traced io) ?p 0 SOCK_FAIL (x, w)"
      by (simp add: mqtt_send_subscribe_def subscribe_built)
    have cp: "client_packet cf ?ep ACCEPTED ?p" by (simp add: client_packet_def)
    have "post (if res = SOCK_FAIL
        then Some (reconnect_after cf (traced io) EVENT_SEND_FAILED (st_value ST_SEND_SUBSCRIBE) m (x', w'))
        else Some (m\<lparr>mq_state := ST_RECV_SUBACK\<rparr>, (x', w'))) (invs cf)"
      if s: "sends ?p x res x'" "res \<noteq> SOCK_AGAIN" for res x' w'
    proof (cases "res = SOCK_FAIL")
      case True
      then show ?thesis using closing_tx [OF i(3) cp s(1)] i by (simp add: accepted_def)
    next
      case False
      then have x': "x' = tx ?p x" using s sent_all by (cases res) auto
      have "at cf ?ep SUBSCRIBING x'" using c_subscribe [OF i(3)] x' by simp
      then show ?thesis using False i x' by (simp add: task_inv_def)
    qed
    then show ?thesis
      using True by (simp add: mqtt_state_send_subscribe_def c send_post i)
  qed
qed

lemma traced_close:
  "mi_close (traced io) p = (r, x', w') \<Longrightarrow> wr_open (fst p) \<Longrightarrow> x' = (fst p)\<lparr>wr_open := False\<rparr>"
  by (auto simp: traced_def split: prod.splits)

lemma credentials_refused_inv:
  assumes "wr_open (fst p)" "\<not> wr_misused (fst p)" "\<not> mq_mqtt_connected m"
  shows "post (credentials_refused cf (traced io) m p) (invs cf)"
proof -
  obtain r x1 w1 where c: "mi_close (traced io) p = (r, x1, w1)" by (metis surj_pair)
  have x1: "\<not> wr_open x1" "\<not> wr_misused x1" using traced_close [OF c assms(1)] assms(2) by simp_all
  let ?m = "m\<lparr>mq_sock_connected := False\<rparr>"
  have i: "idle (?m\<lparr>mq_endpoint := ep, mq_error := e, mq_state := st\<rparr>) x1" "idle (?m\<lparr>mq_endpoint := ep\<rparr>) x1" "idle ?m x1"
    "idle (?m\<lparr>mq_error := e, mq_state := st\<rparr>) x1" for ep e st
    using x1 assms(3) by (simp_all add: idle_def)
  have k: "task_inv cf ((schedule_retry cf a m')\<lparr>mq_state := st\<rparr>) x1"
    if "idle m' x1" "st = ST_SOCK_CONNECT \<or> st = ST_GET_ENDPOINT" for a m' st
  proof -
    have "idle (schedule_retry cf a m') x1" using that(1) by (simp add: retry_idle)
    then have "idle ((schedule_retry cf a m')\<lparr>mq_state := st\<rparr>) x1" by (simp add: idle_def)
    then show ?thesis using that(2) by (intro idle_states) auto
  qed
  obtain b ep x2 w2 where g: "(if cf_has_credentials cf then mi_credentials (traced io) (mq_endpoint m) (x1, w1)
      else ((False, Some (mq_endpoint m)), (x1, w1))) = ((b, ep), x2, w2)"
    by (metis surj_pair)
  have x2: "x2 = x1"
    using arg_cong [OF g, of "\<lambda>q. fst (snd q)"] by (simp split: if_splits)
  have "cf_has_credentials cf \<Longrightarrow> mi_credentials (traced io) (mq_endpoint m) (x1, w1) = ((b, ep), x1, w2)"
    using g x2 by simp
  then show ?thesis
    using i k by (cases "cf_has_credentials cf"; cases "cf_endpoint_given cf")
      (auto simp: credentials_refused_def c Let_def split: option.split intro!: idle_states)
qed

lemma header_byte: "code b = n \<Longrightarrow> n < 256 \<Longrightarrow> b = char_of n"
  by auto

lemma connack_received_inv:
  assumes "at cf (mq_endpoint m) CONNECTING x" "wr_open x" "\<not> wr_misused x" "mq_sock_connected m"
    "\<not> mq_mqtt_connected m" "mq_state m = ST_RECV_CONNACK" "length b = 2"
  shows "post (connack_received cf (traced io) b m (rx ([CHR 0x20, CHR 0x02] @ b) x, w)) (invs cf)"
proof -
  let ?x = "rx ([CHR 0x20, CHR 0x02] @ b) x"
  have cl: "closing cf m ?x" using assms by (intro closing_rx [OF assms(1)]) (simp_all add: accepted_def)
  obtain f g where b: "b = [f, g]" using assms(7) by (auto simp: numeral_2_eq_2 length_Suc_conv)
  let ?w = "tell_event cf (traced io) EVENT_CONNACK (code g) (?x, w)"
  let ?m = "m\<lparr>mq_pingresp_received := True, mq_mqtt_connected := True\<rparr>"
  obtain m1 p1 where r: "publish_reconnected cf (traced io) ?m ?w = (m1, p1)" by (metis surj_pair)
  note k = publish_quiet(5) [OF r]
  have ok: "task_inv cf (m1\<lparr>mq_state := ST_SEND_SUBSCRIBE\<rparr>) (fst p1)" if "code g = 0"
  proof -
    have "g = CHR 0x00" using that code_eq_iff [of g "CHR 0x00"] by simp
    then have "at cf (mq_endpoint m) ACCEPTED ?x" using c_connack [OF assms(1), of f] b by simp
    then show ?thesis using k assms(2-4) by (simp add: keeps_def task_inv_def)
  qed
  have cr: "post (credentials_refused cf (traced io) m ?w) (invs cf)"
    using credentials_refused_inv [of ?w m cf io] assms(2,3,5) by simp
  have r': "code g = 0 \<Longrightarrow>
      publish_reconnected cf (traced io) ?m (tell_event cf (traced io) EVENT_CONNACK 0 (?x, w)) = (m1, p1)"
    using r by simp
  show ?thesis
    using cl ok cr r' by (simp add: connack_received_def Let_def b)
qed

lemma recv_connack_inv:
  assumes "task_inv cf m x" "mq_state m = ST_RECV_CONNACK"
  shows "post (mqtt_state_recv_connack cf (traced io) m (x, w)) (invs cf)"
proof -
  let ?ep = "mq_endpoint m"
  have i: "mq_sock_connected m" "\<not> mq_mqtt_connected m" "at cf ?ep CONNECTING x" "wr_open x" "\<not> wr_misused x"
    using assms by (simp_all add: task_inv_def)
  have cl: "closing cf m (rx t x)" for t
    using i by (intro closing_rx [OF i(3)]) (simp_all add: accepted_def)
  have ack: "post (case buff of None \<Rightarrow> Some (reconnect_after cf (traced io) EVENT_RECV_FAILED (st_value ST_RECV_CONNACK) m (rx t (rx h x), w'))
      | Some b \<Rightarrow> connack_received cf (traced io) b m (rx t (rx h x), w')) (invs cf)"
    if h: "h = [CHR 0x20, CHR 0x02]" and t: "\<forall>b. buff = Some b \<longrightarrow> b = t \<and> length t = 2" for h t buff w'
    using cl connack_received_inv [OF i(3,4,5,1,2) assms(2)] t
    by (cases buff) (simp_all add: h)
  have enc: "mqtt_encode 2 = [CHR 0x02]" by code_simp
  have b20: "b = CHR 0x20" if "code b = 0x20" for b using that code_eq_iff [of b "CHR 0x20"] by simp
  show ?thesis
    unfolding mqtt_state_recv_connack_def post_simps
  proof (rule header_post [OF i(4)], simp only: prod.case)
    fix h fh w1
    assume h: "\<forall>b n. fh = Some (b, n) \<longrightarrow> h = b # mqtt_encode n"
    show "post (case fh of None \<Rightarrow> Some (reconnect_after cf (traced io) EVENT_RECV_FAILED (st_value ST_RECV_CONNACK) m (rx h x, w1))
      | Some (byte1, n) \<Rightarrow>
          if code byte1 \<noteq> 0x20 \<or> n \<noteq> 2 then Some (reconnect_after cf (traced io) EVENT_UNEXPECTED_PACKET (code byte1) m (rx h x, w1))
          else recv_remaining (traced io) 2 (rx h x, w1) \<bind>
            (\<lambda>(buff, w2). case buff of None \<Rightarrow> Some (reconnect_after cf (traced io) EVENT_RECV_FAILED (st_value ST_RECV_CONNACK) m w2)
              | Some b \<Rightarrow> connack_received cf (traced io) b m w2)) (invs cf)"
    proof (cases "\<exists>b. fh = Some (b, 2) \<and> code b = 0x20")
      case True
      then obtain b where b: "fh = Some (b, 2)" "code b = 0x20" by blast
      have hh: "h = [CHR 0x20, CHR 0x02]" using h b b20 enc by simp
      have "post (recv_remaining (traced io) 2 (rx h x, w1))
        (\<lambda>a. post (case a of (buff, w2) \<Rightarrow> case buff of None \<Rightarrow> Some (reconnect_after cf (traced io) EVENT_RECV_FAILED (st_value ST_RECV_CONNACK) m w2)
              | Some b \<Rightarrow> connack_received cf (traced io) b m w2) (invs cf))"
        using i(4) by (intro remaining_post) (simp_all only: rx_tx_simps(1) prod.case ack [OF hh])
      then show ?thesis using b by simp
    next
      case False
      then show ?thesis using cl by (auto split: option.split prod.split)
    qed
  qed
qed

lemma in_message_header:
  assumes "at cf (mq_endpoint m) ph x" "code b AND 0xf0 = 0x30"
    "mq_endpoint m' = mq_endpoint m"
  shows "in_message cf (publish_header b n m') ph (rx (b # mqtt_encode n) x)"
  unfolding in_message_def publish_header_def
  using assms by (intro exI [of _ "wr_received x"] exI [of _ b]) simp

lemma in_message_simps [simp]:
  "in_message cf (m\<lparr>mq_state := st\<rparr>) ph x = in_message cf m ph x"
  "in_message cf (m\<lparr>mq_awaiting_suback := aw\<rparr>) ph x = in_message cf m ph x"
  "in_message cf (m\<lparr>mq_elapsed_time_ms := t\<rparr>) ph x = in_message cf m ph x"
  by (simp_all add: in_message_def)

lemma publish_header_simps [simp]:
  "mq_endpoint (publish_header b n m) = mq_endpoint m"
  "mq_sock_connected (publish_header b n m) = mq_sock_connected m"
  "mq_mqtt_connected (publish_header b n m) = mq_mqtt_connected m"
  "mq_awaiting_suback (publish_header b n m) = mq_awaiting_suback m"
  "mq_state (publish_header b n m) = mq_state m"
  by (simp_all add: publish_header_def)

lemma suback_received_inv:
  assumes "at cf (mq_endpoint m) SUBSCRIBING x" "wr_open x" "\<not> wr_misused x" "mq_sock_connected m"
    "mq_mqtt_connected m" "\<not> mq_awaiting_suback m" "length b = 3"
  shows "post (suback_received cf (traced io) c b m (rx ([CHR 0x90, CHR 0x03] @ b) x, w)) (invs cf)"
proof -
  let ?x = "rx ([CHR 0x90, CHR 0x03] @ b) x"
  have cl: "closing cf m ?x" using assms by (intro closing_rx [OF assms(1)]) (simp_all add: accepted_def)
  obtain f g q where b: "b = [f, g, q]" using assms(7) by (auto simp: numeral_3_eq_3 length_Suc_conv)
  have ok: "at cf (mq_endpoint m) READY ?x"
    if "f = CHR 0x00" "g = CHR 0x01" "code q \<le> (if cf_qos cf = QOS_1 then 1 else 0)"
    using c_suback [OF assms(1) that(3)] that(1,2) b by simp
  have n: "QOS_1 = QOS_0 \<longleftrightarrow> False" by simp
  show ?thesis
  proof (cases "f = CHR 0x00 \<and> g = CHR 0x01 \<and> code q \<le> (if cf_qos cf = QOS_1 then 1 else 0)")
    case True
    then have "code q \<noteq> 0x80" by (auto split: if_splits)
    with True ok assms show ?thesis
      by (auto simp: suback_received_def Let_def b task_inv_def split: if_splits)
  next
    case False
    then show ?thesis using cl by (auto simp: suback_received_def Let_def b)
  qed
qed

lemma recv_suback_inv:
  assumes "task_inv cf m0 x" "mq_state m0 = ST_RECV_SUBACK"
  shows "post (mqtt_state_recv_suback cf (traced io) m0 (x, w)) (invs cf)"
proof -
  let ?m = "m0\<lparr>mq_awaiting_suback := False\<rparr>"
  let ?ep = "mq_endpoint ?m"
  have i: "mq_sock_connected ?m" "mq_mqtt_connected ?m" "at cf ?ep SUBSCRIBING x" "wr_open x" "\<not> wr_misused x"
    "\<not> mq_awaiting_suback ?m"
    using assms by (simp_all add: task_inv_def)
  have cl: "closing cf ?m (rx t x)" for t
    using i by (intro closing_rx [OF i(3)]) (simp_all add: accepted_def)
  have msg: "task_inv cf ((publish_header b n ?m)\<lparr>mq_awaiting_suback := True, mq_state := ST_RECV_MSG\<rparr>) (rx (b # mqtt_encode n) x)"
    if "code b AND 0xf0 = 0x30" for b n
    using in_message_header [OF i(3) that, of ?m n] i by (simp add: task_inv_def)
  have ack: "post (case buff of None \<Rightarrow> Some (reconnect_after cf (traced io) EVENT_RECV_FAILED (st_value ST_RECV_SUBACK) ?m (rx t (rx h x), w'))
      | Some b \<Rightarrow> suback_received cf (traced io) c b ?m (rx t (rx h x), w')) (invs cf)"
    if h: "h = [CHR 0x90, CHR 0x03]" and t: "\<forall>b. buff = Some b \<longrightarrow> b = t \<and> length t = 3" for h t buff w' c
    using cl suback_received_inv [OF i(3,4,5,1,2,6)] t
    by (cases buff) (simp_all add: h)
  have enc: "mqtt_encode 3 = [CHR 0x03]" by code_simp
  have b90: "b = CHR 0x90" if "code b = 0x90" for b using that code_eq_iff [of b "CHR 0x90"] by simp
  show ?thesis
    unfolding mqtt_state_recv_suback_def Let_def post_simps
  proof (rule header_post [OF i(4)], simp only: prod.case)
    fix h fh w1
    assume h: "\<forall>b n. fh = Some (b, n) \<longrightarrow> h = b # mqtt_encode n"
    show "post (case fh of None \<Rightarrow> Some (reconnect_after cf (traced io) EVENT_RECV_FAILED (st_value ST_RECV_SUBACK) ?m (rx h x, w1))
      | Some (byte1, n) \<Rightarrow>
          if code byte1 AND 0xf0 = 0x30
          then Some ((publish_header byte1 n ?m)\<lparr>mq_awaiting_suback := True, mq_state := ST_RECV_MSG\<rparr>, (rx h x, w1))
          else if code byte1 \<noteq> 0x90 \<or> n \<noteq> 3 then Some (reconnect_after cf (traced io) EVENT_UNEXPECTED_PACKET (code byte1) ?m (rx h x, w1))
          else recv_remaining (traced io) 3 (rx h x, w1) \<bind>
            (\<lambda>(buff, w2). case buff of None \<Rightarrow> Some (reconnect_after cf (traced io) EVENT_RECV_FAILED (st_value ST_RECV_SUBACK) ?m w2)
              | Some b \<Rightarrow> suback_received cf (traced io) byte1 b ?m w2)) (invs cf)"
    proof (cases "\<exists>b. fh = Some (b, 3) \<and> code b = 0x90")
      case True
      then obtain b where b: "fh = Some (b, 3)" "code b = 0x90" by blast
      have hh: "h = [CHR 0x90, CHR 0x03]" using h b b90 enc by simp
      have "post (recv_remaining (traced io) 3 (rx h x, w1))
        (\<lambda>a. post (case a of (buff, w2) \<Rightarrow> case buff of None \<Rightarrow> Some (reconnect_after cf (traced io) EVENT_RECV_FAILED (st_value ST_RECV_SUBACK) ?m w2)
              | Some c \<Rightarrow> suback_received cf (traced io) b c ?m w2) (invs cf))"
        using i(4) by (intro remaining_post) (simp_all only: rx_tx_simps(1) prod.case ack [OF hh])
      then show ?thesis using b by simp
    next
      case False
      then show ?thesis using cl msg h by (auto split: option.split prod.split)
    qed
  qed
qed

text \<open>Subscribed, and at a packet's end.\<close>

definition ready :: "mqtt_conf \<Rightarrow> mqtt \<Rightarrow> wire \<Rightarrow> bool" where
  "ready cf m x \<longleftrightarrow>
     \<not> wr_misused x \<and> wr_open x \<and> mq_sock_connected m \<and> mq_mqtt_connected m \<and> \<not> mq_awaiting_suback m \<and>
     at cf (mq_endpoint m) READY x"

lemma ready_keeps: "keeps m m' \<Longrightarrow> ready cf m' x = ready cf m x"
  by (simp add: ready_def keeps_def)

lemma ready_states [simp]:
  "ready cf (m\<lparr>mq_state := st\<rparr>) x = ready cf m x"
  "ready cf (m\<lparr>mq_pingresp_received := b\<rparr>) x = ready cf m x"
  "ready cf (m\<lparr>mq_pub := q\<rparr>) x = ready cf m x"
  "ready cf (add_elapsed_ms t m) x = ready cf m x"
  by (simp_all add: ready_def add_elapsed_ms_def)

lemma ready_task_inv:
  "ready cf m x \<Longrightarrow> mq_state m = ST_RECV_READY \<or> mq_state m = ST_SEND_PINGREQ \<or> mq_state m = ST_SEND_PUBLISH \<Longrightarrow>
    task_inv cf m x"
  by (auto simp: ready_def task_inv_def)

lemma ready_of:
  "task_inv cf m x \<Longrightarrow> mq_state m = ST_RECV_READY \<or> mq_state m = ST_SEND_PINGREQ \<or> mq_state m = ST_SEND_PUBLISH \<Longrightarrow>
    ready cf m x"
  by (auto simp: ready_def task_inv_def)

lemma ready_closing: "ready cf m x \<Longrightarrow> closing cf m (rx t x)"
  unfolding ready_def by (intro closing_rx [where ph = READY]) (simp_all add: accepted_def)

lemma ready_closing': "ready cf m x \<Longrightarrow> closing cf m x"
  using ready_closing [of cf m x "[]"] by simp

lemma add_elapsed_state [simp]: "mq_state (add_elapsed_ms t m) = mq_state m"
  by (simp add: add_elapsed_ms_def)

lemma puback_arrived:
  assumes "ready cf m x" "mq_state m = ST_RECV_READY" "code c = 0x40"
    and "\<forall>b. buff = Some b \<longrightarrow> b = t \<and> length t = 2"
  shows "post (case buff of
      None \<Rightarrow> Some (refuse_packet cf (traced io) EVENT_RECV_FAILED e m (rx ([CHR 0x40, CHR 0x02] @ t) x, w))
    | Some b \<Rightarrow> (case publish_acked cf (traced io) (uint16_at b 0) m (rx ([CHR 0x40, CHR 0x02] @ t) x, w) of
        (acked, m3, w3) \<Rightarrow>
          if \<not> acked then Some (refuse_packet cf (traced io) EVENT_UNEXPECTED_PACKET (code c) m3 w3)
          else Some (add_elapsed_ms ARRIVED_MSG_READ_TIME m3, w3))) (invs cf)"
proof (cases buff)
  case None
  then show ?thesis using ready_closing [OF assms(1)] by simp
next
  case (Some b)
  then obtain i j where b: "b = [i, j]" "t = [i, j]"
    using assms(4) by (auto simp: numeral_2_eq_2 length_Suc_conv)
  let ?x = "rx ([CHR 0x40, CHR 0x02] @ t) x"
  obtain acked m3 p3 where a: "publish_acked cf (traced io) (uint16_at b 0) m (?x, w) = (acked, m3, p3)"
    by (metis surj_pair)
  have k: "keeps m m3" "fst p3 = ?x" using publish_quiet(4) [OF a] by simp_all
  have "ready cf m ?x"
    using assms(1) c_puback [of cf "mq_endpoint m" _ _ _ i j] b by (simp add: ready_def)
  then have r: "ready cf m3 ?x" by (simp add: ready_keeps [OF k(1)])
  have "task_inv cf (add_elapsed_ms ARRIVED_MSG_READ_TIME m3) ?x"
    using r k(1) assms(2) by (intro ready_task_inv) (simp_all add: keeps_def)
  then show ?thesis using Some ready_closing' [OF r] k(2) a b by simp
qed

lemma packet_arrived_inv:
  assumes "ready cf m x" "mq_state m = ST_RECV_READY"
  shows "post (packet_arrived cf (traced io) c n m (rx (c # mqtt_encode n) x, w)) (invs cf)"
proof -
  let ?x = "rx (c # mqtt_encode n) x"
  have cl: "closing cf m ?x" by (rule ready_closing [OF assms(1)])
  have at: "at cf (mq_endpoint m) READY x" using assms(1) by (simp add: ready_def)
  consider "code c AND 0xf0 = 0x30" | "code c = 0xd0" "n = 0" | "code c = 0x40" "n = 2"
    | "code c AND 0xf0 \<noteq> 0x30" "\<not> (code c = 0xd0 \<and> n = 0)" "\<not> (code c = 0x40 \<and> n = 2)" by blast
  then show ?thesis
  proof cases
    case 1
    let ?m = "add_elapsed_ms (to_recv_ms cf) ((publish_header c n m)\<lparr>mq_state := ST_RECV_MSG\<rparr>)"
    have "in_message cf ?m READY ?x"
      using in_message_header [OF at 1, of m n] by (simp add: add_elapsed_ms_def)
    then have "task_inv cf ?m ?x"
      using assms(1) by (simp add: ready_def task_inv_def add_elapsed_ms_def)
    then show ?thesis using 1 by (simp add: packet_arrived_def)
  next
    case 2
    then have "c = CHR 0xd0" "mqtt_encode 0 = [CHR 0x00]"
      using code_eq_iff [of c "CHR 0xd0"] by (simp, code_simp)
    then have "ready cf (m\<lparr>mq_pingresp_received := True\<rparr>) ?x"
      using assms(1) c_pingresp [OF at] 2 by (simp add: ready_def)
    then have "task_inv cf (add_elapsed_ms ARRIVED_MSG_READ_TIME (m\<lparr>mq_pingresp_received := True\<rparr>)) ?x"
      using assms(2) by (intro ready_task_inv) simp_all
    then show ?thesis using 2 by (simp add: packet_arrived_def)
  next
    case 3
    then have h: "c # mqtt_encode n = [CHR 0x40, CHR 0x02]"
      using code_eq_iff [of c "CHR 0x40"] by (simp, code_simp)
    obtain awaits m1 p1 where a: "publish_awaits_puback cf (traced io) m (?x, w) = (awaits, m1, p1)"
      by (metis surj_pair)
    have k: "keeps m m1" "fst p1 = ?x" using publish_quiet(3) [OF a] by simp_all
    obtain w1 where p1: "p1 = (?x, w1)" using k(2) by (cases p1) simp
    have r: "ready cf m1 x" "mq_state m1 = ST_RECV_READY"
      using assms k(1) ready_keeps [OF k(1)] by (simp_all add: keeps_def)
    have body: "post (case (buff, rx t ?x, w') of (buff, w2) \<Rightarrow> (case buff of
      None \<Rightarrow> Some (refuse_packet cf (traced io) EVENT_RECV_FAILED (st_value ST_RECV_READY) m1 w2)
    | Some b \<Rightarrow> (case publish_acked cf (traced io) (uint16_at b 0) m1 w2 of
        (acked, m3, w3) \<Rightarrow>
          if \<not> acked then Some (refuse_packet cf (traced io) EVENT_UNEXPECTED_PACKET (code c) m3 w3)
          else Some (add_elapsed_ms ARRIVED_MSG_READ_TIME m3, w3)))) (invs cf)"
      if "\<forall>b. buff = Some b \<longrightarrow> b = t \<and> length t = 2" for t buff w'
      using puback_arrived [OF r 3(1) that, of io "st_value ST_RECV_READY" w']
      by (simp only: h prod.case rx_tx_simps)
    have "post (recv_remaining (traced io) 2 (?x, w1)) (\<lambda>a. post (case a of (buff, w2) \<Rightarrow> (case buff of
      None \<Rightarrow> Some (refuse_packet cf (traced io) EVENT_RECV_FAILED (st_value ST_RECV_READY) m1 w2)
    | Some b \<Rightarrow> (case publish_acked cf (traced io) (uint16_at b 0) m1 w2 of
        (acked, m3, w3) \<Rightarrow>
          if \<not> acked then Some (refuse_packet cf (traced io) EVENT_UNEXPECTED_PACKET (code c) m3 w3)
          else Some (add_elapsed_ms ARRIVED_MSG_READ_TIME m3, w3)))) (invs cf))"
      using r(1) by (intro remaining_post body) (simp add: ready_def)
    moreover have "closing cf m1 ?x" by (rule ready_closing [OF r(1)])
    ultimately show ?thesis
      unfolding packet_arrived_def using 3 a by (simp add: p1)
  next
    case 4
    then show ?thesis using cl by (auto simp: packet_arrived_def)
  qed
qed

lemma nothing_arrived_inv:
  assumes "ready cf m (fst p)" "mq_state m = ST_RECV_READY"
  shows "post (nothing_arrived cf (traced io) m p) (invs cf)"
proof -
  obtain q m' p' where a: "publish_queued cf (traced io) (add_elapsed_ms (to_recv_ms cf) m) p = (q, m', p')"
    by (metis surj_pair)
  have k: "keeps (add_elapsed_ms (to_recv_ms cf) m) m'" "fst p' = fst p" using publish_quiet(1) [OF a] by simp_all
  then have "ready cf m' (fst p)" "mq_state m' = ST_RECV_READY"
    using assms ready_keeps [OF k(1)] by (simp_all add: keeps_def)
  then have "task_inv cf m' (fst p')" "task_inv cf (add_elapsed_ms WAIT_MS m') (fst p')"
    by (simp_all add: ready_task_inv k(2))
  then show ?thesis by (simp add: nothing_arrived_def a)
qed

lemma recv_packet_inv:
  assumes "ready cf m x" "mq_state m = ST_RECV_READY"
  shows "post (recv_packet cf (traced io) m (x, w)) (invs cf)"
proof -
  have o: "wr_open x" using assms(1) by (simp add: ready_def)
  have cl: "closing cf m (rx t x)" for t by (rule ready_closing [OF assms(1)])
  note cl' = ready_closing' [OF assms(1)]
  have arrived: "post (case (rest, rx t (rx [c] x), w2) of (rest, w2) \<Rightarrow> (case rest of
        None \<Rightarrow> Some (refuse_packet cf (traced io) EVENT_RECV_FAILED (st_value ST_RECV_READY) m w2)
      | Some n \<Rightarrow> packet_arrived cf (traced io) c n m w2)) (invs cf)"
    if "\<forall>n. rest = Some n \<longrightarrow> t = mqtt_encode n" for rest t c w2
    using that packet_arrived_inv [OF assms, of io c _ w2] cl
    by (cases rest) simp_all
  have h: "post (recv_fixed_header_rest (traced io) (rx [c] x, w1)) (\<lambda>a. post (case a of (rest, w2) \<Rightarrow> (case rest of
        None \<Rightarrow> Some (refuse_packet cf (traced io) EVENT_RECV_FAILED (st_value ST_RECV_READY) m w2)
      | Some n \<Rightarrow> packet_arrived cf (traced io) c n m w2)) (invs cf))" for c w1
    using o by (intro header_rest_post arrived) simp
  have quiet_lost: "fst p' = x" if "sock_recv_lost cf (traced io) (x, w1) = (l, p')" for l p' w1
    using that o by (auto simp: sock_recv_lost_def traced_def split: if_splits prod.splits)
  have lost: "post (case (if res = SOCK_FAIL then sock_recv_lost cf (traced io) (x, w1) else (False, x, w1)) of
        (l, w2) \<Rightarrow> if l then Some (refuse_packet cf (traced io) EVENT_RECV_FAILED (st_value ST_RECV_READY) m w2)
          else nothing_arrived cf (traced io) m w2) (invs cf)" for res w1
  proof -
    obtain l p' where l: "(if res = SOCK_FAIL then sock_recv_lost cf (traced io) (x, w1) else (False, x, w1)) = (l, p')"
      by (metis surj_pair)
    then have "fst p' = x" using quiet_lost by (auto split: if_splits)
    then show ?thesis using l cl' nothing_arrived_inv [of cf m p' io] assms by simp
  qed
  show ?thesis
    unfolding recv_packet_def post_simps
  proof (rule byte1_post [OF o], simp only: prod.case)
    fix res c w'
    show "post (if res = SOCK_OK
       then (case c of
          None \<Rightarrow> Some (refuse_packet cf (traced io) EVENT_CLOSED_BY_BROKER 0 m
            (rx (if res = SOCK_OK then (case c of None \<Rightarrow> [] | Some b \<Rightarrow> [b]) else []) x, w'))
        | Some c' \<Rightarrow> recv_fixed_header_rest (traced io)
            (rx (if res = SOCK_OK then (case c of None \<Rightarrow> [] | Some b \<Rightarrow> [b]) else []) x, w') \<bind> (\<lambda>(rest, w2). case rest of
              None \<Rightarrow> Some (refuse_packet cf (traced io) EVENT_RECV_FAILED (st_value ST_RECV_READY) m w2)
            | Some n \<Rightarrow> packet_arrived cf (traced io) c' n m w2))
       else (case (if res = SOCK_FAIL
          then sock_recv_lost cf (traced io) (rx (if res = SOCK_OK then (case c of None \<Rightarrow> [] | Some b \<Rightarrow> [b]) else []) x, w')
          else (False, (rx (if res = SOCK_OK then (case c of None \<Rightarrow> [] | Some b \<Rightarrow> [b]) else []) x, w'))) of
          (lost, w2) \<Rightarrow> if lost then Some (refuse_packet cf (traced io) EVENT_RECV_FAILED (st_value ST_RECV_READY) m w2)
            else nothing_arrived cf (traced io) m w2)) (invs cf)"
    proof (cases "res = SOCK_OK")
      case True
      then show ?thesis using h [of _ w'] cl' by (cases c) simp_all
    next
      case False
      then show ?thesis using lost [of res w'] by (simp only: if_False rx_tx_simps)
    qed
  qed
qed

text \<open>Waiting for a packet leaves the connection as it is.\<close>

lemma wait_quiet:
  assumes ret: "wait_for_packet cf (traced io) m p = Some (r, m', p')" and o: "wr_open (fst p)"
  shows "keeps m m' \<and> fst p' = fst p"
proof -
  let ?P = "\<lambda>cf io' n m p q. io' = traced io \<longrightarrow> wr_open (fst p) \<longrightarrow> keeps m (fst (snd q)) \<and> fst (snd (snd q)) = fst p"
  have "?P cf (traced io) 0 m p (r, m', p')"
  proof (rule wait_for_packet_loop.raw_induct [where P = ?P, OF _ ret [unfolded wait_for_packet_def]], intro impI)
    fix f cf io' n m and p :: "wire \<times> 'a" and q
    assume IH: "\<And>cf io' n m p q. f cf io' n m p = Some q \<Longrightarrow> ?P cf io' n m p q"
      and eq: "(let turn_ms = if 0 < to_recv_ms cf \<and> to_recv_ms cf - n < RECV_WAIT_TURN_MS
             then to_recv_ms cf - n else RECV_WAIT_TURN_MS
         in case mi_recv_wait io' turn_ms p of (arriving, w1) \<Rightarrow>
              if arriving then Some ((True, n), m, w1)
              else let n' = if UINT32_MAX - turn_ms < n then UINT32_MAX else n + turn_ms
                   in case publish_queued cf io' m w1 of (queued, m2, w2) \<Rightarrow>
                     if queued \<or> 0 < to_recv_ms cf \<and> to_recv_ms cf \<le> n' then Some ((False, n'), m2, w2)
                     else f cf io' n' m2 w2) = Some q"
      and io': "io' = traced io" and o: "wr_open (fst p)"
    define t where "t = (if 0 < to_recv_ms cf \<and> to_recv_ms cf - n < RECV_WAIT_TURN_MS
      then to_recv_ms cf - n else RECV_WAIT_TURN_MS)"
    define n' where "n' = (if UINT32_MAX - t < n then UINT32_MAX else n + t)"
    obtain b p1 where 1: "mi_recv_wait (traced io) t p = (b, p1)" by (metis surj_pair)
    then have p1: "fst p1 = fst p" using o by (cases p) (auto simp: traced_def split: prod.splits)
    obtain c m2 p2 where 2: "publish_queued cf (traced io) m p1 = (c, m2, p2)" by (metis surj_pair)
    have k: "keeps m m2" "fst p2 = fst p" using publish_quiet(1) [OF 2] p1 by simp_all
    have eq': "(if b then Some ((True, n), m, p1)
        else if c \<or> 0 < to_recv_ms cf \<and> to_recv_ms cf \<le> n' then Some ((False, n'), m2, p2)
        else f cf (traced io) n' m2 p2) = Some q"
      using eq unfolding io' Let_def t_def [symmetric] 1 prod.case n'_def [symmetric] 2 .
    show "keeps m (fst (snd q)) \<and> fst (snd (snd q)) = fst p"
    proof (cases "b \<or> c \<or> 0 < to_recv_ms cf \<and> to_recv_ms cf \<le> n'")
      case True
      then show ?thesis using eq' k p1 by (auto split: if_splits)
    next
      case False
      then have "f cf (traced io) n' m2 p2 = Some q" using eq' by (auto split: if_splits)
      from IH [OF this] o k(2) have "keeps m2 (fst (snd q)) \<and> fst (snd (snd q)) = fst p" by simp
      then show ?thesis using k(1) by (simp add: keeps_def)
    qed
  qed
  with o show ?thesis by simp
qed

lemma recv_ready_inv:
  assumes "task_inv cf m x" "mq_state m = ST_RECV_READY"
  shows "post (mqtt_state_recv_ready cf (traced io) m (x, w)) (invs cf)"
proof -
  have r: "ready cf m x" using ready_of assms by simp
  obtain e p1 where 1: "(if cf_keep_alive cf > 0 then elapsed_ms cf (traced io) m (x, w) else (0, (x, w))) = (e, p1)"
    by (metis surj_pair)
  then have p1: "fst p1 = x" using elapsed_ms_quiet [of cf io m "(x, w)"] by (auto split: if_splits)
  obtain t m2 p2 where 2: "publish_take cf (traced io) m p1 = (t, m2, p2)" by (metis surj_pair)
  have k2: "keeps m m2" "fst p2 = x" using publish_quiet(2) [OF 2] p1 by simp_all
  have r2: "ready cf m2 x" "mq_state m2 = ST_RECV_READY" using r ready_keeps [OF k2(1)] k2(1) assms(2) by (simp_all add: keeps_def)
  have w: "post (if cf_has_lock cf \<and> cf_has_recv_wait cf then wait_for_packet cf (traced io) m2 p2 else Some ((True, 0), m2, p2))
      (\<lambda>(r, m3, p3). keeps m2 m3 \<and> fst p3 = x)"
    using wait_quiet [of cf io m2 p2] k2(2) r by (auto simp: ready_def intro!: postI)
  have fin: "post (if \<not> b then Some (add_elapsed_ms n m3, p3) else recv_packet cf (traced io) m3 p3) (invs cf)"
    if k3: "keeps m2 m3" and f3: "fst p3 = x" for b n m3 p3
  proof -
    have r3: "ready cf m3 x" "mq_state m3 = ST_RECV_READY"
      using r2 ready_keeps [OF k3] k3 by (simp_all add: keeps_def)
    obtain w3 where p3: "p3 = (x, w3)" using f3 by (cases p3) simp
    show ?thesis using r3 recv_packet_inv [OF r3, of io w3] by (simp add: p3 ready_task_inv)
  qed
  have wait: "post ((if cf_has_lock cf \<and> cf_has_recv_wait cf then wait_for_packet cf (traced io) m2 p2 else Some ((True, 0), m2, p2)) \<bind>
      (\<lambda>((b, n), m3, p3). if \<not> b then Some (add_elapsed_ms n m3, p3) else recv_packet cf (traced io) m3 p3)) (invs cf)"
    unfolding post_simps(3) by (rule post_mono [OF w]) (use fin in auto)
  have t: "task_inv cf (m\<lparr>mq_state := ST_SEND_PINGREQ\<rparr>) x" "task_inv cf (m2\<lparr>mq_state := ST_SEND_PUBLISH\<rparr>) x"
    using r r2 by (simp_all add: ready_task_inv)
  show ?thesis
    unfolding mqtt_state_recv_ready_def 1 prod.case 2
    by (intro post_if wait) (simp_all add: t p1 k2(2))
qed

lemma post_case_option:
  "(c = None \<Longrightarrow> post a Q) \<Longrightarrow> (\<And>v. c = Some v \<Longrightarrow> post (f v) Q) \<Longrightarrow>
    post (case c of None \<Rightarrow> a | Some v \<Rightarrow> f v) Q"
  by (cases c) simp_all

lemma acknowledge_inv:
  assumes cl: "closing cf m x" "\<And>i u. pid = Some i \<Longrightarrow> prefix u (puback i) \<Longrightarrow> closing cf m (tx u x)"
    and at: "client cf (mq_endpoint m) (if mq_awaiting_suback m then SUBSCRIBING else READY) (wr_received x)
      (wr_sent x @ (case pid of None \<Rightarrow> [] | Some i \<Rightarrow> puback i)) (wr_delivered x)"
    and m: "mq_mqtt_connected m"
  shows "post (acknowledge cf (traced io) pid m (x, w)) (invs cf)"
proof -
  let ?p = "case pid of None \<Rightarrow> [] | Some i \<Rightarrow> puback i"
  have o: "wr_open x" "\<not> wr_misused x" "mq_sock_connected m" using cl(1) by (simp_all add: closing_def)
  have ok: "task_inv cf (m\<lparr>mq_state := (if mq_awaiting_suback m then ST_RECV_SUBACK else ST_RECV_READY)\<rparr>) (tx ?p x)"
    using at o m by (cases "mq_awaiting_suback m") (simp_all add: task_inv_def)
  show ?thesis
  proof (cases pid)
    case None
    then show ?thesis using ok by (simp add: acknowledge_def)
  next
    case (Some i)
    have "post (if res \<noteq> SOCK_OK then Some (refuse_packet cf (traced io) EVENT_SEND_FAILED (st_value ST_RECV_MSG) m (x', w'))
        else Some (m\<lparr>mq_state := (if mq_awaiting_suback m then ST_RECV_SUBACK else ST_RECV_READY)\<rparr>, (x', w'))) (invs cf)"
      if "sends (puback i) x res x'" for res x' w'
    proof (cases "res = SOCK_OK")
      case True
      then show ?thesis using ok sent_all that Some by simp
    next
      case False
      then show ?thesis using cl(2) [OF Some] that by (auto simp: sends_def)
    qed
    then have "post (mqtt_send_puback (traced io) i (x, w)) (\<lambda>a. post (case a of (res, w') \<Rightarrow>
        if res \<noteq> SOCK_OK then Some (refuse_packet cf (traced io) EVENT_SEND_FAILED (st_value ST_RECV_MSG) m w')
        else Some (m\<lparr>mq_state := (if mq_awaiting_suback m then ST_RECV_SUBACK else ST_RECV_READY)\<rparr>, w')) (invs cf))"
      unfolding mqtt_send_puback_def using o by (intro send_post) (simp_all only: prod.case, simp_all)
    then show ?thesis by (simp add: acknowledge_def Some)
  qed
qed

lemma closing_in:
  assumes "client cf (mq_endpoint m) ph r (wr_sent x) d" "wr_received x = r @ t"
    "u = [] \<or> (\<exists>p. client_packet cf (mq_endpoint m) ph p \<and> prefix u p)"
    "wr_delivered x = d \<or> (\<exists>m. delivery cf t m \<and> wr_delivered x = d @ [m])"
    "\<not> wr_misused x" "wr_open x" "mq_sock_connected m" "mq_mqtt_connected m" "accepted ph"
  shows "closing cf m (tx u x)"
proof -
  have "ended cf (mq_endpoint m) ph (tx u x)"
    using assms(2-4) by (intro cut_shortI [OF assms(1), where t = t and u = u]) simp_all
  then show ?thesis using assms by (auto simp: closing_def)
qed

lemma traced_message [simp]:
  "mi_message (traced io) msg (x, w) = (x\<lparr>wr_delivered := wr_delivered x @ [msg]\<rparr>, mi_message io msg w)"
  by (simp add: traced_def)

lemma add_elapsed_message:
  "mq_message_qos (add_elapsed_ms d m) = mq_message_qos m"
  "mq_message_dup (add_elapsed_ms d m) = mq_message_dup m"
  "mq_message_retain (add_elapsed_ms d m) = mq_message_retain m"
  "mq_remaining_message_size (add_elapsed_ms d m) = mq_remaining_message_size m"
  by (simp_all add: add_elapsed_ms_def)

lemma recv_msg_inv:
  assumes "task_inv cf m x" "mq_state m = ST_RECV_MSG"
  shows "post (mqtt_state_recv_msg cf (traced io) m (x, w)) (invs cf)"
proof -
  define ph where "ph = (if mq_awaiting_suback m then SUBSCRIBING else READY)"
  let ?n = "mq_remaining_message_size m" and ?ep = "mq_endpoint m" and ?q = "mq_message_qos m"
  have i: "mq_sock_connected m" "mq_mqtt_connected m" "wr_open x" "\<not> wr_misused x"
    using assms by (simp_all add: task_inv_def)
  have ph: "ph = SUBSCRIBING \<or> ph = READY" "accepted ph" by (simp_all add: ph_def accepted_def)
  obtain r b where r: "wr_received x = r @ b # mqtt_encode ?n" "client cf ?ep ph r (wr_sent x) (wr_delivered x)"
    "code b AND 0xf0 = 0x30" "?q = publish_qos b" "mq_message_dup m = publish_dup b"
    "mq_message_retain m = publish_retain b"
    using assms by (auto simp: task_inv_def in_message_def ph_def)
  have clt: "closing cf m' (tx u x')"
    if "keeps m m'" "wr_received x' = wr_received x @ t" "wr_sent x' = wr_sent x" "wr_open x'" "\<not> wr_misused x'"
      "wr_delivered x' = wr_delivered x \<or>
        (\<exists>msg. delivery cf (b # mqtt_encode ?n @ t) msg \<and> wr_delivered x' = wr_delivered x @ [msg])"
      "u = [] \<or> (\<exists>i. prefix u (puback i))" for m' x' t u
  proof (rule closing_in [where r = r and d = "wr_delivered x" and ph = ph and t = "b # mqtt_encode ?n @ t"])
    show "client cf (mq_endpoint m') ph r (wr_sent x') (wr_delivered x)" using r(2) that(1,3) by (simp add: keeps_def)
    show "wr_received x' = r @ b # mqtt_encode ?n @ t" using r(1) that(2) by simp
    show "u = [] \<or> (\<exists>p. client_packet cf (mq_endpoint m') ph p \<and> prefix u p)"
      using that(7) ph(1) by (auto simp: client_packet_def)
  qed (use that i ph in \<open>simp_all add: keeps_def\<close>)
  have cl: "closing cf m (rx t x)" for t using clt [of m "rx t x" t "[]"] i by simp
  have cl0: "closing cf m x" using cl [of "[]"] by simp
  show ?thesis
  proof (cases "?q > 1 \<or> ?q = 0 \<and> mq_message_dup m")
    case True
    then show ?thesis using cl0 by (simp add: mqtt_state_recv_msg_def)
  next
    case False
    then have hd: "publish_header_ok b" using r by (auto simp: publish_header_ok_def)
    show ?thesis
    proof (cases "?n > buffer_size cf")
      case big: True
      have ack: "post (acknowledge cf (traced io) pid (add_elapsed_ms d m) (rx t x, w')) (invs cf)"
        if "length t = ?n" "trashed ?q t pid" for pid t d w'
      proof (rule acknowledge_inv)
        let ?m = "add_elapsed_ms d m"
        show "closing cf ?m (rx t x)" using cl by (simp add: closing_keeps [OF add_elapsed_keeps])
        show "closing cf ?m (tx u (rx t x))" if "prefix u (puback i)" for i u
          using clt [of ?m "rx t x" t u] i that by auto
        have "publish_qos b = 1 \<longrightarrow> uint16_at t (2 + uint16_at t 0) \<noteq> 0"
          "2 + uint16_at t 0 + (if publish_qos b = 1 then 2 else 0) \<le> length t"
          "(case pid of None \<Rightarrow> [] | Some i \<Rightarrow> puback i) = (if publish_qos b = 1 then puback (uint16_at t (2 + uint16_at t 0)) else [])"
          using that(2) r(4) by (auto simp: trashed_def split: if_splits)
        then have "client cf ?ep ph (r @ packet b t)
            (wr_sent x @ (case pid of None \<Rightarrow> [] | Some i \<Rightarrow> puback i)) (wr_delivered x)"
          using big that(1) c_too_large [OF r(2) ph(1) hd _ refl] by simp
        then show "client cf (mq_endpoint ?m) (if mq_awaiting_suback ?m then SUBSCRIBING else READY) (wr_received (rx t x))
            (wr_sent (rx t x) @ (case pid of None \<Rightarrow> [] | Some i \<Rightarrow> puback i)) (wr_delivered (rx t x))"
          using r(1) that(1) by (simp add: add_elapsed_ms_def ph_def packet_def)
        show "mq_mqtt_connected ?m" using i by (simp add: add_elapsed_ms_def)
      qed
      have "post (recv_msg_trash (traced io) m (x, w)) (\<lambda>a. post (case a of (res, w1) \<Rightarrow>
          (case res of
             None \<Rightarrow> Some (refuse_packet cf (traced io) EVENT_RECV_FAILED (st_value ST_RECV_MSG) m w1)
           | Some (malformed, pid) \<Rightarrow>
               if malformed then Some (refuse_packet cf (traced io) EVENT_MESSAGE_MALFORMED ?n m w1)
               else acknowledge cf (traced io) pid (add_elapsed_ms (ARRIVED_MSG_READ_TIME + WAIT_MS) m)
                 (mi_delay (traced io) WAIT_MS (tell_event cf (traced io) EVENT_MESSAGE_TOO_LARGE ?n w1)))) (invs cf))"
      proof (rule msg_trash_post [OF i(3)], simp only: prod.case)
        fix t res w'
        assume t: "\<forall>pid. res = Some (False, pid) \<longrightarrow> length t = ?n \<and> trashed ?q t pid"
        let ?p = "mi_delay (traced io) WAIT_MS (tell_event cf (traced io) EVENT_MESSAGE_TOO_LARGE ?n (rx t x, w'))"
        obtain w2 where p: "?p = (rx t x, w2)" by (metis fst_conv prod.collapse quiet(1) tell_event_quiet)
        show "post (case res of
             None \<Rightarrow> Some (refuse_packet cf (traced io) EVENT_RECV_FAILED (st_value ST_RECV_MSG) m (rx t x, w'))
           | Some (malformed, pid) \<Rightarrow>
               if malformed then Some (refuse_packet cf (traced io) EVENT_MESSAGE_MALFORMED ?n m (rx t x, w'))
               else acknowledge cf (traced io) pid (add_elapsed_ms (ARRIVED_MSG_READ_TIME + WAIT_MS) m) ?p) (invs cf)"
          unfolding p using cl ack t by (auto split: option.split prod.split)
      qed
      then show ?thesis
        using False big cl0 unfolding mqtt_state_recv_msg_def buffer_size_def by simp
    next
      case small: False
      have ack: "post (acknowledge cf (traced io) (if ?q = 1 then Some (ms_packet_id msg) else None) (add_elapsed_ms d m)
          (mi_message (traced io) msg (rx t x, w'))) (invs cf)"
        if "length t = ?n" "read_publish ?q (mq_message_dup m) (mq_message_retain m) t = Some msg" for t msg d w'
        unfolding traced_message
      proof (rule acknowledge_inv)
        let ?m = "add_elapsed_ms d m" and ?x = "rx t x\<lparr>wr_delivered := wr_delivered (rx t x) @ [msg]\<rparr>"
        have del: "delivery cf (b # mqtt_encode ?n @ t) msg"
          unfolding delivery_def using small that hd r(4-6)
          by (intro exI [of _ b] exI [of _ t]) (simp add: packet_def)
        show "closing cf ?m ?x" using clt [of ?m ?x t "[]"] i del by simp
        show "closing cf ?m (tx u ?x)" if "prefix u (puback i)" for i u
          using clt [of ?m ?x t u] i that del by auto
        have "client cf ?ep ph (r @ packet b t)
            (wr_sent x @ (if publish_qos b = 1 then puback (ms_packet_id msg) else [])) (wr_delivered x @ [msg])"
          using small that r c_message [OF r(2) ph(1) hd] by simp
        then show "client cf (mq_endpoint ?m) (if mq_awaiting_suback ?m then SUBSCRIBING else READY) (wr_received ?x)
            (wr_sent ?x @ (case if ?q = 1 then Some (ms_packet_id msg) else None of None \<Rightarrow> [] | Some i \<Rightarrow> puback i)) (wr_delivered ?x)"
          using r(1,4) that(1) by (simp add: add_elapsed_ms_def ph_def packet_def split: if_splits)
        show "mq_mqtt_connected ?m" using i by (simp add: add_elapsed_ms_def)
      qed
      have "post (recv_remaining (traced io) ?n (x, w)) (\<lambda>a. post (case a of (buff, w1) \<Rightarrow>
          (case buff of
             None \<Rightarrow> Some (refuse_packet cf (traced io) EVENT_RECV_FAILED (st_value ST_RECV_MSG) m w1)
           | Some c \<Rightarrow>
               (case read_publish ?q (mq_message_dup m) (mq_message_retain m) c of
                  None \<Rightarrow> Some (refuse_packet cf (traced io) EVENT_MESSAGE_MALFORMED ?n
                    (add_elapsed_ms ARRIVED_MSG_READ_TIME m) w1)
                | Some msg \<Rightarrow> acknowledge cf (traced io) (if ?q = 1 then Some (ms_packet_id msg) else None)
                    (add_elapsed_ms ARRIVED_MSG_READ_TIME m) (mi_message (traced io) msg w1)))) (invs cf))"
      proof (rule remaining_post [OF i(3)], simp only: prod.case)
        fix t :: string and buff w'
        assume t: "\<forall>c. buff = Some c \<longrightarrow> c = t \<and> length t = ?n"
        have "closing cf (add_elapsed_ms ARRIVED_MSG_READ_TIME m) (rx t x)"
          using cl by (simp add: closing_keeps [OF add_elapsed_keeps])
        then show "post (case buff of
             None \<Rightarrow> Some (refuse_packet cf (traced io) EVENT_RECV_FAILED (st_value ST_RECV_MSG) m (rx t x, w'))
           | Some c \<Rightarrow>
               (case read_publish ?q (mq_message_dup m) (mq_message_retain m) c of
                  None \<Rightarrow> Some (refuse_packet cf (traced io) EVENT_MESSAGE_MALFORMED ?n
                    (add_elapsed_ms ARRIVED_MSG_READ_TIME m) (rx t x, w'))
                | Some msg \<Rightarrow> acknowledge cf (traced io) (if ?q = 1 then Some (ms_packet_id msg) else None)
                    (add_elapsed_ms ARRIVED_MSG_READ_TIME m) (mi_message (traced io) msg (rx t x, w')))) (invs cf)"
          using cl ack t by (intro post_case_option) (simp_all del: traced_message)
      qed
      then show ?thesis
        using False small cl0 unfolding mqtt_state_recv_msg_def buffer_size_def Let_def add_elapsed_message
        by (simp del: traced_message)
    qed
  qed
qed

lemma send_pingreq_inv:
  assumes "task_inv cf m x" "mq_state m = ST_SEND_PINGREQ"
  shows "post (mqtt_state_send_pingreq cf (traced io) m (x, w)) (invs cf)"
proof -
  have r: "ready cf m x" using ready_of assms by simp
  then have i: "at cf (mq_endpoint m) READY x" "wr_open x" "\<not> wr_misused x" "mq_sock_connected m" "mq_mqtt_connected m"
    by (simp_all add: ready_def)
  have cp: "client_packet cf (mq_endpoint m) READY [CHR 0xc0, CHR 0x00]" by (simp add: client_packet_def)
  have "post (if res \<noteq> SOCK_OK then Some (refuse_packet cf (traced io) EVENT_SEND_FAILED (st_value ST_SEND_PINGREQ) m (x', w'))
      else (case reset_elapsed cf (traced io) MSG_SEND_TIME (m\<lparr>mq_pingresp_received := False\<rparr>) (x', w') of
          (m', w'') \<Rightarrow> Some (m'\<lparr>mq_state := ST_RECV_READY\<rparr>, w''))) (invs cf)"
    if s: "sends [CHR 0xc0, CHR 0x00] x res x'" for res x' w'
  proof (cases "res = SOCK_OK")
    case True
    obtain m' q where k: "reset_elapsed cf (traced io) MSG_SEND_TIME (m\<lparr>mq_pingresp_received := False\<rparr>) (x', w') = (m', q)"
      by (metis surj_pair)
    have "x' = tx [CHR 0xc0, CHR 0x00] x" using sent_all s True by blast
    then have "ready cf (m\<lparr>mq_pingresp_received := False\<rparr>) x'"
      using r c_pingreq [OF i(1)] by (simp add: ready_def)
    then have "ready cf m' x'" using ready_keeps [OF reset_elapsed_quiet(1) [OF k]] by simp
    then show ?thesis using True reset_elapsed_quiet(2) [OF k] by (simp add: k ready_task_inv)
  next
    case False
    then show ?thesis using closing_tx [OF i(1) cp s i(3,2,4)] i(5) by (simp add: accepted_def)
  qed
  then have "post (mqtt_send_pingreq (traced io) (x, w)) (\<lambda>a. post (case a of (res, w') \<Rightarrow>
      if res \<noteq> SOCK_OK then Some (refuse_packet cf (traced io) EVENT_SEND_FAILED (st_value ST_SEND_PINGREQ) m w')
      else (case reset_elapsed cf (traced io) MSG_SEND_TIME (m\<lparr>mq_pingresp_received := False\<rparr>) w' of
          (m', w'') \<Rightarrow> Some (m'\<lparr>mq_state := ST_RECV_READY\<rparr>, w''))) (invs cf))"
    unfolding mqtt_send_pingreq_def mqtt_send_header_only_def using i(2) by (intro send_post) (simp_all only: prod.case, simp_all)
  then show ?thesis using ready_closing' [OF r] by (simp add: mqtt_state_send_pingreq_def)
qed

lemma send_publish_inv:
  assumes "task_inv cf m x" "mq_state m = ST_SEND_PUBLISH"
  shows "post (mqtt_state_send_publish cf (traced io) m (x, w)) (invs cf)"
proof -
  have r: "ready cf m x" using ready_of assms by simp
  then have i: "at cf (mq_endpoint m) READY x" "wr_open x" "\<not> wr_misused x" "mq_sock_connected m" "mq_mqtt_connected m"
    by (simp_all add: ready_def)
  let ?msg = "pb_message (mq_pub m)"
  let ?p = "concat (publish_pieces ?msg)"
  have cp: "client_packet cf (mq_endpoint m) READY ?p" by (auto simp: client_packet_def)
  let ?f = "\<lambda>res w'. (case pub_lock (traced io) m w' of
           (m1, w2) \<Rightarrow>
             let m2 = m1\<lparr>mq_pub := slot_sent res (ms_qos ?msg = QOS_1) (mq_pub m1)\<rparr> in
             if res \<noteq> SOCK_OK then Some (refuse_packet cf (traced io) EVENT_SEND_FAILED (st_value ST_SEND_PUBLISH) m2 w2)
             else Some ((add_elapsed_ms MSG_SEND_TIME m2)\<lparr>mq_state := ST_RECV_READY\<rparr>, w2))"
  have f: "post (?f res (x', w')) (invs cf)" if s: "sends ?p x res x'" for res x' w'
  proof -
    obtain m1 p1 where k: "pub_lock (traced io) m (x', w') = (m1, p1)" by (metis surj_pair)
    note q = slot_quiet [OF k]
    show ?thesis
    proof (cases "res = SOCK_OK")
      case True
      have "x' = tx ?p x" using sent_all s True by blast
      then have "ready cf m x'" using r c_publish [OF i(1)] by (simp add: ready_def)
      then have "ready cf m1 x'" using ready_keeps q by blast
      then show ?thesis using True q by (simp add: k Let_def ready_task_inv)
    next
      case False
      have "closing cf m x'" using closing_tx [OF i(1) cp s i(3,2,4)] i(5) by (simp add: accepted_def)
      then have "closing cf (m1\<lparr>mq_pub := q\<rparr>) x'" for q using closing_keeps [of m "m1\<lparr>mq_pub := q\<rparr>"] q by simp
      then show ?thesis using False q by (simp add: k Let_def)
    qed
  qed
  have "post (mqtt_send_publish cf (traced io) ?msg (x, w)) (\<lambda>a. post (case a of (res, w') \<Rightarrow> ?f res w') (invs cf))"
    using i(2) f by (intro send_publish_post) (simp_all only: prod.case)
  then show ?thesis by (simp add: mqtt_state_send_publish_def Let_def)
qed

lemma reconnect_handler_inv:
  assumes "task_inv cf m x" "mq_state m = ST_RECONNECT"
  shows "post (mqtt_state_reconnect cf (traced io) m (x, w)) (invs cf)"
proof -
  have i: "wr_open x" "\<not> wr_misused x" using assms by (auto simp: task_inv_def)
  obtain r x1 w1 where c: "mi_close (traced io) (x, w) = (r, x1, w1)" by (metis surj_pair)
  have "idle (m\<lparr>mq_sock_connected := False, mq_mqtt_connected := False\<rparr>) x1"
    using traced_close [OF c] i by (simp add: idle_def)
  then have "idle ((schedule_retry cf a (m\<lparr>mq_sock_connected := False, mq_mqtt_connected := False\<rparr>))\<lparr>mq_state := st\<rparr>) x1" for a st
    using retry_idle(1) [of cf a "m\<lparr>mq_sock_connected := False, mq_mqtt_connected := False\<rparr>" x1] by (simp add: idle_def)
  then show ?thesis by (simp add: mqtt_state_reconnect_def c idle_states)
qed

section \<open>The task\<close>

definition no_wire :: wire where
  "no_wire = \<lparr>wr_open = False, wr_received = [], wr_sent = [], wr_delivered = [], wr_misused = False\<rparr>"

text \<open>The states the task comes to, each step being one turn of its loop.\<close>

inductive task_runs :: "mqtt_conf \<Rightarrow> 'w mqtt_io \<Rightarrow> mqtt \<Rightarrow> 'w \<Rightarrow> mqtt \<times> 'w \<Rightarrow> bool"
  for cf io m w where
  runs_start: "init_mqtt_state cf io m w = Some s \<Longrightarrow> task_runs cf io m w s"
| runs_step: "task_runs cf io m w s \<Longrightarrow> task_running (fst s) \<Longrightarrow> task_step cf io s = Some s' \<Longrightarrow> task_runs cf io m w s'"

lemma state_idle: "state_inv st cf m x \<Longrightarrow> \<not> mq_sock_connected m \<Longrightarrow> \<not> mq_mqtt_connected m"
  by (cases st) (auto split: if_splits)

lemma discontinued_inv:
  assumes "task_inv cf m x"
  shows "task_inv cf (m\<lparr>mq_state := ST_DISCONTINUED\<rparr>) x"
  using assms state_ended [of "mq_state m" cf m x] state_idle [of "mq_state m" cf m x]
  by (auto simp: task_inv_def)

lemma task_running_iff: "task_running m \<longleftrightarrow> mq_state m \<noteq> ST_ERR_EXIT \<and> mq_state m \<noteq> ST_DISCONTINUED"
  by (cases "mq_state m") (simp_all add: task_running_def)

lemma handlers_inv:
  assumes "task_inv cf m x"
  shows "post (mqtt_state_handlers (mq_state m) cf (traced io) m (x, w)) (invs cf)"
proof -
  have idle: "idle m x" if "mq_state m \<in> {ST_INSTALL_PUSH, ST_GET_ENDPOINT, ST_SOCK_CONNECT}"
    using that assms by (auto simp: task_inv_def idle_def)
  show ?thesis
    using assms idle
    by (cases "mq_state m") (simp_all add: install_push_inv get_endpoint_inv sock_connect_inv send_connect_inv
      recv_connack_inv send_subscribe_inv recv_suback_inv recv_ready_inv recv_msg_inv send_pingreq_inv
      send_publish_inv reconnect_handler_inv)
qed

lemma task_step_inv:
  assumes "task_inv cf m (fst p)"
  shows "post (task_step cf (traced io) (m, p)) (invs cf)"
proof -
  obtain b p1 where c: "(if cf_has_continue cf then mi_continue (traced io) (mq_state m) (mq_error m) p else (True, p)) = (b, p1)"
    by (metis surj_pair)
  have p1: "fst p1 = fst p" using arg_cong [OF c, of "\<lambda>q. fst (snd q)"] by (simp split: if_splits)
  obtain w1 where p1': "p1 = (fst p, w1)" using p1 by (cases p1) simp
  have k: "keeps m (m\<lparr>mq_wait_left_ms := t\<rparr>)" for t by (simp add: keeps_def)
  show ?thesis
    unfolding task_step_def prod.case c Let_def
    by (intro post_if)
      (use assms in \<open>simp_all add: p1 discontinued_inv task_inv_keeps [OF k] p1' handlers_inv\<close>)
qed

lemma task_runs_inv:
  assumes "task_runs cf (traced io) m (no_wire, w) s"
  shows "invs cf s"
  using assms
proof (induction s)
  case (runs_start s)
  let ?p = "(no_wire, w)"
  define m0 where "m0 = m\<lparr>mq_elapsed_since_ms := 0, mq_endpoint := no_endpoint, mq_error := MQTT_ERR_OK,
    mq_state := ST_INSTALL_PUSH\<rparr>"
  define m1 where "m1 = (case mi_onboarded (traced io) ?p of (thing_id, ins_id, endpoint) \<Rightarrow>
    if cf_endpoint_given cf then m0\<lparr>mq_endpoint := cf_endpoint cf, mq_state := ST_SOCK_CONNECT\<rparr>
    else if thing_id \<noteq> [] \<and> thing_id = mi_author_id (traced io) ?p
    then m0\<lparr>mq_ins_id := ins_id, mq_endpoint := endpoint, mq_state := ST_SOCK_CONNECT\<rparr> else m0)"
  obtain m2 p2 where r: "reset_elapsed cf (traced io) 0 m1 ?p = (m2, p2)" by (metis surj_pair)
  note q = reset_elapsed_quiet [OF r]
  have "mq_state m1 = ST_INSTALL_PUSH \<or> mq_state m1 = ST_SOCK_CONNECT"
    by (simp add: m1_def m0_def split: prod.split)
  then have st: "mq_state m2 = ST_INSTALL_PUSH \<or> mq_state m2 = ST_SOCK_CONNECT" using q(1) by (simp add: keeps_def)
  have p2: "fst p2 = no_wire" using q(2) by simp
  have "s = (m2\<lparr>mq_remaining_message_size := 0, mq_message_qos := 0, mq_message_dup := False,
      mq_message_retain := False, mq_awaiting_suback := False, mq_pingresp_received := True,
      mq_sock_connected := False, mq_mqtt_connected := False,
      mq_retry_wait_ms := RETRY_WAIT_MIN_MS, mq_wait_left_ms := 0, mq_connect_failures := 0\<rparr>, p2)"
    using runs_start unfolding init_mqtt_state_def Let_def m0_def [symmetric] m1_def [symmetric] r by simp
  then show ?case using st p2 by (auto simp: no_wire_def idle_def intro!: idle_states)
next
  case (runs_step s s')
  have "post (task_step cf (traced io) (fst s, snd s)) (invs cf)"
    by (rule task_step_inv [OF runs_step.IH])
  then show ?case using postD [of _ "invs cf" s'] runs_step.hyps(3) by simp
qed

lemma task_loop_runs:
  assumes ret: "task_loop cf io s = Some s'" and r: "task_runs cf io m w s"
  shows "task_runs cf io m w s' \<and> \<not> task_running (fst s')"
proof -
  let ?P = "\<lambda>cf io s s'. task_runs cf io m w s \<longrightarrow> task_runs cf io m w s' \<and> \<not> task_running (fst s')"
  have "?P cf io s s'"
  proof (rule task_loop.raw_induct [where P = ?P, OF _ ret])
    fix f cf io s s'
    assume IH: "\<And>cf io s s'. f cf io s = Some s' \<Longrightarrow> ?P cf io s s'"
      and eq: "(if task_running (fst s) then task_step cf io s \<bind> f cf io else Some s) = Some s'"
    show "?P cf io s s'"
    proof (cases "task_running (fst s)")
      case True
      then obtain s1 where s1: "task_step cf io s = Some s1" "f cf io s1 = Some s'"
        using eq by (auto simp: bind_eq_Some_conv)
      show ?thesis using IH [OF s1(2)] runs_step [OF _ True s1(1)] by blast
    qed (use eq in simp)
  qed
  with r show ?thesis by simp
qed

end
