(* ===== verification/Mqtt_Live.thy ===== *)
theory Mqtt_Live
  imports Mqtt_Publish Mqtt_Client
begin

text \<open>
  The task makes progress: from whatever state it comes to, its next turn returns, without a write
  out of the buffer and without a look at a topic its caller has taken back.  It rests on what is
  documented of the socket, and on the callers of \<open>kii_mqtt_publish\<close> doing with the slot only what
  that function does.
\<close>

section \<open>Total correctness\<close>

definition sure :: "'a option \<Rightarrow> ('a \<Rightarrow> bool) \<Rightarrow> bool" where
  "sure f Q \<longleftrightarrow> (\<exists>a. f = Some a \<and> Q a)"

lemma sure_simps [simp]:
  "sure (Some a) Q = Q a" "\<not> sure None Q" "sure (f \<bind> g) Q = sure f (\<lambda>a. sure (g a) Q)"
  by (auto simp: sure_def bind_eq_Some_conv)

lemma sure_mono: "sure f P \<Longrightarrow> (\<And>a. P a \<Longrightarrow> Q a) \<Longrightarrow> sure f Q"
  by (auto simp: sure_def)

lemma sureD: "sure f Q \<Longrightarrow> f = Some a \<Longrightarrow> Q a"
  by (simp add: sure_def)

section \<open>What is relied on\<close>

text \<open>
  A send that succeeds takes something, and no more than it is given; a receive gives no more than
  is asked for; and between two looks of the task at the slot its callers took some steps.
\<close>

definition mqtt_io_ok :: "'w mqtt_io \<Rightarrow> bool" where
  "mqtt_io_ok io \<longleftrightarrow>
     (\<forall>s w n w'. s \<noteq> [] \<longrightarrow> mi_send io s w = ((SOCK_OK, n), w') \<longrightarrow> 0 < n \<and> n \<le> length s) \<and>
     (\<forall>n w. length (snd (fst (mi_recv io n w))) \<le> n) \<and>
     (\<forall>p w. caller_step\<^sup>*\<^sup>* p (fst (mi_others io p w)))"

lemma ok_send: "mqtt_io_ok io \<Longrightarrow> s \<noteq> [] \<Longrightarrow> mi_send io s w = ((SOCK_OK, n), w') \<Longrightarrow> 0 < n \<and> n \<le> length s"
  unfolding mqtt_io_ok_def by blast

lemma ok_recv: "mqtt_io_ok io \<Longrightarrow> mi_recv io n w = ((r, s), w') \<Longrightarrow> length s \<le> n"
  unfolding mqtt_io_ok_def by (metis fst_conv snd_conv)

lemma ok_others: "mqtt_io_ok io \<Longrightarrow> mi_others io p w = (p', w') \<Longrightarrow> caller_step\<^sup>*\<^sup>* p p'"
  unfolding mqtt_io_ok_def by (metis fst_conv)

section \<open>The loops return\<close>

lemma send_loop_sure:
  assumes "mqtt_io_ok io"
  shows "sure (send_loop io data i e w) (\<lambda>_. True)"
proof (induction "length data - i" arbitrary: i e w rule: less_induct)
  case less
  show ?case
  proof (cases "i < length data")
    case True
    obtain r n w1 where s: "mi_send io (drop i data) w = ((r, n), w1)" by (metis surj_pair)
    show ?thesis
    proof (cases "r = SOCK_OK")
      case ok: True
      then have "0 < n" using ok_send [OF assms _ s [unfolded ok]] True by simp
      then have "length data - (i + n) < length data - i" using True by simp
      then show ?thesis using less True ok by (subst send_loop.simps) (simp add: s)
    next
      case False
      then show ?thesis using True by (subst send_loop.simps) (simp add: s)
    qed
  next
    case False
    then show ?thesis by (subst send_loop.simps) simp
  qed
qed

lemma out_flush_sure:
  "mqtt_io_ok io \<Longrightarrow> sure (mqtt_out_flush io out w) (\<lambda>(out', w'). ot_used out' = [])"
  using send_loop_sure [of io "ot_used out" 0 SOCK_OK w]
  by (auto simp: mqtt_out_flush_def mqtt_send_all_def elim!: sure_mono)

lemma out_put_sure:
  assumes "mqtt_io_ok io" "0 < sz" "length (ot_used out) \<le> sz"
  shows "sure (mqtt_out_put io sz data out w) (\<lambda>(out', w'). length (ot_used out') \<le> sz)"
  using assms(3)
proof (induction "length data" arbitrary: data out w rule: less_induct)
  case less
  show ?case
  proof (cases "0 < length data \<and> ot_res out = SOCK_OK")
    case True
    have "sure (if length (ot_used out) = sz then mqtt_out_flush io out w else Some (out, w))
        (\<lambda>(out', w'). length (ot_used out') < sz)"
      using out_flush_sure [OF assms(1), of out w] assms(2) less.prems by (auto elim!: sure_mono)
    then obtain out1 w1 where
      o: "(if length (ot_used out) = sz then mqtt_out_flush io out w else Some (out, w)) = Some (out1, w1)"
      and l: "length (ot_used out1) < sz"
      by (auto simp: sure_def)
    define n where "n = (if sz - length (ot_used out1) > length data then length data else sz - length (ot_used out1))"
    have "0 < n" "n \<le> length data" "n \<le> sz - length (ot_used out1)" using True l by (auto simp: n_def)
    then have "length (drop n data) < length data" "length (ot_used (out1\<lparr>ot_used := ot_used out1 @ take n data\<rparr>)) \<le> sz"
      using True l by simp_all
    from less.hyps [OF this] show ?thesis
      using True by (subst mqtt_out_put.simps) (simp add: o n_def [symmetric] Let_def)
  next
    case False
    then show ?thesis using less.prems by (subst mqtt_out_put.simps) auto
  qed
qed

lemma out_puts_sure:
  "mqtt_io_ok io \<Longrightarrow> 0 < sz \<Longrightarrow> length (ot_used out) \<le> sz \<Longrightarrow> sure (mqtt_out_puts io sz ss out w) (\<lambda>_. True)"
proof (induction ss arbitrary: out w)
  case (Cons s ss)
  then show ?case by (auto intro!: sure_mono [OF out_put_sure])
qed simp

lemma send_publish_sure:
  "mqtt_io_ok io \<Longrightarrow> 0 < buffer_size cf \<Longrightarrow> sure (mqtt_send_publish cf io m w) (\<lambda>_. True)"
  unfolding mqtt_send_publish_def buffer_size_def
  by (auto intro!: sure_mono [OF out_puts_sure] sure_mono [OF out_flush_sure])

lemma header_only_sure: "mqtt_io_ok io \<Longrightarrow> sure (mqtt_send_header_only io c w) (\<lambda>_. True)"
  unfolding mqtt_send_header_only_def by (rule send_loop_sure)

lemma header_rest_sure: "mqtt_io_ok io \<Longrightarrow> sure (header_rest_loop io k buff w) (\<lambda>_. True)"
proof (induction k arbitrary: buff w)
  case (Suc k)
  obtain r s w1 where "mi_recv io 1 w = ((r, s), w1)" by (metis surj_pair)
  then show ?case using Suc ok_recv [OF Suc.prems, of 1 w r s w1] by (cases "length s > 1") auto
qed simp

lemma header_byte1_sure: "mqtt_io_ok io \<Longrightarrow> sure (recv_fixed_header_byte1 io w) (\<lambda>_. True)"
proof -
  assume ok: "mqtt_io_ok io"
  obtain r s w1 where "mi_recv io 1 w = ((r, s), w1)" by (metis surj_pair)
  then show ?thesis using ok_recv [OF ok, of 1 w r s w1] by (auto simp: recv_fixed_header_byte1_def)
qed

lemma fixed_header_rest_sure: "mqtt_io_ok io \<Longrightarrow> sure (recv_fixed_header_rest io w) (\<lambda>_. True)"
  unfolding recv_fixed_header_rest_def by (auto intro: sure_mono [OF header_rest_sure])

lemma fixed_header_sure: "mqtt_io_ok io \<Longrightarrow> sure (recv_fixed_header io w) (\<lambda>_. True)"
  unfolding recv_fixed_header_def
  by (auto intro!: sure_mono [OF header_byte1_sure] sure_mono [OF fixed_header_rest_sure] split: option.split)

lemma recv_loop_sure: "mqtt_io_ok io \<Longrightarrow> sure (recv_loop io n got res w) (\<lambda>_. True)"
proof (induction io n got res w rule: recv_loop.induct)
  case (1 io n got res w)
  obtain r s w1 where s: "mi_recv io (n - length got) w = ((r, s), w1)" by (metis surj_pair)
  show ?case
    using 1 ok_recv [OF "1.prems" s] by (subst recv_loop.simps) (auto simp: s)
qed

lemma remaining_sure: "mqtt_io_ok io \<Longrightarrow> sure (recv_remaining io n w) (\<lambda>_. True)"
  by (simp add: recv_remaining_def recv_loop_sure)

lemma trash_loop_sure: "mqtt_io_ok io \<Longrightarrow> sure (trash_loop io n i w) (\<lambda>_. True)"
proof (induction io n i w rule: trash_loop.induct)
  case (1 io n i w)
  define k where "k = (if n - i > 256 then 256 else n - i)"
  obtain r s w1 where s: "mi_recv io k w = ((r, s), w1)" by (metis surj_pair)
  show ?case
    using 1 ok_recv [OF "1.prems" s] s by (subst trash_loop.simps) (auto simp: k_def Let_def)
qed

lemma trash_sure: "mqtt_io_ok io \<Longrightarrow> sure (recv_remaining_trash io n w) (\<lambda>_. True)"
  by (simp add: recv_remaining_trash_def trash_loop_sure)

lemma msg_trash_sure: "mqtt_io_ok io \<Longrightarrow> sure (recv_msg_trash io m w) (\<lambda>_. True)"
  unfolding recv_msg_trash_def trash_id_def trash_payload_def
  by (auto simp: Let_def intro!: sure_mono [OF remaining_sure] sure_mono [OF trash_sure] split: option.split)

section \<open>The slot and the state\<close>

definition calm :: "mqtt \<Rightarrow> bool" where
  "calm m \<longleftrightarrow> slot_ok (mq_pub m) \<and> pb_state (mq_pub m) \<noteq> PUB_SENDING"

text \<open>The states with a connection on which CONNECT was sent, from the buffer.\<close>

definition linked :: "mqtt_task_state set" where
  "linked = {ST_RECV_CONNACK, ST_SEND_SUBSCRIBE, ST_RECV_SUBACK, ST_RECV_READY, ST_RECV_MSG, ST_SEND_PINGREQ, ST_SEND_PUBLISH}"

definition slot_inv :: "mqtt \<Rightarrow> bool" where
  "slot_inv m \<longleftrightarrow>
     slot_ok (mq_pub m) \<and> (mq_state m = ST_SEND_PUBLISH \<longrightarrow> pb_state (mq_pub m) = PUB_SENDING) \<and>
     (pb_state (mq_pub m) = PUB_SENDING \<longrightarrow> mq_state m = ST_SEND_PUBLISH \<or> mq_state m = ST_DISCONTINUED)"

definition live_inv :: "mqtt_conf \<Rightarrow> mqtt \<Rightarrow> bool" where
  "live_inv cf m \<longleftrightarrow> slot_inv m \<and> (mq_state m \<in> linked \<longrightarrow> 0 < buffer_size cf)"

abbreviation lives :: "mqtt_conf \<Rightarrow> mqtt \<times> 'w \<Rightarrow> bool" where
  "lives cf s \<equiv> live_inv cf (fst s)"

lemma calm_live:
  "calm m \<Longrightarrow> mq_state m \<noteq> ST_SEND_PUBLISH \<Longrightarrow> (mq_state m \<in> linked \<longrightarrow> 0 < buffer_size cf) \<Longrightarrow> live_inv cf m"
  by (simp add: calm_def live_inv_def slot_inv_def)

lemma live_calm:
  "live_inv cf m \<Longrightarrow> mq_state m \<noteq> ST_SEND_PUBLISH \<Longrightarrow> mq_state m \<noteq> ST_DISCONTINUED \<Longrightarrow> calm m"
  by (auto simp: calm_def live_inv_def slot_inv_def)

lemma calm_update [simp]:
  "calm (m\<lparr>mq_state := st\<rparr>) = calm m" "calm (m\<lparr>mq_error := er\<rparr>) = calm m" "calm (m\<lparr>mq_ins_id := i\<rparr>) = calm m"
  "calm (m\<lparr>mq_endpoint := ep\<rparr>) = calm m" "calm (m\<lparr>mq_connect_failures := k\<rparr>) = calm m"
  "calm (m\<lparr>mq_sock_connected := b\<rparr>) = calm m" "calm (m\<lparr>mq_mqtt_connected := b\<rparr>) = calm m"
  "calm (m\<lparr>mq_pingresp_received := b\<rparr>) = calm m" "calm (m\<lparr>mq_awaiting_suback := b\<rparr>) = calm m"
  "calm (m\<lparr>mq_retry_wait_ms := t\<rparr>) = calm m" "calm (m\<lparr>mq_wait_left_ms := t\<rparr>) = calm m"
  "calm (add_elapsed_ms t m) = calm m" "calm (schedule_retry cf a m) = calm m" "calm (publish_header c n m) = calm m"
  by (simp_all add: calm_def add_elapsed_ms_def schedule_retry_def publish_header_def Let_def)

lemma state_update [simp]:
  "mq_state (add_elapsed_ms t m) = mq_state m" "mq_state (schedule_retry cf a m) = mq_state m"
  by (simp_all add: add_elapsed_ms_def schedule_retry_def Let_def)

lemma reset_elapsed_calm:
  "reset_elapsed cf io t m w = (m', w') \<Longrightarrow> mq_pub m' = mq_pub m \<and> mq_state m' = mq_state m"
  by (auto simp: reset_elapsed_def split: if_splits prod.splits)

lemma reset_calm [simp]:
  "mq_pub (fst (reset_elapsed cf io t m w)) = mq_pub m"
  "calm (fst (reset_elapsed cf io t m w)) = calm m" "mq_state (fst (reset_elapsed cf io t m w)) = mq_state m"
  using reset_elapsed_calm [of cf io t m w] by (simp_all add: calm_def prod_eq_iff)

lemma refused_lives [simp]: "lives cf (refuse_packet cf io e d m w) = calm m"
  using reset_calm [of cf io 0 m "tell_event cf io e d w"]
  by (auto simp: refuse_packet_def case_prod_beta live_inv_def slot_inv_def calm_def linked_def)

lemma reconnect_lives [simp]: "lives cf (reconnect_after cf io e d m w) = calm m"
  by (auto simp: reconnect_after_def live_inv_def slot_inv_def calm_def linked_def)

lemma calm_states:
  "calm m \<Longrightarrow> mq_state m \<notin> linked \<Longrightarrow> live_inv cf m"
  by (rule calm_live) (auto simp: linked_def)

section \<open>The lock\<close>

lemma pub_lock_calm:
  assumes "mqtt_io_ok io" "pub_lock io m w = (m', w')"
  shows "mq_state m' = mq_state m" "slot_ok (mq_pub m) \<Longrightarrow> slot_ok (mq_pub m')" "calm m \<Longrightarrow> calm m'"
    "pb_state (mq_pub m) = PUB_SENDING \<Longrightarrow> mq_pub m' = mq_pub m"
proof -
  obtain p where p: "mi_others io (mq_pub m) w = (p, w')" "m' = m\<lparr>mq_pub := p\<rparr>"
    using assms(2) by (auto simp: pub_lock_def split: prod.splits)
  note c = callers [OF ok_others [OF assms(1) p(1)]]
  show "mq_state m' = mq_state m" "slot_ok (mq_pub m) \<Longrightarrow> slot_ok (mq_pub m')" "calm m \<Longrightarrow> calm m'"
    "pb_state (mq_pub m) = PUB_SENDING \<Longrightarrow> mq_pub m' = mq_pub m"
    using c by (simp_all add: p(2) calm_def)
qed

lemma publish_calm:
  assumes "mqtt_io_ok io" "calm m"
  shows "publish_queued cf io m w = (b, m', w') \<Longrightarrow> calm m' \<and> mq_state m' = mq_state m"
    "publish_awaits_puback cf io m w = (b, m', w') \<Longrightarrow> calm m' \<and> mq_state m' = mq_state m"
    "publish_acked cf io i m w = (b, m', w') \<Longrightarrow> calm m' \<and> mq_state m' = mq_state m"
    "publish_reconnected cf io m w = (m', w') \<Longrightarrow> calm m' \<and> mq_state m' = mq_state m"
    "publish_close cf io m w = (m', w') \<Longrightarrow> calm m' \<and> mq_state m' = mq_state m"
proof -
  obtain m1 w1 where l: "pub_lock io m w = (m1, w1)" by (metis surj_pair)
  note k = pub_lock_calm(1,3) [OF assms(1) l]
  have c: "calm m1" "mq_state m1 = mq_state m" using k assms(2) by simp_all
  show "publish_queued cf io m w = (b, m', w') \<Longrightarrow> calm m' \<and> mq_state m' = mq_state m"
    "publish_awaits_puback cf io m w = (b, m', w') \<Longrightarrow> calm m' \<and> mq_state m' = mq_state m"
    using c assms(2) by (auto simp: publish_queued_def publish_awaits_puback_def l split: if_splits)
  have "calm (m1\<lparr>mq_pub := snd (slot_acked i (mq_pub m1))\<rparr>)"
    using c(1) slot_acked_ok [of "mq_pub m1" i] slot_not_sending(2) [of "mq_pub m1" i] by (simp add: calm_def)
  then show "publish_acked cf io i m w = (b, m', w') \<Longrightarrow> calm m' \<and> mq_state m' = mq_state m"
    using c assms(2) by (auto simp: publish_acked_def l split: if_splits prod.splits)
  have "calm (m1\<lparr>mq_pub := slot_reconnected (mq_pub m1)\<rparr>)"
    using c(1) slot_reconnected_ok [of "mq_pub m1"] slot_not_sending(1) [of "mq_pub m1"] by (simp add: calm_def)
  then show "publish_reconnected cf io m w = (m', w') \<Longrightarrow> calm m' \<and> mq_state m' = mq_state m"
    using c assms(2) by (auto simp: publish_reconnected_def l split: if_splits)
  have "calm (m1\<lparr>mq_pub := slot_close (mq_pub m1)\<rparr>)"
    using c(1) slot_close_ok [of "mq_pub m1"] by (auto simp: calm_def slot_close_def Let_def)
  moreover have "calm (m\<lparr>mq_pub := (mq_pub m)\<lparr>pb_open := False\<rparr>\<rparr>)"
    using assms(2) by (auto simp: calm_def slot_ok_def)
  ultimately show "publish_close cf io m w = (m', w') \<Longrightarrow> calm m' \<and> mq_state m' = mq_state m"
    using c by (auto simp: publish_close_def l split: if_splits)
qed

lemma publish_take_calm:
  assumes "mqtt_io_ok io" "calm m" "publish_take cf io m w = (t, m', w')"
  shows "mq_state m' = mq_state m" "\<not> t \<Longrightarrow> calm m'" "t \<Longrightarrow> slot_ok (mq_pub m') \<and> pb_state (mq_pub m') = PUB_SENDING"
proof -
  obtain m1 w1 where l: "pub_lock io m w = (m1, w1)" by (metis surj_pair)
  have c: "calm m1" "mq_state m1 = mq_state m" using pub_lock_calm(1,3) [OF assms(1) l] assms(2) by simp_all
  have s: "slot_ok (snd (slot_take (mq_pub m1)))" using c(1) slot_take_ok by (simp add: calm_def)
  show "mq_state m' = mq_state m" "\<not> t \<Longrightarrow> calm m'" "t \<Longrightarrow> slot_ok (mq_pub m') \<and> pb_state (mq_pub m') = PUB_SENDING"
    using c s assms by (auto simp: publish_take_def l slot_take_def Let_def split: if_splits)
qed

section \<open>Every handler returns\<close>

lemma request_failed_live:
  "calm m \<Longrightarrow> mq_state m \<notin> linked \<Longrightarrow> sure (request_failed cf io e er res m w) (lives cf)"
  by (auto simp: request_failed_def Let_def linked_def intro!: calm_states)

lemma install_push_live:
  assumes "calm m" "mq_state m = ST_INSTALL_PUSH"
  shows "sure (mqtt_state_install_push cf io m w) (lives cf)"
  using assms
  by (auto simp: mqtt_state_install_push_def linked_def Let_def intro!: calm_states request_failed_live split: prod.split)

lemma get_endpoint_live:
  assumes "calm m" "mq_state m = ST_GET_ENDPOINT"
  shows "sure (mqtt_state_get_endpoint cf io m w) (lives cf)"
proof -
  let ?w = "mi_delay io WAIT_MS w"
  obtain res m' w' where r: "(if mi_renews_by_onboarding io ?w then onboard_for_endpoint io m ?w
      else (case mi_get_endpoint io (mq_ins_id m) ?w of
        ((res, endpoint), w2) \<Rightarrow> (res, m\<lparr>mq_endpoint := endpoint\<rparr>, w2))) = (res, m', w')"
    by (metis surj_pair)
  then have "calm m' \<and> mq_state m' = ST_GET_ENDPOINT"
    using assms by (auto simp: onboard_for_endpoint_def split: if_splits prod.splits)
  then show ?thesis
    by (auto simp: mqtt_state_get_endpoint_def r Let_def linked_def intro!: calm_states request_failed_live)
qed

lemma sock_connect_live:
  assumes "calm m" "mq_state m = ST_SOCK_CONNECT"
  shows "sure (mqtt_state_sock_connect cf io m w) (lives cf)"
  using assms
  by (auto simp: mqtt_state_sock_connect_def linked_def Let_def intro!: calm_states split: prod.split)

lemma send_connect_live:
  assumes "mqtt_io_ok io" "calm m"
  shows "sure (mqtt_state_send_connect cf io m w) (lives cf)"
proof (cases "cf_buffer cf = None \<or> cf_buffer cf = Some 0 \<or> \<not> connect_fits cf (mq_endpoint m) (buffer_size cf)")
  case True
  then show ?thesis
    using assms(2) by (auto simp: mqtt_state_send_connect_def buffer_size_def linked_def intro!: calm_states)
next
  case False
  then have b: "connect_fits cf (mq_endpoint m) (buffer_size cf)" "0 < buffer_size cf" "cf_buffer cf = Some (buffer_size cf)"
    by (auto simp: buffer_size_def)
  have s: "sure (mqtt_send_connect cf io (mq_endpoint m) w) (\<lambda>_. True)"
    using b connect_built [OF b(1)] send_loop_sure [OF assms(1)] by (simp add: mqtt_send_connect_def)
  have "lives cf ((fst (reset_elapsed cf io 0 m w'))\<lparr>mq_state := ST_RECV_CONNACK\<rparr>, w'')" for w' w''
    using assms(2) b(2) by (auto intro!: calm_live)
  then show ?thesis
    using b assms(2) sure_mono [OF s]
    by (auto simp: mqtt_state_send_connect_def case_prod_beta intro!: sure_mono [OF s])
qed

lemma credentials_refused_live:
  assumes "calm m"
  shows "sure (credentials_refused cf io m w) (lives cf)"
  using assms
  by (auto simp: credentials_refused_def linked_def Let_def intro!: calm_states split: prod.split option.split)

lemma connack_live:
  assumes "mqtt_io_ok io" "calm m" "0 < buffer_size cf"
  shows "sure (connack_received cf io b m w) (lives cf)"
proof -
  let ?m = "m\<lparr>mq_pingresp_received := True, mq_mqtt_connected := True\<rparr>"
  have "lives cf (m'\<lparr>mq_state := ST_SEND_SUBSCRIBE\<rparr>, w')" if "publish_reconnected cf io ?m w1 = (m', w')" for w1 m' w'
    using publish_calm(4) [OF assms(1) _ that] assms(2,3) by (auto intro!: calm_live)
  then show ?thesis
    using assms(2) credentials_refused_live [OF assms(2)]
    by (auto simp: connack_received_def linked_def Let_def intro!: calm_states split: prod.split)
qed

lemma recv_connack_live:
  assumes "mqtt_io_ok io" "calm m" "0 < buffer_size cf"
  shows "sure (mqtt_state_recv_connack cf io m w) (lives cf)"
  unfolding mqtt_state_recv_connack_def using assms
  by (auto intro!: sure_mono [OF fixed_header_sure] sure_mono [OF remaining_sure] connack_live split: option.split)

lemma send_subscribe_live:
  assumes "mqtt_io_ok io" "calm m" "0 < buffer_size cf"
  shows "sure (mqtt_state_send_subscribe cf io m w) (lives cf)"
proof (cases "subscribe_fits (mq_endpoint m) (buffer_size cf)")
  case True
  have s: "sure (mqtt_send_subscribe cf io (ep_topic (mq_endpoint m)) (cf_qos cf) w) (\<lambda>_. True)"
    using subscribe_built [OF True] send_loop_sure [OF assms(1)] by (simp add: mqtt_send_subscribe_def buffer_size_def)
  have "live_inv cf (m\<lparr>mq_state := ST_RECV_SUBACK\<rparr>)" using assms by (auto intro!: calm_live)
  then show ?thesis
    using True assms by (auto simp: mqtt_state_send_subscribe_def buffer_size_def intro!: sure_mono [OF s])
next
  case False
  then show ?thesis using assms
    by (auto simp: mqtt_state_send_subscribe_def buffer_size_def linked_def intro!: calm_states)
qed

lemma suback_live:
  assumes "calm m" "0 < buffer_size cf"
  shows "sure (suback_received cf io c b m w) (lives cf)"
  using assms by (auto simp: suback_received_def Let_def linked_def intro!: calm_live)

lemma recv_suback_live:
  assumes "mqtt_io_ok io" "calm m" "0 < buffer_size cf"
  shows "sure (mqtt_state_recv_suback cf io m w) (lives cf)"
proof -
  let ?m = "m\<lparr>mq_awaiting_suback := False\<rparr>"
  have "calm ?m" using assms by simp
  moreover have "live_inv cf ((publish_header c n ?m)\<lparr>mq_awaiting_suback := True, mq_state := ST_RECV_MSG\<rparr>)" for c n
    using assms by (intro calm_live) simp_all
  ultimately show ?thesis
    unfolding mqtt_state_recv_suback_def Let_def using assms
    by (auto simp del: calm_update intro!: sure_mono [OF fixed_header_sure] sure_mono [OF remaining_sure] suback_live split: option.split)
qed

text \<open>Waiting ends once the receive timeout of the socket has passed.\<close>

lemma wait_turn:
  fixes waited turn bound :: u32
  assumes "waited < bound" "turn = (if bound > 0 \<and> bound - waited < RECV_WAIT_TURN_MS then bound - waited else RECV_WAIT_TURN_MS)"
    and "waited' = (if waited > UINT32_MAX - turn then UINT32_MAX else waited + turn)" "\<not> waited' \<ge> bound"
  shows "unat bound - unat waited' < unat bound - unat waited"
proof -
  have u: "unat (a :: u32) < 2 ^ 32" for a using unsigned_less [of a, where 'a = nat] by simp
  have b: "unat waited < unat bound" using assms(1) by (simp add: word_less_nat_alt)
  have t: "0 < unat turn" "unat turn \<le> unat bound - unat waited"
    using assms(1,2) b by (auto simp: RECV_WAIT_TURN_MS_def word_less_nat_alt unat_sub word_le_nat_alt split: if_splits)
  have "unat waited + unat turn \<le> unat bound" using t b by simp
  then have l: "unat waited + unat turn < 2 ^ 32" using u [of bound] by simp
  then have "unat (waited + turn) = unat waited + unat turn" by (simp add: unat_word_ariths)
  moreover have "waited \<le> UINT32_MAX - turn"
    using l u [of turn] by (simp add: word_le_nat_alt unat_sub)
  ultimately have "unat waited' = unat waited + unat turn" using assms(3) by (simp add: leD)
  then show ?thesis using t b by simp
qed

lemma wait_live:
  assumes "mqtt_io_ok io" "calm m" "0 < to_recv_ms cf"
  shows "sure (wait_for_packet cf io m w) (\<lambda>(r, m', w'). calm m' \<and> mq_state m' = mq_state m)"
proof -
  have "sure (wait_for_packet_loop cf io waited m w) (\<lambda>(r, m', w'). calm m' \<and> mq_state m' = st)"
    if "waited < to_recv_ms cf" "calm m" "mq_state m = st" for waited m w st
    using that
  proof (induction "unat (to_recv_ms cf) - unat waited" arbitrary: waited m w rule: less_induct)
    case less
    define turn where "turn = (if to_recv_ms cf > 0 \<and> to_recv_ms cf - waited < RECV_WAIT_TURN_MS
      then to_recv_ms cf - waited else RECV_WAIT_TURN_MS)"
    define waited' where "waited' = (if waited > UINT32_MAX - turn then UINT32_MAX else waited + turn)"
    obtain a w1 where a: "mi_recv_wait io turn w = (a, w1)" by (metis surj_pair)
    obtain q m2 w2 where q: "publish_queued cf io m w1 = (q, m2, w2)" by (metis surj_pair)
    have c: "calm m2" "mq_state m2 = st" using publish_calm(1) [OF assms(1) less.prems(2) q] less.prems(3) by simp_all
    have IH: "sure (wait_for_packet_loop cf io waited' m2 w2) (\<lambda>(r, m', w'). calm m' \<and> mq_state m' = st)"
      if "\<not> waited' \<ge> to_recv_ms cf"
      using that wait_turn [OF less.prems(1) turn_def waited'_def that] c by (intro less.hyps) simp_all
    have "wait_for_packet_loop cf io waited m w =
        (if a then Some ((True, waited), m, w1)
         else if q \<or> (to_recv_ms cf > 0 \<and> waited' \<ge> to_recv_ms cf) then Some ((False, waited'), m2, w2)
         else wait_for_packet_loop cf io waited' m2 w2)"
      by (subst wait_for_packet_loop.simps) (simp only: Let_def turn_def [symmetric] a prod.case waited'_def [symmetric] q)
    then show ?case using IH c less.prems(2,3) assms(3) by simp
  qed
  from this [OF _ assms(2) refl] assms(3) show ?thesis by (simp add: wait_for_packet_def)
qed

lemma packet_arrived_live:
  assumes "mqtt_io_ok io" "calm m" "0 < buffer_size cf" "mq_state m = ST_RECV_READY"
  shows "sure (packet_arrived cf io c n m w) (lives cf)"
proof -
  obtain a m1 w1 where a: "(if code c = 0x40 \<and> n = 2 then publish_awaits_puback cf io m w else (False, m, w)) = (a, m1, w1)"
    by (metis surj_pair)
  then have m1: "calm m1" "mq_state m1 = ST_RECV_READY"
    using publish_calm(2) [OF assms(1,2), of cf w a m1 w1] assms by (auto split: if_splits)
  have acked: "sure (case publish_acked cf io i m1 w2 of (acked, m3, w3) \<Rightarrow>
      if \<not> acked then Some (refuse_packet cf io e d m3 w3) else Some (add_elapsed_ms t m3, w3)) (lives cf)" for i w2 e d t
  proof -
    obtain b m3 w3 where k: "publish_acked cf io i m1 w2 = (b, m3, w3)" by (metis surj_pair)
    then show ?thesis using publish_calm(3) [OF assms(1) m1(1) k] m1 assms(3) by (auto intro!: calm_live)
  qed
  have "live_inv cf (add_elapsed_ms t ((publish_header c n m)\<lparr>mq_state := ST_RECV_MSG\<rparr>))"
    "live_inv cf (add_elapsed_ms t (m\<lparr>mq_pingresp_received := True\<rparr>))" for t
    using assms by (auto intro!: calm_live)
  then show ?thesis
    unfolding packet_arrived_def a prod.case
    using m1 acked assms(1) by (auto intro!: sure_mono [OF remaining_sure] split: option.split)
qed

lemma nothing_arrived_live:
  assumes "mqtt_io_ok io" "calm m" "0 < buffer_size cf" "mq_state m = ST_RECV_READY"
  shows "sure (nothing_arrived cf io m w) (lives cf)"
proof -
  obtain q m' w' where q: "publish_queued cf io (add_elapsed_ms (to_recv_ms cf) m) w = (q, m', w')" by (metis surj_pair)
  then show ?thesis
    using publish_calm(1) [OF assms(1) _ q] assms by (auto simp: nothing_arrived_def intro!: calm_live)
qed

lemma recv_packet_live:
  assumes "mqtt_io_ok io" "calm m" "0 < buffer_size cf" "mq_state m = ST_RECV_READY"
  shows "sure (recv_packet cf io m w) (lives cf)"
  unfolding recv_packet_def
  using assms packet_arrived_live [OF assms] nothing_arrived_live [OF assms]
  by (auto intro!: sure_mono [OF header_byte1_sure] sure_mono [OF fixed_header_rest_sure] split: option.split prod.split)

lemma recv_ready_live:
  assumes "mqtt_io_ok io" "calm m" "0 < buffer_size cf" "mq_state m = ST_RECV_READY"
    and "cf_has_lock cf \<Longrightarrow> cf_has_recv_wait cf \<Longrightarrow> 0 < to_recv_ms cf"
  shows "sure (mqtt_state_recv_ready cf io m w) (lives cf)"
proof -
  obtain e w1 where 1: "(if cf_keep_alive cf > 0 then elapsed_ms cf io m w else (0, w)) = (e, w1)" by (metis surj_pair)
  obtain t m2 w2 where 2: "publish_take cf io m w1 = (t, m2, w2)" by (metis surj_pair)
  note k = publish_take_calm [OF assms(1,2) 2]
  have ping: "live_inv cf (m\<lparr>mq_state := ST_SEND_PINGREQ\<rparr>)" using assms by (auto intro!: calm_live)
  have pub: "t \<Longrightarrow> live_inv cf (m2\<lparr>mq_state := ST_SEND_PUBLISH\<rparr>)" using k assms by (auto simp: live_inv_def slot_inv_def)
  have wait: "sure (if cf_has_lock cf \<and> cf_has_recv_wait cf then wait_for_packet cf io m2 w2 else Some ((True, 0), m2, w2))
      (\<lambda>(r, m', w'). calm m' \<and> mq_state m' = ST_RECV_READY)" if "\<not> t"
    using wait_live [OF assms(1) k(2) assms(5)] that k assms(4) by auto
  have fin: "sure (if \<not> b then Some (add_elapsed_ms n m3, w3) else recv_packet cf io m3 w3) (lives cf)"
    if "calm m3" "mq_state m3 = ST_RECV_READY" for b n m3 w3
    using recv_packet_live [OF assms(1) that(1) assms(3) that(2)] that assms(3) by (auto intro!: calm_live)
  have "sure ((if cf_has_lock cf \<and> cf_has_recv_wait cf then wait_for_packet cf io m2 w2 else Some ((True, 0), m2, w2)) \<bind>
      (\<lambda>((b, n), m3, w3). if \<not> b then Some (add_elapsed_ms n m3, w3) else recv_packet cf io m3 w3)) (lives cf)" if "\<not> t"
    unfolding sure_simps(3) by (rule sure_mono [OF wait [OF that]]) (use fin in auto)
  then show ?thesis
    unfolding mqtt_state_recv_ready_def 1 prod.case 2
    using ping pub by (cases "cf_keep_alive cf > 0 \<and> e > thresh_ms cf"; cases t) simp_all
qed

lemma acknowledge_live:
  assumes "mqtt_io_ok io" "calm m" "0 < buffer_size cf"
  shows "sure (acknowledge cf io pid m w) (lives cf)"
proof -
  have "live_inv cf (m\<lparr>mq_state := (if mq_awaiting_suback m then ST_RECV_SUBACK else ST_RECV_READY)\<rparr>)"
    using assms by (intro calm_live) simp_all
  then show ?thesis
    unfolding acknowledge_def mqtt_send_puback_def
    using assms by (cases pid) (auto intro!: sure_mono [OF send_loop_sure])
qed

lemma recv_msg_live:
  assumes "mqtt_io_ok io" "calm m" "0 < buffer_size cf"
  shows "sure (mqtt_state_recv_msg cf io m w) (lives cf)"
proof -
  have ack: "sure (acknowledge cf io pid (add_elapsed_ms t m) w) (lives cf)" for pid t w
    using assms by (intro acknowledge_live) simp_all
  show ?thesis
    unfolding mqtt_state_recv_msg_def Let_def using assms ack
    by (auto intro!: sure_mono [OF remaining_sure] sure_mono [OF msg_trash_sure] split: option.split)
qed

lemma send_pingreq_live:
  assumes "mqtt_io_ok io" "calm m" "0 < buffer_size cf"
  shows "sure (mqtt_state_send_pingreq cf io m w) (lives cf)"
proof -
  have "live_inv cf ((fst (reset_elapsed cf io t (m\<lparr>mq_pingresp_received := False\<rparr>) w))\<lparr>mq_state := ST_RECV_READY\<rparr>)" for t w
    using assms by (intro calm_live) simp_all
  then show ?thesis
    unfolding mqtt_state_send_pingreq_def mqtt_send_pingreq_def using assms
    by (auto simp: case_prod_beta intro!: sure_mono [OF header_only_sure])
qed

lemma send_publish_live:
  assumes "mqtt_io_ok io" "live_inv cf m" "mq_state m = ST_SEND_PUBLISH"
  shows "sure (mqtt_state_send_publish cf io m w) (lives cf)"
proof -
  have p: "slot_ok (mq_pub m)" "pb_state (mq_pub m) = PUB_SENDING" "0 < buffer_size cf"
    using assms(2,3) by (auto simp: live_inv_def slot_inv_def linked_def)
  then have g: "pb_given (mq_pub m)" by (simp add: slot_ok_def)
  let ?q = "ms_qos (pb_message (mq_pub m)) = QOS_1"
  have sent: "calm (m1\<lparr>mq_pub := slot_sent res ?q (mq_pub m1)\<rparr>)" if "pub_lock io m w1 = (m1, w2)" for res m1 w1 w2
    using pub_lock_calm(4) [OF assms(1) that p(2)] slot_sent_ok [OF p(1,2)] by (simp add: calm_def slot_not_sending)
  have "live_inv cf ((add_elapsed_ms t (m1\<lparr>mq_pub := slot_sent res ?q (mq_pub m1)\<rparr>))\<lparr>mq_state := ST_RECV_READY\<rparr>)"
    if "pub_lock io m w1 = (m1, w2)" for res m1 w1 w2 t
    using sent [OF that] p(3) by (intro calm_live) simp_all
  then show ?thesis
    unfolding mqtt_state_send_publish_def Let_def using g sent
    by (auto simp del: calm_update intro!: sure_mono [OF send_publish_sure [OF assms(1) p(3)]] split: prod.split)
qed

lemma reconnect_live: "calm m \<Longrightarrow> sure (mqtt_state_reconnect cf io m w) (lives cf)"
  by (auto simp: mqtt_state_reconnect_def linked_def intro!: calm_states split: prod.split)

section \<open>The task\<close>

definition waits_end :: "mqtt_conf \<Rightarrow> bool" where
  "waits_end cf \<longleftrightarrow> \<not> (cf_has_lock cf \<and> cf_has_recv_wait cf) \<or> 0 < cf_to_recv_sec cf"

lemma to_recv_pos: "0 < cf_to_recv_sec cf \<Longrightarrow> 0 < to_recv_ms cf"
proof -
  assume p: "0 < cf_to_recv_sec cf"
  show ?thesis
  proof (cases "cf_to_recv_sec cf > UINT32_MAX div 1000")
    case False
    then have "unat (cf_to_recv_sec cf) * 1000 < 2 ^ 32" by (simp add: word_less_nat_alt unat_div)
    then have "unat (cf_to_recv_sec cf * 1000) = unat (cf_to_recv_sec cf) * 1000" by (simp add: unat_word_ariths)
    then show ?thesis using False p by (simp add: to_recv_ms_def word_less_nat_alt)
  qed (simp add: to_recv_ms_def)
qed

lemma handlers_live:
  assumes "mqtt_io_ok io" "waits_end cf" "live_inv cf m" "task_running m"
  shows "sure (mqtt_state_handlers (mq_state m) cf io m w) (lives cf)"
proof (cases "mq_state m = ST_SEND_PUBLISH")
  case True
  then show ?thesis using send_publish_live [OF assms(1,3)] by simp
next
  case False
  then have c: "calm m" using live_calm [OF assms(3)] assms(4) by (auto simp: task_running_iff)
  have b: "mq_state m \<in> linked \<Longrightarrow> 0 < buffer_size cf" using assms(3) by (simp add: live_inv_def)
  have t: "cf_has_lock cf \<Longrightarrow> cf_has_recv_wait cf \<Longrightarrow> 0 < to_recv_ms cf"
    using assms(2) to_recv_pos by (auto simp: waits_end_def)
  show ?thesis
    using False assms(4) b
    by (cases "mq_state m") (simp_all add: linked_def task_running_iff assms(1) c t install_push_live get_endpoint_live
      sock_connect_live send_connect_live recv_connack_live send_subscribe_live recv_suback_live recv_ready_live
      recv_msg_live send_pingreq_live reconnect_live)
qed

lemma task_step_live:
  assumes "mqtt_io_ok io" "waits_end cf" "live_inv cf m" "task_running m"
  shows "sure (task_step cf io (m, w)) (lives cf)"
proof -
  obtain b w1 where c: "(if cf_has_continue cf then mi_continue io (mq_state m) (mq_error m) w else (True, w)) = (b, w1)"
    by (metis surj_pair)
  have "live_inv cf (m\<lparr>mq_state := ST_DISCONTINUED\<rparr>)" "live_inv cf (m\<lparr>mq_wait_left_ms := t\<rparr>)" for t
    using assms(3) by (auto simp: live_inv_def slot_inv_def linked_def)
  then show ?thesis
    using handlers_live [OF assms] by (simp add: task_step_def c Let_def)
qed

lemma init_live:
  assumes "init_mqtt_state cf io m w = Some (m', w')" "calm m"
  shows "live_inv cf m'"
proof -
  have "mq_pub m' = mq_pub m \<and> mq_state m' \<in> {ST_INSTALL_PUSH, ST_SOCK_CONNECT}"
    using assms(1) by (auto simp: init_mqtt_state_def Let_def case_prod_beta split: if_splits)
  then show ?thesis using assms(2) by (intro calm_states) (auto simp: calm_def linked_def)
qed

lemma task_runs_live:
  assumes "mqtt_io_ok io" "waits_end cf" "calm m"
  shows "task_runs cf io m w s \<Longrightarrow> lives cf s"
proof (induction s rule: task_runs.induct)
  case (runs_start s)
  then show ?case using init_live [of cf io m w "fst s" "snd s"] assms(3) by simp
next
  case (runs_step s s')
  have "sure (task_step cf io (fst s, snd s)) (lives cf)"
    by (rule task_step_live [OF assms(1,2) runs_step.IH runs_step.hyps(2)])
  then show ?case using sureD runs_step.hyps(3) by fastforce
qed

text \<open>
  A loop that does not return is one that takes turns for ever, at each of which the application
  says to go on.
\<close>

definition goes_on :: "mqtt_conf \<Rightarrow> 'w mqtt_io \<Rightarrow> (nat \<Rightarrow> mqtt \<times> 'w) \<Rightarrow> bool" where
  "goes_on cf io s \<longleftrightarrow>
     (\<forall>n. task_running (fst (s n)) \<and> task_step cf io (s n) = Some (s (Suc n)) \<and>
        (cf_has_continue cf \<longrightarrow> fst (mi_continue io (mq_state (fst (s n))) (mq_error (fst (s n))) (snd (s n)))))"

lemma loop_stops: "\<not> task_running (fst s) \<Longrightarrow> task_loop cf io s = Some s"
  by (subst task_loop.simps) simp

lemma loop_stuck:
  assumes "mqtt_io_ok io" "waits_end cf" "lives cf s" "task_loop cf io s = None"
  shows "\<exists>s'. task_running (fst s) \<and> task_step cf io s = Some s' \<and> lives cf s' \<and> task_loop cf io s' = None \<and>
    (cf_has_continue cf \<longrightarrow> fst (mi_continue io (mq_state (fst s)) (mq_error (fst s)) (snd s)))"
proof -
  have r: "task_running (fst s)" using loop_stops [of s cf io] assms(4) by auto
  have "sure (task_step cf io (fst s, snd s)) (lives cf)" by (rule task_step_live [OF assms(1-3) r])
  then obtain s' where s': "task_step cf io s = Some s'" "lives cf s'" by (auto simp: sure_def)
  have l: "task_loop cf io s' = None" using assms(4) r s'(1) by (subst (asm) task_loop.simps) simp
  have "fst (mi_continue io (mq_state (fst s)) (mq_error (fst s)) (snd s))" if c: "cf_has_continue cf"
  proof (rule ccontr)
    assume "\<not> ?thesis"
    then have "mq_state (fst s') = ST_DISCONTINUED" using s'(1) c by (cases s) (auto simp: task_step_def split: prod.splits)
    then show False using loop_stops [of s' cf io] l by (simp add: task_running_def)
  qed
  with s' l r show ?thesis by blast
qed

lemma loop_goes_on:
  assumes "mqtt_io_ok io" "waits_end cf" "lives cf s" "task_loop cf io s = None"
  shows "\<exists>f. f 0 = s \<and> goes_on cf io f"
proof -
  define f where "f n = ((\<lambda>s. the (task_step cf io s)) ^^ n) s" for n
  have i: "lives cf (f n) \<and> task_loop cf io (f n) = None" for n
  proof (induction n)
    case 0
    then show ?case using assms by (simp add: f_def)
  next
    case (Suc n)
    then show ?case using loop_stuck [OF assms(1,2), of "f n"] by (auto simp: f_def)
  qed
  have "goes_on cf io f"
    unfolding goes_on_def
  proof
    fix n
    show "task_running (fst (f n)) \<and> task_step cf io (f n) = Some (f (Suc n)) \<and>
        (cf_has_continue cf \<longrightarrow> fst (mi_continue io (mq_state (fst (f n))) (mq_error (fst (f n))) (snd (f n))))"
      using loop_stuck [OF assms(1,2), of "f n"] i [of n] by (auto simp: f_def)
  qed
  then show ?thesis by (intro exI [of _ f]) (simp add: f_def)
qed

lemma goes_on_loop:
  assumes g: "goes_on cf io s"
  shows "task_loop cf io (s n) = None"
proof (rule ccontr)
  assume "\<not> ?thesis"
  then obtain r where ret: "task_loop cf io (s n) = Some r" by auto
  let ?P = "\<lambda>cf' io' x r. cf' = cf \<longrightarrow> io' = io \<longrightarrow> (\<forall>n. x \<noteq> s n)"
  have "?P cf io (s n) r"
  proof (rule task_loop.raw_induct [where P = ?P, OF _ ret], intro impI allI notI)
    fix f cf' io' x r n
    assume IH: "\<And>cf' io' x r. f cf' io' x = Some r \<Longrightarrow> ?P cf' io' x r"
      and eq: "(if task_running (fst x) then task_step cf' io' x \<bind> f cf' io' else Some x) = Some r"
      and [simp]: "cf' = cf" "io' = io" "x = s n"
    have "task_running (fst (s n)) \<and> task_step cf io (s n) = Some (s (Suc n))" using g by (simp add: goes_on_def)
    then have "f cf io (s (Suc n)) = Some r" using eq by simp
    from IH [OF this] have "\<forall>k. s (Suc n) \<noteq> s k" by simp
    then show False by blast
  qed
  then have "\<forall>k. s n \<noteq> s k" by simp
  then show False by blast
qed

lemma publish_close_keeps [simp]:
  "mq_sock_connected (fst (publish_close cf io m w)) = mq_sock_connected m"
  by (simp add: publish_close_def pub_lock_def case_prod_beta)

lemma task_end_returns:
  assumes "mqtt_io_ok io"
  shows "sure (task_end cf io m w) (\<lambda>(m', w'). \<not> mq_running m' \<and> \<not> mq_sock_connected m')"
  unfolding task_end_def mqtt_send_disconnect_def
  by (auto simp: case_prod_beta intro!: sure_mono [OF header_only_sure [OF assms]])

end
