(* ===== verification/Mqtt_Runs.thy ===== *)
theory Mqtt_Runs
  imports Mqtt_Live "HOL-Library.Code_Target_Nat"
begin

text \<open>
  What the push task promises, over its runs: that it is a client of MQTT on every connection, how
  it leaves, that its turns return and when it ends, how long it waits between tries; with a
  broker, a socket and an application by script to run it on, and two runs in which the code does
  not do what it means to.
\<close>

section \<open>Runs by script\<close>

text \<open>
  What the broker sends; how many turns the application lets the task run; what a caller gives, if
  it can, each time the task takes the lock; and how many bytes each send takes, 0 for one that
  fails, all of them once the list is done.
\<close>

record script =
  sc_recv :: string
  sc_turns :: nat
  sc_gives :: "(string \<times> string \<times> mqtt_qos) option list"
  sc_sends :: "nat list"

definition script_gives :: "(string \<times> string \<times> mqtt_qos) option \<Rightarrow> pub_slot \<Rightarrow> pub_slot" where
  "script_gives g p =
     (case g of
        None \<Rightarrow> p
      | Some (topic, payload, qos) \<Rightarrow>
          if pb_open p \<and> pb_state p = PUB_FREE \<and> may_give topic payload qos
          then slot_give topic payload qos False p else p)"

definition script_io :: "script mqtt_io" where
  "script_io =
     \<lparr>mi_connect = (\<lambda>h p w. (SOCK_OK, w)),
      mi_send = (\<lambda>s w. case sc_sends w of
        [] \<Rightarrow> ((SOCK_OK, length s), w)
      | n # ns \<Rightarrow> ((if n = 0 then SOCK_FAIL else SOCK_OK, min n (length s)), w\<lparr>sc_sends := ns\<rparr>)),
      mi_recv = (\<lambda>n w. if sc_recv w = [] then ((SOCK_FAIL, []), w)
        else ((SOCK_OK, take n (sc_recv w)), w\<lparr>sc_recv := drop n (sc_recv w)\<rparr>)),
      mi_close = (\<lambda>w. (SOCK_OK, w)),
      mi_recv_timed_out = (\<lambda>w. (True, w)),
      mi_recv_wait = (\<lambda>n w. (True, w)),
      mi_delay = (\<lambda>n w. w),
      mi_monotonic = (\<lambda>w. (0, w)),
      mi_log = (\<lambda>l s n w. w),
      mi_event = (\<lambda>e n w. w),
      mi_message = (\<lambda>m w. w),
      mi_credentials = (\<lambda>e w. ((False, Some e), w)),
      mi_install_push = (\<lambda>w. ((KII_ERR_FAIL, []), w)),
      mi_get_endpoint = (\<lambda>i w. ((KII_ERR_FAIL, no_endpoint), w)),
      mi_onboard_again = (\<lambda>w. (KII_ERR_FAIL, w)),
      mi_renews_by_onboarding = (\<lambda>w. False),
      mi_status_code = (\<lambda>w. 0),
      mi_author_id = (\<lambda>w. ''th''),
      mi_onboarded = (\<lambda>w. ([], [], no_endpoint)),
      mi_continue = (\<lambda>s e w. (sc_turns w > 0, w\<lparr>sc_turns := sc_turns w - 1\<rparr>)),
      mi_exit = (\<lambda>s e w. w),
      mi_others = (\<lambda>p w. case sc_gives w of [] \<Rightarrow> (p, w) | g # gs \<Rightarrow> (script_gives g p, w\<lparr>sc_gives := gs\<rparr>))\<rparr>"

lemma script_ok: "mqtt_io_ok script_io"
proof -
  have "caller_step\<^sup>*\<^sup>* p (script_gives g p)" for g p
    by (auto simp: script_gives_def intro!: r_into_rtranclp caller_gives split: option.split)
  then show ?thesis by (auto simp: mqtt_io_ok_def script_io_def split: list.splits if_splits)
qed

definition free_slot :: pub_slot where
  "free_slot =
     \<lparr>pb_open = True, pb_state = PUB_FREE,
      pb_message = \<lparr>ms_topic = [], ms_payload = [], ms_qos = QOS_0, ms_retain = False, ms_dup = False, ms_packet_id = 0\<rparr>,
      pb_given = False, pb_result = KII_ERR_OK, pb_last_id = 0\<rparr>"

definition started :: mqtt where
  "started =
     \<lparr>mq_ins_id = [], mq_endpoint = no_endpoint, mq_error = MQTT_ERR_OK, mq_state = ST_INSTALL_PUSH,
      mq_elapsed_time_ms = 0, mq_elapsed_since_ms = 0, mq_remaining_message_size = 0, mq_message_qos = 0,
      mq_message_dup = False, mq_message_retain = False, mq_awaiting_suback = False,
      mq_pingresp_received = False, mq_sock_connected = False, mq_mqtt_connected = False,
      mq_retry_wait_ms = 0, mq_wait_left_ms = 0, mq_connect_failures = 0, mq_pub = free_slot,
      mq_running = True\<rparr>"

lemma started_calm: "calm started"
  by (simp add: calm_def started_def free_slot_def slot_ok_def)

text \<open>A broker that accepts, grants QoS 1, and sends a message at QoS 1.\<close>

definition accepting :: string where
  "accepting = [CHR 0x20, CHR 0x02, CHR 0x00, CHR 0x00, CHR 0x90, CHR 0x03, CHR 0x00, CHR 0x01, CHR 0x01]"

definition good_script :: script where
  "good_script =
     \<lparr>sc_recv = accepting @ [CHR 0x32, CHR 0x07, CHR 0x00, CHR 0x01, CHR ''t'', CHR 0x00, CHR 0x07, CHR ''h'', CHR ''i''],
      sc_turns = 7, sc_gives = [], sc_sends = []\<rparr>"

definition example_message :: mqtt_message where
  "example_message = \<lparr>ms_topic = ''t'', ms_payload = ''hi'', ms_qos = QOS_1, ms_retain = False, ms_dup = False, ms_packet_id = 7\<rparr>"

section \<open>A client of MQTT\<close>

text \<open>
  C11. On every connection the task makes, between any two turns of its loop and whatever the broker
  sends and however the socket cuts it up: it uses the socket only while it is connected; what it
  has sent, heard and given the application is what \<open>client\<close> allows, packet by packet, up to where
  the connection ends; once subscribed it has sent CONNECT and SUBSCRIBE whole, heard that they
  were accepted, given the application each message received that fits, once and in order, and
  acknowledged those at QoS 1.
\<close>

theorem task_is_client:
  assumes "task_runs cf (traced io) m (no_wire, w) (m', x, w')"
  shows "\<not> wr_misused x \<and> (wr_open x \<longleftrightarrow> mq_sock_connected m') \<and>
    (wr_open x \<longrightarrow> (\<exists>ph. (mq_mqtt_connected m' \<longleftrightarrow> accepted ph) \<and>
       cut_short cf (mq_endpoint m') ph (wr_received x) (wr_sent x) (wr_delivered x))) \<and>
    (mq_state m' \<in> {ST_RECV_READY, ST_SEND_PINGREQ, ST_SEND_PUBLISH} \<longrightarrow>
       wr_open x \<and> client cf (mq_endpoint m') READY (wr_received x) (wr_sent x) (wr_delivered x))"
proof -
  have i: "task_inv cf m' x" using task_runs_inv [OF assms] by simp
  then show ?thesis using state_ended [of "mq_state m'" cf m' x] by (auto simp: task_inv_def)
qed

lemma runs_of_loop:
  assumes "init_mqtt_state cf io m w = Some s" "task_loop cf io s = Some s'"
  shows "task_runs cf io m w s'"
  using task_loop_runs [OF assms(2) runs_start [OF assms(1)]] by simp

lemma good_run:
  "map_option (\<lambda>(m, x, w). (mq_state m, mq_mqtt_connected m, wr_open x, wr_delivered x))
     (init_mqtt_state example_conf (traced script_io) started (no_wire, good_script) \<bind> task_loop example_conf (traced script_io))
   = Some (ST_DISCONTINUED, True, True, [example_message])"
  by code_simp

theorem task_is_client_witness:
  "\<exists>m' x w' ph. task_runs example_conf (traced script_io) started (no_wire, good_script) (m', x, w') \<and>
     \<not> wr_misused x \<and> wr_delivered x = [example_message] \<and> accepted ph \<and>
     cut_short example_conf (mq_endpoint m') ph (wr_received x) (wr_sent x) [example_message]"
proof -
  obtain s m' x w' where s: "init_mqtt_state example_conf (traced script_io) started (no_wire, good_script) = Some s"
    "task_loop example_conf (traced script_io) s = Some (m', x, w')"
    and e: "mq_mqtt_connected m'" "wr_open x" "wr_delivered x = [example_message]"
    using good_run by (auto simp: bind_eq_Some_conv)
  have r: "task_runs example_conf (traced script_io) started (no_wire, good_script) (m', x, w')"
    by (rule runs_of_loop [OF s])
  from task_is_client [OF r] e r show ?thesis by auto
qed

section \<open>How it leaves\<close>

lemma traced_quiet_close: "fst (snd (publish_close cf (traced io) m p)) = fst p"
  using publish_quiet(6) [of cf io m p] by (metis surj_pair snd_conv fst_conv)

lemma publish_close_slot:
  "pb_open (mq_pub (fst (publish_close cf io m w))) = False"
  "cf_has_lock cf \<Longrightarrow>
    pb_state (mq_pub (fst (publish_close cf io m w))) \<in> {PUB_FREE, PUB_SENDING, PUB_DONE}"
  by (auto simp: publish_close_def pub_lock_def slot_close_def Let_def case_prod_beta) (metis pub_state.exhaust)+

lemma traced_exit: "mi_exit (traced io) st er p = (x, w') \<Longrightarrow> x = fst p"
  using quiet(4) [of io st er p] by simp

lemma connection_closed:
  assumes c: "(if mq_sock_connected m1
        then do {
          (m', w') \<leftarrow>
            (if mq_mqtt_connected m1
             then do { (_, w') \<leftarrow> mqtt_send_disconnect (traced io) (x1, w1); Some (m1\<lparr>mq_mqtt_connected := False\<rparr>, w') }
             else Some (m1, (x1, w1)));
          (case mi_close (traced io) w' of (_, w'') \<Rightarrow> Some (m'\<lparr>mq_sock_connected := False\<rparr>, w''))
        }
        else Some (m1, (x1, w1))) = Some (m2, x2, w2)"
    and i: "\<not> wr_misused x1" "wr_open x1 \<longleftrightarrow> mq_sock_connected m1"
  shows "\<exists>u. wr_sent x2 = wr_sent x1 @ u \<and> prefix u [CHR 0xe0, CHR 0x00] \<and>
      (u \<noteq> [] \<longrightarrow> wr_open x1 \<and> mq_mqtt_connected m1) \<and> wr_received x2 = wr_received x1 \<and>
      wr_delivered x2 = wr_delivered x1 \<and> \<not> wr_open x2 \<and> \<not> wr_misused x2 \<and> \<not> mq_sock_connected m2"
proof (cases "mq_sock_connected m1")
  case False
  then show ?thesis using c i by auto
next
  case True
  then have o: "wr_open x1" using i by simp
  show ?thesis
  proof (cases "mq_mqtt_connected m1")
    case False
    then show ?thesis
      using c True i o by (auto split: prod.splits dest!: traced_close)
  next
    case mc: True
    obtain res x3 w3 where d: "send_loop (traced io) [CHR 0xe0, CHR 0x00] 0 SOCK_FAIL (x1, w1) = Some (res, x3, w3)"
      and c': "(case mi_close (traced io) (x3, w3) of (_, w'') \<Rightarrow>
        Some (m1\<lparr>mq_mqtt_connected := False, mq_sock_connected := False\<rparr>, w'')) = Some (m2, x2, w2)"
      using c True mc by (auto simp: mqtt_send_disconnect_def mqtt_send_header_only_def bind_eq_Some_conv)
    obtain u where u: "x3 = tx u x1" "prefix u [CHR 0xe0, CHR 0x00]"
      using send_loop_traced [OF d o] by (auto simp: sends_def)
    show ?thesis
      using c' u o mc i by (auto intro!: exI [of _ u] split: prod.splits dest!: traced_close)
  qed
qed

text \<open>
  C14. However the loop ended, when the task is over no connection is open, the socket was never
  used but while it was connected, the task is not running, no call can give it a message, and, with
  a lock, one it was given is done with or was being sent; to a connection that was open it said at
  most DISCONNECT, and that only if the broker had accepted it.
\<close>

theorem task_leaves:
  assumes "mqtt_start_task cf (traced io) m (no_wire, w) = Some (m', x, w')"
  shows "\<exists>m1 x1 w1 u. task_runs cf (traced io) m (no_wire, w) (m1, x1, w1) \<and> \<not> task_running m1 \<and>
     wr_sent x = wr_sent x1 @ u \<and> prefix u [CHR 0xe0, CHR 0x00] \<and>
     (u \<noteq> [] \<longrightarrow> wr_open x1 \<and> mq_mqtt_connected m1) \<and>
     wr_received x = wr_received x1 \<and> wr_delivered x = wr_delivered x1 \<and>
     \<not> wr_open x \<and> \<not> wr_misused x \<and> \<not> mq_running m' \<and> \<not> mq_sock_connected m' \<and> \<not> pb_open (mq_pub m') \<and>
     (cf_has_lock cf \<longrightarrow> pb_state (mq_pub m') \<in> {PUB_FREE, PUB_SENDING, PUB_DONE})"
proof -
  obtain s m1 x1 w1 where s: "init_mqtt_state cf (traced io) m (no_wire, w) = Some s"
    "task_loop cf (traced io) s = Some (m1, x1, w1)" and e: "task_end cf (traced io) m1 (x1, w1) = Some (m', x, w')"
    using assms by (auto simp: mqtt_start_task_def bind_eq_Some_conv)
  have r: "task_runs cf (traced io) m (no_wire, w) (m1, x1, w1)" by (rule runs_of_loop [OF s])
  have n: "\<not> task_running m1" using task_loop_runs [OF s(2) runs_start [OF s(1)]] by simp
  have i: "\<not> wr_misused x1" "wr_open x1 \<longleftrightarrow> mq_sock_connected m1" using task_runs_inv [OF r] by (simp_all add: task_inv_def)
  obtain m2 x2 w2 where c: "(if mq_sock_connected m1
        then do {
          (m', w') \<leftarrow>
            (if mq_mqtt_connected m1
             then do { (_, w') \<leftarrow> mqtt_send_disconnect (traced io) (x1, w1); Some (m1\<lparr>mq_mqtt_connected := False\<rparr>, w') }
             else Some (m1, (x1, w1)));
          (case mi_close (traced io) w' of (_, w'') \<Rightarrow> Some (m'\<lparr>mq_sock_connected := False\<rparr>, w''))
        }
        else Some (m1, (x1, w1))) = Some (m2, x2, w2)"
    and f: "(case publish_close cf (traced io) (m2\<lparr>mq_endpoint := no_endpoint\<rparr>) (x2, w2) of
        (m2, w2) \<Rightarrow> Some (m2\<lparr>mq_running := False\<rparr>,
          if cf_has_exit cf then mi_exit (traced io) (mq_state m2) (mq_error m2) w2 else w2)) = Some (m', x, w')"
    using e unfolding task_end_def by (auto simp: bind_eq_Some_conv)
  obtain u where u: "wr_sent x2 = wr_sent x1 @ u" "prefix u [CHR 0xe0, CHR 0x00]"
    "u \<noteq> [] \<longrightarrow> wr_open x1 \<and> mq_mqtt_connected m1" "wr_received x2 = wr_received x1"
    "wr_delivered x2 = wr_delivered x1" "\<not> wr_open x2" "\<not> wr_misused x2" "\<not> mq_sock_connected m2"
    using connection_closed [OF c i] by blast
  have "x = x2"
    using f traced_quiet_close [of cf io "m2\<lparr>mq_endpoint := no_endpoint\<rparr>" "(x2, w2)"]
    by (auto split: prod.splits if_splits dest!: traced_exit)
  have "m' = (fst (publish_close cf (traced io) (m2\<lparr>mq_endpoint := no_endpoint\<rparr>) (x2, w2)))\<lparr>mq_running := False\<rparr>"
    using f by (auto split: prod.splits)
  then show ?thesis
    using r n u \<open>x = x2\<close> publish_close_slot [of cf "traced io" "m2\<lparr>mq_endpoint := no_endpoint\<rparr>" "(x2, w2)"]
    by (intro exI [of _ m1] exI [of _ x1] exI [of _ w1] exI [of _ u]) simp
qed

lemma good_start:
  "map_option (\<lambda>(m, x, w). (mq_state m, drop 37 (wr_sent x)))
     (mqtt_start_task example_conf (traced script_io) started (no_wire, good_script))
   = Some (ST_DISCONTINUED, puback 7 @ [CHR 0xe0, CHR 0x00])"
  by code_simp

theorem task_leaves_witness:
  "\<exists>m' x w'. mqtt_start_task example_conf (traced script_io) started (no_wire, good_script) = Some (m', x, w') \<and>
     \<not> wr_open x \<and> \<not> wr_misused x \<and> \<not> mq_running m' \<and> drop 37 (wr_sent x) = puback 7 @ [CHR 0xe0, CHR 0x00]"
proof -
  obtain m' x w' where s: "mqtt_start_task example_conf (traced script_io) started (no_wire, good_script) = Some (m', x, w')"
    and e: "drop 37 (wr_sent x) = puback 7 @ [CHR 0xe0, CHR 0x00]"
    using good_start by (auto simp: map_option_eq_Some)
  from task_leaves [OF s] s e show ?thesis by blast
qed

section \<open>It makes progress\<close>

text \<open>
  C12. In every state the task comes to between two turns, the slot it shares with the callers of
  \<open>kii_mqtt_publish\<close> is well formed: topic and payload can be read exactly while their caller
  waits, a message in it is one a PUBLISH can carry, with a packet identifier of its own at QoS 1;
  and it is being sent exactly while the task is to send it, or was discontinued before it did.  And
  the next turn returns: no handler writes out of the buffer, reads a topic that was taken back or
  loops for ever.
\<close>

theorem task_never_stuck:
  assumes "mqtt_io_ok io" "waits_end cf" "calm m" "task_runs cf io m w (m', w')"
  shows "slot_inv m' \<and> (task_running m' \<longrightarrow> (\<exists>s. task_step cf io (m', w') = Some s))"
proof -
  have i: "live_inv cf m'" using task_runs_live [OF assms] by simp
  then have "slot_inv m'" by (simp add: live_inv_def)
  then show ?thesis using task_step_live [OF assms(1,2) i, of w'] by (auto simp: sure_def)
qed

lemma example_waits: "waits_end example_conf"
  by (simp add: waits_end_def example_conf_def)

definition publishing_script :: "nat \<Rightarrow> script" where
  "publishing_script turns =
     \<lparr>sc_recv = accepting, sc_turns = turns, sc_gives = [None, Some (''t'', ''hi'', QOS_0)], sc_sends = [100, 100, 5, 0]\<rparr>"

lemma publishing_run:
  "map_option (\<lambda>(m, w). (mq_state m, pb_state (mq_pub m)))
     (init_mqtt_state example_conf script_io started (publishing_script 6) \<bind> task_loop example_conf script_io)
   = Some (ST_DISCONTINUED, PUB_SENDING)"
  by code_simp

theorem task_never_stuck_witness:
  "\<exists>m' w'. task_runs example_conf script_io started (publishing_script 6) (m', w') \<and>
     pb_state (mq_pub m') = PUB_SENDING \<and> slot_inv m'"
proof -
  obtain s m' w' where s: "init_mqtt_state example_conf script_io started (publishing_script 6) = Some s"
    "task_loop example_conf script_io s = Some (m', w')" and e: "pb_state (mq_pub m') = PUB_SENDING"
    using publishing_run by (auto simp: bind_eq_Some_conv)
  have r: "task_runs example_conf script_io started (publishing_script 6) (m', w')" by (rule runs_of_loop [OF s])
  from task_never_stuck [OF script_ok example_waits started_calm r] r e show ?thesis by blast
qed

text \<open>
  C13. The task comes to its end, the socket closed and no longer running, unless the application,
  asked before every turn, says to go on for ever: nothing the broker or the socket does keeps the
  task from being stopped.
\<close>

theorem task_ends:
  assumes "mqtt_io_ok io" "waits_end cf" "calm m"
  shows "(\<exists>m' w'. mqtt_start_task cf io m w = Some (m', w') \<and> \<not> mq_running m' \<and> \<not> mq_sock_connected m') \<longleftrightarrow>
    (\<nexists>s. init_mqtt_state cf io m w = Some (s 0) \<and> goes_on cf io s)"
proof -
  obtain s where s: "init_mqtt_state cf io m w = Some s"
    by (auto simp: init_mqtt_state_def Let_def case_prod_beta)
  note l = task_runs_live [OF assms runs_start [OF s]]
  show ?thesis
  proof (cases "task_loop cf io s")
    case None
    then have "mqtt_start_task cf io m w = None" using s by (simp add: mqtt_start_task_def)
    then show ?thesis using loop_goes_on [OF assms(1,2) l None] s by auto
  next
    case (Some t)
    have "\<not> goes_on cf io f" if "f 0 = s" for f
      using goes_on_loop [of cf io f 0] that Some by auto
    moreover have "\<exists>m' w'. mqtt_start_task cf io m w = Some (m', w') \<and> \<not> mq_running m' \<and> \<not> mq_sock_connected m'"
      using task_end_returns [OF assms(1), of cf "fst t" "snd t"] Some s
      by (auto simp: mqtt_start_task_def sure_def case_prod_beta)
    ultimately show ?thesis using s by auto
  qed
qed

theorem task_ends_witness:
  "(\<exists>m' w'. mqtt_start_task example_conf script_io started (publishing_script 6) = Some (m', w') \<and>
     \<not> mq_running m' \<and> \<not> mq_sock_connected m') \<and>
   (\<nexists>s. init_mqtt_state example_conf script_io started (publishing_script 6) = Some (s 0) \<and> goes_on example_conf script_io s)"
proof -
  have "\<not> goes_on example_conf script_io s"
    if "init_mqtt_state example_conf script_io started (publishing_script 6) = Some (s 0)" for s
    using goes_on_loop [of example_conf script_io s 0] publishing_run that by auto
  with task_ends [OF script_ok example_waits started_calm, of "publishing_script 6"] show ?thesis by blast
qed

section \<open>How long it waits\<close>

text \<open>What a retry waits at most, by the setting and by default.\<close>

definition retry_max :: "mqtt_conf \<Rightarrow> nat" where
  "retry_max cf = (if cf_retry_wait_max_ms cf \<noteq> 0 then unat (cf_retry_wait_max_ms cf) else 300000)"

lemma schedule_retry_step:
  fixes m :: mqtt and cf :: mqtt_conf
  defines "wait \<equiv> min (unat (mq_retry_wait_ms m)) (retry_max cf)"
  shows "unat (mq_retry_wait_ms (schedule_retry cf a m)) = min (2 * wait) (retry_max cf)"
    "unat (mq_wait_left_ms (schedule_retry cf a m)) \<in> {wait div 2..wait}"
proof -
  define max_ms where "max_ms = (if cf_retry_wait_max_ms cf \<noteq> 0 then cf_retry_wait_max_ms cf else RETRY_WAIT_MAX_MS)"
  define w where "w = (if mq_retry_wait_ms m < max_ms then mq_retry_wait_ms m else max_ms)"
  define hash where "hash = (fnv1a a XOR w) * 16777619"
  have m: "unat max_ms = retry_max cf" by (simp add: max_ms_def retry_max_def RETRY_WAIT_MAX_MS_def)
  have w: "unat w = wait" using m by (simp add: w_def wait_def word_less_nat_alt min_def)
  have b: "unat (x :: u32) < 2 ^ 32" for x using unsigned_less [of x, where 'a = nat] by simp
  have r: "schedule_retry cf a m = m\<lparr>mq_wait_left_ms := w div 2 + hash mod (w div 2 + 1),
      mq_retry_wait_ms := (if w > max_ms div 2 then max_ms else w * 2)\<rparr>"
    by (simp add: schedule_retry_def max_ms_def [symmetric] w_def [symmetric] hash_def [symmetric] Let_def)
  have wm: "wait \<le> retry_max cf" by (simp add: wait_def)
  show "unat (mq_retry_wait_ms (schedule_retry cf a m)) = min (2 * wait) (retry_max cf)"
  proof (cases "w > max_ms div 2")
    case True
    then have "retry_max cf div 2 < wait" using w m by (simp add: word_less_nat_alt unat_div)
    then show ?thesis using True m by (simp add: r)
  next
    case False
    then have "wait \<le> retry_max cf div 2" using w m by (simp add: word_less_nat_alt unat_div)
    then have k: "2 * wait \<le> retry_max cf" by simp
    then have "unat (w * 2) = 2 * wait" using w m b [of max_ms] by (simp add: unat_word_ariths)
    then show ?thesis using False k by (simp add: r)
  qed
  have h: "unat (w div 2) = wait div 2" using w by (simp add: unat_div)
  have h1: "unat (w div 2 + 1) = wait div 2 + 1" using h b [of w] w by (simp add: unat_word_ariths)
  have "unat (hash mod (w div 2 + 1)) < wait div 2 + 1" using h1 by (simp add: unat_mod)
  then have j: "unat (hash mod (w div 2 + 1)) \<le> wait div 2" by simp
  have "unat (w div 2 + hash mod (w div 2 + 1)) = wait div 2 + unat (hash mod (w div 2 + 1))"
    using h j b [of w] w by (simp add: unat_word_ariths)
  then show "unat (mq_wait_left_ms (schedule_retry cf a m)) \<in> {wait div 2..wait}"
    using j by (simp add: r)
qed

lemma retry_doubles:
  "min (unat (mq_retry_wait_ms (fold (schedule_retry cf) as (m\<lparr>mq_retry_wait_ms := RETRY_WAIT_MIN_MS\<rparr>)))) (retry_max cf)
   = min (2000 * 2 ^ length as) (retry_max cf)"
proof (induction as rule: rev_induct)
  case Nil
  then show ?case by (simp add: RETRY_WAIT_MIN_MS_def)
next
  case (snoc a as)
  then show ?case by (simp add: schedule_retry_step min_def split: if_splits)
qed

text \<open>
  C20. From its least, with which it starts and which a subscription that is granted sets again, the
  wait before a try doubles with each try that fails up to its most, with no wrap-around whatever
  that is; and the time waited is between the half and the whole of it, whatever the thing's name.
\<close>

theorem retry_backoff:
  fixes as :: "string list"
  defines "wait \<equiv> \<lambda>cf. min (2000 * 2 ^ length as) (retry_max cf)"
  shows "unat (mq_wait_left_ms (schedule_retry cf a (fold (schedule_retry cf) as (m\<lparr>mq_retry_wait_ms := RETRY_WAIT_MIN_MS\<rparr>))))
    \<in> {wait cf div 2..wait cf}"
  using schedule_retry_step(2) [of cf a "fold (schedule_retry cf) as (m\<lparr>mq_retry_wait_ms := RETRY_WAIT_MIN_MS\<rparr>)"]
  by (simp only: retry_doubles wait_def)

section \<open>A call that returns\<close>

lemma give_run:
  "map_option (\<lambda>(res, p, w). (res, pb_state p))
     (kii_mqtt_publish example_conf True script_io (Some ''t'') (Some ''hi'') 2 (Some QOS_1) False 20 free_slot (publishing_script 1))
   = Some (KII_ERR_TIMEOUT, PUB_FREE)"
  by code_simp


section \<open>Runs that go wrong\<close>


lemma stopped_run:
  "map_option (\<lambda>(m, w). (pb_state (mq_pub m), mq_running m))
     (mqtt_start_task example_conf script_io started (publishing_script 6)) = Some (PUB_SENDING, False)"
  by code_simp

text \<open>
  C21. An application that stops the task between the turn that takes a message and the turn that
  sends it leaves the message being sent for good: the task has ended, and the call of
  \<open>kii_mqtt_publish\<close> that gave it never returns, whatever its timeout and however long it waits.
\<close>

theorem publish_waits_for_ever:
  "\<exists>m w. mqtt_start_task example_conf script_io started (publishing_script 6) = Some (m, w) \<and> \<not> mq_running m \<and>
     pb_state (mq_pub m) = PUB_SENDING \<and>
     (\<forall>cf timeout_ms pw w'. publish_done_loop cf script_io timeout_ms pw (mq_pub m) w' = None)"
proof -
  obtain m w where r: "mqtt_start_task example_conf script_io started (publishing_script 6) = Some (m, w)"
    and s: "pb_state (mq_pub m) = PUB_SENDING" and n: "\<not> mq_running m"
    using stopped_run by (auto simp: map_option_eq_Some)
  have o: "fst (mi_others script_io (mq_pub m) w') = mq_pub m" for w'
    using s by (auto simp: script_io_def script_gives_def split: list.split option.split)
  have "\<forall>cf timeout_ms pw w'. publish_done_loop cf script_io timeout_ms pw (mq_pub m) w' = None"
    using done_loop_stuck [OF o s] by simp
  then show ?thesis using r s n by blast
qed

end
