(* ===== verification/Kii_Request.thy ===== *)
theory Kii_Request
  imports Mqtt_Task Khc_Perform Jkii_Writer
begin

text \<open>
  How the kii modules make a request: kii/kii.c, kii/kii\_api\_call.c and kii/kii\_req\_impl.c.

  \<open>kii\<close> is \<open>kii_t\<close>, without what is the MQTT task's.  The buffer set by \<open>kii_set_buff\<close> is the
  list \<open>kt_mem\<close>, and \<open>_rw_buff\<close> with its size a window of it, \<open>kt_base\<close> and \<open>kt_size\<close>, as a
  renewal makes a part of the buffer the buffer.  A write that does not end in the window gives
  \<open>None\<close>.  The session, which several \<open>kii_t\<close> share, and the world go beside it in \<open>kst\<close>.
  What \<open>khc_perform\<close> does of a request is one call of \<open>ki_exchange\<close>: its code, khc after it, how
  much of the body it read, and the header lines and the pieces of the body it gave the callbacks.
\<close>

section \<open>kii, the session and the world\<close>

record author =
  au_id :: string
  au_token :: string
  au_refresh :: string

datatype renew_mode = RENEW_BY_TOKEN_ENDPOINT | RENEW_BY_ONBOARDING

record session =
  ss_author :: author
  ss_generation :: u32
  ss_renew_at_known :: bool
  ss_stored_at_ms :: u64
  ss_renew_after_ms :: u64
  ss_renew_mode :: renew_mode
  ss_vendor_thing_id :: string
  ss_password :: "string option"
  ss_password_wait_ms :: u64
  ss_password_refused_at_ms :: u64
  ss_has_cb :: bool

text \<open>
  \<open>kt_reads_buff\<close>, \<open>kt_writes_buff\<close>: whether khc's read and write callbacks are kii's own.
  \<open>kt_etag\<close> is the array, with its NUL.
\<close>

record kii =
  kt_khc :: khc
  kt_reads_buff :: bool
  kt_writes_buff :: bool
  kt_author :: author
  kt_app_id :: string
  kt_app_host :: string
  kt_mem :: string
  kt_base :: nat
  kt_size :: nat
  kt_req_size :: nat
  kt_read :: nat
  kt_written :: nat
  kt_stream_buff :: "string option"
  kt_header_buff :: "string option"
  kt_req_headers :: "string list"
  kt_etag :: string
  kt_use_m_0 :: bool
  kt_has_session :: bool
  kt_has_clock :: bool
  kt_session_generation :: u32
  kt_session_request :: bool
  kt_session_refused :: bool
  kt_resp_offset :: nat
  kt_req_streamed :: bool
  kt_onboarded_thing_id :: string
  kt_onboarded_installation_id :: string
  kt_onboarded_endpoint :: mqtt_endpoint

record exchange =
  ex_code :: khc_code
  ex_khc :: khc
  ex_read :: nat
  ex_headers :: "string list"
  ex_pieces :: "string list"

text \<open>What \<open>jkii_parse\<close> is asked for, and what it answers.\<close>

datatype field_type = FIELD_STRING nat | FIELD_INTEGER | FIELD_LONG
datatype field_result = FIELD_TEXT string | FIELD_NUMBER int | FIELD_NOT_FOUND | FIELD_ERR
datatype parse_err = PARSE_OK | PARSE_PARTIAL | PARSE_FAILED

text \<open>\<open>ki_others\<close> is what the other \<open>kii_t\<close> have made of the session whenever the lock is taken.\<close>

record 'w kii_io =
  ki_exchange :: "khc \<Rightarrow> string option \<Rightarrow> 'w \<Rightarrow> exchange \<times> 'w"
  ki_now :: "'w \<Rightarrow> u64 \<times> 'w"
  ki_alloc :: "string \<Rightarrow> 'w \<Rightarrow> bool \<times> 'w"
  ki_others :: "session \<Rightarrow> 'w \<Rightarrow> session \<times> 'w"
  ki_parse :: "string \<Rightarrow> (string \<times> field_type) list \<Rightarrow> parse_err \<times> field_result list"
  ki_updated :: "author \<Rightarrow> 'w \<Rightarrow> 'w"
  ki_set_time :: "int \<Rightarrow> 'w \<Rightarrow> 'w"
  ki_app_write :: "string \<Rightarrow> 'w \<Rightarrow> nat \<times> 'w"
  ki_version :: string

record 'w kst =
  st_kii :: kii
  st_ss :: session
  st_w :: 'w

type_synonym 'w call = "'w kst \<Rightarrow> (kii_code \<times> 'w kst) option"

definition kmap :: "(kii \<Rightarrow> kii) \<Rightarrow> 'w kst \<Rightarrow> 'w kst" where
  "kmap f s = s\<lparr>st_kii := f (st_kii s)\<rparr>"

text \<open>What follows a call: the rest when it succeeds, its code when it does not.\<close>

definition on_ok :: "(kii_code \<times> 'w kst) option \<Rightarrow> 'w call \<Rightarrow> (kii_code \<times> 'w kst) option" where
  "on_ok r f = (case r of None \<Rightarrow> None | Some (c, s) \<Rightarrow> if c = KII_ERR_OK then f s else Some (c, s))"

section \<open>The buffer\<close>

definition cstr :: "string \<Rightarrow> string" where
  "cstr s = takeWhile (\<lambda>c. c \<noteq> NUL) s"

definition buff :: "kii \<Rightarrow> string" where
  "buff k = take (kt_size k) (drop (kt_base k) (kt_mem k))"

definition put :: "nat \<Rightarrow> string \<Rightarrow> kii \<Rightarrow> kii option" where
  "put off s k =
     (if off + length s \<le> kt_size k \<and> kt_base k + kt_size k \<le> length (kt_mem k)
      then Some (k\<lparr>kt_mem := mem_write (kt_mem k) (kt_base k + off) s\<rparr>) else None)"

text \<open>\<open>snprintf\<close> of a text into what is left of the buffer from an offset.\<close>

definition put_printf :: "nat \<Rightarrow> string \<Rightarrow> kii \<Rightarrow> kii option" where
  "put_printf off s k =
     (if kt_size k = off then Some k
      else put off (take (kt_size k - off - 1) s @ [NUL]) k)"

definition zeroes :: "nat \<Rightarrow> nat \<Rightarrow> kii \<Rightarrow> kii option" where
  "zeroes off n k = put off (replicate n NUL) k"

definition put_etag :: "nat \<Rightarrow> char \<Rightarrow> string \<Rightarrow> string option" where
  "put_etag i c b = (if i < length b then Some (b[i := c]) else None)"

definition ETAG_MAX_SIZE :: nat where "ETAG_MAX_SIZE = 64"
definition APP_ID_MAX_SIZE :: nat where "APP_ID_MAX_SIZE = 128"
definition TOKEN_MAX_SIZE :: nat where "TOKEN_MAX_SIZE = 128"
definition REFRESH_TOKEN_MAX_SIZE :: nat where "REFRESH_TOKEN_MAX_SIZE = 128"
definition AUTHOR_ID_MAX_SIZE :: nat where "AUTHOR_ID_MAX_SIZE = 128"

definition reset_buff :: "kii \<Rightarrow> kii option" where
  "reset_buff k = do {
     k1 \<leftarrow> put 0 [NUL] (k\<lparr>kt_read := 0, kt_written := 0, kt_resp_offset := 0, kt_req_size := 0\<rparr>);
     e \<leftarrow> put_etag 0 NUL (kt_etag k1);
     Some (k1\<lparr>kt_etag := e\<rparr>)
   }"

definition reset_khc :: "kii \<Rightarrow> kii" where
  "reset_khc k =
     k\<lparr>kt_khc := khc_set_resp_header_buff (khc_set_stream_buff (khc_reset_except_cb (kt_khc k)) (kt_stream_buff k))
         (kt_header_buff k)\<rparr>"

definition req_headers_free_all :: "kii \<Rightarrow> kii" where
  "req_headers_free_all k = k\<lparr>kt_req_headers := []\<rparr>"

text \<open>\<open>_kii_clear_buffers\<close>, of a buffer that is set.\<close>

definition clear_buffers :: "kii \<Rightarrow> kii option" where
  "clear_buffers k =
     (let status = khc_get_status_code (kt_khc k);
          refused = (status < 200 \<or> 300 \<le> status);
          keep = (if \<not> refused then 0
                  else if kt_resp_offset k + kt_written k > kt_size k then kt_size k else kt_resp_offset k + kt_written k);
          k1 = (if refused then k else k\<lparr>kt_written := 0\<rparr>)
      in do {
        k2 \<leftarrow> zeroes keep (kt_size k - keep) k1;
        Some (k2\<lparr>kt_stream_buff := map_option (\<lambda>b. replicate (length b) NUL) (kt_stream_buff k2)\<rparr>)
      })"

section \<open>khc's callbacks\<close>

definition session_resp_offset :: "kii \<Rightarrow> nat" where
  "session_resp_offset k =
     (if \<not> kt_session_request k \<or> kt_req_streamed k \<or> khc_get_status_code (kt_khc k) \<noteq> 403 then 0
      else (let keep = kt_req_size k + 1 in if keep < kt_size k then keep else 0))"

definition resp_to_start :: "kii \<Rightarrow> kii option" where
  "resp_to_start k =
     (if kt_resp_offset k = 0 then Some k
      else do {
        k1 \<leftarrow> put 0 (take (kt_written k) (drop (kt_resp_offset k) (buff k))) k;
        k2 \<leftarrow> zeroes (kt_written k) (kt_size k - kt_written k) k1;
        Some (k2\<lparr>kt_resp_offset := 0\<rparr>)
      })"

text \<open>How much it took, 0 where there is no room.\<close>

definition cb_write_buff :: "string \<Rightarrow> kii \<Rightarrow> (nat \<times> kii) option" where
  "cb_write_buff s k = do {
     k1 \<leftarrow> (if kt_written k = 0
            then (let k' = k\<lparr>kt_resp_offset := session_resp_offset k\<rparr>
                  in zeroes (kt_resp_offset k') (kt_size k' - kt_resp_offset k') k')
            else Some k);
     k2 \<leftarrow> (if usub (usub (kt_size k1) (kt_resp_offset k1)) (kt_written k1) < length s then resp_to_start k1 else Some k1);
     (if usub (usub (kt_size k2) (kt_resp_offset k2)) (kt_written k2) < length s then Some (0, k2)
      else do {
        k3 \<leftarrow> put (kt_resp_offset k2 + kt_written k2) s k2;
        Some (length s, k3\<lparr>kt_written := kt_written k3 + length s\<rparr>)
      })
   }"

text \<open>What the read callback gives, asked again and again: the rest of the body.\<close>

definition buff_body :: "kii \<Rightarrow> string" where
  "buff_body k = drop (kt_read k) (take (kt_req_size k) (buff k))"

text \<open>
  \<open>_parse_etag\<close>: \<open>i\<close> is the index in the header, \<open>j\<close> that in the buffer.  The result is what it
  returns, with the buffer.
\<close>

fun etag_loop :: "nat \<Rightarrow> nat \<Rightarrow> nat \<Rightarrow> string \<Rightarrow> string \<Rightarrow> (int \<times> string) option" where
  "etag_loop state i j [] b = do { b' \<leftarrow> put_etag j NUL b; Some (int j, b') }"
| "etag_loop state i j (c # s) b =
     (if state = 0
      then (if c = ''etag'' ! i \<or> c = ''ETAG'' ! i
            then etag_loop (if i = 3 then 1 else 0) (i + 1) j s b else Some (-1, b))
      else if state = 1
      then (if c = SPC \<or> c = HTAB then etag_loop 1 (i + 1) j s b
            else if c = CHR '':'' then etag_loop 2 (i + 1) j s b else Some (-2, b))
      else if state = 2
      then (if c = SPC \<or> c = HTAB then etag_loop 2 (i + 1) j s b
            else do { b' \<leftarrow> put_etag 0 c b; etag_loop 3 (i + 1) (j + 1) s b' })
      else (if c = SPC \<or> c = HTAB \<or> c = CR then do { b' \<leftarrow> put_etag j NUL b; Some (int j, b') }
            else if j < ETAG_MAX_SIZE - 1 then do { b' \<leftarrow> put_etag j c b; etag_loop 3 (i + 1) (j + 1) s b' }
            else Some (-3, b)))"

definition parse_etag :: "string \<Rightarrow> string \<Rightarrow> (int \<times> string) option" where
  "parse_etag header b = etag_loop 0 0 0 header b"

definition cb_write_header :: "string \<Rightarrow> kii \<Rightarrow> kii option" where
  "cb_write_header line k = map_option (\<lambda>(_, e). k\<lparr>kt_etag := e\<rparr>) (parse_etag line (kt_etag k))"

fun give_headers :: "string list \<Rightarrow> kii \<Rightarrow> kii option" where
  "give_headers [] k = Some k"
| "give_headers (h # hs) k = cb_write_header h k \<bind> give_headers hs"

text \<open>Whether all of the pieces were taken.\<close>

fun give_pieces :: "'w kii_io \<Rightarrow> string list \<Rightarrow> 'w kst \<Rightarrow> (bool \<times> 'w kst) option" where
  "give_pieces io [] s = Some (True, s)"
| "give_pieces io (p # ps) s =
     (if kt_writes_buff (st_kii s)
      then do {
        (n, k) \<leftarrow> cb_write_buff p (st_kii s);
        (if n < length p then Some (False, s\<lparr>st_kii := k\<rparr>) else give_pieces io ps (s\<lparr>st_kii := k\<rparr>))
      }
      else
        (case ki_app_write io p (st_w s) of
           (n, w) \<Rightarrow> if n < length p then Some (False, s\<lparr>st_w := w\<rparr>) else give_pieces io ps (s\<lparr>st_w := w\<rparr>)))"

text \<open>\<open>khc_perform\<close>, with kii's callbacks.\<close>

definition perform :: "'w kii_io \<Rightarrow> 'w kst \<Rightarrow> (khc_code \<times> 'w kst) option" where
  "perform io s =
     (let k = st_kii s in
      case ki_exchange io (kt_khc k) (if kt_reads_buff k then Some (buff_body k) else None) (st_w s) of
        (ex, w) \<Rightarrow> do {
          k1 \<leftarrow> give_headers (ex_headers ex)
            (k\<lparr>kt_khc := ex_khc ex,
               kt_read := kt_read k + (if kt_reads_buff k then min (ex_read ex) (length (buff_body k)) else 0)\<rparr>);
          (all_taken, s1) \<leftarrow> give_pieces io (ex_pieces ex) (s\<lparr>st_kii := k1, st_w := w\<rparr>);
          Some (if all_taken then ex_code ex else ERR_WRITE_CALLBACK, s1)
        })"

fun convert_code :: "khc_code \<Rightarrow> kii_code" where
  "convert_code ERR_OK = KII_ERR_OK"
| "convert_code ERR_SOCK_CONNECT = KII_ERR_SOCK_CONNECT"
| "convert_code ERR_SOCK_CLOSE = KII_ERR_SOCK_CLOSE"
| "convert_code ERR_SOCK_SEND = KII_ERR_SOCK_SEND"
| "convert_code ERR_SOCK_RECV = KII_ERR_SOCK_RECV"
| "convert_code ERR_HEADER_CALLBACK = KII_ERR_HEADER_CALLBACK"
| "convert_code ERR_WRITE_CALLBACK = KII_ERR_WRITE_CALLBACK"
| "convert_code ERR_ALLOCATION = KII_ERR_ALLOCATION"
| "convert_code ERR_TOO_LARGE_DATA = KII_ERR_TOO_LARGE_DATA"
| "convert_code ERR_FAIL = KII_ERR_FAIL"
| "convert_code ERR_READ_CALLBACK = KII_ERR_FAIL"
| "convert_code ERR_TIMEOUT = KII_ERR_TIMEOUT"
| "convert_code ERR_CANCELLED = KII_ERR_FAIL"
| "convert_code ERR_INVALID_RESPONSE = KII_ERR_INVALID_RESPONSE"

section \<open>Preparing a request\<close>

definition append_header :: "'w kii_io \<Rightarrow> string \<Rightarrow> string \<Rightarrow> 'w call" where
  "append_header io key val s =
     (if length key + length val + 3 > kt_size (st_kii s)
      then Some (KII_ERR_TOO_LARGE_DATA, kmap req_headers_free_all s)
      else
        (let line = key @ '': '' @ val in
         case ki_alloc io line (st_w s) of
           (got, w) \<Rightarrow>
             if \<not> got then Some (KII_ERR_ALLOCATION, kmap req_headers_free_all (s\<lparr>st_w := w\<rparr>))
             else Some (KII_ERR_OK, kmap (\<lambda>k. k\<lparr>kt_req_headers := kt_req_headers k @ [line]\<rparr>) (s\<lparr>st_w := w\<rparr>))))"

definition append_header_or_default :: "'w kii_io \<Rightarrow> string \<Rightarrow> string option \<Rightarrow> string \<Rightarrow> 'w call" where
  "append_header_or_default io key val dflt s =
     (case val of
        Some v \<Rightarrow> append_header io key (if length v > 0 then v else dflt) s
      | None \<Rightarrow> append_header io key dflt s)"

definition set_content_type :: "'w kii_io \<Rightarrow> string \<Rightarrow> 'w call" where
  "set_content_type io content_type = append_header io ''Content-Type'' content_type"

definition set_content_encoding :: "'w kii_io \<Rightarrow> string \<Rightarrow> 'w call" where
  "set_content_encoding io content_encoding = append_header io ''Content-Encoding'' content_encoding"

definition set_app_id_header :: "'w kii_io \<Rightarrow> 'w call" where
  "set_app_id_header io s = append_header io ''X-Kii-Appid'' (kt_app_id (st_kii s)) s"

definition set_app_key_header :: "'w kii_io \<Rightarrow> 'w call" where
  "set_app_key_header io = append_header io ''X-Kii-Appkey'' ''k''"

definition set_m_0_header :: "'w kii_io \<Rightarrow> 'w call" where
  "set_m_0_header io = append_header io ''kii-m'' ''0''"

definition set_if_match :: "'w kii_io \<Rightarrow> string option \<Rightarrow> 'w call" where
  "set_if_match io etag s =
     (case etag of
        Some e \<Rightarrow> (if length e = 0 then Some (KII_ERR_OK, s) else append_header io ''If-Match'' e s)
      | None \<Rightarrow> Some (KII_ERR_OK, s))"

text \<open>Taking the session's lock, and \<open>_kii_session_sync\<close>.\<close>

definition ss_lock :: "'w kii_io \<Rightarrow> 'w kst \<Rightarrow> 'w kst" where
  "ss_lock io s = (case ki_others io (st_ss s) (st_w s) of (ss, w) \<Rightarrow> s\<lparr>st_ss := ss, st_w := w\<rparr>)"

definition sync_locked :: "'w kst \<Rightarrow> 'w kst" where
  "sync_locked s = kmap (\<lambda>k. k\<lparr>kt_author := ss_author (st_ss s), kt_session_generation := ss_generation (st_ss s)\<rparr>) s"

definition session_sync :: "'w kii_io \<Rightarrow> 'w kst \<Rightarrow> 'w kst" where
  "session_sync io s = sync_locked (ss_lock io s)"

definition set_auth_bearer_token :: "'w kii_io \<Rightarrow> string \<Rightarrow> 'w call" where
  "set_auth_bearer_token io token s =
     (if length token > 0
      then do {
        k1 \<leftarrow> put 0 [NUL] (st_kii s);
        let line = ''Bearer '' @ token;
        k2 \<leftarrow> put_printf 0 line k1;
        (if length line \<ge> kt_size k2
         then do {
           k3 \<leftarrow> zeroes 0 (kt_size k2) k2;
           Some (KII_ERR_TOO_LARGE_DATA, s\<lparr>st_kii := k3\<rparr>)
         }
         else do {
           (res, s1) \<leftarrow> append_header io ''Authorization'' (cstr (buff k2)) (s\<lparr>st_kii := k2\<rparr>);
           k3 \<leftarrow> zeroes 0 (length line) (st_kii s1);
           Some (res, s1\<lparr>st_kii := k3\<rparr>)
         })
      }
      else Some (KII_ERR_OK, s))"

definition set_auth_header :: "'w kii_io \<Rightarrow> 'w call" where
  "set_auth_header io s =
     (let s1 = (if kt_has_session (st_kii s) then session_sync io s else s)
      in set_auth_bearer_token io (au_token (kt_author (st_kii s1))) s1)"

definition base64_digits :: string where
  "base64_digits = ''ABCDEFGHIJKLMNOPQRSTUVWXYZabcdefghijklmnopqrstuvwxyz0123456789+/''"

definition base64_digit :: "nat \<Rightarrow> nat \<Rightarrow> char" where
  "base64_digit n sh = base64_digits ! (drop_bit sh n AND 0x3f)"

fun base64_loop :: "string \<Rightarrow> string" where
  "base64_loop (a # b # c # s) =
     (let n = push_bit 16 (code a) OR push_bit 8 (code b) OR code c
      in base64_digit n 18 # base64_digit n 12 # base64_digit n 6 # base64_digit n 0 # base64_loop s)"
| "base64_loop [a, b] =
     (let n = push_bit 16 (code a) OR push_bit 8 (code b)
      in [base64_digit n 18, base64_digit n 12, base64_digit n 6, CHR ''=''])"
| "base64_loop [a] =
     (let n = push_bit 16 (code a) in [base64_digit n 18, base64_digit n 12, CHR ''='', CHR ''=''])"
| "base64_loop [] = []"

text \<open>\<open>None\<close> for -1: the encoding does not fit.\<close>

definition base64_encode :: "string \<Rightarrow> nat \<Rightarrow> string option" where
  "base64_encode src dst_size =
     (if (length src + 2) div 3 * 4 \<ge> dst_size then None else Some (base64_loop src))"

definition set_auth_basic_app :: "'w kii_io \<Rightarrow> 'w call" where
  "set_auth_basic_app io s =
     (let credentials = kt_app_id (st_kii s) @ '':dummy'' in
      if length credentials \<ge> APP_ID_MAX_SIZE + 7 then Some (KII_ERR_TOO_LARGE_DATA, s)
      else if kt_size (st_kii s) < 7 then Some (KII_ERR_TOO_LARGE_DATA, s)
      else do {
        k1 \<leftarrow> put 0 (''Basic '' @ [NUL]) (st_kii s);
        (case base64_encode credentials (kt_size k1 - 6) of
           None \<Rightarrow> Some (KII_ERR_TOO_LARGE_DATA, s\<lparr>st_kii := k1\<rparr>)
         | Some e \<Rightarrow> do {
             k2 \<leftarrow> put 6 (e @ [NUL]) k1;
             append_header io ''Authorization'' (cstr (buff k2)) (s\<lparr>st_kii := k2\<rparr>)
           })
      })"

section \<open>Bodies\<close>

text \<open>\<open>jkii_escape_str\<close> into the buffer at \<open>off\<close>: where it stands at \<open>pos\<close>; -1 is \<open>None\<close>.\<close>

fun escape_loop :: "nat \<Rightarrow> string \<Rightarrow> nat \<Rightarrow> kii \<Rightarrow> (nat option \<times> kii) option" where
  "escape_loop off [] pos k = do { k' \<leftarrow> put (off + pos) [NUL] k; Some (Some pos, k') }"
| "escape_loop off (c # s) pos k =
     (let esc = (case escape_of c of None \<Rightarrow> [c] | Some e \<Rightarrow> e) in
      if kt_size k - off - pos < length esc + 1 then do { k' \<leftarrow> put off [NUL] k; Some (None, k') }
      else do {
        k' \<leftarrow> put (off + pos) esc k;
        escape_loop off s (pos + length esc) k'
      })"

definition escape_str :: "nat \<Rightarrow> string \<Rightarrow> kii \<Rightarrow> (nat option \<times> kii) option" where
  "escape_str off str k =
     (if kt_size k - off < length str + 1
      then (if kt_size k - off > 0 then do { k' \<leftarrow> put off [NUL] k; Some (None, k') } else Some (None, k))
      else escape_loop off str 0 k)"

text \<open>Lengths so far, \<open>None\<close> for -1.\<close>

definition body_copy :: "nat \<Rightarrow> string \<Rightarrow> kii \<Rightarrow> (nat option \<times> kii) option" where
  "body_copy len str k =
     (if length str \<ge> kt_size k - len then Some (None, k)
      else do { k' \<leftarrow> put len (str @ [NUL]) k; Some (Some (len + length str), k') })"

definition body_append :: "nat option \<Rightarrow> string \<Rightarrow> string \<Rightarrow> string \<Rightarrow> kii \<Rightarrow> (nat option \<times> kii) option" where
  "body_append len before val after k =
     (case len of
        None \<Rightarrow> Some (None, k)
      | Some n \<Rightarrow> do {
          (len1, k1) \<leftarrow> body_copy n before k;
          (case len1 of
             None \<Rightarrow> Some (None, k1)
           | Some n1 \<Rightarrow> do {
               (escaped, k2) \<leftarrow> escape_str n1 val k1;
               (case escaped of None \<Rightarrow> Some (None, k2) | Some e \<Rightarrow> body_copy (n1 + e) after k2)
             })
        })"

fun body_appends :: "(string \<times> string \<times> string) list \<Rightarrow> nat option \<Rightarrow> kii \<Rightarrow> (nat option \<times> kii) option" where
  "body_appends [] len k = Some (len, k)"
| "body_appends ((before, val, after) # ps) len k = do {
     (len', k') \<leftarrow> body_append len before val after k;
     body_appends ps len' k'
   }"

definition body_from_buff :: "kii \<Rightarrow> kii" where
  "body_from_buff k = k\<lparr>kt_req_streamed := False, kt_reads_buff := True\<rparr>"

definition set_body_reader :: "bool \<Rightarrow> nat \<Rightarrow> 'w call" where
  "set_body_reader cb_set n s =
     (if \<not> cb_set \<or> kt_req_size (st_kii s) > 0 then Some (KII_ERR_FAIL, kmap req_headers_free_all s)
      else Some (KII_ERR_OK, kmap (\<lambda>k. k\<lparr>kt_reads_buff := False, kt_khc := khc_set_req_body_length (kt_khc k) n,
                                      kt_req_streamed := True\<rparr>) s))"

definition append_body :: "string \<Rightarrow> 'w call" where
  "append_body chunk s =
     (let k = st_kii s; total_size = kt_req_size k + length chunk in
      if kt_req_streamed k then Some (KII_ERR_FAIL, kmap req_headers_free_all s)
      else if total_size + 1 > kt_size k then Some (KII_ERR_TOO_LARGE_DATA, kmap req_headers_free_all s)
      else do {
        k1 \<leftarrow> put (kt_req_size k) chunk k;
        k2 \<leftarrow> put total_size [NUL] (k1\<lparr>kt_req_size := total_size\<rparr>);
        Some (KII_ERR_OK, s\<lparr>st_kii := k2\<rparr>)
      })"

definition set_no_body :: "'w call" where
  "set_no_body s = do { k \<leftarrow> reset_buff (st_kii s); Some (KII_ERR_OK, s\<lparr>st_kii := k\<rparr>) }"

definition set_req_body :: "string option \<Rightarrow> 'w call" where
  "set_req_body body s =
     (case body of
        None \<Rightarrow> set_no_body s
      | Some b \<Rightarrow> if length b = 0 then set_no_body s else append_body b s)"

section \<open>Starting a request, and paths\<close>

definition set_path :: "string \<Rightarrow> kii \<Rightarrow> khc_code \<times> kii" where
  "set_path path k = (case khc_set_path (kt_khc k) path of (h, c) \<Rightarrow> (c, k\<lparr>kt_khc := h\<rparr>))"

definition set_method :: "string \<Rightarrow> kii \<Rightarrow> khc_code \<times> kii" where
  "set_method meth k = (case khc_set_method (kt_khc k) meth of (h, c) \<Rightarrow> (c, k\<lparr>kt_khc := h\<rparr>))"

definition set_host :: "string \<Rightarrow> kii \<Rightarrow> kii" where
  "set_host host k = k\<lparr>kt_khc := fst (khc_set_host (kt_khc k) host)\<rparr>"

definition free_if_failed :: "(kii_code \<times> 'w kst) option \<Rightarrow> (kii_code \<times> 'w kst) option" where
  "free_if_failed r =
     map_option (\<lambda>(c, s). if c = KII_ERR_OK then (c, s) else (c, kmap req_headers_free_all s)) r"

definition api_call_start :: "'w kii_io \<Rightarrow> string \<Rightarrow> string \<Rightarrow> string option \<Rightarrow> bool \<Rightarrow> 'w call" where
  "api_call_start io http_method resource_path content_type auth s = do {
     k1 \<leftarrow> reset_buff (st_kii s);
     let k2 = set_host (kt_app_host k1) (body_from_buff (reset_khc (req_headers_free_all k1)));
     (case set_method http_method k2 of
        (c, k3) \<Rightarrow>
          if c \<noteq> ERR_OK then Some (KII_ERR_TOO_LARGE_DATA, s\<lparr>st_kii := k3\<rparr>)
          else
            (case set_path resource_path k3 of
               (c', k4) \<Rightarrow>
                 if c' \<noteq> ERR_OK then Some (KII_ERR_TOO_LARGE_DATA, s\<lparr>st_kii := k4\<rparr>)
                 else
                   free_if_failed (on_ok (set_app_id_header io (s\<lparr>st_kii := k4\<rparr>)) (\<lambda>s.
                     on_ok (set_app_key_header io s) (\<lambda>s.
                       on_ok (case content_type of
                                Some t \<Rightarrow> (if length t > 0 then set_content_type io t s else Some (KII_ERR_OK, s))
                              | None \<Rightarrow> Some (KII_ERR_OK, s)) (\<lambda>s.
                         if auth then set_auth_header io s else Some (KII_ERR_OK, s)))))))
   }"

text \<open>A path printed into the buffer and given to khc.\<close>

definition printf_path :: "string \<Rightarrow> 'w call" where
  "printf_path path s = do {
     k1 \<leftarrow> put_printf 0 path (st_kii s);
     (if length path \<ge> kt_size k1 then Some (KII_ERR_TOO_LARGE_DATA, s\<lparr>st_kii := k1\<rparr>)
      else
        (case set_path (cstr (buff k1)) k1 of
           (c, k2) \<Rightarrow> Some (if c = ERR_OK then KII_ERR_OK else KII_ERR_TOO_LARGE_DATA, s\<lparr>st_kii := k2\<rparr>)))
   }"

datatype scope = SCOPE_APP | SCOPE_USER | SCOPE_GROUP | SCOPE_THING

fun scope_path :: "scope \<Rightarrow> string \<Rightarrow> string" where
  "scope_path SCOPE_APP i = ''''"
| "scope_path SCOPE_USER i = ''/users/'' @ i"
| "scope_path SCOPE_GROUP i = ''/groups/'' @ i"
| "scope_path SCOPE_THING i = ''/things/'' @ i"

record bucket =
  bk_scope :: scope
  bk_scope_id :: string
  bk_name :: string

record topic =
  tp_scope :: scope
  tp_scope_id :: string
  tp_name :: string

abbreviation app_path :: "kii \<Rightarrow> scope \<Rightarrow> string \<Rightarrow> string" where
  "app_path k sc i \<equiv> ''/api/apps/'' @ kt_app_id k @ scope_path sc i"

definition set_bucket_path :: "bucket \<Rightarrow> string \<Rightarrow> string \<Rightarrow> string \<Rightarrow> 'w call" where
  "set_bucket_path b objects object_id body s =
     printf_path (app_path (st_kii s) (bk_scope b) (bk_scope_id b) @ ''/buckets/'' @ bk_name b @ objects @ object_id @ body) s"

definition set_bucket_subscription_path :: "bucket \<Rightarrow> 'w call" where
  "set_bucket_subscription_path b s =
     printf_path (app_path (st_kii s) (bk_scope b) (bk_scope_id b) @ ''/buckets/'' @ bk_name b @
       ''/filters/all/push/subscriptions/things/'' @ au_id (kt_author (st_kii s))) s"

definition set_topic_path :: "topic \<Rightarrow> 'w call" where
  "set_topic_path t s =
     printf_path (app_path (st_kii s) (tp_scope t) (tp_scope_id t) @ ''/topics/'' @ tp_name t) s"

definition set_topic_subscription_path :: "topic \<Rightarrow> 'w call" where
  "set_topic_subscription_path t s =
     printf_path (app_path (st_kii s) (tp_scope t) (tp_scope_id t) @ ''/topics/'' @ tp_name t @
       ''/push/subscriptions/things/'' @ au_id (kt_author (st_kii s))) s"

definition set_topic_push_message_path :: "topic \<Rightarrow> 'w call" where
  "set_topic_push_message_path t s =
     printf_path (app_path (st_kii s) (tp_scope t) (tp_scope_id t) @ ''/topics/'' @ tp_name t @ ''/push/messages'') s"

definition set_thing_push_message_path :: "string \<Rightarrow> 'w call" where
  "set_thing_push_message_path thing_id s =
     printf_path (''/api/apps/'' @ kt_app_id (st_kii s) @ ''/things/'' @ thing_id @ ''/push/messages'') s"

section \<open>Settings\<close>

definition copy_bounded :: "nat \<Rightarrow> string \<Rightarrow> string" where
  "copy_bounded n src = take (n - 1) src"

definition set_site :: "string \<Rightarrow> kii \<Rightarrow> kii" where
  "set_site site k = k\<lparr>kt_app_host := copy_bounded 128 (if site = ''JP'' then ''api-jp.kii.com'' else site)\<rparr>"

definition set_app_id :: "string \<Rightarrow> kii \<Rightarrow> kii" where
  "set_app_id app_id k = k\<lparr>kt_app_id := copy_bounded APP_ID_MAX_SIZE app_id\<rparr>"

definition set_buff :: "string \<Rightarrow> kii \<Rightarrow> kii" where
  "set_buff b k =
     k\<lparr>kt_mem := b, kt_base := 0, kt_size := length b, kt_read := 0, kt_written := 0,
        kt_reads_buff := True, kt_writes_buff := True\<rparr>"

definition set_stream_buff :: "string option \<Rightarrow> kii \<Rightarrow> kii" where
  "set_stream_buff b k = k\<lparr>kt_stream_buff := b, kt_khc := khc_set_stream_buff (kt_khc k) b\<rparr>"

definition set_header_buff :: "string option \<Rightarrow> kii \<Rightarrow> kii" where
  "set_header_buff b k = k\<lparr>kt_header_buff := b, kt_khc := khc_set_resp_header_buff (kt_khc k) b\<rparr>"

definition set_request_timeout :: "u32 \<Rightarrow> kii \<Rightarrow> kii_code \<times> kii" where
  "set_request_timeout timeout_sec k =
     (if timeout_sec > UINT32_MAX div 1000 then (KII_ERR_FAIL, k)
      else (KII_ERR_OK, k\<lparr>kt_khc := khc_set_timeout_ms (kt_khc k) (unat (timeout_sec * 1000))\<rparr>))"

end
