(* ===== verification/Kii_Session.thy ===== *)
theory Kii_Session
  imports Kii_Request
begin

text \<open>
  kii/kii\_session.c: the tokens the \<open>kii_t\<close> of a thing share, and their renewal, with the requests
  it makes, of kii/kii\_thing\_impl.c and kii/kii\_ti\_impl.c, and the ones that obtain tokens,
  kii/kii\_thing.c and kii/kii\_ti.c.

  \<open>_kii_perform\<close> renews a token by a request of its own, which goes through \<open>_kii_perform\<close> again:
  \<open>kii_perform\<close> and what it calls have fuel, one for each such level, and none left is \<open>None\<close>.
\<close>

definition RENEW_MARGIN_MAX_MS :: u64 where "RENEW_MARGIN_MAX_MS = 5 * 60 * 1000"
definition LIFETIME_MAX_SEC :: int where "LIFETIME_MAX_SEC = 2 ^ 32 - 1"
definition PASSWORD_WAIT_MIN_MS :: u64 where "PASSWORD_WAIT_MIN_MS = 5 * 60 * 1000"
definition PASSWORD_WAIT_MAX_MS :: u64 where "PASSWORD_WAIT_MAX_MS = 60 * 60 * 1000"
definition AUTH_HEADER_PREFIX :: string where "AUTH_HEADER_PREFIX = ''Authorization: Bearer ''"
definition SESSION_RENEW_BUFF_SIZE :: nat where "SESSION_RENEW_BUFF_SIZE = 128 + 128 + 128 + 256"
definition SESSION_ONBOARD_BUFF_SIZE :: nat where
  "SESSION_ONBOARD_BUFF_SIZE = 128 + 128 + 64 + 64 + 128 + 64 + 64 + 512"

section \<open>The session\<close>

definition no_author :: author where
  "no_author = \<lparr>au_id = [], au_token = [], au_refresh = []\<rparr>"

definition session_init :: session where
  "session_init =
     \<lparr>ss_author = no_author, ss_generation = 0, ss_renew_at_known = False, ss_stored_at_ms = 0, ss_renew_after_ms = 0,
      ss_renew_mode = RENEW_BY_TOKEN_ENDPOINT, ss_vendor_thing_id = [], ss_password = None, ss_password_wait_ms = 0,
      ss_password_refused_at_ms = 0, ss_has_cb = False\<rparr>"

definition session_set_password :: "string \<Rightarrow> string option \<Rightarrow> session \<Rightarrow> session" where
  "session_set_password vendor_thing_id password ss =
     ss\<lparr>ss_vendor_thing_id := vendor_thing_id, ss_password := password, ss_password_wait_ms := 0\<rparr>"

definition session_set_author :: "author \<Rightarrow> session \<Rightarrow> session" where
  "session_set_author au ss =
     ss\<lparr>ss_author := au, ss_renew_at_known := False, ss_generation := ss_generation ss + 1\<rparr>"

definition session_set_renew_mode :: "renew_mode \<Rightarrow> session \<Rightarrow> session" where
  "session_set_renew_mode mode ss = ss\<lparr>ss_renew_mode := mode\<rparr>"

definition now_ms :: "'w kii_io \<Rightarrow> 'w kst \<Rightarrow> u64 \<times> 'w kst" where
  "now_ms io s = (case ki_now io (st_w s) of (t, w) \<Rightarrow> (t, s\<lparr>st_w := w\<rparr>))"

text \<open>How long after it was issued a token is renewed, where that is known.\<close>

definition renew_after_ms :: "int \<Rightarrow> u64 option" where
  "renew_after_ms expires_in_sec =
     (if expires_in_sec \<le> 0 \<or> expires_in_sec > LIFETIME_MAX_SEC then None
      else
        (let lifetime_ms = of_int expires_in_sec * 1000;
             margin_ms = lifetime_ms div 5;
             margin_ms = (if margin_ms > RENEW_MARGIN_MAX_MS then RENEW_MARGIN_MAX_MS else margin_ms)
         in Some (lifetime_ms - margin_ms)))"

definition store_locked :: "'w kii_io \<Rightarrow> author \<Rightarrow> int \<Rightarrow> 'w kst \<Rightarrow> 'w kst" where
  "store_locked io au expires_in_sec s =
     (let ss1 = (st_ss s)\<lparr>ss_author := au\<rparr>;
          (ss2, s2) = (case renew_after_ms expires_in_sec of
                         None \<Rightarrow> (ss1\<lparr>ss_renew_at_known := False\<rparr>, s)
                       | Some t \<Rightarrow>
                           (case now_ms io s of
                              (now, s') \<Rightarrow> (ss1\<lparr>ss_renew_at_known := True, ss_renew_after_ms := t, ss_stored_at_ms := now\<rparr>, s')));
          ss3 = ss2\<lparr>ss_generation := ss_generation ss2 + 1\<rparr>
      in s2\<lparr>st_ss := ss3, st_w := (if ss_has_cb ss3 then ki_updated io au (st_w s2) else st_w s2)\<rparr>)"

definition session_publish :: "'w kii_io \<Rightarrow> int \<Rightarrow> renew_mode \<Rightarrow> 'w kst \<Rightarrow> 'w kst" where
  "session_publish io expires_in_sec mode s =
     (let s1 = ss_lock io s;
          s2 = s1\<lparr>st_ss := (st_ss s1)\<lparr>ss_renew_mode := mode\<rparr>\<rparr>
      in sync_locked (store_locked io (kt_author (st_kii s2)) expires_in_sec s2))"

definition password_usable_locked :: "'w kii_io \<Rightarrow> 'w kst \<Rightarrow> bool \<times> 'w kst" where
  "password_usable_locked io s =
     (if ss_password (st_ss s) = None then (False, s)
      else if ss_password_wait_ms (st_ss s) = 0 then (True, s)
      else
        (case now_ms io s of
           (now, s') \<Rightarrow> (now - ss_password_refused_at_ms (st_ss s) \<ge> ss_password_wait_ms (st_ss s), s')))"

definition status_refuses :: "nat \<Rightarrow> bool" where
  "status_refuses status \<longleftrightarrow> 400 \<le> status \<and> status < 500 \<and> status \<noteq> 408 \<and> status \<noteq> 429"

definition next_password_wait :: "u64 \<Rightarrow> u64" where
  "next_password_wait wait =
     (let wait_ms = wait * 2
      in if wait_ms < PASSWORD_WAIT_MIN_MS then PASSWORD_WAIT_MIN_MS
         else if wait_ms > PASSWORD_WAIT_MAX_MS then PASSWORD_WAIT_MAX_MS else wait_ms)"

definition password_tried_locked :: "'w kii_io \<Rightarrow> kii_code \<Rightarrow> bool \<Rightarrow> 'w kst \<Rightarrow> 'w kst" where
  "password_tried_locked io res refused s =
     (if res = KII_ERR_OK then s\<lparr>st_ss := (st_ss s)\<lparr>ss_password_wait_ms := 0\<rparr>\<rparr>
      else if refused
      then
        (let ss1 = (st_ss s)\<lparr>ss_password_wait_ms := next_password_wait (ss_password_wait_ms (st_ss s))\<rparr> in
         case now_ms io s of (now, s') \<Rightarrow> s'\<lparr>st_ss := ss1\<lparr>ss_password_refused_at_ms := now\<rparr>\<rparr>)
      else s)"

definition due_locked :: "'w kii_io \<Rightarrow> 'w kst \<Rightarrow> bool \<times> 'w kst" where
  "due_locked io s =
     (if \<not> ss_renew_at_known (st_ss s) then (False, s)
      else (case now_ms io s of (now, s') \<Rightarrow> (now - ss_stored_at_ms (st_ss s) \<ge> ss_renew_after_ms (st_ss s), s')))"

section \<open>The request, sent\<close>

definition clock_record :: "'w kii_io \<Rightarrow> 'w kst \<Rightarrow> 'w kst" where
  "clock_record io s =
     (if \<not> kt_has_clock (st_kii s) then s
      else (let date = khc_get_resp_date (kt_khc (st_kii s))
            in if date \<ge> 0 then s\<lparr>st_w := ki_set_time io date (st_w s)\<rparr> else s))"

text \<open>\<open>_req_send\<close>, of whatever \<open>_kii_perform\<close> is.\<close>

definition req_send :: "'w kii_io \<Rightarrow> ('w kst \<Rightarrow> (khc_code \<times> 'w kst) option) \<Rightarrow> 'w call" where
  "req_send io kii_perform s =
     free_if_failed
       (on_ok (append_header io ''X-Kii-SDK'' (''sn=te;sv='' @ ki_version io) s) (\<lambda>s.
          if kt_use_m_0 (st_kii s) then set_m_0_header io s else Some (KII_ERR_OK, s)))
     \<bind> (\<lambda>(res, s).
       if res \<noteq> KII_ERR_OK then Some (res, s)
       else do {
         let s1 = kmap (\<lambda>k. k\<lparr>kt_khc := fst (khc_set_req_headers (kt_khc k) (map Some (kt_req_headers k)))\<rparr>) s;
         let s2 = kmap (\<lambda>k. if kt_reads_buff k then k\<lparr>kt_khc := khc_set_req_body_length (kt_khc k) (kt_req_size k)\<rparr> else k) s1;
         (code, s3) \<leftarrow> kii_perform s2;
         let s4 = kmap req_headers_free_all (clock_record io s3);
         Some (if code = ERR_WRITE_CALLBACK \<and> kt_writes_buff (st_kii s4) then KII_ERR_TOO_LARGE_DATA else convert_code code, s4)
       })"

section \<open>The requests that obtain tokens\<close>

text \<open>The start of one: the method, a path printed into the buffer, and the host.\<close>

definition start_on :: "string \<Rightarrow> string \<Rightarrow> string \<Rightarrow> 'w call" where
  "start_on host meth path s = do {
     let k = snd (set_method meth (set_host host (st_kii s)));
     k1 \<leftarrow> put_printf 0 path k;
     (if length path \<ge> kt_size k1 then Some (KII_ERR_TOO_LARGE_DATA, s\<lparr>st_kii := k1\<rparr>)
      else Some (KII_ERR_OK, s\<lparr>st_kii := snd (set_path (cstr (buff k1)) k1)\<rparr>))
   }"

definition start_at :: "string \<Rightarrow> string \<Rightarrow> 'w call" where
  "start_at meth path s = start_on (kt_app_host (st_kii s)) meth path s"

definition app_headers :: "'w kii_io \<Rightarrow> string \<Rightarrow> 'w call" where
  "app_headers io content_type s =
     free_if_failed (on_ok (set_app_id_header io s) (\<lambda>s. on_ok (set_app_key_header io s) (set_content_type io content_type)))"

text \<open>The body, of parts each escaped between two texts, and then the request.\<close>

definition send_body ::
    "'w kii_io \<Rightarrow> ('w kst \<Rightarrow> (khc_code \<times> 'w kst) option) \<Rightarrow> (string \<times> string \<times> string) list \<Rightarrow> 'w call" where
  "send_body io kii_perform parts s = do {
     (len, k) \<leftarrow> body_appends parts (Some 0) (st_kii s);
     (case len of
        None \<Rightarrow> Some (KII_ERR_TOO_LARGE_DATA, s\<lparr>st_kii := req_headers_free_all k\<rparr>)
      | Some n \<Rightarrow> req_send io kii_perform (s\<lparr>st_kii := k\<lparr>kt_req_size := n\<rparr>\<rparr>))
   }"

definition token_path :: "kii \<Rightarrow> string" where
  "token_path k = ''/api/apps/'' @ kt_app_id k @ ''/oauth2/token''"

definition thing_auth ::
    "'w kii_io \<Rightarrow> ('w kst \<Rightarrow> (khc_code \<times> 'w kst) option) \<Rightarrow> string \<Rightarrow> string \<Rightarrow> 'w call" where
  "thing_auth io kii_perform vendor_thing_id password s =
     on_ok (start_at ''POST'' (token_path (st_kii s)) s) (\<lambda>s.
       on_ok (app_headers io ''application/vnd.kii.OauthTokenRequest+json'' s) (\<lambda>s.
         send_body io kii_perform
           [(''{\"username\":\"VENDOR_THING_ID:'', vendor_thing_id, ''''),
            (''\", \"password\":\"'', password, ''\", \"grant_type\":\"password\"}'')] s))"

definition thing_register ::
    "'w kii_io \<Rightarrow> ('w kst \<Rightarrow> (khc_code \<times> 'w kst) option) \<Rightarrow> string \<Rightarrow> string \<Rightarrow> string \<Rightarrow> 'w call" where
  "thing_register io kii_perform vendor_thing_id password thing_type s =
     on_ok (start_at ''POST'' (''/api/apps/'' @ kt_app_id (st_kii s) @ ''/things'') s) (\<lambda>s.
       on_ok (app_headers io ''application/vnd.kii.ThingRegistrationAndAuthorizationRequest+json'' s) (\<lambda>s.
         send_body io kii_perform
           [(''{\"_vendorThingID\":\"'', vendor_thing_id, ''''),
            (''\", \"_thingType\":\"'', thing_type, ''''),
            (''\", \"_password\":\"'', password, ''\"}'')] s))"

text \<open>\<open>esc_token\<close> is an array of its own, of twice a token's size.\<close>

definition escaped :: "string \<Rightarrow> string" where
  "escaped str = concat (map (\<lambda>c. case escape_of c of None \<Rightarrow> [c] | Some e \<Rightarrow> e) str)"

definition thing_refresh :: "'w kii_io \<Rightarrow> ('w kst \<Rightarrow> (khc_code \<times> 'w kst) option) \<Rightarrow> string \<Rightarrow> 'w call" where
  "thing_refresh io kii_perform refresh_token s =
     on_ok (start_at ''POST'' (token_path (st_kii s)) s) (\<lambda>s.
       on_ok (app_headers io ''application/vnd.kii.OauthTokenRequest+json'' s) (\<lambda>s.
         if length (escaped refresh_token) + 1 > REFRESH_TOKEN_MAX_SIZE * 2
         then Some (KII_ERR_TOO_LARGE_DATA, kmap req_headers_free_all s)
         else do {
           let body = ''{\"grant_type\":\"refresh_token\", \"refresh_token\":\"'' @ escaped refresh_token @ ''\"}'';
           k1 \<leftarrow> put_printf 0 body (st_kii s);
           (if length body \<ge> kt_size k1 then Some (KII_ERR_TOO_LARGE_DATA, s\<lparr>st_kii := req_headers_free_all k1\<rparr>)
            else req_send io kii_perform (s\<lparr>st_kii := k1\<lparr>kt_req_size := length body\<rparr>\<rparr>))
         }))"

section \<open>What they answer\<close>

definition copied :: "field_result \<Rightarrow> string \<Rightarrow> string" where
  "copied r old = (case r of FIELD_TEXT t \<Rightarrow> t | _ \<Rightarrow> old)"

fun is_text :: "field_result \<Rightarrow> bool" where
  "is_text (FIELD_TEXT t) = True"
| "is_text r = False"

text \<open>The code, the author as the response has it, and the lifetime.\<close>

definition parse_token_response :: "'w kii_io \<Rightarrow> kii \<Rightarrow> author \<Rightarrow> bool \<Rightarrow> kii_code \<times> author \<times> int" where
  "parse_token_response io k au id_required =
     (case ki_parse io (take (kt_written k) (buff k))
             [(''id'', FIELD_STRING AUTHOR_ID_MAX_SIZE), (''access_token'', FIELD_STRING TOKEN_MAX_SIZE),
              (''refresh_token'', FIELD_STRING REFRESH_TOKEN_MAX_SIZE), (''expires_in'', FIELD_LONG)] of
        (result, fs) \<Rightarrow>
          let au' = \<lparr>au_id = copied (fs ! 0) (au_id au), au_token = copied (fs ! 1) (au_token au),
                     au_refresh = copied (fs ! 2) (au_refresh au)\<rparr>
          in if result = PARSE_FAILED then (KII_ERR_PARSE_JSON, au', 0)
             else if \<not> is_text (fs ! 1) then (KII_ERR_PARSE_JSON, au', 0)
             else if \<not> is_text (fs ! 0) \<and> (id_required \<or> fs ! 0 \<noteq> FIELD_NOT_FOUND) then (KII_ERR_PARSE_JSON, au', 0)
             else if \<not> is_text (fs ! 2) \<and> fs ! 2 \<noteq> FIELD_NOT_FOUND then (KII_ERR_PARSE_JSON, au', 0)
             else (KII_ERR_OK, au', case fs ! 3 of FIELD_NUMBER n \<Rightarrow> n | _ \<Rightarrow> 0))"

text \<open>\<open>_token_response\<close>: the code, the author, the lifetime, and whether it was refused.\<close>

definition token_response ::
    "'w kii_io \<Rightarrow> kii_code \<Rightarrow> author \<Rightarrow> bool \<Rightarrow> 'w kst \<Rightarrow> ((kii_code \<times> author \<times> int \<times> bool) \<times> 'w kst) option" where
  "token_response io sent au id_required s =
     (let status = khc_get_status_code (kt_khc (st_kii s));
          r = (if sent \<noteq> KII_ERR_OK then (sent, au, 0, False)
               else if status_refuses status then (KII_ERR_RESP_STATUS, au, 0, True)
               else if status < 200 \<or> 300 \<le> status then (KII_ERR_RESP_STATUS, au, 0, False)
               else (case parse_token_response io (st_kii s) au id_required of (c, au', e) \<Rightarrow> (c, au', e, False)))
      in do {
        k \<leftarrow> clear_buffers (st_kii s);
        Some (r, s\<lparr>st_kii := k\<rparr>)
      })"

text \<open>\<open>_onboard_and_read\<close> and \<open>_onboard\<close>; the texts that may be NULL are \<open>None\<close>.\<close>

definition onboard_fields :: "(string \<times> field_type) list" where
  "onboard_fields =
     [(''accessToken'', FIELD_STRING TOKEN_MAX_SIZE), (''thingID'', FIELD_STRING AUTHOR_ID_MAX_SIZE),
      (''/mqttEndpoint/installationID'', FIELD_STRING 64), (''/mqttEndpoint/username'', FIELD_STRING 64),
      (''/mqttEndpoint/password'', FIELD_STRING 128), (''/mqttEndpoint/mqttTopic'', FIELD_STRING 64),
      (''/mqttEndpoint/host'', FIELD_STRING 64), (''/mqttEndpoint/portTCP'', FIELD_INTEGER),
      (''/mqttEndpoint/portSSL'', FIELD_INTEGER)]"

definition is_port :: "field_result \<Rightarrow> bool" where
  "is_port r = (case r of FIELD_NUMBER n \<Rightarrow> 0 < n \<and> n \<le> 65535 | _ \<Rightarrow> False)"

definition port_of :: "field_result \<Rightarrow> nat" where
  "port_of r = (case r of FIELD_NUMBER n \<Rightarrow> nat n | _ \<Rightarrow> 0)"

definition onboard_read :: "'w kii_io \<Rightarrow> kii \<Rightarrow> kii_code \<times> kii" where
  "onboard_read io k =
     (case ki_parse io (take (kt_written k) (buff k)) onboard_fields of
        (result, fs) \<Rightarrow>
          let au = \<lparr>au_id = copied (fs ! 1) (au_id (kt_author k)), au_token = copied (fs ! 0) (au_token (kt_author k)),
                    au_refresh = []\<rparr>;
              k1 = k\<lparr>kt_author := au, kt_onboarded_thing_id := []\<rparr>
          in if result = PARSE_FAILED \<or> \<not> is_text (fs ! 0) \<or> \<not> is_text (fs ! 1) then (KII_ERR_PARSE_JSON, k1)
             else if result = PARSE_OK \<and> is_port (fs ! 7) \<and> is_port (fs ! 8)
             then (KII_ERR_OK,
                   k1\<lparr>kt_onboarded_endpoint :=
                        \<lparr>ep_username = copied (fs ! 3) [], ep_password = copied (fs ! 4) [],
                         ep_topic = copied (fs ! 5) [], ep_host = copied (fs ! 6) [],
                         ep_port_tcp = port_of (fs ! 7), ep_port_ssl = port_of (fs ! 8)\<rparr>,
                      kt_onboarded_installation_id := copied (fs ! 2) [],
                      kt_onboarded_thing_id := au_id au\<rparr>)
             else (KII_ERR_OK, k1))"

definition opt_part :: "string \<Rightarrow> string option \<Rightarrow> (string \<times> string \<times> string) list" where
  "opt_part before val = (case val of None \<Rightarrow> [] | Some v \<Rightarrow> [(before, v, ''\"'')])"

definition append_printf :: "string \<Rightarrow> nat \<times> kii \<Rightarrow> (nat option \<times> kii) option" where
  "append_printf t lk =
     (case lk of
        (len, k) \<Rightarrow> do {
          k1 \<leftarrow> put_printf len t k;
          Some (if len + length t \<ge> kt_size k1 then None else Some (len + length t), k1)
        })"

definition onboard_body ::
    "string \<Rightarrow> string \<Rightarrow> string option \<Rightarrow> string option \<Rightarrow> string option \<Rightarrow> string option \<Rightarrow> kii \<Rightarrow> (nat option \<times> kii) option" where
  "onboard_body vendor_thing_id password thing_type firmware_version layout_position thing_properties k = do {
     (len, k1) \<leftarrow> body_appends
       ([(''{\"vendorThingID\":\"'', vendor_thing_id, ''''), (''\",\"thingPassword\":\"'', password, ''\"'')] @
        opt_part '',\"thingType\":\"'' thing_type @ opt_part '',\"firmwareVersion\":\"'' firmware_version @
        opt_part '',\"layoutPosition\":\"'' layout_position) (Some 0) k;
     (case len of
        None \<Rightarrow> Some (None, k1)
      | Some n \<Rightarrow> do {
          (len2, k2) \<leftarrow> (case thing_properties of
             None \<Rightarrow> Some (Some n, k1)
           | Some p \<Rightarrow> append_printf ('',\"thingProperties\":'' @ p) (n, k1));
          (case len2 of None \<Rightarrow> Some (None, k2) | Some n2 \<Rightarrow> append_printf ''}'' (n2, k2))
        })
   }"

definition onboard_send ::
    "'w kii_io \<Rightarrow> ('w kst \<Rightarrow> (khc_code \<times> 'w kst) option) \<Rightarrow>
     string \<Rightarrow> string \<Rightarrow> string option \<Rightarrow> string option \<Rightarrow> string option \<Rightarrow> string option \<Rightarrow> 'w call" where
  "onboard_send io kii_perform vendor_thing_id password thing_type firmware_version layout_position thing_properties s = do {
     (len, k) \<leftarrow> onboard_body vendor_thing_id password thing_type firmware_version layout_position thing_properties (st_kii s);
     (case len of
        None \<Rightarrow> Some (KII_ERR_TOO_LARGE_DATA, s\<lparr>st_kii := req_headers_free_all k\<rparr>)
      | Some n \<Rightarrow>
          on_ok (req_send io kii_perform (s\<lparr>st_kii := k\<lparr>kt_req_size := n\<rparr>\<rparr>)) (\<lambda>s.
            let status = khc_get_status_code (kt_khc (st_kii s)) in
            if status < 200 \<or> 300 \<le> status then Some (KII_ERR_RESP_STATUS, s)
            else (case onboard_read io (st_kii s) of (c, k') \<Rightarrow> Some (c, s\<lparr>st_kii := k'\<rparr>))))
   }"

definition onboard_and_read ::
    "'w kii_io \<Rightarrow> ('w kst \<Rightarrow> (khc_code \<times> 'w kst) option) \<Rightarrow>
     string \<Rightarrow> string \<Rightarrow> string option \<Rightarrow> string option \<Rightarrow> string option \<Rightarrow> string option \<Rightarrow> 'w call" where
  "onboard_and_read io kii_perform vendor_thing_id password thing_type firmware_version layout_position thing_properties s = do {
     k0 \<leftarrow> reset_buff (st_kii s);
     on_ok (start_at ''POST'' (''/thing-if/apps/'' @ kt_app_id k0 @ ''/onboardings'') (s\<lparr>st_kii := reset_khc k0\<rparr>)) (\<lambda>s.
       on_ok (free_if_failed (on_ok (set_auth_basic_app io s)
                (set_content_type io ''application/vnd.kii.OnboardingWithVendorThingIDByThing+json'')))
         (onboard_send io kii_perform vendor_thing_id password thing_type firmware_version layout_position thing_properties))
   }"

definition clearing :: "(kii_code \<times> 'w kst) option \<Rightarrow> (kii_code \<times> 'w kst) option" where
  "clearing r = do { (c, s) \<leftarrow> r; k \<leftarrow> clear_buffers (st_kii s); Some (c, s\<lparr>st_kii := k\<rparr>) }"

definition onboard ::
    "'w kii_io \<Rightarrow> ('w kst \<Rightarrow> (khc_code \<times> 'w kst) option) \<Rightarrow>
     string \<Rightarrow> string \<Rightarrow> string option \<Rightarrow> string option \<Rightarrow> string option \<Rightarrow> string option \<Rightarrow> 'w call" where
  "onboard io kii_perform vendor_thing_id password thing_type firmware_version layout_position thing_properties s =
     clearing (onboard_and_read io kii_perform vendor_thing_id password thing_type firmware_version layout_position
       thing_properties s)"

section \<open>Renewing\<close>

text \<open>\<open>_onboard_again\<close>: the code, with the author it obtained.\<close>

definition onboard_again ::
    "'w kii_io \<Rightarrow> ('w kst \<Rightarrow> (khc_code \<times> 'w kst) option) \<Rightarrow> author \<Rightarrow> 'w kst \<Rightarrow> ((kii_code \<times> author) \<times> 'w kst) option" where
  "onboard_again io kii_perform au s =
     (case password_usable_locked io s of
        (usable, s1) \<Rightarrow>
          if \<not> usable then Some ((KII_ERR_FAIL, au), s1)
          else do {
            (res, s2) \<leftarrow> onboard io kii_perform (ss_vendor_thing_id (st_ss s1))
              (case ss_password (st_ss s1) of Some p \<Rightarrow> p | None \<Rightarrow> []) None None None None s1;
            let status = khc_get_status_code (kt_khc (st_kii s2));
            let s3 = password_tried_locked io res (res = KII_ERR_RESP_STATUS \<and> status_refuses status) s2;
            Some (if res \<noteq> KII_ERR_OK then ((res, au), s3)
                  else ((KII_ERR_OK, (kt_author (st_kii s3))\<lparr>au_refresh := []\<rparr>), s3))
          })"

definition session_onboard_again :: "'w kii_io \<Rightarrow> ('w kst \<Rightarrow> (khc_code \<times> 'w kst) option) \<Rightarrow> 'w call" where
  "session_onboard_again io kii_perform s = do {
     let s1 = ss_lock io s;
     ((res, au), s2) \<leftarrow> onboard_again io kii_perform (ss_author (st_ss s1)) s1;
     let s3 = (if res = KII_ERR_OK then store_locked io au 0 s2 else s2);
     Some (res, sync_locked s3)
   }"

definition fresh_request :: "'w kst \<Rightarrow> ('w kst) option" where
  "fresh_request s = do { k \<leftarrow> reset_buff (st_kii s); Some (s\<lparr>st_kii := reset_khc k\<rparr>) }"

text \<open>The two tries of the token endpoint: with the refresh token, and with the password.\<close>

definition try_refresh ::
    "'w kii_io \<Rightarrow> ('w kst \<Rightarrow> (khc_code \<times> 'w kst) option) \<Rightarrow> 'w kst \<Rightarrow> ((kii_code \<times> author \<times> int \<times> bool) \<times> 'w kst) option" where
  "try_refresh io kii_perform s =
     (let au = ss_author (st_ss s) in
      if au_refresh au = [] then Some ((KII_ERR_FAIL, au, 0, True), s)
      else do {
        s1 \<leftarrow> fresh_request s;
        (sent, s2) \<leftarrow> thing_refresh io kii_perform (au_refresh au) s1;
        token_response io sent au False s2
      })"

definition try_password ::
    "'w kii_io \<Rightarrow> ('w kst \<Rightarrow> (khc_code \<times> 'w kst) option) \<Rightarrow> 'w kst \<Rightarrow> ((kii_code \<times> author \<times> int \<times> bool) \<times> 'w kst) option" where
  "try_password io kii_perform s = do {
     let au = (ss_author (st_ss s))\<lparr>au_refresh := []\<rparr>;
     s1 \<leftarrow> fresh_request s;
     (sent, s2) \<leftarrow> thing_auth io kii_perform (ss_vendor_thing_id (st_ss s1))
       (case ss_password (st_ss s1) of Some p \<Rightarrow> p | None \<Rightarrow> []) s1;
     ((res, au', e, rejected), s3) \<leftarrow> token_response io sent au True s2;
     Some ((res, au', e, rejected), password_tried_locked io res rejected s3)
   }"

definition renew_by_token_endpoint :: "'w kii_io \<Rightarrow> ('w kst \<Rightarrow> (khc_code \<times> 'w kst) option) \<Rightarrow> 'w call" where
  "renew_by_token_endpoint io kii_perform s = do {
     ((res, au, e, rejected), s1) \<leftarrow> try_refresh io kii_perform s;
     ((res, au, e, _), s2) \<leftarrow>
       (if res \<noteq> KII_ERR_OK \<and> rejected
        then (case password_usable_locked io s1 of
                (usable, s1') \<Rightarrow> if usable then try_password io kii_perform s1' else Some ((res, au, e, rejected), s1'))
        else Some ((res, au, e, rejected), s1));
     let s3 = (if res = KII_ERR_OK then store_locked io au e s2 else s2);
     Some (res, sync_locked s3)
   }"

definition renew_locked :: "'w kii_io \<Rightarrow> ('w kst \<Rightarrow> (khc_code \<times> 'w kst) option) \<Rightarrow> bool \<Rightarrow> 'w call" where
  "renew_locked io kii_perform force s =
     (if ss_generation (st_ss s) \<noteq> kt_session_generation (st_kii s) then Some (KII_ERR_OK, sync_locked s)
      else
        (case (if force then (True, s) else due_locked io s) of
           (due, s1) \<Rightarrow>
             if \<not> due then Some (KII_ERR_OK, s1)
             else if ss_renew_mode (st_ss s1) = RENEW_BY_ONBOARDING
             then do {
               ((res, au), s2) \<leftarrow> onboard_again io kii_perform (ss_author (st_ss s1)) s1;
               let s3 = (if res = KII_ERR_OK then store_locked io au 0 s2 else s2);
               Some (res, sync_locked s3)
             }
             else renew_by_token_endpoint io kii_perform s1))"

definition has_prefix :: "string \<Rightarrow> string \<Rightarrow> bool" where
  "has_prefix p s \<longleftrightarrow> take (length p) s = p"

definition has_session_token :: "kii \<Rightarrow> bool" where
  "has_session_token k \<longleftrightarrow>
     au_token (kt_author k) \<noteq> [] \<and>
     list_ex (\<lambda>h. has_prefix AUTH_HEADER_PREFIX h \<and> drop (length AUTH_HEADER_PREFIX) h = au_token (kt_author k)) (kt_req_headers k)"

text \<open>The first header of that name replaced, or one added.\<close>

fun replace_auth :: "string \<Rightarrow> string list \<Rightarrow> string list" where
  "replace_auth line [] = [line]"
| "replace_auth line (h # hs) = (if has_prefix ''Authorization:'' h then line # hs else h # replace_auth line hs)"

definition replace_auth_header :: "'w kii_io \<Rightarrow> 'w call" where
  "replace_auth_header io s =
     (let line = AUTH_HEADER_PREFIX @ au_token (kt_author (st_kii s)) in
      if length line \<ge> length AUTH_HEADER_PREFIX + 1 + TOKEN_MAX_SIZE then Some (KII_ERR_TOO_LARGE_DATA, s)
      else
        (case ki_alloc io line (st_w s) of
           (got, w) \<Rightarrow>
             if \<not> got then Some (KII_ERR_ALLOCATION, s\<lparr>st_w := w\<rparr>)
             else Some (KII_ERR_OK, kmap (\<lambda>k. k\<lparr>kt_req_headers := replace_auth line (kt_req_headers k)\<rparr>) (s\<lparr>st_w := w\<rparr>))))"

definition renewal_size :: "session \<Rightarrow> nat" where
  "renewal_size ss = (if ss_renew_mode ss = RENEW_BY_ONBOARDING then SESSION_ONBOARD_BUFF_SIZE else SESSION_RENEW_BUFF_SIZE)"

text \<open>The request put away for a renewal in the buffer from \<open>keep\<close> on, and put back.\<close>

definition put_away :: "nat \<Rightarrow> kii \<Rightarrow> kii" where
  "put_away keep k =
     k\<lparr>kt_req_headers := [], kt_req_streamed := False, kt_base := kt_base k + keep, kt_size := kt_size k - keep,
        kt_reads_buff := True, kt_writes_buff := True\<rparr>"

definition put_back :: "nat \<Rightarrow> kii \<Rightarrow> kii \<Rightarrow> kii option" where
  "put_back keep k k' = do {
     e \<leftarrow> put_etag 0 NUL (kt_etag k');
     Some (k'\<lparr>kt_khc := kt_khc k, kt_reads_buff := kt_reads_buff k, kt_writes_buff := kt_writes_buff k,
              kt_req_headers := kt_req_headers k, kt_req_streamed := kt_req_streamed k,
              kt_base := kt_base k, kt_size := kt_size k, kt_req_size := (if keep > 0 then kt_req_size k else 0),
              kt_read := 0, kt_written := 0, kt_resp_offset := 0, kt_etag := e\<rparr>)
   }"

text \<open>The code, and whether the request can be sent again.\<close>

definition renew_and_restore ::
    "'w kii_io \<Rightarrow> ('w kst \<Rightarrow> (khc_code \<times> 'w kst) option) \<Rightarrow> bool \<Rightarrow> 'w kst \<Rightarrow> ((kii_code \<times> bool) \<times> 'w kst) option" where
  "renew_and_restore io kii_perform force s =
     (let k = st_kii s;
          keep0 = (if kt_req_streamed k then 0 else kt_req_size k + 1);
          s0 = ss_lock io s
      in if kt_size k < keep0 + renewal_size (st_ss s0) \<and> \<not> force then Some ((KII_ERR_OK, False), s0)
         else
           (let keep = (if kt_size k < keep0 + renewal_size (st_ss s0) then 0 else keep0)
            in do {
              (res, s1) \<leftarrow> renew_locked io kii_perform force (ss_lock io (s0\<lparr>st_kii := put_away keep k\<rparr>));
              k1 \<leftarrow> put_back keep k (st_kii s1);
              (header_res, s2) \<leftarrow> replace_auth_header io (s1\<lparr>st_kii := k1\<rparr>);
              let s3 = kmap (\<lambda>k. k\<lparr>kt_khc := fst (khc_set_req_headers (kt_khc k) (map Some (kt_req_headers k)))\<rparr>) s2;
              let res' = (if res = KII_ERR_OK then header_res else res);
              Some ((res', res' = KII_ERR_OK \<and> \<not> kt_req_streamed k \<and> keep > 0), s3)
            }))"

definition renewal_due :: "'w kii_io \<Rightarrow> 'w kst \<Rightarrow> bool \<times> 'w kst" where
  "renewal_due io s =
     (let s1 = ss_lock io s
      in if ss_generation (st_ss s1) \<noteq> kt_session_generation (st_kii s1) then (True, s1) else due_locked io s1)"

definition token_refused :: "'w kii_io \<Rightarrow> kii \<Rightarrow> bool" where
  "token_refused io k \<longleftrightarrow>
     khc_get_status_code (kt_khc k) = 403 \<and>
     (case ki_parse io (take (kt_written k) (drop (kt_resp_offset k) (buff k))) [(''errorCode'', FIELD_STRING 12)] of
        (result, fs) \<Rightarrow> result \<noteq> PARSE_FAILED \<and> fs ! 0 = FIELD_TEXT ''WRONG_TOKEN'')"

text \<open>The request the session's token is on.\<close>

definition session_perform ::
    "'w kii_io \<Rightarrow> ('w kst \<Rightarrow> (khc_code \<times> 'w kst) option) \<Rightarrow> 'w kst \<Rightarrow> (khc_code \<times> 'w kst) option" where
  "session_perform io kii_perform s = do {
     let (due, s1) = renewal_due io s;
     (_, s2) \<leftarrow> (if due then renew_and_restore io kii_perform False s1 else Some ((KII_ERR_OK, False), s1));
     (code, s3) \<leftarrow> perform io (kmap (\<lambda>k. k\<lparr>kt_session_request := True\<rparr>) s2);
     let s4 = kmap (\<lambda>k. k\<lparr>kt_session_request := False\<rparr>) s3;
     (if code \<noteq> ERR_OK \<or> \<not> token_refused io (st_kii s4)
      then do { k \<leftarrow> resp_to_start (st_kii s4); Some (code, s4\<lparr>st_kii := k\<rparr>) }
      else do {
        let body_kept = (kt_resp_offset (st_kii s4) > 0);
        ((res, resendable), s5) \<leftarrow> renew_and_restore io kii_perform True s4;
        (if res \<noteq> KII_ERR_OK then Some (code, s5)
         else if \<not> resendable \<or> \<not> body_kept then Some (code, kmap (\<lambda>k. k\<lparr>kt_session_refused := True\<rparr>) s5)
         else perform io (kmap (\<lambda>k. k\<lparr>kt_khc := khc_reset_except_request (kt_khc k)\<rparr>) s5))
      })
   }"

fun kii_perform :: "nat \<Rightarrow> 'w kii_io \<Rightarrow> 'w kst \<Rightarrow> (khc_code \<times> 'w kst) option" where
  "kii_perform 0 io s = None"
| "kii_perform (Suc fuel) io s =
     (let s1 = kmap (\<lambda>k. k\<lparr>kt_session_refused := False\<rparr>) s
      in if \<not> kt_has_session (st_kii s1) \<or> \<not> has_session_token (st_kii s1) then perform io s1
         else session_perform io (kii_perform fuel io) s1)"

text \<open>A request and, for it, a renewal: two levels are enough.\<close>

definition api_call_run :: "nat \<Rightarrow> 'w kii_io \<Rightarrow> 'w call" where
  "api_call_run fuel io s = do {
     (res, s') \<leftarrow> req_send io (kii_perform fuel io) s;
     Some (res, kmap body_from_buff s')
   }"

section \<open>Logging in\<close>

definition kii_auth_thing :: "nat \<Rightarrow> 'w kii_io \<Rightarrow> string \<Rightarrow> string \<Rightarrow> 'w call" where
  "kii_auth_thing fuel io vendor_thing_id password s = do {
     s1 \<leftarrow> fresh_request s;
     clearing (on_ok (thing_auth io (kii_perform fuel io) vendor_thing_id password s1) (\<lambda>s.
       let status = khc_get_status_code (kt_khc (st_kii s)) in
       if status < 200 \<or> 300 \<le> status then Some (KII_ERR_RESP_STATUS, s)
       else
         (case parse_token_response io (st_kii s) ((kt_author (st_kii s))\<lparr>au_refresh := []\<rparr>) True of
            (c, au, e) \<Rightarrow>
              let s2 = kmap (\<lambda>k. k\<lparr>kt_author := au\<rparr>) s
              in if c \<noteq> KII_ERR_OK then Some (c, s2)
                 else Some (KII_ERR_OK, if kt_has_session (st_kii s2) then session_publish io e RENEW_BY_TOKEN_ENDPOINT s2 else s2))))
   }"

definition kii_register_thing :: "nat \<Rightarrow> 'w kii_io \<Rightarrow> string \<Rightarrow> string \<Rightarrow> string \<Rightarrow> 'w call" where
  "kii_register_thing fuel io vendor_thing_id thing_type password s = do {
     s1 \<leftarrow> fresh_request s;
     clearing (on_ok (thing_register io (kii_perform fuel io) vendor_thing_id password thing_type s1) (\<lambda>s.
       let status = khc_get_status_code (kt_khc (st_kii s)); k = st_kii s in
       if status < 200 \<or> 300 \<le> status then Some (KII_ERR_RESP_STATUS, s)
       else
         (case ki_parse io (take (kt_written k) (buff k))
                 [(''_accessToken'', FIELD_STRING TOKEN_MAX_SIZE), (''_thingID'', FIELD_STRING AUTHOR_ID_MAX_SIZE)] of
            (result, fs) \<Rightarrow>
              let au = \<lparr>au_id = copied (fs ! 1) (au_id (kt_author k)), au_token = copied (fs ! 0) (au_token (kt_author k)),
                        au_refresh = []\<rparr>;
                  s2 = kmap (\<lambda>k. k\<lparr>kt_author := au\<rparr>) s
              in if result \<noteq> PARSE_OK then Some (KII_ERR_PARSE_JSON, s2)
                 else Some (KII_ERR_OK, if kt_has_session (st_kii s2) then session_publish io 0 RENEW_BY_TOKEN_ENDPOINT s2 else s2))))
   }"

definition kii_ti_onboard ::
    "nat \<Rightarrow> 'w kii_io \<Rightarrow> string \<Rightarrow> string \<Rightarrow> string option \<Rightarrow> string option \<Rightarrow> string option \<Rightarrow> string option \<Rightarrow> 'w call" where
  "kii_ti_onboard fuel io vendor_thing_id password thing_type firmware_version layout_position thing_properties s =
     on_ok (onboard io (kii_perform fuel io) vendor_thing_id password thing_type firmware_version layout_position
              thing_properties s) (\<lambda>s.
       Some (KII_ERR_OK, if kt_has_session (st_kii s) then session_publish io 0 RENEW_BY_ONBOARDING s else s))"

end
