(* ===== verification/Kii_Api.thy ===== *)
theory Kii_Api
  imports Kii_Session
begin

text \<open>
  The requests of Kii Cloud's REST API: objects (kii/kii\_object.c, kii/kii\_object\_impl.c), push
  (kii/kii\_push.c, kii/kii\_push\_impl.c), server code (kii/kii\_server\_code.c) and Thing-IF
  (kii/kii\_ti.c, kii/kii\_ti\_impl.c).

  \<open>kp\<close> is \<open>_kii_perform\<close>, with its fuel.  What a function writes to a pointer it is given is
  beside its code; it is empty where the code leaves it alone or half written.
\<close>

section \<open>What they share\<close>

type_synonym 'w performer = "'w kst \<Rightarrow> (khc_code \<times> 'w kst) option"

definition begin_request :: "string \<Rightarrow> 'w kst \<Rightarrow> 'w kst" where
  "begin_request meth s = kmap (\<lambda>k. snd (set_method meth (set_host (kt_app_host k) k))) s"

definition thing_headers :: "'w kii_io \<Rightarrow> 'w call" where
  "thing_headers io s =
     on_ok (set_app_id_header io s) (\<lambda>s. on_ok (set_app_key_header io s) (set_auth_header io))"

definition set_object_content_type :: "'w kii_io \<Rightarrow> string option \<Rightarrow> 'w call" where
  "set_object_content_type io content_type = append_header_or_default io ''Content-Type'' content_type ''application/json''"

definition set_object_body_content_type :: "'w kii_io \<Rightarrow> string option \<Rightarrow> 'w call" where
  "set_object_body_content_type io content_type =
     append_header_or_default io ''Content-Type'' content_type ''application/octet-stream''"

definition status_2xx :: "'w call" where
  "status_2xx s =
     (let status = khc_get_status_code (kt_khc (st_kii s))
      in Some (if status < 200 \<or> 300 \<le> status then KII_ERR_RESP_STATUS else KII_ERR_OK, s))"

definition status_204_409 :: "'w call" where
  "status_204_409 s =
     (let status = khc_get_status_code (kt_khc (st_kii s))
      in Some (if status \<noteq> 204 \<and> status \<noteq> 409 then KII_ERR_RESP_STATUS else KII_ERR_OK, s))"

text \<open>The buffer and khc reset, and then the request.\<close>

definition fresh :: "'w call \<Rightarrow> 'w call" where
  "fresh f s = fresh_request s \<bind> f"

text \<open>Headers and body, freed where one does not fit, and then the request sent.\<close>

definition prepared :: "'w kii_io \<Rightarrow> 'w performer \<Rightarrow> 'w call \<Rightarrow> 'w call" where
  "prepared io kp f s = on_ok (free_if_failed (f s)) (req_send io kp)"

definition with_body :: "'w call \<Rightarrow> string option \<Rightarrow> 'w call" where
  "with_body f body s = on_ok (f s) (set_req_body body)"

section \<open>Objects\<close>

definition post_object :: "'w kii_io \<Rightarrow> 'w performer \<Rightarrow> bucket \<Rightarrow> string option \<Rightarrow> string option \<Rightarrow> 'w call" where
  "post_object io kp b object_data object_content_type s =
     on_ok (set_bucket_path b ''/objects'' '''' '''' (begin_request ''POST'' s))
       (prepared io kp (with_body (\<lambda>s. on_ok (thing_headers io s) (set_object_content_type io object_content_type)) object_data))"

definition put_object ::
    "'w kii_io \<Rightarrow> 'w performer \<Rightarrow> bucket \<Rightarrow> string \<Rightarrow> string option \<Rightarrow> string option \<Rightarrow> string option \<Rightarrow> 'w call" where
  "put_object io kp b object_id object_data object_content_type opt_etag s =
     on_ok (set_bucket_path b ''/objects/'' object_id '''' (begin_request ''PUT'' s))
       (prepared io kp (with_body (\<lambda>s. on_ok (thing_headers io s) (\<lambda>s.
          on_ok (set_object_content_type io object_content_type s) (set_if_match io opt_etag))) object_data))"

definition patch_object ::
    "'w kii_io \<Rightarrow> 'w performer \<Rightarrow> bucket \<Rightarrow> string \<Rightarrow> string option \<Rightarrow> string option \<Rightarrow> 'w call" where
  "patch_object io kp b object_id patch_data opt_etag s =
     on_ok (set_bucket_path b ''/objects/'' object_id '''' (begin_request ''PATCH'' s))
       (prepared io kp (with_body (\<lambda>s. on_ok (thing_headers io s) (set_if_match io opt_etag)) patch_data))"

definition delete_object :: "'w kii_io \<Rightarrow> 'w performer \<Rightarrow> bucket \<Rightarrow> string \<Rightarrow> 'w call" where
  "delete_object io kp b object_id s =
     on_ok (set_bucket_path b ''/objects/'' object_id '''' (begin_request ''DELETE'' s))
       (prepared io kp (with_body (thing_headers io) (Some '''')))"

definition get_object :: "'w kii_io \<Rightarrow> 'w performer \<Rightarrow> bucket \<Rightarrow> string \<Rightarrow> 'w call" where
  "get_object io kp b object_id s =
     on_ok (set_bucket_path b ''/objects/'' object_id '''' (begin_request ''GET'' s))
       (prepared io kp (with_body (thing_headers io) (Some '''')))"

definition upload_body :: "'w kii_io \<Rightarrow> 'w performer \<Rightarrow> bucket \<Rightarrow> string \<Rightarrow> string option \<Rightarrow> 'w call" where
  "upload_body io kp b object_id body_content_type s =
     on_ok (set_bucket_path b ''/objects/'' object_id ''/body'' (begin_request ''PUT'' s))
       (prepared io kp (\<lambda>s. on_ok (thing_headers io s) (set_object_body_content_type io body_content_type)))"

definition download_body :: "'w kii_io \<Rightarrow> 'w performer \<Rightarrow> bucket \<Rightarrow> string \<Rightarrow> 'w call" where
  "download_body io kp b object_id s =
     on_ok (set_bucket_path b ''/objects/'' object_id ''/body'' (begin_request ''GET'' s))
       (prepared io kp (with_body (thing_headers io) (Some '''')))"

text \<open>The one string a response is read for.\<close>

definition read_string :: "'w kii_io \<Rightarrow> string \<Rightarrow> nat \<Rightarrow> 'w kst \<Rightarrow> ((kii_code \<times> string) \<times> 'w kst) option" where
  "read_string io field n s =
     (let k = st_kii s in
      case ki_parse io (take (kt_written k) (buff k)) [(field, FIELD_STRING n)] of
        (result, fs) \<Rightarrow>
          Some (if result \<noteq> PARSE_OK then (KII_ERR_PARSE_JSON, []) else (KII_ERR_OK, copied (fs ! 0) []), s))"

text \<open>A call, and what is read from its answer if it succeeds.\<close>

definition answer_of ::
    "(kii_code \<times> 'w kst) option \<Rightarrow> 'a \<Rightarrow> ('w kst \<Rightarrow> ((kii_code \<times> 'a) \<times> 'w kst) option) \<Rightarrow> ((kii_code \<times> 'a) \<times> 'w kst) option" where
  "answer_of r none f = r \<bind> (\<lambda>(c, s). if c = KII_ERR_OK then f s else Some ((c, none), s))"

definition kii_post_object ::
    "nat \<Rightarrow> 'w kii_io \<Rightarrow> bucket \<Rightarrow> string option \<Rightarrow> string option \<Rightarrow> 'w kst \<Rightarrow> ((kii_code \<times> string) \<times> 'w kst) option" where
  "kii_post_object fuel io b object_data object_content_type s =
     answer_of (fresh (\<lambda>s. on_ok (post_object io (kii_perform fuel io) b object_data object_content_type s) status_2xx) s) []
       (read_string io ''objectID'' 64)"

definition kii_put_object ::
    "nat \<Rightarrow> 'w kii_io \<Rightarrow> bucket \<Rightarrow> string \<Rightarrow> string option \<Rightarrow> string option \<Rightarrow> string option \<Rightarrow> 'w call" where
  "kii_put_object fuel io b object_id object_data object_content_type opt_etag =
     fresh (\<lambda>s. on_ok (put_object io (kii_perform fuel io) b object_id object_data object_content_type opt_etag s) status_2xx)"

definition kii_patch_object ::
    "nat \<Rightarrow> 'w kii_io \<Rightarrow> bucket \<Rightarrow> string \<Rightarrow> string option \<Rightarrow> string option \<Rightarrow> 'w call" where
  "kii_patch_object fuel io b object_id patch_data opt_etag =
     fresh (\<lambda>s. on_ok (patch_object io (kii_perform fuel io) b object_id patch_data opt_etag s) status_2xx)"

definition kii_delete_object :: "nat \<Rightarrow> 'w kii_io \<Rightarrow> bucket \<Rightarrow> string \<Rightarrow> 'w call" where
  "kii_delete_object fuel io b object_id =
     fresh (\<lambda>s. on_ok (delete_object io (kii_perform fuel io) b object_id s) status_2xx)"

definition kii_get_object :: "nat \<Rightarrow> 'w kii_io \<Rightarrow> bucket \<Rightarrow> string \<Rightarrow> 'w call" where
  "kii_get_object fuel io b object_id =
     fresh (\<lambda>s. on_ok (get_object io (kii_perform fuel io) b object_id s) status_2xx)"

text \<open>The callback of the application set, and kii's own set again whatever the outcome.\<close>

definition restoring :: "(kii \<Rightarrow> kii) \<Rightarrow> (kii_code \<times> 'w kst) option \<Rightarrow> (kii_code \<times> 'w kst) option" where
  "restoring f r = map_option (\<lambda>(c, s). (c, kmap f s)) r"

definition kii_upload_object_body :: "nat \<Rightarrow> 'w kii_io \<Rightarrow> bucket \<Rightarrow> string \<Rightarrow> string option \<Rightarrow> 'w call" where
  "kii_upload_object_body fuel io b object_id body_content_type =
     fresh (\<lambda>s. restoring (\<lambda>k. k\<lparr>kt_req_streamed := False, kt_reads_buff := True\<rparr>)
       (on_ok (upload_body io (kii_perform fuel io) b object_id body_content_type
                (kmap (\<lambda>k. k\<lparr>kt_reads_buff := False, kt_req_streamed := True\<rparr>) s))
          status_2xx))"

definition kii_download_object_body :: "nat \<Rightarrow> 'w kii_io \<Rightarrow> bucket \<Rightarrow> string \<Rightarrow> 'w call" where
  "kii_download_object_body fuel io b object_id =
     fresh (\<lambda>s. restoring (\<lambda>k. k\<lparr>kt_req_streamed := False, kt_writes_buff := True\<rparr>)
       (on_ok (download_body io (kii_perform fuel io) b object_id
                (kmap (\<lambda>k. k\<lparr>kt_writes_buff := False, kt_req_streamed := True\<rparr>) s))
          status_2xx))"

section \<open>Push\<close>

definition subscription :: "'w kii_io \<Rightarrow> 'w performer \<Rightarrow> string \<Rightarrow> 'w call \<Rightarrow> 'w call" where
  "subscription io kp meth path s =
     on_ok (path (begin_request meth s)) (prepared io kp (with_body (thing_headers io) (Some '''')))"

definition subscribe_bucket :: "'w kii_io \<Rightarrow> 'w performer \<Rightarrow> bucket \<Rightarrow> 'w call" where
  "subscribe_bucket io kp b = subscription io kp ''PUT'' (set_bucket_subscription_path b)"

definition unsubscribe_bucket :: "'w kii_io \<Rightarrow> 'w performer \<Rightarrow> bucket \<Rightarrow> 'w call" where
  "unsubscribe_bucket io kp b = subscription io kp ''DELETE'' (set_bucket_subscription_path b)"

definition subscribe_topic :: "'w kii_io \<Rightarrow> 'w performer \<Rightarrow> topic \<Rightarrow> 'w call" where
  "subscribe_topic io kp t = subscription io kp ''PUT'' (set_topic_subscription_path t)"

definition unsubscribe_topic :: "'w kii_io \<Rightarrow> 'w performer \<Rightarrow> topic \<Rightarrow> 'w call" where
  "unsubscribe_topic io kp t = subscription io kp ''DELETE'' (set_topic_subscription_path t)"

definition put_topic :: "'w kii_io \<Rightarrow> 'w performer \<Rightarrow> topic \<Rightarrow> 'w call" where
  "put_topic io kp t = subscription io kp ''PUT'' (set_topic_path t)"

definition delete_topic :: "'w kii_io \<Rightarrow> 'w performer \<Rightarrow> topic \<Rightarrow> 'w call" where
  "delete_topic io kp t = subscription io kp ''DELETE'' (set_topic_path t)"

definition kii_subscribe_bucket :: "nat \<Rightarrow> 'w kii_io \<Rightarrow> bucket \<Rightarrow> 'w call" where
  "kii_subscribe_bucket fuel io b =
     fresh (\<lambda>s. on_ok (subscribe_bucket io (kii_perform fuel io) b s) status_204_409)"

definition kii_unsubscribe_bucket :: "nat \<Rightarrow> 'w kii_io \<Rightarrow> bucket \<Rightarrow> 'w call" where
  "kii_unsubscribe_bucket fuel io b =
     fresh (\<lambda>s. on_ok (unsubscribe_bucket io (kii_perform fuel io) b s) status_2xx)"

definition kii_subscribe_topic :: "nat \<Rightarrow> 'w kii_io \<Rightarrow> topic \<Rightarrow> 'w call" where
  "kii_subscribe_topic fuel io t =
     fresh (\<lambda>s. on_ok (subscribe_topic io (kii_perform fuel io) t s) status_204_409)"

definition kii_unsubscribe_topic :: "nat \<Rightarrow> 'w kii_io \<Rightarrow> topic \<Rightarrow> 'w call" where
  "kii_unsubscribe_topic fuel io t =
     fresh (\<lambda>s. on_ok (unsubscribe_topic io (kii_perform fuel io) t s) status_204_409)"

definition kii_put_topic :: "nat \<Rightarrow> 'w kii_io \<Rightarrow> topic \<Rightarrow> 'w call" where
  "kii_put_topic fuel io t =
     fresh (\<lambda>s. on_ok (put_topic io (kii_perform fuel io) t s) status_204_409)"

definition kii_delete_topic :: "nat \<Rightarrow> 'w kii_io \<Rightarrow> topic \<Rightarrow> 'w call" where
  "kii_delete_topic fuel io t =
     fresh (\<lambda>s. on_ok (delete_topic io (kii_perform fuel io) t s) status_2xx)"

definition post_push_message :: "'w kii_io \<Rightarrow> 'w performer \<Rightarrow> string option \<Rightarrow> 'w call" where
  "post_push_message io kp message =
     prepared io kp (with_body (\<lambda>s. on_ok (thing_headers io s)
       (set_content_type io ''application/vnd.kii.SendPushMessageRequest+json'')) message)"

definition send_push_message :: "'w kii_io \<Rightarrow> 'w performer \<Rightarrow> topic \<Rightarrow> string option \<Rightarrow> 'w call" where
  "send_push_message io kp t message s =
     on_ok (set_topic_push_message_path t (begin_request ''POST'' s)) (post_push_message io kp message)"

definition send_push_message_to_thing :: "'w kii_io \<Rightarrow> 'w performer \<Rightarrow> string \<Rightarrow> string option \<Rightarrow> 'w call" where
  "send_push_message_to_thing io kp thing_id message s =
     on_ok (set_thing_push_message_path thing_id (begin_request ''POST'' s)) (post_push_message io kp message)"

definition kii_send_push_message :: "nat \<Rightarrow> 'w kii_io \<Rightarrow> topic \<Rightarrow> string option \<Rightarrow> 'w call" where
  "kii_send_push_message fuel io t message =
     fresh (\<lambda>s. on_ok (send_push_message io (kii_perform fuel io) t message s) status_2xx)"

definition kii_send_push_message_to_thing :: "nat \<Rightarrow> 'w kii_io \<Rightarrow> string \<Rightarrow> string option \<Rightarrow> 'w call" where
  "kii_send_push_message_to_thing fuel io thing_id message =
     fresh (\<lambda>s. on_ok (send_push_message_to_thing io (kii_perform fuel io) thing_id message s) status_2xx)"

text \<open>A body printed whole into the buffer.\<close>

definition print_body :: "string \<Rightarrow> 'w call" where
  "print_body body s = do {
     k \<leftarrow> put_printf 0 body (st_kii s);
     Some (if length body \<ge> kt_size k then (KII_ERR_TOO_LARGE_DATA, s\<lparr>st_kii := k\<rparr>)
           else (KII_ERR_OK, s\<lparr>st_kii := k\<lparr>kt_req_size := length body\<rparr>\<rparr>))
   }"

definition install_push :: "'w kii_io \<Rightarrow> 'w performer \<Rightarrow> bool \<Rightarrow> 'w call" where
  "install_push io kp development s =
     on_ok (start_at ''POST'' (''/api/apps/'' @ kt_app_id (st_kii s) @ ''/installations'') s)
       (prepared io kp (\<lambda>s. on_ok (on_ok (thing_headers io s)
          (set_content_type io ''application/vnd.kii.InstallationCreationRequest+json''))
          (print_body (''{\"deviceType\":\"MQTT\", \"development\": \"'' @ (if development then ''true'' else ''false'') @ ''\"}''))))"

definition kii_install_push :: "nat \<Rightarrow> 'w kii_io \<Rightarrow> bool \<Rightarrow> 'w kst \<Rightarrow> ((kii_code \<times> string) \<times> 'w kst) option" where
  "kii_install_push fuel io development s =
     answer_of (fresh (\<lambda>s. on_ok (install_push io (kii_perform fuel io) development s) status_2xx) s) []
       (read_string io ''installationID'' 64)"

definition get_mqtt_endpoint :: "'w kii_io \<Rightarrow> 'w performer \<Rightarrow> string \<Rightarrow> 'w call" where
  "get_mqtt_endpoint io kp installation_id s =
     on_ok (start_at ''GET'' (''/api/apps/'' @ kt_app_id (st_kii s) @ ''/installations/'' @ installation_id @ ''/mqtt-endpoint'') s)
       (prepared io kp (with_body (thing_headers io) (Some '''')))"

definition no_endpoint :: mqtt_endpoint where
  "no_endpoint = \<lparr>ep_username = [], ep_password = [], ep_topic = [], ep_host = [], ep_port_tcp = 0, ep_port_ssl = 0\<rparr>"

definition fits_port :: "field_result \<Rightarrow> bool" where
  "fits_port r = (case r of FIELD_NUMBER n \<Rightarrow> 0 \<le> n \<and> n \<le> 65535 | _ \<Rightarrow> False)"

definition fits_uint32 :: "field_result \<Rightarrow> bool" where
  "fits_uint32 r = (case r of FIELD_NUMBER n \<Rightarrow> 0 \<le> n \<and> n \<le> 2 ^ 32 - 1 | _ \<Rightarrow> False)"

text \<open>With the endpoint, its TTL.\<close>

definition read_endpoint :: "'w kii_io \<Rightarrow> 'w kst \<Rightarrow> ((kii_code \<times> mqtt_endpoint \<times> nat) \<times> 'w kst) option" where
  "read_endpoint io s =
     (let k = st_kii s in
      case ki_parse io (take (kt_written k) (buff k))
             [(''username'', FIELD_STRING 64), (''password'', FIELD_STRING 128), (''host'', FIELD_STRING 64),
              (''mqttTopic'', FIELD_STRING 64), (''portTCP'', FIELD_INTEGER), (''portSSL'', FIELD_INTEGER),
              (''X-MQTT-TTL'', FIELD_LONG)] of
        (result, fs) \<Rightarrow>
          Some (if result \<noteq> PARSE_OK \<or> \<not> fits_port (fs ! 4) \<or> \<not> fits_port (fs ! 5) \<or> \<not> fits_uint32 (fs ! 6)
                then (KII_ERR_PARSE_JSON, no_endpoint, 0)
                else (KII_ERR_OK,
                      \<lparr>ep_username = copied (fs ! 0) [], ep_password = copied (fs ! 1) [], ep_topic = copied (fs ! 3) [],
                       ep_host = copied (fs ! 2) [], ep_port_tcp = port_of (fs ! 4), ep_port_ssl = port_of (fs ! 5)\<rparr>,
                      port_of (fs ! 6)), s))"

definition kii_get_mqtt_endpoint ::
    "nat \<Rightarrow> 'w kii_io \<Rightarrow> string \<Rightarrow> 'w kst \<Rightarrow> ((kii_code \<times> mqtt_endpoint \<times> nat) \<times> 'w kst) option" where
  "kii_get_mqtt_endpoint fuel io installation_id s = do {
     (r, s1) \<leftarrow> answer_of (fresh (\<lambda>s. on_ok (get_mqtt_endpoint io (kii_perform fuel io) installation_id s) status_2xx) s)
       (no_endpoint, 0) (read_endpoint io);
     k \<leftarrow> clear_buffers (st_kii s1);
     Some (r, s1\<lparr>st_kii := k\<rparr>)
   }"

section \<open>Server code\<close>

definition execute_server_code ::
    "'w kii_io \<Rightarrow> 'w performer \<Rightarrow> string \<Rightarrow> string \<Rightarrow> string option \<Rightarrow> bool \<Rightarrow> string option \<Rightarrow> 'w call" where
  "execute_server_code io kp version endpoint_name params as_thing access_token s =
     on_ok (printf_path (''/api/apps/'' @ kt_app_id (st_kii s) @ ''/server-code/versions/'' @ version @ ''/'' @ endpoint_name)
              (begin_request ''POST'' s))
       (prepared io kp (with_body (\<lambda>s.
          on_ok (set_app_id_header io s) (\<lambda>s.
            on_ok (set_app_key_header io s) (\<lambda>s.
              on_ok (if as_thing then set_auth_header io s
                     else (case access_token of Some t \<Rightarrow> set_auth_bearer_token io t s | None \<Rightarrow> Some (KII_ERR_OK, s)))
                (set_content_type io ''application/json'')))) params))"

definition run_server_code ::
    "nat \<Rightarrow> 'w kii_io \<Rightarrow> string \<Rightarrow> string \<Rightarrow> string option \<Rightarrow> bool \<Rightarrow> string option \<Rightarrow> 'w call" where
  "run_server_code fuel io version endpoint_name params as_thing access_token =
     fresh (\<lambda>s. on_ok (execute_server_code io (kii_perform fuel io) version endpoint_name params as_thing access_token s)
       status_2xx)"

definition kii_execute_server_code_version :: "nat \<Rightarrow> 'w kii_io \<Rightarrow> string \<Rightarrow> string \<Rightarrow> string option \<Rightarrow> 'w call" where
  "kii_execute_server_code_version fuel io version endpoint_name params =
     run_server_code fuel io version endpoint_name params True None"

definition kii_execute_server_code :: "nat \<Rightarrow> 'w kii_io \<Rightarrow> string \<Rightarrow> string option \<Rightarrow> 'w call" where
  "kii_execute_server_code fuel io endpoint_name params =
     kii_execute_server_code_version fuel io ''current'' endpoint_name params"

definition kii_execute_server_code_with_token ::
    "nat \<Rightarrow> 'w kii_io \<Rightarrow> string option \<Rightarrow> string \<Rightarrow> string option \<Rightarrow> string option \<Rightarrow> 'w call" where
  "kii_execute_server_code_with_token fuel io version endpoint_name params access_token =
     run_server_code fuel io (case version of Some v \<Rightarrow> v | None \<Rightarrow> ''current'') endpoint_name params False access_token"

section \<open>Thing-IF\<close>

abbreviation firmware_path :: "kii \<Rightarrow> string" where
  "firmware_path k \<equiv>
     ''/thing-if/apps/'' @ kt_app_id k @ ''/things/'' @ au_id (kt_author k) @ ''/firmware-version''"

text \<open>A body of one value, escaped.\<close>

definition escaped_body :: "string \<Rightarrow> string \<Rightarrow> string \<Rightarrow> 'w call" where
  "escaped_body before val after s = do {
     (len, k) \<leftarrow> body_append (Some 0) before val after (st_kii s);
     Some (case len of
             None \<Rightarrow> (KII_ERR_TOO_LARGE_DATA, s\<lparr>st_kii := k\<rparr>)
           | Some n \<Rightarrow> (KII_ERR_OK, s\<lparr>st_kii := k\<lparr>kt_req_size := n\<rparr>\<rparr>))
   }"

definition put_firmware_version :: "nat \<Rightarrow> 'w kii_io \<Rightarrow> string \<Rightarrow> 'w call" where
  "put_firmware_version fuel io firmware_version =
     fresh (\<lambda>s. on_ok (on_ok (start_at ''PUT'' (firmware_path (st_kii s)) s)
       (prepared io (kii_perform fuel io) (\<lambda>s. on_ok (on_ok (set_auth_header io s)
          (set_content_type io ''application/vnd.kii.ThingFirmwareVersionUpdateRequest+json''))
          (escaped_body ''{\"firmwareVersion\":\"'' firmware_version ''\"}'')))) status_2xx)"

definition get_firmware_version :: "nat \<Rightarrow> 'w kii_io \<Rightarrow> 'w kst \<Rightarrow> ((kii_code \<times> string) \<times> 'w kst) option" where
  "get_firmware_version fuel io s =
     answer_of (fresh (\<lambda>s. on_ok (on_ok (start_at ''GET'' (firmware_path (st_kii s)) s)
       (prepared io (kii_perform fuel io) (set_auth_header io))) status_2xx) s) []
       (read_string io ''firmwareVersion'' 128)"

definition kii_ti_put_firmware_version :: "nat \<Rightarrow> 'w kii_io \<Rightarrow> string \<Rightarrow> 'w call" where
  "kii_ti_put_firmware_version = put_firmware_version"

definition kii_ti_get_firmware_version :: "nat \<Rightarrow> 'w kii_io \<Rightarrow> 'w kst \<Rightarrow> ((kii_code \<times> string) \<times> 'w kst) option" where
  "kii_ti_get_firmware_version = get_firmware_version"

definition upload_state ::
    "nat \<Rightarrow> 'w kii_io \<Rightarrow> string \<Rightarrow> string \<Rightarrow> string \<Rightarrow> string option \<Rightarrow> string option \<Rightarrow> 'w call" where
  "upload_state fuel io last_path_segment meth content_type opt_content_encoding opt_normalizer_host =
     fresh (\<lambda>s.
       on_ok (start_on (case opt_normalizer_host of Some h \<Rightarrow> h | None \<Rightarrow> kt_app_host (st_kii s)) meth
                (''/thing-if/apps/'' @ kt_app_id (st_kii s) @ ''/targets/thing:'' @ au_id (kt_author (st_kii s)) @ ''/'' @
                 last_path_segment) s) (\<lambda>s.
         on_ok (free_if_failed (on_ok (set_auth_header io s) (\<lambda>s.
                  on_ok (set_content_type io content_type s) (\<lambda>s.
                    case opt_content_encoding of Some e \<Rightarrow> set_content_encoding io e s | None \<Rightarrow> Some (KII_ERR_OK, s))))) (\<lambda>s.
           on_ok (restoring (\<lambda>k. k\<lparr>kt_req_streamed := False, kt_reads_buff := True\<rparr>)
             (req_send io (kii_perform fuel io) (kmap (\<lambda>k. k\<lparr>kt_reads_buff := False, kt_req_streamed := True\<rparr>) s)))
             status_2xx)))"

definition or_default :: "string option \<Rightarrow> string \<Rightarrow> string" where
  "or_default opt_type dflt = (case opt_type of Some t \<Rightarrow> t | None \<Rightarrow> dflt)"

definition kii_ti_put_state :: "nat \<Rightarrow> 'w kii_io \<Rightarrow> string option \<Rightarrow> string option \<Rightarrow> string option \<Rightarrow> 'w call" where
  "kii_ti_put_state fuel io opt_type opt_encoding opt_host =
     upload_state fuel io ''states'' ''PUT'' (or_default opt_type ''application/vnd.kii.MultipleTraitState+json'') opt_encoding opt_host"

definition kii_ti_put_bulk_states :: "nat \<Rightarrow> 'w kii_io \<Rightarrow> string option \<Rightarrow> string option \<Rightarrow> string option \<Rightarrow> 'w call" where
  "kii_ti_put_bulk_states fuel io opt_type opt_encoding opt_host =
     upload_state fuel io ''states-bulk'' ''POST'' (or_default opt_type ''application/vnd.kii.StateBulkUploadRequest+json'')
       opt_encoding opt_host"

definition kii_ti_patch_state :: "nat \<Rightarrow> 'w kii_io \<Rightarrow> string option \<Rightarrow> string option \<Rightarrow> string option \<Rightarrow> 'w call" where
  "kii_ti_patch_state fuel io opt_type opt_encoding opt_host =
     upload_state fuel io ''states'' ''PATCH'' (or_default opt_type ''application/vnd.kii.MultipleTraitStatePatch+json'')
       opt_encoding opt_host"

definition kii_ti_patch_bulk_states :: "nat \<Rightarrow> 'w kii_io \<Rightarrow> string option \<Rightarrow> string option \<Rightarrow> string option \<Rightarrow> 'w call" where
  "kii_ti_patch_bulk_states fuel io opt_type opt_encoding opt_host =
     upload_state fuel io ''states-bulk'' ''POST'' (or_default opt_type ''application/vnd.kii.StatePatchBulkUploadRequest+json'')
       opt_encoding opt_host"

section \<open>What the application sets and asks\<close>

text \<open>\<open>memset\<close>, and then what is not zero.\<close>

definition kii_init :: "int \<Rightarrow> khc \<Rightarrow> kii" where
  "kii_init source_time h =
     \<lparr>kt_khc = khc_init source_time h, kt_reads_buff = True, kt_writes_buff = True, kt_author = no_author,
      kt_app_id = [], kt_app_host = [], kt_mem = [], kt_base = 0, kt_size = 0, kt_req_size = 0, kt_read = 0,
      kt_written = 0, kt_stream_buff = None, kt_header_buff = None, kt_req_headers = [],
      kt_etag = replicate ETAG_MAX_SIZE NUL, kt_use_m_0 = False, kt_has_session = False, kt_has_clock = False,
      kt_session_generation = 0, kt_session_request = False, kt_session_refused = False, kt_resp_offset = 0,
      kt_req_streamed = False, kt_onboarded_thing_id = [], kt_onboarded_installation_id = [],
      kt_onboarded_endpoint = no_endpoint\<rparr>"

text \<open>The session given, and whether it has a lock and a system with a clock.\<close>

definition kii_set_session :: "'w kii_io \<Rightarrow> (bool \<times> bool) option \<Rightarrow> 'w kst \<Rightarrow> kii_code \<times> 'w kst" where
  "kii_set_session io given s =
     (case given of
        None \<Rightarrow> (KII_ERR_OK, kmap (\<lambda>k. k\<lparr>kt_has_session := False\<rparr>) s)
      | Some (has_lock, has_monotonic) \<Rightarrow>
          if \<not> has_lock \<or> \<not> has_monotonic then (KII_ERR_FAIL, s)
          else (KII_ERR_OK, session_sync io (kmap (\<lambda>k. k\<lparr>kt_has_session := True\<rparr>) s)))"

definition kii_set_clock :: "bool option \<Rightarrow> 'w kst \<Rightarrow> kii_code \<times> 'w kst" where
  "kii_set_clock given s =
     (case given of
        None \<Rightarrow> (KII_ERR_OK, kmap (\<lambda>k. k\<lparr>kt_has_clock := False\<rparr>) s)
      | Some has_monotonic \<Rightarrow>
          if \<not> has_monotonic then (KII_ERR_FAIL, s)
          else (KII_ERR_OK, kmap (\<lambda>k. k\<lparr>kt_has_clock := True\<rparr>) s))"

definition kii_get_author :: "'w kii_io \<Rightarrow> 'w kst \<Rightarrow> author \<times> 'w kst" where
  "kii_get_author io s =
     (if kt_has_session (st_kii s) then (let s1 = ss_lock io s in (ss_author (st_ss s1), s1)) else (kt_author (st_kii s), s))"

definition session_renews_by_onboarding :: "'w kii_io \<Rightarrow> 'w kst \<Rightarrow> bool \<times> 'w kst" where
  "session_renews_by_onboarding io s =
     (if \<not> kt_has_session (st_kii s) then (False, s)
      else (let s1 = ss_lock io s in (ss_renew_mode (st_ss s1) = RENEW_BY_ONBOARDING, s1)))"

definition kii_get_etag :: "kii \<Rightarrow> string" where
  "kii_get_etag k = cstr (kt_etag k)"

definition kii_get_resp_body_length :: "kii \<Rightarrow> nat" where
  "kii_get_resp_body_length k = kt_written k"

definition kii_set_use_m_0_header_flag :: "bool \<Rightarrow> kii \<Rightarrow> kii" where
  "kii_set_use_m_0_header_flag flag k = k\<lparr>kt_use_m_0 := flag\<rparr>"

definition kii_cancel_request_being_prepared :: "kii \<Rightarrow> kii" where
  "kii_cancel_request_being_prepared k = req_headers_free_all k"

definition kii_enable_insecure_http :: "bool \<Rightarrow> kii \<Rightarrow> kii" where
  "kii_enable_insecure_http enable k = k\<lparr>kt_khc := (kt_khc k)\<lparr>kh_enable_insecure := enable\<rparr>\<rparr>"

text \<open>What goes in a CONNECT with a length of 16 bits.\<close>

definition kii_set_mqtt_client_id :: "string option \<Rightarrow> mqtt_conf \<Rightarrow> kii_code \<times> mqtt_conf" where
  "kii_set_mqtt_client_id given cf =
     (if (case given of Some i \<Rightarrow> length i > 65535 | None \<Rightarrow> False) then (KII_ERR_TOO_LARGE_DATA, cf)
      else (KII_ERR_OK, cf\<lparr>cf_client_id := given\<rparr>))"

text \<open>\<open>has_topic\<close> and \<open>has_message\<close>: the pointers of the will are set.\<close>

definition kii_set_mqtt_will :: "(mqtt_will \<times> bool \<times> bool) option \<Rightarrow> mqtt_conf \<Rightarrow> kii_code \<times> mqtt_conf" where
  "kii_set_mqtt_will will cf =
     (case will of
        None \<Rightarrow> (KII_ERR_OK, cf\<lparr>cf_will := None\<rparr>)
      | Some (w, has_topic, has_message) \<Rightarrow>
          if \<not> has_topic \<or> (\<not> has_message \<and> length (wl_message w) > 0) then (KII_ERR_FAIL, cf)
          else if length (wl_topic w) > 65535 \<or> length (wl_message w) > 65535 then (KII_ERR_TOO_LARGE_DATA, cf)
          else (KII_ERR_OK, cf\<lparr>cf_will := Some w\<rparr>))"

definition kii_set_mqtt_retry_wait_max :: "u32 \<Rightarrow> mqtt_conf \<Rightarrow> kii_code \<times> mqtt_conf" where
  "kii_set_mqtt_retry_wait_max max_sec cf =
     (if max_sec = 0 \<or> max_sec > UINT32_MAX div 1000 then (KII_ERR_FAIL, cf)
      else (KII_ERR_OK, cf\<lparr>cf_retry_wait_max_ms := max_sec * 1000\<rparr>))"

section \<open>Starting the push task\<close>

text \<open>
  What of it the checks of \<open>_start_task\<close> look at.  \<open>pt_http_socket\<close> and \<open>pt_mqtt_socket\<close>: the
  socket is set, with the operations the task uses without checking; \<open>pt_task_create\<close> is None where
  the system or its operation is not set, and else whether creating the task succeeds.
\<close>

record push_task =
  pt_running :: bool
  pt_open :: bool
  pt_task_create :: "bool option"
  pt_has_delay :: bool
  pt_has_message_cb :: bool
  pt_http_socket :: bool
  pt_mqtt_socket :: bool
  pt_has_buff :: bool
  pt_conf :: mqtt_conf

definition push_task_can_run :: "push_task \<Rightarrow> bool \<Rightarrow> bool" where
  "push_task_can_run t endpoint_given \<longleftrightarrow>
     pt_has_delay t \<and> (endpoint_given \<or> pt_http_socket t) \<and> pt_mqtt_socket t \<and> (endpoint_given \<or> pt_has_buff t) \<and>
     cf_buffer (pt_conf t) \<noteq> None"

definition start_task :: "nat \<Rightarrow> mqtt_endpoint option \<Rightarrow> push_task \<Rightarrow> kii_code \<times> push_task" where
  "start_task keep_alive_interval endpoint t =
     (if pt_running t then (KII_ERR_FAIL, t)
      else if keep_alive_interval > 65535 then (KII_ERR_FAIL, t)
      else
        (case pt_task_create t of
           None \<Rightarrow> (KII_ERR_CREATE_TASK, t)
         | Some created \<Rightarrow>
             if \<not> pt_has_message_cb t \<or> \<not> push_task_can_run t (endpoint \<noteq> None) then (KII_ERR_FAIL, t)
             else
               (let cf = (pt_conf t)\<lparr>cf_endpoint_given := (endpoint \<noteq> None),
                           cf_endpoint := (case endpoint of Some e \<Rightarrow> e | None \<Rightarrow> cf_endpoint (pt_conf t)),
                           cf_keep_alive := keep_alive_interval\<rparr>;
                    t1 = t\<lparr>pt_conf := cf, pt_running := True, pt_open := True\<rparr>
                in if \<not> created then (KII_ERR_CREATE_TASK, t1\<lparr>pt_open := False, pt_running := False\<rparr>)
                   else (KII_ERR_OK, t1))))"

definition kii_start_push_task :: "nat \<Rightarrow> push_task \<Rightarrow> kii_code \<times> push_task" where
  "kii_start_push_task keep_alive_interval = start_task keep_alive_interval None"

text \<open>The arrays of an endpoint, each with a NUL in it.\<close>

definition endpoint_terminated :: "mqtt_endpoint \<Rightarrow> bool" where
  "endpoint_terminated e \<longleftrightarrow>
     NUL \<in> set (ep_username e) \<and> NUL \<in> set (ep_password e) \<and> NUL \<in> set (ep_topic e) \<and> NUL \<in> set (ep_host e)"

definition endpoint_texts :: "mqtt_endpoint \<Rightarrow> mqtt_endpoint" where
  "endpoint_texts e =
     e\<lparr>ep_username := cstr (ep_username e), ep_password := cstr (ep_password e), ep_topic := cstr (ep_topic e),
        ep_host := cstr (ep_host e)\<rparr>"

definition kii_start_mqtt_task_with_endpoint :: "mqtt_endpoint option \<Rightarrow> nat \<Rightarrow> push_task \<Rightarrow> kii_code \<times> push_task" where
  "kii_start_mqtt_task_with_endpoint endpoint keep_alive_interval t =
     (case endpoint of
        None \<Rightarrow> (KII_ERR_FAIL, t)
      | Some e \<Rightarrow>
          if \<not> endpoint_terminated e then (KII_ERR_TOO_LARGE_DATA, t)
          else if cstr (ep_host e) = [] \<or> cstr (ep_topic e) = [] then (KII_ERR_FAIL, t)
          else start_task keep_alive_interval (Some (endpoint_texts e)) t)"

end
