(* ===== verification/Kii_Safe.thy ===== *)
theory Kii_Safe
  imports Kii_Session
begin

text \<open>
  A request of kii's, with the renewal of a token it may take, writes in the buffer it is given
  and nowhere else, and ends.

  \<open>kwf\<close> is what the offsets into the buffer keep.  \<open>kept k k'\<close> is what the steps of a request
  keep: they write only in \<open>k\<close>'s window of the memory, \<open>same_outside\<close>, and a request without a
  token does not get one, so that a renewal's own request makes no renewal.  The steps are
  composed by \<open>holds\<close> and \<open>runs\<close>, that a step of \<open>kii\<close>, and one of the state, does end
  and where.
\<close>

section \<open>What the steps keep\<close>

definition kbuff :: "kii \<Rightarrow> bool" where
  "kbuff k \<longleftrightarrow> kt_base k + kt_size k \<le> length (kt_mem k) \<and> 0 < kt_size k \<and> length (kt_etag k) = ETAG_MAX_SIZE"

definition kwf :: "kii \<Rightarrow> bool" where
  "kwf k \<longleftrightarrow> kbuff k \<and> kt_resp_offset k + kt_written k \<le> kt_size k \<and> kt_req_size k < kt_size k"

definition same_outside :: "kii \<Rightarrow> kii \<Rightarrow> bool" where
  "same_outside k k' \<longleftrightarrow>
     kt_base k' = kt_base k \<and> kt_size k' = kt_size k \<and> length (kt_mem k') = length (kt_mem k) \<and>
     take (kt_base k) (kt_mem k') = take (kt_base k) (kt_mem k) \<and>
     drop (kt_base k + kt_size k) (kt_mem k') = drop (kt_base k + kt_size k) (kt_mem k)"

definition plain :: "kii \<Rightarrow> bool" where
  "plain k \<longleftrightarrow> (\<forall>h \<in> set (kt_req_headers k). \<not> has_prefix AUTH_HEADER_PREFIX h)"

definition kept0 :: "kii \<Rightarrow> kii \<Rightarrow> bool" where
  "kept0 k k' \<longleftrightarrow> kbuff k' \<and> same_outside k k' \<and> (plain k \<longrightarrow> plain k')"

definition kept :: "kii \<Rightarrow> kii \<Rightarrow> bool" where
  "kept k k' \<longleftrightarrow> kwf k' \<and> same_outside k k' \<and> (plain k \<longrightarrow> plain k')"

definition holds :: "(kii \<Rightarrow> bool) \<Rightarrow> kii option \<Rightarrow> bool" where
  "holds P r \<longleftrightarrow> (\<exists>k. r = Some k \<and> P k)"

definition runs :: "(kii \<Rightarrow> bool) \<Rightarrow> ('a \<times> 'w kst) option \<Rightarrow> bool" where
  "runs P r \<longleftrightarrow> (\<exists>a s. r = Some (a, s) \<and> P (st_kii s))"


lemma holds_Some [simp]: "holds P (Some k) \<longleftrightarrow> P k"
  by (simp add: holds_def)

lemma runs_Some [simp]: "runs P (Some (a, s)) \<longleftrightarrow> P (st_kii s)"
  by (simp add: runs_def)

lemma holds_bind:
  assumes "holds P r" "\<And>k. P k \<Longrightarrow> holds Q (f k)"
  shows "holds Q (r \<bind> f)"
  using assms by (auto simp: holds_def)

lemma runs_bind_kii:
  assumes "holds P r" "\<And>k. P k \<Longrightarrow> runs Q (f k)"
  shows "runs Q (r \<bind> f)"
  using assms by (auto simp: holds_def)

lemma runs_bind:
  assumes "runs P r" "\<And>a s. P (st_kii s) \<Longrightarrow> runs Q (f (a, s))"
  shows "runs Q (r \<bind> f)"
  using assms by (auto simp: runs_def)

lemma runs_on_ok:
  assumes "runs P r" "\<And>s. P (st_kii s) \<Longrightarrow> runs P (f s)"
  shows "runs P (on_ok r f)"
  using assms by (auto simp: runs_def on_ok_def)

lemma runs_mono: "runs P r \<Longrightarrow> (\<And>k. P k \<Longrightarrow> Q k) \<Longrightarrow> runs Q r"
  by (auto simp: runs_def)

lemma holds_mono: "holds P r \<Longrightarrow> (\<And>k. P k \<Longrightarrow> Q k) \<Longrightarrow> holds Q r"
  by (auto simp: holds_def)

lemma st_kii_kmap [simp]: "st_kii (kmap f s) = f (st_kii s)"
  by (simp add: kmap_def)

lemma kept_kept0: "kept k k' \<Longrightarrow> kept0 k k'"
  by (simp add: kept_def kept0_def kwf_def)

lemma kwf_kbuff: "kwf k \<Longrightarrow> kbuff k"
  by (simp add: kwf_def)

lemma kept_refl: "kwf k \<Longrightarrow> kept k k"
  by (simp add: kept_def same_outside_def)

lemma kept0_refl: "kbuff k \<Longrightarrow> kept0 k k"
  by (simp add: kept0_def same_outside_def)

lemma kept_trans: "kept k k1 \<Longrightarrow> kept k1 k2 \<Longrightarrow> kept k k2"
  by (auto simp: kept_def same_outside_def)

lemma kept0_kept: "kept0 k k1 \<Longrightarrow> kept k1 k2 \<Longrightarrow> kept k k2"
  by (auto simp: kept_def kept0_def same_outside_def)

lemma kept0_trans: "kept0 k k1 \<Longrightarrow> kept0 k1 k2 \<Longrightarrow> kept0 k k2"
  by (auto simp: kept0_def same_outside_def)

lemma kept0D: "kept0 k k' \<Longrightarrow> kbuff k'"
  by (simp add: kept0_def)

lemma keptD: "kept k k' \<Longrightarrow> kwf k'"
  by (simp add: kept_def)

section \<open>The buffer\<close>

lemma put_eq:
  assumes "kbuff k" "off + length s \<le> kt_size k"
  shows "put off s k = Some (k\<lparr>kt_mem := mem_write (kt_mem k) (kt_base k + off) s\<rparr>)"
    and "kept0 k (k\<lparr>kt_mem := mem_write (kt_mem k) (kt_base k + off) s\<rparr>)"
proof -
  have room: "kt_base k + off + length s \<le> length (kt_mem k)" "kt_base k + kt_size k \<le> length (kt_mem k)"
    using assms by (auto simp: kbuff_def)
  show "put off s k = Some (k\<lparr>kt_mem := mem_write (kt_mem k) (kt_base k + off) s\<rparr>)"
    using assms room by (simp add: put_def)
  have "length (mem_write (kt_mem k) (kt_base k + off) s) = length (kt_mem k)"
    using room by simp
  moreover have "take (kt_base k) (mem_write (kt_mem k) (kt_base k + off) s) = take (kt_base k) (kt_mem k)"
    using room by (simp add: mem_write_def)
  moreover have "drop (kt_base k + kt_size k) (mem_write (kt_mem k) (kt_base k + off) s) =
      drop (kt_base k + kt_size k) (kt_mem k)"
    using assms room by (simp add: mem_write_def add.commute)
  ultimately show "kept0 k (k\<lparr>kt_mem := mem_write (kt_mem k) (kt_base k + off) s\<rparr>)"
    using assms by (simp add: kept0_def same_outside_def kbuff_def plain_def)
qed

lemma put_kept0: "kbuff k \<Longrightarrow> off + length s \<le> kt_size k \<Longrightarrow> holds (kept0 k) (put off s k)"
  using put_eq [of k off s] by simp

lemma kept_of_kept0:
  "kwf k \<Longrightarrow> kept0 k (k\<lparr>kt_mem := m\<rparr>) \<Longrightarrow> kept k (k\<lparr>kt_mem := m\<rparr>)"
  by (simp add: kept_def kept0_def kwf_def)

lemma put_kept: "kwf k \<Longrightarrow> off + length s \<le> kt_size k \<Longrightarrow> holds (kept k) (put off s k)"
  using put_eq [of k off s] by (simp add: kwf_kbuff kept_of_kept0)

lemma kept_size: "kept k k' \<Longrightarrow> kt_size k' = kt_size k"
  by (simp add: kept_def same_outside_def)

lemma kept_plain: "kept k k' \<Longrightarrow> plain k \<Longrightarrow> plain k'"
  by (simp add: kept_def)

lemma same_size: "same_outside k k' \<Longrightarrow> kt_size k' = kt_size k"
  by (simp add: same_outside_def)

lemmas kept_simps = kept_def kwf_def kbuff_def same_outside_def plain_def

lemma kept_from: "kept k k1 \<Longrightarrow> holds (kept k1) r \<Longrightarrow> holds (kept k) r"
  by (erule holds_mono) (erule (1) kept_trans)

lemma runs_from: "kept k k1 \<Longrightarrow> runs (kept k1) r \<Longrightarrow> runs (kept k) r"
  by (erule runs_mono) (erule (1) kept_trans)

lemma holds_then:
  assumes "holds (kept k) r"
    and "\<And>k1. kwf k1 \<Longrightarrow> kt_size k1 = kt_size k \<Longrightarrow> (plain k \<Longrightarrow> plain k1) \<Longrightarrow> holds (kept k1) (f k1)"
  shows "holds (kept k) (r \<bind> f)"
  using assms(1) by (rule holds_bind) (rule kept_from, assumption, rule assms(2) [OF keptD kept_size kept_plain], assumption+)

lemma runs_then_kii:
  assumes "holds (kept k) r"
    and "\<And>k1. kwf k1 \<Longrightarrow> kt_size k1 = kt_size k \<Longrightarrow> (plain k \<Longrightarrow> plain k1) \<Longrightarrow> runs (kept k1) (f k1)"
  shows "runs (kept k) (r \<bind> f)"
  using assms(1) by (rule runs_bind_kii) (rule runs_from, assumption, rule assms(2) [OF keptD kept_size kept_plain], assumption+)

lemma runs_then:
  assumes "runs (kept k) r"
    and "\<And>a s. kwf (st_kii s) \<Longrightarrow> kt_size (st_kii s) = kt_size k \<Longrightarrow>
      (plain k \<Longrightarrow> plain (st_kii s)) \<Longrightarrow> runs (kept (st_kii s)) (f (a, s))"
  shows "runs (kept k) (r \<bind> f)"
  using assms(1) by (rule runs_bind) (rule runs_from, assumption, rule assms(2) [OF keptD kept_size kept_plain], assumption+)

lemma runs_ok_then:
  assumes "runs (kept k) r"
    and "\<And>s. kwf (st_kii s) \<Longrightarrow> kt_size (st_kii s) = kt_size k \<Longrightarrow>
      (plain k \<Longrightarrow> plain (st_kii s)) \<Longrightarrow> runs (kept (st_kii s)) (f s)"
  shows "runs (kept k) (on_ok r f)"
  using assms(1) by (rule runs_on_ok) (rule runs_from, assumption, rule assms(2) [OF keptD kept_size kept_plain], assumption+)

lemma zeroes_kept: "kwf k \<Longrightarrow> off + n \<le> kt_size k \<Longrightarrow> holds (kept k) (zeroes off n k)"
  by (simp add: zeroes_def put_kept)

lemma put_printf_kept: "kwf k \<Longrightarrow> off \<le> kt_size k \<Longrightarrow> holds (kept k) (put_printf off s k)"
  by (auto simp: put_printf_def kept_refl intro!: put_kept)

lemma put_etag_Some: "i < length b \<Longrightarrow> put_etag i c b = Some (b[i := c])"
  by (simp add: put_etag_def)

lemma reset_buff_kept0: "kbuff k \<Longrightarrow> holds (\<lambda>k'. kept0 k k' \<and> kwf k') (reset_buff k)"
proof -
  let ?k = "k\<lparr>kt_read := 0, kt_written := 0, kt_resp_offset := 0, kt_req_size := 0\<rparr>"
  assume k: "kbuff k"
  then have *: "kbuff ?k" "0 + length [NUL] \<le> kt_size ?k"
    by (simp_all add: kbuff_def)
  show ?thesis
    unfolding reset_buff_def using put_eq [OF *] k
    by (simp add: put_etag_Some kbuff_def ETAG_MAX_SIZE_def kept0_def kwf_def same_outside_def plain_def)
qed

lemma reset_buff_kept: "kwf k \<Longrightarrow> holds (kept k) (reset_buff k)"
  by (rule holds_mono [OF reset_buff_kept0]) (auto simp: kept_def kept0_def kwf_kbuff)

lemma reset_khc_kept: "kwf k \<Longrightarrow> kept k (reset_khc k)"
  by (simp add: kept_simps reset_khc_def)

lemma req_headers_free_all_kept: "kwf k \<Longrightarrow> kept k (req_headers_free_all k)"
  by (simp add: kept_simps req_headers_free_all_def)

lemma kept_updates:
  assumes "kwf k"
  shows "kept k (k\<lparr>kt_stream_buff := b\<rparr>)"
    and "kept k (k\<lparr>kt_resp_offset := 0\<rparr>)"
    and "kept k (k\<lparr>kt_written := 0\<rparr>)"
    and "kept k (k\<lparr>kt_khc := h\<rparr>)"
    and "kept k (k\<lparr>kt_khc := h, kt_read := n\<rparr>)"
    and "kept k (k\<lparr>kt_session_request := f\<rparr>)"
    and "kept k (k\<lparr>kt_session_refused := f\<rparr>)"
    and "kept k (k\<lparr>kt_author := au\<rparr>)"
    and "kept k (k\<lparr>kt_author := au, kt_session_generation := g\<rparr>)"
  using assms by (simp_all add: kept_simps)

lemma clear_buffers_kept:
  assumes "kwf k"
  shows "holds (kept k) (clear_buffers k)"
proof -
  let ?status = "khc_get_status_code (kt_khc k)"
  let ?refused = "?status < 200 \<or> 300 \<le> ?status"
  let ?k1 = "if ?refused then k else k\<lparr>kt_written := 0\<rparr>"
  have k1: "kept k ?k1"
    using kept_refl [OF assms] kept_updates(3) [OF assms] by simp
  show ?thesis
    unfolding clear_buffers_def Let_def
    apply (rule holds_then [OF kept_from [OF k1 zeroes_kept]])
      apply (rule keptD [OF k1])
     apply simp
    apply (simp add: kept_updates)
    done
qed

lemma resp_to_start_kept: "kwf k \<Longrightarrow> holds (kept k) (resp_to_start k)"
  unfolding resp_to_start_def
  apply (cases "kt_resp_offset k = 0")
   apply (simp add: kept_refl)
  apply (simp del: bind_eq_Some_conv)
  apply (rule holds_then [OF put_kept])
    apply assumption
   apply (simp add: kwf_def)
   apply linarith
  apply (rule holds_then [OF zeroes_kept])
    apply assumption
   apply (simp add: kwf_def)
  apply (simp add: kept_updates)
  done

section \<open>The response\<close>

lemma session_resp_offset_le: "session_resp_offset k \<le> kt_size k"
  by (simp add: session_resp_offset_def Let_def)

lemma cb_write_put:
  assumes "kwf k" "kt_resp_offset k + kt_written k + length s \<le> kt_size k"
  shows "\<exists>k'. do { k3 \<leftarrow> put (kt_resp_offset k + kt_written k) s k;
                  Some (length s, k3\<lparr>kt_written := kt_written k3 + length s\<rparr>) } = Some (length s, k') \<and> kept k k'"
  using put_eq [OF kwf_kbuff [OF assms(1)] assms(2)] assms
  by (simp add: kept_def kept0_def kwf_def kbuff_def same_outside_def plain_def)

lemma usub_room:
  assumes "kwf k"
  shows "usub (usub (kt_size k) (kt_resp_offset k)) (kt_written k) = kt_size k - kt_resp_offset k - kt_written k"
proof -
  have "kt_resp_offset k \<le> kt_size k" "kt_written k \<le> kt_size k - kt_resp_offset k"
    using assms by (auto simp: kwf_def)
  then show ?thesis
    by simp
qed

lemma cb_write_buff_kept:
  assumes "kwf k"
  shows "\<exists>n k'. cb_write_buff s k = Some (n, k') \<and> kept k k'"
proof -
  let ?off = "k\<lparr>kt_resp_offset := session_resp_offset k\<rparr>"
  have "holds (kept k) (if kt_written k = 0
      then zeroes (kt_resp_offset ?off) (kt_size ?off - kt_resp_offset ?off) ?off else Some k)"
  proof (cases "kt_written k = 0")
    case True
    with assms have off: "kept k ?off"
      using session_resp_offset_le [of k] by (simp add: kept_simps)
    then have "holds (kept ?off) (zeroes (kt_resp_offset ?off) (kt_size ?off - kt_resp_offset ?off) ?off)"
      using session_resp_offset_le [of k] by (intro zeroes_kept) (auto dest: keptD)
    with off True show ?thesis
      by (auto intro: kept_from)
  qed (simp add: assms kept_refl)
  then obtain k1 where k1: "(if kt_written k = 0
      then zeroes (kt_resp_offset ?off) (kt_size ?off - kt_resp_offset ?off) ?off else Some k) = Some k1" "kept k k1"
    by (auto simp: holds_def)
  have "holds (kept k1) (if usub (usub (kt_size k1) (kt_resp_offset k1)) (kt_written k1) < length s
      then resp_to_start k1 else Some k1)"
    using keptD [OF k1(2)] by (simp add: resp_to_start_kept kept_refl)
  then obtain k2 where k2: "(if usub (usub (kt_size k1) (kt_resp_offset k1)) (kt_written k1) < length s
      then resp_to_start k1 else Some k1) = Some k2" "kept k1 k2"
    by (auto simp: holds_def)
  have k: "kept k k2" and wf: "kwf k2"
    using k1 k2 by (auto intro: kept_trans dest: keptD)
  show ?thesis
  proof (cases "usub (usub (kt_size k2) (kt_resp_offset k2)) (kt_written k2) < length s")
    case True
    with k show ?thesis
      unfolding cb_write_buff_def Let_def k1(1) by (simp add: k2(1))
  next
    case False
    then have "kt_resp_offset k2 + kt_written k2 + length s \<le> kt_size k2"
      using wf unfolding usub_room [OF wf] kwf_def by linarith
    from cb_write_put [OF wf this] obtain k3 where
      k3: "do { k3 \<leftarrow> put (kt_resp_offset k2 + kt_written k2) s k2;
                Some (length s, k3\<lparr>kt_written := kt_written k3 + length s\<rparr>) } = Some (length s, k3)" "kept k2 k3"
      by blast
    then show ?thesis
      unfolding cb_write_buff_def Let_def k1(1) using False kept_trans [OF k k3(2)] by (simp add: k2(1))
  qed
qed

lemma etag_loop_length:
  assumes "length b = 64" "j < 64" "state < 3 \<Longrightarrow> j = 0"
  shows "\<exists>n b'. etag_loop state i j s b = Some (n, b') \<and> length b' = 64"
  using assms
proof (induction s arbitrary: state i j b)
  case Nil
  then show ?case
    by (simp add: put_etag_def)
next
  case (Cons c s)
  consider "state = 0" | "state = 1" | "state = 2" | "state \<ge> 3" by linarith
  then show ?case
  proof cases
    case 1
    then show ?thesis
      using Cons.prems Cons.IH [of b j 1 "i + 1"] Cons.IH [of b j 0 "i + 1"] by (cases "i = 3") simp_all
  next
    case 2
    then show ?thesis
      using Cons.prems Cons.IH [of b j 1 "i + 1"] Cons.IH [of b j 2 "i + 1"] by simp
  next
    case 3
    then show ?thesis
      using Cons.prems Cons.IH [of b j 2 "i + 1"] Cons.IH [of "b[0 := c]" "j + 1" 3 "i + 1"]
      by (simp add: put_etag_def)
  next
    case 4
    then show ?thesis
      using Cons.prems Cons.IH [of "b[j := c]" "j + 1" 3 "i + 1"]
      by (simp add: put_etag_def ETAG_MAX_SIZE_def)
  qed
qed

lemma give_headers_kept: "kwf k \<Longrightarrow> holds (kept k) (give_headers hs k)"
proof (induction hs arbitrary: k)
  case (Cons h hs)
  have "length (kt_etag k) = ETAG_MAX_SIZE"
    using Cons.prems by (simp add: kwf_def kbuff_def)
  then obtain n e where "parse_etag h (kt_etag k) = Some (n, e)" "length e = ETAG_MAX_SIZE"
    using etag_loop_length [of "kt_etag k" 0 0 0 h] by (auto simp: parse_etag_def ETAG_MAX_SIZE_def)
  with Cons.prems have "holds (kept k) (cb_write_header h k)"
    by (simp add: cb_write_header_def kept_simps)
  then show ?case
    by (simp del: bind_eq_Some_conv) (erule holds_then, rule Cons.IH)
qed (simp add: kept_refl)

lemma give_pieces_kept: "kwf (st_kii s) \<Longrightarrow> runs (kept (st_kii s)) (give_pieces io ps s)"
proof (induction ps arbitrary: s)
  case (Cons p ps)
  obtain n k' where k': "cb_write_buff p (st_kii s) = Some (n, k')" "kept (st_kii s) k'"
    using cb_write_buff_kept [OF Cons.prems] by blast
  then have "runs (kept k') (give_pieces io ps (s\<lparr>st_kii := k'\<rparr>))"
    using Cons.IH [of "s\<lparr>st_kii := k'\<rparr>"] by (simp add: keptD)
  moreover have "runs (kept (st_kii s)) (give_pieces io ps (s\<lparr>st_w := w\<rparr>))" for w
    using Cons.IH [of "s\<lparr>st_w := w\<rparr>"] Cons.prems by simp
  ultimately show ?case
    using k' Cons.prems by (simp add: kept_refl runs_from split: prod.split)
qed (simp add: kept_refl)

lemma perform_kept: "kwf (st_kii s) \<Longrightarrow> runs (kept (st_kii s)) (perform io s)"
  unfolding perform_def Let_def
  apply (split prod.split)
  apply (intro allI impI)
  apply (rule runs_then_kii)
   apply (rule kept_from [OF _ give_headers_kept])
    apply (simp add: kept_simps)
   apply (simp add: kept_simps)
  apply (rule runs_then)
   apply (rule runs_from [OF _ give_pieces_kept])
    apply (simp_all add: kept_refl)
  done

section \<open>Headers, bodies and paths\<close>

lemma runs_case_prod: "(\<And>a b. x = (a, b) \<Longrightarrow> runs P (f a b)) \<Longrightarrow> runs P (case x of (a, b) \<Rightarrow> f a b)"
  by (cases x) simp

lemma append_header_kept:
  assumes "kwf (st_kii s)" "\<not> has_prefix AUTH_HEADER_PREFIX (key @ '': '' @ val)"
  shows "runs (kept (st_kii s)) (append_header io key val s)"
  using assms unfolding append_header_def Let_def
  by (auto simp: kept_simps req_headers_free_all_def split: prod.split)

lemma has_prefix_simps [simp]:
  "has_prefix [] s"
  "\<not> has_prefix (c # p) []"
  "has_prefix (c # p) (d # s) \<longleftrightarrow> c = d \<and> has_prefix p s"
  by (auto simp: has_prefix_def)

lemma free_if_failed_kept:
  assumes "runs (kept k) r"
  shows "runs (kept k) (free_if_failed r)"
proof -
  obtain c s where "r = Some (c, s)" "kept k (st_kii s)"
    using assms by (auto simp: runs_def)
  then show ?thesis
    using kept_trans [OF _ req_headers_free_all_kept [OF keptD]] by (simp add: free_if_failed_def)
qed

lemma app_headers_kept: "kwf (st_kii s) \<Longrightarrow> runs (kept (st_kii s)) (app_headers io t s)"
  unfolding app_headers_def set_app_id_header_def set_app_key_header_def set_content_type_def
  by (intro free_if_failed_kept runs_ok_then append_header_kept) (simp_all add: AUTH_HEADER_PREFIX_def)

lemma start_on_kept: "kwf (st_kii s) \<Longrightarrow> runs (kept (st_kii s)) (start_on host meth path s)"
  unfolding start_on_def Let_def
  apply (rule runs_then_kii)
   apply (rule kept_from [OF _ put_printf_kept])
     apply (simp_all add: kept_simps set_method_def set_host_def split: prod.split)
  apply (simp_all add: kept_simps set_path_def split: prod.split)
  done

lemma start_at_kept: "kwf (st_kii s) \<Longrightarrow> runs (kept (st_kii s)) (start_at meth path s)"
  by (simp add: start_at_def start_on_kept)

lemma buff_put:
  assumes "kbuff k" "off + length t \<le> kt_size k"
  shows "buff (k\<lparr>kt_mem := mem_write (kt_mem k) (kt_base k + off) t\<rparr>) = mem_write (buff k) off t"
proof -
  define A B C where "A = take (kt_base k) (kt_mem k)" and "B = take (kt_size k) (drop (kt_base k) (kt_mem k))"
    and "C = drop (kt_size k) (drop (kt_base k) (kt_mem k))"
  have m: "kt_mem k = A @ B @ C"
    unfolding A_def B_def C_def by (simp del: drop_drop)
  have l: "length A = kt_base k" "length B = kt_size k"
    using assms by (auto simp: A_def B_def kbuff_def)
  have "take (kt_size k) (drop (kt_base k) (mem_write (A @ B @ C) (kt_base k + off) t)) = mem_write B off t"
    using assms(2) l by (simp add: mem_write_def)
  then show ?thesis
    by (simp add: buff_def m l)
qed

lemma base64_loop_length: "length (base64_loop s) = (length s + 2) div 3 * 4"
  by (induction s rule: base64_loop.induct) (simp_all add: Let_def, presburger)

lemma set_auth_basic_app_kept:
  assumes wf: "kwf (st_kii s)"
  shows "runs (kept (st_kii s)) (set_auth_basic_app io s)"
proof -
  let ?k = "st_kii s" and ?b = "''Basic '' @ [NUL]"
  let ?k1 = "?k\<lparr>kt_mem := mem_write (kt_mem ?k) (kt_base ?k + 0) ?b\<rparr>"
  let ?c = "kt_app_id ?k @ '':dummy''"
  consider "length ?c \<ge> APP_ID_MAX_SIZE + 7 \<or> kt_size ?k < 7" | "length ?c < APP_ID_MAX_SIZE + 7" "7 \<le> kt_size ?k"
    by linarith
  then show ?thesis
  proof cases
    case 1
    then show ?thesis
      unfolding set_auth_basic_app_def Let_def using kept_refl [OF wf] by auto
  next
    case 2
    then have b: "0 + length ?b \<le> kt_size ?k"
      by simp
    note p1 = put_eq [OF kwf_kbuff [OF wf] b]
    have k1: "kept ?k ?k1"
      by (rule kept_of_kept0 [OF wf p1(2)])
    show ?thesis
    proof (cases "base64_encode ?c (kt_size ?k1 - 6)")
      case None
      with 2 k1 show ?thesis
        unfolding set_auth_basic_app_def Let_def by (simp add: p1(1) [simplified])
    next
      case (Some e)
      then have e: "6 + length (e @ [NUL]) \<le> kt_size ?k1"
        by (auto simp: base64_encode_def base64_loop_length split: if_splits)
      let ?k2 = "?k1\<lparr>kt_mem := mem_write (kt_mem ?k1) (kt_base ?k1 + 6) (e @ [NUL])\<rparr>"
      note p2 = put_eq [OF kwf_kbuff [OF keptD [OF k1]] e]
      have k2: "kept ?k ?k2"
        by (rule kept_trans [OF k1 kept_of_kept0 [OF keptD [OF k1] p2(2)]])
      have "buff ?k2 = mem_write (mem_write (buff ?k) 0 ?b) 6 (e @ [NUL])"
        using buff_put [OF kwf_kbuff [OF keptD [OF k1]] e] buff_put [OF kwf_kbuff [OF wf] b] by simp
      then have "\<exists>t. cstr (buff ?k2) = ''Basic '' @ t"
        by (simp add: cstr_def mem_write_def)
      then have "\<not> has_prefix AUTH_HEADER_PREFIX (''Authorization'' @ '': '' @ cstr (buff ?k2))"
        by (auto simp: AUTH_HEADER_PREFIX_def)
      then have "runs (kept ?k2) (append_header io ''Authorization'' (cstr (buff ?k2)) (s\<lparr>st_kii := ?k2\<rparr>))"
        using append_header_kept [of "s\<lparr>st_kii := ?k2\<rparr>" "''Authorization''" "cstr (buff ?k2)" io] keptD [OF k2] by simp
      from runs_from [OF k2 this] show ?thesis
        using 2 Some unfolding set_auth_basic_app_def Let_def by (simp add: p1(1) [simplified] p2(1) [simplified])
    qed
  qed
qed

definition fits :: "kii \<Rightarrow> (nat option \<times> kii) option \<Rightarrow> bool" where
  "fits k r \<longleftrightarrow> (\<exists>a k'. r = Some (a, k') \<and> kept k k' \<and> (\<forall>n. a = Some n \<longrightarrow> n < kt_size k'))"

lemma fits_Some [simp]: "fits k (Some (a, k')) \<longleftrightarrow> kept k k' \<and> (\<forall>n. a = Some n \<longrightarrow> n < kt_size k')"
  by (simp add: fits_def)

lemma fits_put:
  assumes "holds (kept k) r" "\<And>k'. kept k k' \<Longrightarrow> fits k (f k')"
  shows "fits k (r \<bind> f)"
  using assms by (auto simp: holds_def)

lemma fits_bind:
  assumes "fits k r" "\<And>a k'. kept k k' \<Longrightarrow> (\<And>n. a = Some n \<Longrightarrow> n < kt_size k') \<Longrightarrow> fits k' (f (a, k'))"
  shows "fits k (r \<bind> f)"
proof -
  obtain a k' where r: "r = Some (a, k')" "kept k k'" "\<And>n. a = Some n \<Longrightarrow> n < kt_size k'"
    using assms(1) by (auto simp: fits_def)
  have "fits k' (f (a, k'))"
    using r(2,3) by (rule assms(2))
  then obtain a2 k2 where "f (a, k') = Some (a2, k2)" "kept k' k2" "\<forall>n. a2 = Some n \<longrightarrow> n < kt_size k2"
    by (auto simp: fits_def)
  with r show ?thesis
    using kept_trans [OF r(2)] by (simp add: fits_def)
qed

lemma body_copy_fits: "kwf k \<Longrightarrow> len < kt_size k \<Longrightarrow> fits k (body_copy len str k)"
  unfolding body_copy_def
  by (auto simp: kept_refl kept_size simp del: bind_eq_Some_conv intro!: fits_put put_kept)

lemma escape_loop_fits:
  assumes "kwf k" "off + pos < kt_size k"
  shows "\<exists>a k'. escape_loop off str pos k = Some (a, k') \<and> kept k k' \<and> (\<forall>e. a = Some e \<longrightarrow> off + e < kt_size k')"
  using assms
proof (induction str arbitrary: pos k)
  case Nil
  then have "holds (kept k) (put (off + pos) [NUL] k)"
    by (intro put_kept) simp_all
  with Nil show ?case
    by (auto simp: holds_def kept_size)
next
  case (Cons c str)
  let ?esc = "case escape_of c of None \<Rightarrow> [c] | Some e \<Rightarrow> e"
  show ?case
  proof (cases "kt_size k - off - pos < length ?esc + 1")
    case True
    have "holds (kept k) (put off [NUL] k)"
      using Cons.prems by (intro put_kept) simp_all
    with True show ?thesis
      by (auto simp: holds_def Let_def)
  next
    case False
    then have room: "off + pos + length ?esc < kt_size k"
      by linarith
    have "holds (kept k) (put (off + pos) ?esc k)"
      using room Cons.prems by (intro put_kept) linarith+
    then obtain k1 where k1: "put (off + pos) ?esc k = Some k1" "kept k k1"
      by (auto simp: holds_def)
    have "off + (pos + length ?esc) < kt_size k1"
      using room kept_size [OF k1(2)] by linarith
    from Cons.IH [OF keptD [OF k1(2)] this] obtain a k' where
      "escape_loop off str (pos + length ?esc) k1 = Some (a, k')" "kept k1 k'" "\<forall>e. a = Some e \<longrightarrow> off + e < kt_size k'"
      by blast
    with False k1 show ?thesis
      by (auto simp: Let_def intro: kept_trans)
  qed
qed

lemma escape_str_fits:
  assumes "kwf k" "off < kt_size k"
  shows "\<exists>a k'. escape_str off str k = Some (a, k') \<and> kept k k' \<and> (\<forall>e. a = Some e \<longrightarrow> off + e < kt_size k')"
proof (cases "kt_size k - off < length str + 1")
  case True
  have "holds (kept k) (put off [NUL] k)"
    using assms by (intro put_kept) simp_all
  with True assms show ?thesis
    by (auto simp: escape_str_def holds_def kept_refl)
next
  case False
  with escape_loop_fits [of k off 0 str] assms show ?thesis
    by (simp add: escape_str_def)
qed

lemma body_append_fits:
  assumes "kwf k" "\<And>n. len = Some n \<Longrightarrow> n < kt_size k"
  shows "fits k (body_append len before val after k)"
proof (cases len)
  case None
  then show ?thesis
    by (simp add: body_append_def kept_refl assms)
next
  case (Some n)
  have "fits k (body_copy n before k)"
    using assms Some by (intro body_copy_fits) simp_all
  then have "fits k (body_copy n before k \<bind> (\<lambda>(len1, k1).
      case len1 of None \<Rightarrow> Some (None, k1)
      | Some n1 \<Rightarrow> do {
          (escaped, k2) \<leftarrow> escape_str n1 val k1;
          (case escaped of None \<Rightarrow> Some (None, k2) | Some e \<Rightarrow> body_copy (n1 + e) after k2) }))"
  proof (rule fits_bind)
    fix a k1 assume k1: "kept k k1" and n: "\<And>n. a = Some n \<Longrightarrow> n < kt_size k1"
    show "fits k1 (case (a, k1) of (len1, k1) \<Rightarrow>
      case len1 of None \<Rightarrow> Some (None, k1)
      | Some n1 \<Rightarrow> do {
          (escaped, k2) \<leftarrow> escape_str n1 val k1;
          (case escaped of None \<Rightarrow> Some (None, k2) | Some e \<Rightarrow> body_copy (n1 + e) after k2) })"
    proof (cases a)
      case None
      then show ?thesis
        by (simp add: kept_refl keptD [OF k1])
    next
      case (Some n1)
      obtain a2 k2 where e: "escape_str n1 val k1 = Some (a2, k2)" "kept k1 k2" "\<forall>e. a2 = Some e \<longrightarrow> n1 + e < kt_size k2"
        using escape_str_fits [OF keptD [OF k1] n [OF Some]] by blast
      show ?thesis
      proof (cases a2)
        case (Some e')
        then have "fits k2 (body_copy (n1 + e') after k2)"
          using e by (intro body_copy_fits) (auto dest: keptD)
        then have "fits k1 (body_copy (n1 + e') after k2)"
          using e(2) by (auto simp: fits_def intro: kept_trans)
        with Some e(1) \<open>a = Some n1\<close> show ?thesis
          by simp
      qed (use e \<open>a = Some n1\<close> in simp)
    qed
  qed
  then show ?thesis
    by (simp add: body_append_def Some)
qed

lemma body_appends_fits:
  assumes "kwf k" "\<And>n. len = Some n \<Longrightarrow> n < kt_size k"
  shows "fits k (body_appends ps len k)"
  using assms
proof (induction ps len k rule: body_appends.induct)
  case (2 before val after ps len k)
  have "fits k (body_append len before val after k)"
    using 2(2,3) by (rule body_append_fits)
  then obtain a k' where r: "body_append len before val after k = Some (a, k')" "kept k k'"
    "\<And>n. a = Some n \<Longrightarrow> n < kt_size k'"
    by (auto simp: fits_def)
  have "fits k' (body_appends ps a k')"
    using 2(1) [OF r(1) refl keptD [OF r(2)] r(3)] .
  then show ?case
    using r(1) kept_trans [OF r(2)] by (auto simp: fits_def)
qed (simp add: kept_refl)

end
