(* ===== verification/Kii_Renew.thy ===== *)
theory Kii_Renew
  imports Kii_Safe
begin

text \<open>
  The renewal of a token, and the requests it makes, write in their window of the buffer; so the
  request that a renewal interrupts keeps its body.  \<open>sender\<close> is what the requests of a renewal
  need of \<open>_kii_perform\<close>, for a relation \<open>R\<close> that a request keeps; \<open>renewer\<close> is one for which
  a request without a token keeps all that \<open>kept\<close> says, and has the lemmas about the renewal.
  \<open>kii_perform\<close> is interpreted as a \<open>renewer\<close> with one level of fuel, and with two as a \<open>sender\<close>
  of any request: so a request and its renewal need fuel 2.
\<close>

section \<open>The requests of a renewal\<close>

locale sender =
  fixes io :: "'w kii_io" and kp :: "'w kst \<Rightarrow> (khc_code \<times> 'w kst) option"
    and R :: "kii \<Rightarrow> kii \<Rightarrow> bool" and pre :: "kii \<Rightarrow> bool"
  assumes R_kept: "kept k k' \<Longrightarrow> R k k'"
    and R_trans: "R k k1 \<Longrightarrow> R k1 k2 \<Longrightarrow> R k k2"
    and R_wf: "R k k' \<Longrightarrow> kwf k'"
    and R_pre: "R k k' \<Longrightarrow> pre k \<Longrightarrow> pre k'"
    and kp_R: "kwf (st_kii s) \<Longrightarrow> pre (st_kii s) \<Longrightarrow> runs (R (st_kii s)) (kp s)"

text \<open>\<open>R\<close> is what is kept, \<open>kept\<close> or less.\<close>

lemma req_send_runs:
  assumes wf: "kwf (st_kii s)"
    and R: "\<And>k k'. kept k k' \<Longrightarrow> R k k'" "\<And>k k1 k2. R k k1 \<Longrightarrow> R k1 k2 \<Longrightarrow> R k k2" "\<And>k k'. R k k' \<Longrightarrow> kwf k'"
    and kp: "\<And>s'. R (st_kii s) (st_kii s') \<Longrightarrow> runs (R (st_kii s')) (kp s')"
  shows "runs (R (st_kii s)) (req_send io kp s)"
proof -
  let ?head = "free_if_failed
       (on_ok (append_header io ''X-Kii-SDK'' (''sn=te;sv='' @ ki_version io) s) (\<lambda>s.
          if kt_use_m_0 (st_kii s) then set_m_0_header io s else Some (KII_ERR_OK, s)))"
  have "runs (kept (st_kii s)) ?head"
    using wf unfolding set_m_0_header_def
    by (intro free_if_failed_kept runs_ok_then append_header_kept)
       (auto simp: AUTH_HEADER_PREFIX_def kept_refl intro!: append_header_kept)
  then obtain res s0 where h: "?head = Some (res, s0)" "kept (st_kii s) (st_kii s0)"
    by (auto simp: runs_def)
  let ?s1 = "kmap (\<lambda>k. k\<lparr>kt_khc := fst (khc_set_req_headers (kt_khc k) (map Some (kt_req_headers k)))\<rparr>) s0"
  let ?s2 = "kmap (\<lambda>k. if kt_reads_buff k then k\<lparr>kt_khc := khc_set_req_body_length (kt_khc k) (kt_req_size k)\<rparr> else k) ?s1"
  have s2: "kept (st_kii s0) (st_kii ?s2)"
    using kept_updates(4) [OF keptD [OF h(2)]] by simp
  have k2: "R (st_kii s) (st_kii ?s2)"
    by (rule R(1) [OF kept_trans [OF h(2) s2]])
  obtain code s3 where s3: "kp ?s2 = Some (code, s3)" "R (st_kii ?s2) (st_kii s3)"
    using kp [OF k2] by (auto simp: runs_def)
  have "st_kii (clock_record io s3) = st_kii s3"
    by (simp add: clock_record_def Let_def)
  then have "R (st_kii s) (st_kii (kmap req_headers_free_all (clock_record io s3)))"
    using R(2) [OF R(2) [OF k2 s3(2)] R(1) [OF req_headers_free_all_kept [OF R(3) [OF s3(2)]]]] by simp
  then show ?thesis
    unfolding req_send_def h(1) using R(1) [OF h(2)] s3(1) by (simp add: Let_def)
qed

lemma onboard_body_fits:
  assumes "kwf k"
  shows "fits k (onboard_body v p tt fw lp tp k)"
proof -
  have printf: "fits k' (append_printf t (n, k'))" if "kwf k'" "n < kt_size k'" for k' n and t :: string
  proof -
    have "holds (kept k') (put_printf n t k')"
      using that by (intro put_printf_kept) simp_all
    then show ?thesis
      by (auto simp: holds_def append_printf_def)
  qed
  let ?ps = "[(''{\"vendorThingID\":\"'', v, ''''), (''\",\"thingPassword\":\"'', p, ''\"'')] @
        opt_part '',\"thingType\":\"'' tt @ opt_part '',\"firmwareVersion\":\"'' fw @
        opt_part '',\"layoutPosition\":\"'' lp"
  have b: "fits k (body_appends ?ps (Some 0) k)"
    using assms by (intro body_appends_fits) (auto simp: kwf_def)
  have close: "fits k' (case a of None \<Rightarrow> Some (None, k') | Some n2 \<Rightarrow> append_printf ''}'' (n2, k'))"
    if "kwf k'" "\<And>n. a = Some n \<Longrightarrow> n < kt_size k'" for a k'
    using that by (cases a) (simp_all add: kept_refl printf)
  show ?thesis
    unfolding onboard_body_def
    apply (rule fits_bind [OF b])
    apply (simp only: prod.case)
    apply (split option.split)
    apply (intro conjI impI allI)
     apply (simp add: kept_refl keptD)
    apply (rule fits_bind)
     apply (split option.split)
     apply (intro conjI impI allI)
      apply (simp add: kept_refl keptD)
     apply (rule printf)
      apply (erule keptD)
     apply simp
    apply (simp only: prod.case)
    apply (rule close)
     apply (erule keptD)
    apply simp
    done
qed

context sender
begin

lemma R_runs: "runs (kept k) r \<Longrightarrow> runs (R k) r"
  by (erule runs_mono) (erule R_kept)

lemma R_from: "R k k1 \<Longrightarrow> runs (R k1) r \<Longrightarrow> runs (R k) r"
  by (erule runs_mono) (erule (1) R_trans)

lemma R_then:
  assumes "runs (R k) r" "\<And>s. kwf (st_kii s) \<Longrightarrow> (pre k \<Longrightarrow> pre (st_kii s)) \<Longrightarrow> runs (R (st_kii s)) (f s)"
  shows "runs (R k) (on_ok r f)"
  using assms(1) by (rule runs_on_ok) (rule R_from, assumption, rule assms(2) [OF R_wf R_pre], assumption+)

lemma req_send_R: "kwf (st_kii s) \<Longrightarrow> pre (st_kii s) \<Longrightarrow> runs (R (st_kii s)) (req_send io kp s)"
  by (rule req_send_runs, assumption, erule R_kept, erule (1) R_trans, erule R_wf, rule kp_R, erule R_wf, erule (1) R_pre)

lemma req_send_sized:
  assumes k: "kept (st_kii s) k" "n < kt_size k" and pre: "pre (st_kii s)"
  shows "runs (R (st_kii s)) (req_send io kp (s\<lparr>st_kii := k\<lparr>kt_req_size := n\<rparr>\<rparr>))"
proof -
  let ?k = "k\<lparr>kt_req_size := n\<rparr>"
  have "kept (st_kii s) ?k"
    using k by (simp add: kept_simps)
  then have k': "R (st_kii s) ?k"
    by (rule R_kept)
  show ?thesis
    using req_send_R [of "s\<lparr>st_kii := ?k\<rparr>"] R_wf [OF k'] R_pre [OF k' pre] R_from [OF k'] by simp
qed

lemma freed_R: "kept (st_kii s) k \<Longrightarrow> R (st_kii s) (req_headers_free_all k)"
  by (rule R_kept [OF kept_trans [OF _ req_headers_free_all_kept [OF keptD]]])

lemma send_body_R:
  assumes "kwf (st_kii s)" "pre (st_kii s)"
  shows "runs (R (st_kii s)) (send_body io kp parts s)"
proof -
  obtain a k where b: "body_appends parts (Some 0) (st_kii s) = Some (a, k)" "kept (st_kii s) k"
    "\<forall>n. a = Some n \<longrightarrow> n < kt_size k"
    using body_appends_fits [of "st_kii s" "Some 0" parts] assms(1) by (auto simp: fits_def kwf_def)
  show ?thesis
    using b freed_R [OF b(2)] req_send_sized [OF b(2) _ assms(2)] by (cases a) (simp_all add: send_body_def)
qed

lemmas R_steps = R_then R_runs [OF start_at_kept] R_runs [OF app_headers_kept]

lemma thing_auth_R: "kwf (st_kii s) \<Longrightarrow> pre (st_kii s) \<Longrightarrow> runs (R (st_kii s)) (thing_auth io kp v p s)"
  unfolding thing_auth_def by (intro R_steps send_body_R) simp_all

lemma thing_register_R: "kwf (st_kii s) \<Longrightarrow> pre (st_kii s) \<Longrightarrow> runs (R (st_kii s)) (thing_register io kp v p t s)"
  unfolding thing_register_def by (intro R_steps send_body_R) simp_all

lemma thing_refresh_R:
  assumes "kwf (st_kii s)" "pre (st_kii s)"
  shows "runs (R (st_kii s)) (thing_refresh io kp t s)"
  unfolding thing_refresh_def
proof (intro R_steps, goal_cases)
  case (3 s1 s2)
  then have wf: "kwf (st_kii s2)" "pre (st_kii s2)"
    using assms by simp_all
  let ?body = "''{\"grant_type\":\"refresh_token\", \"refresh_token\":\"'' @ escaped t @ ''\"}''"
  have "holds (kept (st_kii s2)) (put_printf 0 ?body (st_kii s2))"
    using wf by (intro put_printf_kept) simp_all
  then obtain k where k: "put_printf 0 ?body (st_kii s2) = Some k" "kept (st_kii s2) k"
    by (auto simp: holds_def)
  have "length ?body < kt_size k \<Longrightarrow> runs (R (st_kii s2)) (req_send io kp (s2\<lparr>st_kii := k\<lparr>kt_req_size := length ?body\<rparr>\<rparr>))"
    by (rule req_send_sized [OF k(2) _ wf(2)])
  then show ?case
    using k(1) freed_R [OF k(2)] freed_R [OF kept_refl [OF wf(1)]] by (simp add: Let_def)
qed (use assms in simp_all)

end

lemma onboard_read_kept: "kwf k \<Longrightarrow> kept k (snd (onboard_read io k))"
  by (simp add: onboard_read_def Let_def kept_simps split: prod.split)

lemma fresh_request_kept0:
  assumes "kbuff (st_kii s)"
  shows "\<exists>s'. fresh_request s = Some s' \<and> kept0 (st_kii s) (st_kii s') \<and> kwf (st_kii s')"
proof -
  obtain k where k: "reset_buff (st_kii s) = Some k" "kept0 (st_kii s) k" "kwf k"
    using reset_buff_kept0 [OF assms] by (auto simp: holds_def)
  then show ?thesis
    using kept_kept0 [OF reset_khc_kept [OF k(3)]] keptD [OF reset_khc_kept [OF k(3)]]
    by (auto simp: fresh_request_def intro: kept0_trans)
qed

lemma token_response_kept: "kwf (st_kii s) \<Longrightarrow> runs (kept (st_kii s)) (token_response io sent au r s)"
  unfolding token_response_def Let_def
  by (rule runs_then_kii [OF clear_buffers_kept]) (simp_all add: kept_refl)

lemma runs0_from: "kept0 k k1 \<Longrightarrow> runs (kept k1) r \<Longrightarrow> runs (kept k) r"
  by (erule runs_mono) (erule (1) kept0_kept)

context sender
begin

lemma onboard_send_R:
  assumes wf: "kwf (st_kii s)" "pre (st_kii s)"
  shows "runs (R (st_kii s)) (onboard_send io kp v p tt fw lp tp s)"
proof -
  obtain a k where b: "onboard_body v p tt fw lp tp (st_kii s) = Some (a, k)" "kept (st_kii s) k"
    "\<forall>n. a = Some n \<longrightarrow> n < kt_size k"
    using onboard_body_fits [OF wf(1), of v p tt fw lp tp] by (auto simp: fits_def)
  show ?thesis
  proof (cases a)
    case None
    with b show ?thesis
      using freed_R [OF b(2)] by (simp add: onboard_send_def)
  next
    case (Some n)
    have "runs (R (st_kii s)) (on_ok (req_send io kp (s\<lparr>st_kii := k\<lparr>kt_req_size := n\<rparr>\<rparr>)) (\<lambda>s.
            let status = khc_get_status_code (kt_khc (st_kii s)) in
            if status < 200 \<or> 300 \<le> status then Some (KII_ERR_RESP_STATUS, s)
            else (case onboard_read io (st_kii s) of (c, k') \<Rightarrow> Some (c, s\<lparr>st_kii := k'\<rparr>))))"
    proof (rule R_then)
      show "runs (R (st_kii s)) (req_send io kp (s\<lparr>st_kii := k\<lparr>kt_req_size := n\<rparr>\<rparr>))"
        using b(3) Some by (intro req_send_sized [OF b(2) _ wf(2)]) simp
      fix s :: "'w kst"
      assume "kwf (st_kii s)"
      then show "runs (R (st_kii s)) (let status = khc_get_status_code (kt_khc (st_kii s)) in
            if status < 200 \<or> 300 \<le> status then Some (KII_ERR_RESP_STATUS, s)
            else (case onboard_read io (st_kii s) of (c, k') \<Rightarrow> Some (c, s\<lparr>st_kii := k'\<rparr>)))"
        using R_kept [OF onboard_read_kept [of "st_kii s" io]] R_kept [OF kept_refl]
        by (cases "onboard_read io (st_kii s)") (simp add: Let_def)
    qed
    with b(1) Some show ?thesis
      by (simp add: onboard_send_def)
  qed
qed

lemma onboard_and_read_R:
  assumes "kbuff (st_kii s)" "pre (st_kii s)"
  shows "runs (R (st_kii s)) (onboard_and_read io kp v p tt fw lp tp s)"
proof -
  obtain k0 where k0: "reset_buff (st_kii s) = Some k0" "kept0 (st_kii s) k0" "kwf k0"
    using reset_buff_kept0 [OF assms(1)] by (auto simp: holds_def)
  let ?s = "s\<lparr>st_kii := reset_khc k0\<rparr>"
  have s: "R (st_kii s) (st_kii ?s)"
    using kept0_trans [OF k0(2) kept_kept0 [OF reset_khc_kept [OF k0(3)]]] keptD [OF reset_khc_kept [OF k0(3)]]
    by (simp add: R_kept kept_def kept0_def)
  have "runs (R (st_kii ?s))
     (on_ok (start_at ''POST'' (''/thing-if/apps/'' @ kt_app_id k0 @ ''/onboardings'') ?s) (\<lambda>s.
       on_ok (free_if_failed (on_ok (set_auth_basic_app io s)
                (set_content_type io ''application/vnd.kii.OnboardingWithVendorThingIDByThing+json'')))
         (onboard_send io kp v p tt fw lp tp)))"
    unfolding set_content_type_def using R_wf [OF s] R_pre [OF s assms(2)]
    by (intro R_steps R_runs [OF free_if_failed_kept] runs_ok_then set_auth_basic_app_kept append_header_kept onboard_send_R)
       (simp_all add: AUTH_HEADER_PREFIX_def)
  then show ?thesis
    unfolding onboard_and_read_def k0(1) using R_from [OF s] by simp
qed

lemma clearing_R:
  assumes "runs (R k) r"
  shows "runs (R k) (clearing r)"
proof -
  obtain c s where r: "r = Some (c, s)" "R k (st_kii s)"
    using assms by (auto simp: runs_def)
  obtain k' where "clear_buffers (st_kii s) = Some k'" "kept (st_kii s) k'"
    using clear_buffers_kept [OF R_wf [OF r(2)]] by (auto simp: holds_def)
  then show ?thesis
    using r R_trans [OF r(2) R_kept] by (simp add: clearing_def)
qed

lemma onboard_R:
  "kbuff (st_kii s) \<Longrightarrow> pre (st_kii s) \<Longrightarrow> runs (R (st_kii s)) (onboard io kp v p tt fw lp tp s)"
  unfolding onboard_def by (intro clearing_R onboard_and_read_R)

end

text \<open>A renewal: its requests have no token, and get none.\<close>

locale renewer = sender io kp kept plain
  for io :: "'w kii_io" and kp :: "'w kst \<Rightarrow> (khc_code \<times> 'w kst) option"

section \<open>Renewing\<close>

lemma runs0_trans: "kept0 k k1 \<Longrightarrow> runs (kept0 k1) r \<Longrightarrow> runs (kept0 k) r"
  by (erule runs_mono) (erule (1) kept0_trans)

lemma runs_kept0: "runs (kept k) r \<Longrightarrow> runs (kept0 k) r"
  by (erule runs_mono) (erule kept_kept0)

lemma st_kii_now_ms [simp]: "st_kii (snd (now_ms io s)) = st_kii s"
  by (simp add: now_ms_def split: prod.split)

lemma st_kii_password_usable [simp]: "st_kii (snd (password_usable_locked io s)) = st_kii s"
  by (simp add: password_usable_locked_def now_ms_def split: prod.split)

lemma st_kii_due [simp]: "st_kii (snd (due_locked io s)) = st_kii s"
  by (simp add: due_locked_def now_ms_def split: prod.split)

lemma st_kii_password_tried [simp]: "st_kii (password_tried_locked io res refused s) = st_kii s"
  by (simp add: password_tried_locked_def now_ms_def Let_def split: prod.split)

lemma st_kii_store [simp]: "st_kii (store_locked io au e s) = st_kii s"
  by (simp add: store_locked_def now_ms_def Let_def split: prod.split option.split)

lemma st_kii_ss_lock [simp]: "st_kii (ss_lock io s) = st_kii s"
  by (simp add: ss_lock_def split: prod.split)

lemma sync_locked_kept0: "kept0 k (st_kii s) \<Longrightarrow> kept0 k (st_kii (sync_locked s))"
  by (simp add: sync_locked_def kept0_def kbuff_def same_outside_def plain_def)

context renewer
begin

lemma onboard_again_kept0:
  assumes "kbuff (st_kii s)" "plain (st_kii s)"
  shows "runs (kept0 (st_kii s)) (onboard_again io kp au s)"
proof -
  obtain usable s1 where u: "password_usable_locked io s = (usable, s1)"
    by (cases "password_usable_locked io s")
  have s1: "st_kii s1 = st_kii s"
    using st_kii_password_usable [of io s] unfolding u by simp
  obtain res s2 where o: "onboard io kp (ss_vendor_thing_id (st_ss s1))
      (case ss_password (st_ss s1) of Some p \<Rightarrow> p | None \<Rightarrow> []) None None None None s1 = Some (res, s2)"
      "kept (st_kii s) (st_kii s2)"
    using onboard_R [of s1] assms s1 by (fastforce simp: runs_def)
  show ?thesis
    unfolding onboard_again_def u using o(1) kept_kept0 [OF o(2)] s1 kept0_refl [OF assms(1)]
    by (simp add: Let_def)
qed

lemma try_refresh_kept0:
  assumes "kbuff (st_kii s)" "plain (st_kii s)"
  shows "runs (kept0 (st_kii s)) (try_refresh io kp s)"
proof -
  obtain s1 where s1: "fresh_request s = Some s1" "kept0 (st_kii s) (st_kii s1)" "kwf (st_kii s1)"
    using fresh_request_kept0 [OF assms(1)] by blast
  have "runs (kept (st_kii s1)) (thing_refresh io kp (au_refresh (ss_author (st_ss s))) s1)"
    using s1 assms(2) by (intro thing_refresh_R) (auto simp: kept0_def)
  then have "runs (kept (st_kii s1)) (thing_refresh io kp (au_refresh (ss_author (st_ss s))) s1 \<bind>
      (\<lambda>(sent, s2). token_response io sent (ss_author (st_ss s)) False s2))"
    by (rule runs_then) (simp add: token_response_kept)
  then have "runs (kept0 (st_kii s)) (thing_refresh io kp (au_refresh (ss_author (st_ss s))) s1 \<bind>
      (\<lambda>(sent, s2). token_response io sent (ss_author (st_ss s)) False s2))"
    by (rule runs_kept0 [OF runs0_from [OF s1(2)]])
  then show ?thesis
    using s1 kept0_refl [OF assms(1)] by (simp add: try_refresh_def Let_def)
qed

lemma try_password_kept0:
  assumes "kbuff (st_kii s)" "plain (st_kii s)"
  shows "runs (kept0 (st_kii s)) (try_password io kp s)"
proof -
  obtain s1 where s1: "fresh_request s = Some s1" "kept0 (st_kii s) (st_kii s1)" "kwf (st_kii s1)"
    using fresh_request_kept0 [OF assms(1)] by blast
  let ?au = "(ss_author (st_ss s))\<lparr>au_refresh := []\<rparr>"
  let ?p = "case ss_password (st_ss s1) of Some p \<Rightarrow> p | None \<Rightarrow> []"
  have "runs (kept (st_kii s1)) (thing_auth io kp (ss_vendor_thing_id (st_ss s1)) ?p s1)"
    using s1 assms(2) by (intro thing_auth_R) (auto simp: kept0_def)
  then obtain sent s2 where s2: "thing_auth io kp (ss_vendor_thing_id (st_ss s1)) ?p s1 = Some (sent, s2)"
      "kept (st_kii s1) (st_kii s2)"
    by (auto simp: runs_def)
  obtain r s3 where s3: "token_response io sent ?au True s2 = Some (r, s3)" "kept (st_kii s2) (st_kii s3)"
    using token_response_kept [OF keptD [OF s2(2)]] by (fastforce simp: runs_def)
  have "kept0 (st_kii s) (st_kii s3)"
    using kept_kept0 [OF kept0_kept [OF s1(2) kept_trans [OF s2(2) s3(2)]]] .
  then show ?thesis
    using s1 s2 s3 by (cases r) (simp add: try_password_def Let_def)
qed

lemma renew_by_token_endpoint_kept0:
  assumes "kbuff (st_kii s)" "plain (st_kii s)"
  shows "runs (kept0 (st_kii s)) (renew_by_token_endpoint io kp s)"
proof -
  obtain res au e rejected s1 where r: "try_refresh io kp s = Some ((res, au, e, rejected), s1)"
      "kept0 (st_kii s) (st_kii s1)"
    using try_refresh_kept0 [OF assms] unfolding runs_def by fastforce
  obtain usable s1' where u: "password_usable_locked io s1 = (usable, s1')"
    by (cases "password_usable_locked io s1")
  have s1': "st_kii s1' = st_kii s1"
    using st_kii_password_usable [of io s1] unfolding u by simp
  have "runs (kept0 (st_kii s1)) (try_password io kp s1')"
    using try_password_kept0 [of s1'] r(2) assms(2) s1' by (simp add: kept0_def)
  then have t: "runs (kept0 (st_kii s)) (try_password io kp s1')"
    by (rule runs0_trans [OF r(2)])
  let ?t = "if res \<noteq> KII_ERR_OK \<and> rejected
        then (case password_usable_locked io s1 of
                (usable, s1') \<Rightarrow> if usable then try_password io kp s1' else Some ((res, au, e, rejected), s1'))
        else Some ((res, au, e, rejected), s1)"
  have "runs (kept0 (st_kii s)) ?t"
    using t u s1' r(2) by simp
  then obtain res2 au2 e2 rej2 s2 where t2: "?t = Some ((res2, au2, e2, rej2), s2)" "kept0 (st_kii s) (st_kii s2)"
    unfolding runs_def by fastforce
  show ?thesis
    unfolding renew_by_token_endpoint_def using t2
    by (simp add: r(1) Let_def sync_locked_kept0 del: bind_eq_Some_conv)
qed

lemma renew_locked_kept0:
  assumes "kbuff (st_kii s)" "plain (st_kii s)"
  shows "runs (kept0 (st_kii s)) (renew_locked io kp force s)"
proof -
  obtain due s1 where d: "(if force then (True, s) else due_locked io s) = (due, s1)"
    by (cases "if force then (True, s) else due_locked io s")
  have s1: "st_kii s1 = st_kii s"
    using d st_kii_due [of io s] by (cases force) (simp_all del: st_kii_due)
  obtain res au s2 where o: "onboard_again io kp (ss_author (st_ss s1)) s1 = Some ((res, au), s2)"
      "kept0 (st_kii s) (st_kii s2)"
    using onboard_again_kept0 [of s1] assms s1 unfolding runs_def by fastforce
  show ?thesis
    unfolding renew_locked_def d
    using o renew_by_token_endpoint_kept0 [of s1] assms s1 kept0_refl [OF assms(1)]
    by (simp add: Let_def sync_locked_kept0)
qed

end

section \<open>The request put away and put back\<close>

lemma take_drop_agree:
  assumes "n \<le> m" "take m xs = take m ys"
  shows "take n xs = take n ys"
  using assms by (metis min.absorb_iff1 take_take)

lemma drop_agree: "m \<le> n \<Longrightarrow> drop m xs = drop m ys \<Longrightarrow> drop n xs = drop n ys"
  by (metis drop_drop le_add_diff_inverse2)

text \<open>What is written from \<open>keep\<close> on leaves what the buffer has before \<open>keep\<close>.\<close>

lemma put_away_inside:
  assumes k: "kbuff k" "keep < kt_size k" and k': "kept0 (put_away keep k) k'"
  shows "same_outside k (k'\<lparr>kt_base := kt_base k, kt_size := kt_size k\<rparr>)"
    and "take keep (buff (k'\<lparr>kt_base := kt_base k, kt_size := kt_size k\<rparr>)) = take keep (buff k)"
proof -
  have mem: "length (kt_mem k') = length (kt_mem k)"
    "take (kt_base k + keep) (kt_mem k') = take (kt_base k + keep) (kt_mem k)"
    "drop (kt_base k + kt_size k) (kt_mem k') = drop (kt_base k + kt_size k) (kt_mem k)"
    using k' k(2) by (simp_all add: kept0_def same_outside_def put_away_def)
  show "same_outside k (k'\<lparr>kt_base := kt_base k, kt_size := kt_size k\<rparr>)"
    using mem take_drop_agree [OF _ mem(2), of "kt_base k"] by (simp add: same_outside_def)
  have "take keep (take (kt_size k) (drop (kt_base k) m)) = drop (kt_base k) (take (kt_base k + keep) m)" for m :: string
    using k(2) by (simp add: drop_take min_def)
  then show "take keep (buff (k'\<lparr>kt_base := kt_base k, kt_size := kt_size k\<rparr>)) = take keep (buff k)"
    using mem(2) by (simp add: buff_def)
qed

lemma put_away_ok: "kbuff k \<Longrightarrow> keep < kt_size k \<Longrightarrow> kbuff (put_away keep k) \<and> plain (put_away keep k)"
  by (simp add: kbuff_def put_away_def plain_def)

definition put_back_as :: "nat \<Rightarrow> kii \<Rightarrow> kii \<Rightarrow> bool" where
  "put_back_as keep k k1 \<longleftrightarrow>
     kt_req_headers k1 = kt_req_headers k \<and> kt_khc k1 = kt_khc k \<and> kt_req_streamed k1 = kt_req_streamed k \<and>
     kt_req_size k1 = (if keep > 0 then kt_req_size k else 0) \<and> kt_read k1 = 0 \<and> kt_written k1 = 0 \<and>
     kt_resp_offset k1 = 0 \<and> kt_reads_buff k1 = kt_reads_buff k \<and> kt_writes_buff k1 = kt_writes_buff k"

lemma put_back_ok:
  assumes k: "kwf k" "keep < kt_size k" and k': "kept0 (put_away keep k) k'"
  shows "\<exists>k1. put_back keep k k' = Some k1 \<and> kwf k1 \<and> same_outside k k1 \<and> take keep (buff k1) = take keep (buff k) \<and>
              put_back_as keep k k1"
proof -
  note inside = put_away_inside [OF kwf_kbuff [OF k(1)] k(2) k']
  have "length (kt_etag k') = 64"
    using k' by (simp add: kept0_def kbuff_def ETAG_MAX_SIZE_def)
  then obtain e where e: "put_etag 0 NUL (kt_etag k') = Some e" "length e = ETAG_MAX_SIZE"
    by (simp add: put_etag_Some ETAG_MAX_SIZE_def)
  have "kt_base k + kt_size k \<le> length (kt_mem k')"
    using inside(1) k(1) by (simp add: same_outside_def kwf_def kbuff_def)
  with inside e k(1) show ?thesis
    by (simp add: put_back_def put_back_as_def kwf_def kbuff_def same_outside_def buff_def)
qed

lemma replace_auth_header_result:
  "\<exists>c s' hs. replace_auth_header io s = Some (c, s') \<and> st_kii s' = (st_kii s)\<lparr>kt_req_headers := hs\<rparr> \<and>
     (hs = kt_req_headers (st_kii s) \<or>
      hs = replace_auth (AUTH_HEADER_PREFIX @ au_token (kt_author (st_kii s))) (kt_req_headers (st_kii s))) \<and>
     (c = KII_ERR_OK \<longrightarrow>
        hs = replace_auth (AUTH_HEADER_PREFIX @ au_token (kt_author (st_kii s))) (kt_req_headers (st_kii s)))"
proof -
  have same: "\<exists>hs. k = k\<lparr>kt_req_headers := hs\<rparr> \<and> (hs = kt_req_headers k \<or> hs = hs')" for k hs'
    by (rule exI [of _ "kt_req_headers k"]) simp
  show ?thesis
    using same [of "st_kii s"]
    by (auto simp: replace_auth_header_def Let_def kmap_def split: prod.split)
qed

text \<open>
  What the request is after it: the body as it was, unless a forced renewal took its space, and the
  headers, with the token that is now held if it can be sent again.
\<close>

definition renewed :: "bool \<Rightarrow> bool \<Rightarrow> kii \<Rightarrow> kii \<Rightarrow> bool" where
  "renewed force resendable k k' \<longleftrightarrow>
     (kt_req_streamed k' = kt_req_streamed k \<and> kt_reads_buff k' = kt_reads_buff k \<and>
      kt_writes_buff k' = kt_writes_buff k) \<and>
     (k' = k \<and> \<not> force \<or> kt_read k' = 0 \<and> kt_written k' = 0 \<and> kt_resp_offset k' = 0) \<and>
     ((resendable \<or> \<not> force) \<and> \<not> kt_req_streamed k \<longrightarrow>
        take (kt_req_size k + 1) (buff k') = take (kt_req_size k + 1) (buff k) \<and> kt_req_size k' = kt_req_size k) \<and>
     (kt_req_headers k' = kt_req_headers k \<or>
      kt_req_headers k' = replace_auth (AUTH_HEADER_PREFIX @ au_token (kt_author k')) (kt_req_headers k)) \<and>
     (kt_khc k' = kt_khc k \<or> kt_khc k' = fst (khc_set_req_headers (kt_khc k) (map Some (kt_req_headers k')))) \<and>
     (resendable \<longrightarrow>
        \<not> kt_req_streamed k \<and>
        kt_req_headers k' = replace_auth (AUTH_HEADER_PREFIX @ au_token (kt_author k')) (kt_req_headers k) \<and>
        kt_khc k' = fst (khc_set_req_headers (kt_khc k) (map Some (kt_req_headers k'))))"

context renewer
begin

text \<open>What a renewal leaves of the request it interrupts.\<close>

lemma renew_and_restore_spec:
  assumes wf: "kwf (st_kii s)"
  shows "\<exists>res resendable s'. renew_and_restore io kp force s = Some ((res, resendable), s') \<and>
    kwf (st_kii s') \<and> same_outside (st_kii s) (st_kii s') \<and> renewed force resendable (st_kii s) (st_kii s')"
proof -
  let ?k = "st_kii s"
  let ?keep0 = "if kt_req_streamed ?k then 0 else kt_req_size ?k + 1"
  let ?s0 = "ss_lock io s"
  let ?small = "kt_size ?k < ?keep0 + renewal_size (st_ss ?s0)"
  let ?keep = "if ?small then 0 else ?keep0"
  have pos: "0 < kt_size ?k"
    using wf by (simp add: kwf_def kbuff_def)
  have keep: "?keep < kt_size ?k"
    using pos by (auto simp: renewal_size_def SESSION_ONBOARD_BUFF_SIZE_def SESSION_RENEW_BUFF_SIZE_def)
  show ?thesis
  proof (cases "?small \<and> \<not> force")
    case True
    then have "renew_and_restore io kp force s = Some ((KII_ERR_OK, False), ?s0)"
      by (simp add: renew_and_restore_def Let_def)
    moreover have "renewed force False ?k (st_kii ?s0)" "same_outside ?k (st_kii ?s0)" "kwf (st_kii ?s0)"
      using wf True by (simp_all add: renewed_def same_outside_def)
    ultimately show ?thesis
      by blast
  next
    case False
    let ?sa = "ss_lock io (?s0\<lparr>st_kii := put_away ?keep ?k\<rparr>)"
    have sa: "kbuff (st_kii ?sa)" "plain (st_kii ?sa)" "st_kii ?sa = put_away ?keep ?k"
      using put_away_ok [OF kwf_kbuff [OF wf] keep] by simp_all
    obtain res s1 where r: "renew_locked io kp force ?sa = Some (res, s1)" "kept0 (put_away ?keep ?k) (st_kii s1)"
      using renew_locked_kept0 [OF sa(1,2), of force] sa(3) by (auto simp: runs_def)
    obtain k1 where k1: "put_back ?keep ?k (st_kii s1) = Some k1" "kwf k1" "same_outside ?k k1"
      "take ?keep (buff k1) = take ?keep (buff ?k)" "put_back_as ?keep ?k k1"
      using put_back_ok [OF wf keep r(2)] by blast
    obtain c s2 hs where h: "replace_auth_header io (s1\<lparr>st_kii := k1\<rparr>) = Some (c, s2)"
      "st_kii s2 = k1\<lparr>kt_req_headers := hs\<rparr>"
      "hs = kt_req_headers k1 \<or> hs = replace_auth (AUTH_HEADER_PREFIX @ au_token (kt_author k1)) (kt_req_headers k1)"
      "c = KII_ERR_OK \<longrightarrow> hs = replace_auth (AUTH_HEADER_PREFIX @ au_token (kt_author k1)) (kt_req_headers k1)"
      using replace_auth_header_result [of io "s1\<lparr>st_kii := k1\<rparr>"] by auto
    let ?s3 = "kmap (\<lambda>k. k\<lparr>kt_khc := fst (khc_set_req_headers (kt_khc k) (map Some (kt_req_headers k)))\<rparr>) s2"
    let ?res = "if res = KII_ERR_OK then c else res"
    let ?resendable = "?res = KII_ERR_OK \<and> \<not> kt_req_streamed ?k \<and> ?keep > 0"
    have eq: "renew_and_restore io kp force s = Some ((?res, ?resendable), ?s3)"
      unfolding renew_and_restore_def Let_def
      by (simp only: False if_False r(1) k1(1) h(1) bind.bind_lunit prod.case)
    have "kwf (st_kii ?s3)" "same_outside ?k (st_kii ?s3)"
      using k1(2,3) h(2) by (simp_all add: kwf_def kbuff_def same_outside_def)
    moreover have "renewed force ?resendable ?k (st_kii ?s3)"
      unfolding renewed_def
    proof (intro conjI impI)
      show "take (kt_req_size ?k + 1) (buff (st_kii ?s3)) = take (kt_req_size ?k + 1) (buff ?k)"
        if "(?resendable \<or> \<not> force) \<and> \<not> kt_req_streamed ?k"
        using that k1(4) h(2) False by (simp add: buff_def split: if_splits)
      show "kt_req_size (st_kii ?s3) = kt_req_size ?k" if "(?resendable \<or> \<not> force) \<and> \<not> kt_req_streamed ?k"
        using that k1(5) h(2) False by (simp add: put_back_as_def split: if_splits)
    qed (use k1(5) h(2-4) in \<open>auto simp: put_back_as_def split: if_splits\<close>)
    ultimately show ?thesis
      using eq by blast
  qed
qed

end

section \<open>The request sent\<close>

lemma has_token_not_plain: "has_session_token k \<Longrightarrow> \<not> plain k"
  by (auto simp: has_session_token_def plain_def list_ex_iff)

lemma st_kii_renewal_due [simp]: "st_kii (snd (renewal_due io s)) = st_kii s"
  by (simp add: renewal_due_def Let_def due_locked_def now_ms_def split: prod.split)

definition inside :: "kii \<Rightarrow> kii \<Rightarrow> bool" where
  "inside k k' \<longleftrightarrow> kwf k' \<and> same_outside k k'"

lemma inside_kept: "kept k k' \<Longrightarrow> inside k k'"
  by (simp add: kept_def inside_def)

lemma inside_trans: "inside k k1 \<Longrightarrow> inside k1 k2 \<Longrightarrow> inside k k2"
  by (auto simp: inside_def same_outside_def)

lemma inside_refl: "kwf k \<Longrightarrow> inside k k"
  by (simp add: inside_def same_outside_def)

lemma insideD: "inside k k' \<Longrightarrow> kwf k'"
  by (simp add: inside_def)

lemma runs_inside: "inside k k1 \<Longrightarrow> runs (kept k1) r \<Longrightarrow> runs (inside k) r"
  by (erule runs_mono) (erule inside_trans, erule inside_kept)

context renewer
begin

text \<open>The first try, and what the second is made from.\<close>

lemma first_try:
  assumes wf: "kwf (st_kii s)"
  shows "\<exists>b t1 c1 t2. (case renewal_due io s of (due, s1) \<Rightarrow>
            if due then renew_and_restore io kp False s1 else Some ((KII_ERR_OK, False), s1)) = Some (b, t1) \<and>
          inside (st_kii s) (st_kii t1) \<and> (st_kii t1 = st_kii s \<or> renewed False (snd b) (st_kii s) (st_kii t1)) \<and>
          perform io (kmap (\<lambda>k. k\<lparr>kt_session_request := True\<rparr>) t1) = Some (c1, t2) \<and>
          kept (st_kii t1) (st_kii t2)"
proof -
  obtain due s1 where d: "renewal_due io s = (due, s1)"
    by (cases "renewal_due io s")
  have s1: "st_kii s1 = st_kii s"
    using st_kii_renewal_due [of io s] unfolding d by simp
  obtain b t1 where t1: "(if due then renew_and_restore io kp False s1 else Some ((KII_ERR_OK, False), s1)) = Some (b, t1)"
    "inside (st_kii s) (st_kii t1)" "st_kii t1 = st_kii s \<or> renewed False (snd b) (st_kii s) (st_kii t1)"
  proof (cases due)
    case True
    obtain res resendable t1 where "renew_and_restore io kp False s1 = Some ((res, resendable), t1)"
      "kwf (st_kii t1)" "same_outside (st_kii s1) (st_kii t1)" "renewed False resendable (st_kii s1) (st_kii t1)"
      using renew_and_restore_spec [of s1 False] wf s1 by auto
    then show ?thesis
      using that [of "(res, resendable)" t1] True s1 by (simp add: inside_def)
  qed (use that [of "(KII_ERR_OK, False)" s1] s1 inside_refl [OF wf] in simp)
  let ?t = "kmap (\<lambda>k. k\<lparr>kt_session_request := True\<rparr>) t1"
  have "kept (st_kii t1) (st_kii ?t)"
    using kept_updates(6) [OF insideD [OF t1(2)]] by simp
  moreover obtain c1 t2 where "perform io ?t = Some (c1, t2)" "kept (st_kii ?t) (st_kii t2)"
    using perform_kept [of ?t io] keptD [OF calculation] by (auto simp: runs_def)
  ultimately show ?thesis
    using t1 d by (auto intro: kept_trans)
qed

lemma session_perform_inside:
  assumes wf: "kwf (st_kii s)"
  shows "runs (inside (st_kii s)) (session_perform io kp s)"
proof -
  obtain due s1 where d: "renewal_due io s = (due, s1)"
    by (cases "renewal_due io s")
  obtain b t1 c1 t2 where t: "(if due then renew_and_restore io kp False s1 else Some ((KII_ERR_OK, False), s1)) = Some (b, t1)"
    "inside (st_kii s) (st_kii t1)"
    "perform io (kmap (\<lambda>k. k\<lparr>kt_session_request := True\<rparr>) t1) = Some (c1, t2)" "kept (st_kii t1) (st_kii t2)"
    using first_try [OF wf] unfolding d by auto
  let ?s4 = "kmap (\<lambda>k. k\<lparr>kt_session_request := False\<rparr>) t2"
  have s4: "inside (st_kii s) (st_kii ?s4)"
    using inside_trans [OF t(2) inside_kept [OF kept_trans [OF t(4) kept_updates(6) [OF keptD [OF t(4)]]]]] by simp
  show ?thesis
  proof (cases "c1 \<noteq> ERR_OK \<or> \<not> token_refused io (st_kii ?s4)")
    case True
    obtain k where "resp_to_start (st_kii ?s4) = Some k" "kept (st_kii ?s4) k"
      using resp_to_start_kept [OF insideD [OF s4]] by (auto simp: holds_def)
    then have "session_perform io kp s = Some (c1, ?s4\<lparr>st_kii := k\<rparr>)" "inside (st_kii s) k"
      using True t d inside_trans [OF s4 inside_kept] by (simp_all add: session_perform_def Let_def)
    then show ?thesis
      by simp
  next
    case False
    obtain res resendable s5 where r: "renew_and_restore io kp True ?s4 = Some ((res, resendable), s5)"
      "kwf (st_kii s5)" "same_outside (st_kii ?s4) (st_kii s5)"
      using renew_and_restore_spec [OF insideD [OF s4], of True] by blast
    have s5: "inside (st_kii s) (st_kii s5)"
      using inside_trans [OF s4] r by (simp add: inside_def)
    let ?s6 = "kmap (\<lambda>k. k\<lparr>kt_khc := khc_reset_except_request (kt_khc k)\<rparr>) s5"
    have "runs (inside (st_kii s)) (perform io ?s6)"
      using kept_updates(4) [OF r(2)]
      by (intro runs_inside [OF s5 runs_from [OF _ perform_kept]]) (auto dest: keptD)
    moreover have "inside (st_kii s) ((st_kii s5)\<lparr>kt_session_refused := True\<rparr>)"
      by (rule inside_trans [OF s5 inside_kept [OF kept_updates(7) [OF r(2)]]])
    ultimately show ?thesis
      using False t d r s5 by (simp add: session_perform_def Let_def)
  qed
qed

end

interpretation plain_sender: renewer io "kii_perform (Suc n) io" for io :: "'w kii_io" and n
proof (unfold_locales, goal_cases)
  case (5 s)
  let ?s = "kmap (\<lambda>k. k\<lparr>kt_session_refused := False\<rparr>) s"
  note wf = 5(1)
  have "\<not> has_session_token (st_kii ?s)"
    using has_token_not_plain [of "st_kii ?s"] 5(2) by (auto simp: plain_def)
  moreover have "runs (kept (st_kii s)) (perform io ?s)"
    using kept_updates(7) [OF wf] by (intro runs_from [OF _ perform_kept]) (auto dest: keptD)
  ultimately show ?case
    by (simp add: Let_def)
qed (auto intro: kept_trans dest: keptD kept_plain)

lemma kii_perform_inside:
  assumes wf: "kwf (st_kii s)"
  shows "runs (inside (st_kii s)) (kii_perform (Suc (Suc n)) io s)"
proof -
  let ?s = "kmap (\<lambda>k. k\<lparr>kt_session_refused := False\<rparr>) s"
  have k: "inside (st_kii s) (st_kii ?s)"
    using inside_kept [OF kept_updates(7) [OF wf]] by simp
  have "runs (inside (st_kii s)) (session_perform io (kii_perform (Suc n) io) ?s)"
    by (rule runs_mono [OF plain_sender.session_perform_inside [OF insideD [OF k]]]) (rule inside_trans [OF k])
  moreover have "runs (inside (st_kii s)) (perform io ?s)"
    by (rule runs_inside [OF k perform_kept [OF insideD [OF k]]])
  ultimately show ?thesis
    unfolding kii_perform.simps(2) [of "Suc n"] by (simp add: Let_def)
qed

interpretation any_sender: sender io "kii_perform (Suc (Suc n)) io" inside "\<lambda>_. True" for io :: "'w kii_io" and n
  by (unfold_locales, erule inside_kept, erule (1) inside_trans, erule insideD, rule TrueI, rule kii_perform_inside)

end
