(* ===== verification/Kii_Call.thy ===== *)
theory Kii_Call
  imports Kii_Renew
begin

text \<open>
  A request from its start to its end: where it writes, what it sends again after a renewal, and
  what its headers are.
\<close>

section \<open>Start and end\<close>

lemma runs_inside_then:
  assumes "runs (inside k) r" "\<And>s. inside k (st_kii s) \<Longrightarrow> runs (inside k) (f s)"
  shows "runs (inside k) (on_ok r f)"
  using assms by (rule runs_on_ok)

lemma append_header_inside: "kwf (st_kii s) \<Longrightarrow> runs (inside (st_kii s)) (append_header io key val s)"
  unfolding append_header_def Let_def
  by (auto simp: inside_def kept_simps req_headers_free_all_def split: prod.split)

lemma runs_inside_from: "inside k (st_kii s) \<Longrightarrow> runs (inside (st_kii s)) r \<Longrightarrow> runs (inside k) r"
  by (erule runs_mono) (erule (1) inside_trans)

lemma set_auth_bearer_token_inside:
  assumes wf: "kwf (st_kii s)"
  shows "runs (inside (st_kii s)) (set_auth_bearer_token io t s)"
proof (cases "length t > 0")
  case True
  let ?line = "''Bearer '' @ t"
  have "holds (kept (st_kii s)) (put 0 [NUL] (st_kii s))"
    using wf by (intro put_kept) (simp_all add: kwf_def kbuff_def)
  then obtain k1 where k1: "put 0 [NUL] (st_kii s) = Some k1" "kept (st_kii s) k1"
    by (auto simp: holds_def)
  have "holds (kept k1) (put_printf 0 ?line k1)"
    using keptD [OF k1(2)] by (intro put_printf_kept) simp_all
  then obtain k2 where k2: "put_printf 0 ?line k1 = Some k2" "kept k1 k2"
    by (auto simp: holds_def)
  have k: "kept (st_kii s) k2"
    by (rule kept_trans [OF k1(2) k2(2)])
  note wf2 = keptD [OF k]
  show ?thesis
  proof (cases "length ?line \<ge> kt_size k2")
    case True
    obtain k3 where "zeroes 0 (kt_size k2) k2 = Some k3" "kept k2 k3"
      using zeroes_kept [OF wf2, of 0 "kt_size k2"] by (auto simp: holds_def)
    then show ?thesis
      using True \<open>length t > 0\<close> k1 k2 inside_kept [OF kept_trans [OF k]] by (simp add: set_auth_bearer_token_def Let_def)
  next
    case False
    obtain res s1 where r: "append_header io ''Authorization'' (cstr (buff k2)) (s\<lparr>st_kii := k2\<rparr>) = Some (res, s1)"
      "inside k2 (st_kii s1)"
      using append_header_inside [of "s\<lparr>st_kii := k2\<rparr>" io "''Authorization''" "cstr (buff k2)"] wf2 by (auto simp: runs_def)
    have "kt_size (st_kii s1) = kt_size k2"
      using r(2) by (simp add: inside_def same_outside_def)
    then obtain k3 where "zeroes 0 (length ?line) (st_kii s1) = Some k3" "kept (st_kii s1) k3"
      using zeroes_kept [OF insideD [OF r(2)], of 0 "length ?line"] False by (auto simp: holds_def)
    then show ?thesis
      using False \<open>length t > 0\<close> k1 k2 r inside_trans [OF inside_trans [OF inside_kept [OF k] r(2)] inside_kept]
      by (simp add: set_auth_bearer_token_def Let_def)
  qed
qed (simp add: set_auth_bearer_token_def inside_refl wf)

lemma sync_inside: "kwf (st_kii s) \<Longrightarrow> inside (st_kii s) (st_kii (session_sync io s))"
  by (simp add: session_sync_def sync_locked_def inside_kept kept_updates(9))

lemma set_auth_header_inside:
  assumes "kwf (st_kii s)"
  shows "runs (inside (st_kii s)) (set_auth_header io s)"
proof (cases "kt_has_session (st_kii s)")
  case True
  have "runs (inside (st_kii s)) (set_auth_bearer_token io t (session_sync io s))" for t
    by (rule runs_inside_from [OF sync_inside [OF assms] set_auth_bearer_token_inside [OF insideD [OF sync_inside [OF assms]]]])
  with True show ?thesis
    by (simp add: set_auth_header_def Let_def)
qed (simp add: set_auth_header_def Let_def set_auth_bearer_token_inside assms)

lemma free_if_failed_inside:
  assumes "runs (inside k) r"
  shows "runs (inside k) (free_if_failed r)"
proof -
  obtain c s where r: "r = Some (c, s)" "inside k (st_kii s)"
    using assms by (auto simp: runs_def)
  have "inside k (req_headers_free_all (st_kii s))"
    by (rule inside_trans [OF r(2) inside_kept [OF req_headers_free_all_kept [OF insideD [OF r(2)]]]])
  then show ?thesis
    using r by (simp add: free_if_failed_def)
qed

lemma inside0: "kept0 k k1 \<Longrightarrow> kwf k1 \<Longrightarrow> inside k k1"
  by (simp add: inside_def kept0_def)

lemma api_call_start_inside:
  assumes "kbuff (st_kii s)"
  shows "runs (inside (st_kii s)) (api_call_start io meth path content_type auth s)"
proof -
  obtain k1 where k1: "reset_buff (st_kii s) = Some k1" "kept0 (st_kii s) k1" "kwf k1"
    using reset_buff_kept0 [OF assms] by (auto simp: holds_def)
  let ?k2 = "set_host (kt_app_host k1) (body_from_buff (reset_khc (req_headers_free_all k1)))"
  have k2: "inside (st_kii s) ?k2"
    using k1(2,3) by (simp add: inside_def kept0_def kept_simps set_host_def body_from_buff_def reset_khc_def req_headers_free_all_def)
  obtain c3 k3 where m: "set_method meth ?k2 = (c3, k3)"
    by (cases "set_method meth ?k2")
  have k3: "inside (st_kii s) k3"
    using m k2 by (auto simp: set_method_def inside_def kept_simps split: prod.splits)
  obtain c4 k4 where p: "set_path path k3 = (c4, k4)"
    by (cases "set_path path k3")
  have k4: "inside (st_kii s) k4"
    using p k3 by (auto simp: set_path_def inside_def kept_simps split: prod.splits)
  have header: "runs (inside (st_kii s)) (append_header io key val s1)" if "inside (st_kii s) (st_kii s1)" for key val s1
    by (rule runs_inside_from [OF that append_header_inside [OF insideD [OF that]]])
  have auth: "runs (inside (st_kii s)) (set_auth_header io s1)" if "inside (st_kii s) (st_kii s1)" for s1
    by (rule runs_inside_from [OF that set_auth_header_inside [OF insideD [OF that]]])
  have "runs (inside (st_kii s)) (free_if_failed (on_ok (set_app_id_header io (s\<lparr>st_kii := k4\<rparr>)) (\<lambda>s.
          on_ok (set_app_key_header io s) (\<lambda>s.
            on_ok (case content_type of
                     Some t \<Rightarrow> (if length t > 0 then set_content_type io t s else Some (KII_ERR_OK, s))
                   | None \<Rightarrow> Some (KII_ERR_OK, s)) (\<lambda>s.
              if auth then set_auth_header io s else Some (KII_ERR_OK, s))))))"
    unfolding set_app_id_header_def set_app_key_header_def set_content_type_def
    by (intro free_if_failed_inside runs_inside_then header)
       (auto simp: k4 intro: header auth split: option.split)
  then show ?thesis
    using k3 k4 by (simp add: api_call_start_def k1(1) m p Let_def)
qed

lemma api_call_run_inside:
  assumes "kwf (st_kii s)"
  shows "runs (inside (st_kii s)) (api_call_run (Suc (Suc n)) io s)"
proof -
  have "runs (inside (st_kii s)) (req_send io (kii_perform (Suc (Suc n)) io) s)"
    by (rule any_sender.req_send_R [OF assms]) simp
  then obtain res s' where "req_send io (kii_perform (Suc (Suc n)) io) s = Some (res, s')" "inside (st_kii s) (st_kii s')"
    by (auto simp: runs_def)
  then show ?thesis
    by (simp add: api_call_run_def inside_def kept_simps body_from_buff_def)
qed

section \<open>Sent again\<close>

text \<open>
  While the response is given, \<open>k\<close> the request: whatever is past the body leaves the body, and
  what is not past it can not be told from the body kept.
\<close>

definition same_request :: "kii \<Rightarrow> kii \<Rightarrow> bool" where
  "same_request k k' \<longleftrightarrow>
     kwf k' \<and> kt_size k' = kt_size k \<and> kt_req_size k' = kt_req_size k \<and> kt_req_headers k' = kt_req_headers k \<and>
     kt_req_streamed k' = kt_req_streamed k \<and> kt_reads_buff k' = kt_reads_buff k \<and>
     session_resp_offset k' = session_resp_offset k"

definition body_kept :: "kii \<Rightarrow> kii \<Rightarrow> bool" where
  "body_kept k k' \<longleftrightarrow> take (kt_req_size k + 1) (buff k') = take (kt_req_size k + 1) (buff k)"

definition beside :: "kii \<Rightarrow> kii \<Rightarrow> bool" where
  "beside k k' \<longleftrightarrow> same_request k k' \<and>
     (kt_resp_offset k' > 0 \<longrightarrow> kt_resp_offset k' = kt_req_size k + 1 \<and> body_kept k k')"

lemma session_resp_offset_cases: "session_resp_offset k = 0 \<or> session_resp_offset k = kt_req_size k + 1"
  by (simp add: session_resp_offset_def Let_def)

lemma session_resp_offset_same:
  "kt_khc k' = kt_khc k \<Longrightarrow> kt_session_request k' = kt_session_request k \<Longrightarrow> kt_req_streamed k' = kt_req_streamed k \<Longrightarrow>
   kt_req_size k' = kt_req_size k \<Longrightarrow> kt_size k' = kt_size k \<Longrightarrow> session_resp_offset k' = session_resp_offset k"
  by (simp add: session_resp_offset_def)

lemma take_buff_put:
  assumes "kbuff k" "off + length t \<le> kt_size k" "n \<le> off"
  shows "take n (buff (k\<lparr>kt_mem := mem_write (kt_mem k) (kt_base k + off) t\<rparr>)) = take n (buff k)"
proof -
  have "length (buff k) = kt_size k"
    using assms(1) by (auto simp: buff_def kbuff_def)
  then show ?thesis
    unfolding buff_put [OF assms(1,2)] using assms(2,3) by (simp add: take_mem_write_before)
qed

lemma buff_upd [simp]:
  "buff (k\<lparr>kt_resp_offset := n\<rparr>) = buff k"
  "buff (k\<lparr>kt_written := n\<rparr>) = buff k"
  "buff (k\<lparr>kt_etag := e\<rparr>) = buff k"
  "buff (k\<lparr>kt_khc := h\<rparr>) = buff k"
  "buff (k\<lparr>kt_khc := h, kt_read := n\<rparr>) = buff k"
  "buff (k\<lparr>kt_session_request := f\<rparr>) = buff k"
  by (simp_all add: buff_def)

lemma put_keeps:
  assumes "kwf k" "off + length t \<le> kt_size k"
  shows "\<exists>m. put off t k = Some (k\<lparr>kt_mem := m\<rparr>) \<and> kwf (k\<lparr>kt_mem := m\<rparr>) \<and>
    (\<forall>n \<le> off. take n (buff (k\<lparr>kt_mem := m\<rparr>)) = take n (buff k))"
  using put_eq [OF kwf_kbuff [OF assms(1)] assms(2)] take_buff_put [OF kwf_kbuff [OF assms(1)] assms(2)] assms(1)
  by (auto simp: kept0_def kwf_def)

lemma begin_response:
  assumes b: "beside k k1" and w: "kt_written k1 = 0 \<longrightarrow> session_resp_offset k > 0 \<longrightarrow> body_kept k k1"
  shows "\<exists>k2. (if kt_written k1 = 0
      then (let k' = k1\<lparr>kt_resp_offset := session_resp_offset k1\<rparr>
            in zeroes (kt_resp_offset k') (kt_size k' - kt_resp_offset k') k')
      else Some k1) = Some k2 \<and> beside k k2 \<and> (kt_written k2 = 0 \<longrightarrow> kt_resp_offset k2 = session_resp_offset k)"
proof (cases "kt_written k1 = 0")
  case True
  let ?o = "session_resp_offset k1" and ?k = "k1\<lparr>kt_resp_offset := session_resp_offset k1\<rparr>"
  have wf: "kwf ?k"
    using b True session_resp_offset_le [of k1] by (simp add: beside_def same_request_def kwf_def kbuff_def)
  have o: "?o = session_resp_offset k"
    using b by (simp add: beside_def same_request_def)
  have "?o + length (replicate (kt_size ?k - ?o) NUL) \<le> kt_size ?k"
    using session_resp_offset_le [of k1] by simp
  from put_keeps [OF wf this] obtain m where m: "put ?o (replicate (kt_size ?k - ?o) NUL) ?k = Some (?k\<lparr>kt_mem := m\<rparr>)"
    "kwf (?k\<lparr>kt_mem := m\<rparr>)" "\<forall>n \<le> ?o. take n (buff (?k\<lparr>kt_mem := m\<rparr>)) = take n (buff ?k)"
    by blast
  let ?k2 = "?k\<lparr>kt_mem := m\<rparr>"
  have "same_request k ?k2"
    using b m(2) session_resp_offset_same [of ?k2 k1] by (simp add: beside_def same_request_def)
  moreover have "kt_resp_offset ?k2 = kt_req_size k + 1 \<and> body_kept k ?k2" if "kt_resp_offset ?k2 > 0"
  proof -
    have "?o = kt_req_size k + 1"
      using that o session_resp_offset_cases [of k] by auto
    then show ?thesis
      using m(3) w True that o by (simp add: body_kept_def)
  qed
  ultimately show ?thesis
    using True m(1) o by (simp add: zeroes_def Let_def beside_def)
qed (use b in simp)

lemma resp_to_start_result:
  assumes "kwf k"
  shows "\<exists>m. resp_to_start k = Some (k\<lparr>kt_mem := m, kt_resp_offset := 0\<rparr>) \<and> kwf (k\<lparr>kt_mem := m, kt_resp_offset := 0\<rparr>) \<and>
    (kt_resp_offset k = 0 \<longrightarrow> m = kt_mem k)"
proof (cases "kt_resp_offset k = 0")
  case True
  then have "k\<lparr>kt_mem := kt_mem k, kt_resp_offset := 0\<rparr> = k"
    by simp
  with True assms show ?thesis
    by (intro exI [of _ "kt_mem k"]) (simp add: resp_to_start_def kwf_def kbuff_def)
next
  case False
  have fits: "0 + length (take (kt_written k) (drop (kt_resp_offset k) (buff k))) \<le> kt_size k"
    using assms by (simp add: kwf_def) linarith
  from put_keeps [OF assms fits] obtain m where m: "put 0 (take (kt_written k) (drop (kt_resp_offset k) (buff k))) k =
      Some (k\<lparr>kt_mem := m\<rparr>)" "kwf (k\<lparr>kt_mem := m\<rparr>)"
    by blast
  have "kt_written k + length (replicate (kt_size k - kt_written k) NUL) \<le> kt_size (k\<lparr>kt_mem := m\<rparr>)"
    using assms by (simp add: kwf_def)
  from put_keeps [OF m(2) this] obtain m2 where m2:
    "put (kt_written k) (replicate (kt_size k - kt_written k) NUL) (k\<lparr>kt_mem := m\<rparr>) = Some (k\<lparr>kt_mem := m2\<rparr>)"
    "kwf (k\<lparr>kt_mem := m2\<rparr>)"
    by auto
  have "kwf (k\<lparr>kt_mem := m2, kt_resp_offset := 0\<rparr>)"
    using m2(2) by (simp add: kwf_def kbuff_def)
  then show ?thesis
    using False m(1) m2(1) by (auto simp: resp_to_start_def zeroes_def)
qed

lemma make_room:
  assumes b: "beside k k1" and w: "kt_written k1 = 0 \<longrightarrow> kt_resp_offset k1 = session_resp_offset k"
  shows "\<exists>k2. (if usub (usub (kt_size k1) (kt_resp_offset k1)) (kt_written k1) < length s
      then resp_to_start k1 else Some k1) = Some k2 \<and> beside k k2 \<and>
      (kt_written k2 = 0 \<longrightarrow> s = [] \<longrightarrow> kt_resp_offset k2 = session_resp_offset k)"
proof (cases "usub (usub (kt_size k1) (kt_resp_offset k1)) (kt_written k1) < length s")
  case True
  obtain m where m: "resp_to_start k1 = Some (k1\<lparr>kt_mem := m, kt_resp_offset := 0\<rparr>)"
    "kwf (k1\<lparr>kt_mem := m, kt_resp_offset := 0\<rparr>)"
    using resp_to_start_result b unfolding beside_def same_request_def by blast
  have "beside k (k1\<lparr>kt_mem := m, kt_resp_offset := 0\<rparr>)"
    using b m(2) session_resp_offset_same [of "k1\<lparr>kt_mem := m, kt_resp_offset := 0\<rparr>" k1]
    by (simp add: beside_def same_request_def)
  with True m show ?thesis
    by auto
qed (use b w in simp)

lemma cb_write_beside:
  assumes b: "beside k k1" and w: "kt_written k1 = 0 \<longrightarrow> session_resp_offset k > 0 \<longrightarrow> body_kept k k1"
  shows "\<exists>n k3. cb_write_buff s k1 = Some (n, k3) \<and> beside k k3 \<and>
    (\<not> n < length s \<longrightarrow> kt_written k3 = 0 \<longrightarrow> session_resp_offset k > 0 \<longrightarrow> body_kept k k3)"
proof -
  obtain k2 where k2: "(if kt_written k1 = 0
      then (let k' = k1\<lparr>kt_resp_offset := session_resp_offset k1\<rparr>
            in zeroes (kt_resp_offset k') (kt_size k' - kt_resp_offset k') k')
      else Some k1) = Some k2" "beside k k2" "kt_written k2 = 0 \<longrightarrow> kt_resp_offset k2 = session_resp_offset k"
    by (rule exE [OF begin_response [OF assms]]) (elim conjE, rule that, assumption+)
  obtain k3 where k3: "(if usub (usub (kt_size k2) (kt_resp_offset k2)) (kt_written k2) < length s
      then resp_to_start k2 else Some k2) = Some k3" "beside k k3"
      "kt_written k3 = 0 \<longrightarrow> s = [] \<longrightarrow> kt_resp_offset k3 = session_resp_offset k"
    by (rule exE [OF make_room [OF k2(2,3)]]) (elim conjE, rule that, assumption+)
  have wf: "kwf k3"
    using k3(2) by (simp add: beside_def same_request_def)
  show ?thesis
  proof (cases "usub (usub (kt_size k3) (kt_resp_offset k3)) (kt_written k3) < length s")
    case True
    then have "cb_write_buff s k1 = Some (0, k3)"
      unfolding cb_write_buff_def k2(1) by (simp only: bind.bind_lunit k3(1) if_True)
    moreover have "0 < length s"
      using True by linarith
    ultimately show ?thesis
      using k3(2) by auto
  next
    case False
    then have fits: "kt_resp_offset k3 + kt_written k3 + length s \<le> kt_size k3"
      using wf unfolding usub_room [OF wf] kwf_def by linarith
    obtain m where m: "put (kt_resp_offset k3 + kt_written k3) s k3 = Some (k3\<lparr>kt_mem := m\<rparr>)" "kwf (k3\<lparr>kt_mem := m\<rparr>)"
      "\<forall>n \<le> kt_resp_offset k3 + kt_written k3. take n (buff (k3\<lparr>kt_mem := m\<rparr>)) = take n (buff k3)"
      using put_keeps [OF wf fits] by blast
    let ?k4 = "k3\<lparr>kt_mem := m, kt_written := kt_written k3 + length s\<rparr>"
    have "cb_write_buff s k1 = Some (length s, ?k4)"
      unfolding cb_write_buff_def k2(1) using False by (simp only: bind.bind_lunit k3(1) m(1) if_False) simp
    moreover have kept: "body_kept k ?k4" if "kt_resp_offset k3 > 0"
      using that k3(2) m(3) by (simp add: beside_def body_kept_def buff_def)
    moreover have "beside k ?k4"
      using k3(2) m(2) fits kept session_resp_offset_same [of ?k4 k3]
      by (simp add: beside_def same_request_def kwf_def kbuff_def)
    moreover have "kt_written ?k4 = 0 \<longrightarrow> session_resp_offset k > 0 \<longrightarrow> body_kept k ?k4"
      using k3(3) by (intro impI, intro kept) simp
    ultimately show ?thesis
      by (intro exI [of _ "length s"] exI [of _ ?k4]) blast
  qed
qed

lemma give_pieces_beside:
  assumes "beside k (st_kii s)" "kt_written (st_kii s) = 0 \<longrightarrow> session_resp_offset k > 0 \<longrightarrow> body_kept k (st_kii s)"
    "give_pieces io ps s = Some (all_taken, s')"
  shows "beside k (st_kii s')"
  using assms
proof (induction ps arbitrary: s)
  case (Cons p ps)
  show ?case
  proof (cases "kt_writes_buff (st_kii s)")
    case True
    obtain n k3 where c: "cb_write_buff p (st_kii s) = Some (n, k3)" "beside k k3"
      "\<not> n < length p \<longrightarrow> kt_written k3 = 0 \<longrightarrow> session_resp_offset k > 0 \<longrightarrow> body_kept k k3"
      by (rule exE [OF cb_write_beside [OF Cons.prems(1,2), of p]]) (elim exE conjE, rule that, assumption+)
    show ?thesis
    proof (cases "n < length p")
      case True
      with c Cons.prems(3) \<open>kt_writes_buff (st_kii s)\<close> show ?thesis
        by auto
    next
      case False
      with c(1) Cons.prems(3) \<open>kt_writes_buff (st_kii s)\<close>
      have "give_pieces io ps (s\<lparr>st_kii := k3\<rparr>) = Some (all_taken, s')"
        by simp
      with Cons.IH [of "s\<lparr>st_kii := k3\<rparr>"] c False show ?thesis
        by simp
    qed
  next
    case False
    obtain n w where "ki_app_write io p (st_w s) = (n, w)"
      by (cases "ki_app_write io p (st_w s)")
    with False Cons.prems Cons.IH [of "s\<lparr>st_w := w\<rparr>"] show ?thesis
      by (cases "n < length p") auto
  qed
qed simp

lemma give_headers_result:
  assumes "give_headers hs k = Some k'"
  shows "\<exists>e. k' = k\<lparr>kt_etag := e\<rparr>"
  using assms
proof (induction hs arbitrary: k)
  case Nil
  then have "k' = k\<lparr>kt_etag := kt_etag k\<rparr>"
    by simp
  then show ?case
    by blast
next
  case (Cons h hs)
  then obtain e where "give_headers hs (k\<lparr>kt_etag := e\<rparr>) = Some k'"
    by (auto simp: cb_write_header_def bind_eq_Some_conv)
  from Cons.IH [OF this] show ?case
    by auto
qed

lemma perform_beside:
  assumes wf: "kwf (st_kii s)" and start: "kt_written (st_kii s) = 0" "kt_resp_offset (st_kii s) = 0"
    and p: "perform io s = Some (c, s')" and off: "kt_resp_offset (st_kii s') > 0"
  shows "body_kept (st_kii s) (st_kii s')" "kt_req_size (st_kii s') = kt_req_size (st_kii s)"
    "kt_req_headers (st_kii s') = kt_req_headers (st_kii s)" "kt_reads_buff (st_kii s') = kt_reads_buff (st_kii s)"
proof -
  obtain ex w where x: "ki_exchange io (kt_khc (st_kii s))
      (if kt_reads_buff (st_kii s) then Some (buff_body (st_kii s)) else None) (st_w s) = (ex, w)"
    by (cases "ki_exchange io (kt_khc (st_kii s))
      (if kt_reads_buff (st_kii s) then Some (buff_body (st_kii s)) else None) (st_w s)")
  obtain k1 all_taken where g: "give_headers (ex_headers ex) ((st_kii s)\<lparr>kt_khc := ex_khc ex,
      kt_read := kt_read (st_kii s) +
        (if kt_reads_buff (st_kii s) then min (ex_read ex) (length (buff_body (st_kii s))) else 0)\<rparr>) = Some k1"
      "give_pieces io (ex_pieces ex) (s\<lparr>st_kii := k1, st_w := w\<rparr>) = Some (all_taken, s')"
    using p by (auto simp: perform_def x Let_def bind_eq_Some_conv)
  obtain e where k1: "k1 = (st_kii s)\<lparr>kt_khc := ex_khc ex,
      kt_read := kt_read (st_kii s) +
        (if kt_reads_buff (st_kii s) then min (ex_read ex) (length (buff_body (st_kii s))) else 0), kt_etag := e\<rparr>"
    using give_headers_result [OF g(1)] by auto
  have "kwf k1"
    using give_headers_kept [of "(st_kii s)\<lparr>kt_khc := ex_khc ex, kt_read := kt_read (st_kii s) +
        (if kt_reads_buff (st_kii s) then min (ex_read ex) (length (buff_body (st_kii s))) else 0)\<rparr>" "ex_headers ex"]
      keptD [OF kept_updates(5) [OF wf]] g(1) by (simp add: keptD)
  then have "beside k1 k1"
    using start by (simp add: beside_def same_request_def k1)
  then have "beside k1 (st_kii s')"
    using give_pieces_beside [OF _ _ g(2), of k1] by (simp add: body_kept_def)
  moreover have "buff k1 = buff (st_kii s)" "kt_req_size k1 = kt_req_size (st_kii s)"
    "kt_req_headers k1 = kt_req_headers (st_kii s)" "kt_reads_buff k1 = kt_reads_buff (st_kii s)"
    by (simp_all add: k1 buff_def)
  ultimately show "body_kept (st_kii s) (st_kii s')" "kt_req_size (st_kii s') = kt_req_size (st_kii s)"
    "kt_req_headers (st_kii s') = kt_req_headers (st_kii s)" "kt_reads_buff (st_kii s') = kt_reads_buff (st_kii s)"
    using off by (simp_all add: beside_def same_request_def body_kept_def)
qed

text \<open>What is asked: the body from the buffer, and the headers, but for the token.\<close>

definition asks_same :: "kii \<Rightarrow> kii \<Rightarrow> bool" where
  "asks_same k k' \<longleftrightarrow>
     (\<not> kt_req_streamed k \<longrightarrow> buff_body k' = buff_body k) \<and> kt_reads_buff k' = kt_reads_buff k \<and>
     (kt_req_headers k' = kt_req_headers k \<or>
      kt_req_headers k' = replace_auth (AUTH_HEADER_PREFIX @ au_token (kt_author k')) (kt_req_headers k))"

lemma buff_body_kept:
  assumes "body_kept k k'" "kt_req_size k' = kt_req_size k" "kt_read k' = kt_read k"
  shows "buff_body k' = buff_body k"
proof -
  have "take (kt_req_size k) (buff k') = take (kt_req_size k) (buff k)"
    using assms(1) unfolding body_kept_def by (rule take_drop_agree [rotated]) simp
  with assms(2,3) show ?thesis
    by (simp add: buff_body_def)
qed

lemma renewed_asks_same:
  assumes "renewed False b k k'" "kt_read k = 0"
  shows "asks_same k k'"
proof -
  have "buff_body k' = buff_body k" if "\<not> kt_req_streamed k"
    using assms that by (intro buff_body_kept) (simp_all add: renewed_def body_kept_def, metis)
  with assms show ?thesis
    by (simp add: renewed_def asks_same_def)
qed

lemma resent:
  assumes t1: "kwf (st_kii t1)" "kt_read (st_kii t1) = 0" "kt_written (st_kii t1) = 0" "kt_resp_offset (st_kii t1) = 0"
    and p: "perform io t1 = Some (c1, t1')" and off: "kt_resp_offset (st_kii t1') > 0"
    and r: "renewed True True (st_kii t1') (st_kii t2)"
  shows "buff_body (st_kii t2) = buff_body (st_kii t1)"
    and "kt_reads_buff (st_kii t2) = kt_reads_buff (st_kii t1)"
    and "kt_req_headers (st_kii t2) =
      replace_auth (AUTH_HEADER_PREFIX @ au_token (kt_author (st_kii t2))) (kt_req_headers (st_kii t1))"
proof -
  note b = perform_beside [OF t1(1,3,4) p off]
  show "kt_reads_buff (st_kii t2) = kt_reads_buff (st_kii t1)"
    using r b(4) by (simp add: renewed_def)
  show "kt_req_headers (st_kii t2) =
      replace_auth (AUTH_HEADER_PREFIX @ au_token (kt_author (st_kii t2))) (kt_req_headers (st_kii t1))"
    using r b(3) by (simp add: renewed_def)
  have "body_kept (st_kii t1') (st_kii t2)" "kt_req_size (st_kii t2) = kt_req_size (st_kii t1')" "kt_read (st_kii t2) = 0"
    using r by (auto simp: renewed_def body_kept_def)
  then show "buff_body (st_kii t2) = buff_body (st_kii t1)"
    using b(1,2) t1(2) by (intro buff_body_kept) (simp_all add: body_kept_def)
qed

text \<open>What became of a request: the answer it got is passed on, or one more follows it.\<close>

definition passed_on :: "khc_code \<Rightarrow> 'w kst \<Rightarrow> khc_code \<Rightarrow> 'w kst \<Rightarrow> bool" where
  "passed_on c t answer s' \<longleftrightarrow> answer = c \<and> st_w s' = st_w t \<and> st_ss s' = st_ss t"

definition sent_again :: "'w kii_io \<Rightarrow> 'w kst \<Rightarrow> 'w kst \<Rightarrow> khc_code \<Rightarrow> 'w kst \<Rightarrow> bool" where
  "sent_again io t u answer s' \<longleftrightarrow>
     (\<exists>t2. perform io t2 = Some (answer, s') \<and> st_w t2 = st_w u \<and>
        buff_body (st_kii t2) = buff_body (st_kii t) \<and> kt_reads_buff (st_kii t2) = kt_reads_buff (st_kii t) \<and>
        kt_req_headers (st_kii t2) =
          replace_auth (AUTH_HEADER_PREFIX @ au_token (kt_author (st_kii t2))) (kt_req_headers (st_kii t)))"

lemma session_perform_sends:
  assumes wf: "kwf (st_kii s)" and start: "kt_read (st_kii s) = 0" "kt_written (st_kii s) = 0" "kt_resp_offset (st_kii s) = 0"
    and p: "session_perform io (kii_perform (Suc n) io) s = Some (answer, s')"
  shows "\<exists>t c t'. perform io t = Some (c, t') \<and> asks_same (st_kii s) (st_kii t) \<and>
    (passed_on c t' answer s' \<or>
     c = ERR_OK \<and> khc_get_status_code (kt_khc (st_kii t')) = 403 \<and>
     (\<exists>res resendable t1 u. renew_and_restore io (kii_perform (Suc n) io) True t1 = Some ((res, resendable), u) \<and>
        st_w t1 = st_w t' \<and> (passed_on c u answer s' \<or> res = KII_ERR_OK \<and> sent_again io t u answer s')))"
proof -
  obtain due s1 where d: "renewal_due io s = (due, s1)"
    by (cases "renewal_due io s")
  obtain b t1 c t2 where t: "(if due then renew_and_restore io (kii_perform (Suc n) io) False s1
        else Some ((KII_ERR_OK, False), s1)) = Some (b, t1)"
    "inside (st_kii s) (st_kii t1)" "st_kii t1 = st_kii s \<or> renewed False (snd b) (st_kii s) (st_kii t1)"
    "perform io (kmap (\<lambda>k. k\<lparr>kt_session_request := True\<rparr>) t1) = Some (c, t2)" "kept (st_kii t1) (st_kii t2)"
    using plain_sender.first_try [OF wf, of io n] unfolding d by auto
  let ?t = "kmap (\<lambda>k. k\<lparr>kt_session_request := True\<rparr>) t1"
  have "asks_same (st_kii s) (st_kii t1)"
    using t(3) renewed_asks_same start(1) by (auto simp: asks_same_def)
  then have asks: "asks_same (st_kii s) (st_kii ?t)"
    by (simp add: asks_same_def buff_body_def)
  have t_start: "kwf (st_kii ?t)" "kt_read (st_kii ?t) = 0" "kt_written (st_kii ?t) = 0" "kt_resp_offset (st_kii ?t) = 0"
    using t(3) start keptD [OF kept_updates(6) [OF insideD [OF t(2)]]] by (auto simp: renewed_def)
  let ?s4 = "kmap (\<lambda>k. k\<lparr>kt_session_request := False\<rparr>) t2"
  have wf4: "kwf (st_kii ?s4)"
    using keptD [OF kept_updates(6) [OF keptD [OF t(5)]]] by simp
  have w4: "st_w ?s4 = st_w t2" "st_ss ?s4 = st_ss t2" "kt_khc (st_kii ?s4) = kt_khc (st_kii t2)"
    by (simp_all add: kmap_def)
  show ?thesis
  proof (cases "c \<noteq> ERR_OK \<or> \<not> token_refused io (st_kii ?s4)")
    case True
    obtain k where k: "resp_to_start (st_kii ?s4) = Some k"
      using resp_to_start_kept [OF wf4] by (auto simp: holds_def)
    have "session_perform io (kii_perform (Suc n) io) s = Some (c, ?s4\<lparr>st_kii := k\<rparr>)"
      unfolding session_perform_def Let_def d prod.case t(1) bind.bind_lunit t(4)
      using True k by simp
    then have "passed_on c t2 answer s'"
      using p w4 by (auto simp: passed_on_def)
    then show ?thesis
      using t(4) asks by blast
  next
    case False
    then have refused: "c = ERR_OK" "khc_get_status_code (kt_khc (st_kii t2)) = 403"
      using w4(3) by (auto simp: token_refused_def)
    obtain res resendable s5 where r: "renew_and_restore io (kii_perform (Suc n) io) True ?s4 = Some ((res, resendable), s5)"
      "renewed True resendable (st_kii ?s4) (st_kii s5)"
      using plain_sender.renew_and_restore_spec [OF wf4, of io n True] by blast
    let ?s6 = "kmap (\<lambda>k. k\<lparr>kt_khc := khc_reset_except_request (kt_khc k)\<rparr>) s5"
    have eq: "session_perform io (kii_perform (Suc n) io) s =
        (if res \<noteq> KII_ERR_OK then Some (c, s5)
         else if \<not> resendable \<or> \<not> kt_resp_offset (st_kii ?s4) > 0
         then Some (c, kmap (\<lambda>k. k\<lparr>kt_session_refused := True\<rparr>) s5)
         else perform io ?s6)"
      unfolding session_perform_def Let_def d prod.case t(1) bind.bind_lunit t(4)
      using False r(1) by simp
    have "passed_on c s5 answer s' \<or> res = KII_ERR_OK \<and> sent_again io ?t s5 answer s'"
    proof (cases "res \<noteq> KII_ERR_OK \<or> \<not> resendable \<or> \<not> kt_resp_offset (st_kii ?s4) > 0")
      case True
      then have "passed_on c s5 answer s'"
        using p eq by (auto simp: passed_on_def kmap_def split: if_splits)
      then show ?thesis
        by blast
    next
      case False
      then have "perform io ?s6 = Some (answer, s')"
        using p eq by simp
      moreover have "renewed True True (st_kii t2) (st_kii ?s6 \<lparr>kt_khc := kt_khc (st_kii s5)\<rparr>)"
        using r(2) False by (simp add: renewed_def buff_def)
      moreover have "kt_resp_offset (st_kii t2) > 0"
        using False by simp
      ultimately show ?thesis
        using False resent [OF t_start t(4), of "?s6\<lparr>st_kii := st_kii ?s6 \<lparr>kt_khc := kt_khc (st_kii s5)\<rparr>\<rparr>"]
        unfolding sent_again_def by (intro disjI2 conjI exI [of _ ?s6]) (simp_all add: kmap_def buff_body_def buff_def)
    qed
    then show ?thesis
      using t(4) asks refused r(1) w4(1) by blast
  qed
qed

end
