(* ===== verification/Kii_Laws.thy ===== *)
theory Kii_Laws
  imports Kii_Api Kii_Call Khc_Runs
begin

text \<open>
  What the REST requests of kii do, each law on the whole call: where they write, what headers they
  have, what a renewal sends again, how long a refused password waits and when a token is due, and
  four things the documentation does not say.
\<close>

section \<open>Headers\<close>

lemma append_header_result:
  "\<exists>c s'. append_header io key val s = Some (c, s') \<and> st_ss s' = st_ss s \<and>
     (c = KII_ERR_OK \<longrightarrow>
        st_kii s' = (st_kii s)\<lparr>kt_req_headers := kt_req_headers (st_kii s) @ [key @ '': '' @ val]\<rparr>)"
  by (simp add: append_header_def Let_def kmap_def split: prod.split)

lemma append_header_OK:
  assumes "append_header io key val s = Some (KII_ERR_OK, s')"
  shows "st_kii s' = (st_kii s)\<lparr>kt_req_headers := kt_req_headers (st_kii s) @ [key @ '': '' @ val]\<rparr>" "st_ss s' = st_ss s"
  using append_header_result [of io key val s] assms by auto

lemma on_ok_OK: "on_ok r f = Some (KII_ERR_OK, s') \<longleftrightarrow> (\<exists>s. r = Some (KII_ERR_OK, s) \<and> f s = Some (KII_ERR_OK, s'))"
  by (auto simp: on_ok_def split: option.split)

lemma cstr_text: "NUL \<notin> set t \<Longrightarrow> cstr (t @ NUL # r) = t"
  unfolding cstr_def by (induction t) auto

lemma buff_printed:
  assumes "kwf k" "length line < kt_size k" "NUL \<notin> set line" "put_printf 0 line k = Some k'"
  shows "cstr (buff k') = line" "\<exists>m. k' = k\<lparr>kt_mem := m\<rparr>" "kwf k'"
proof -
  have room: "0 + length (line @ [NUL]) \<le> kt_size k"
    using assms(2) by simp
  note p = put_eq [OF kwf_kbuff [OF assms(1)] room]
  have "take (kt_size k - Suc 0) line = line"
    using assms(2) by simp
  then have k': "k' = k\<lparr>kt_mem := mem_write (kt_mem k) (kt_base k + 0) (line @ [NUL])\<rparr>"
    using assms(2,4) p(1) by (simp add: put_printf_def)
  show "\<exists>m. k' = k\<lparr>kt_mem := m\<rparr>"
    unfolding k' by blast
  show "kwf k'"
    unfolding k' using kept_of_kept0 [OF assms(1) p(2)] by (simp add: keptD)
  have "buff k' = mem_write (buff k) 0 (line @ [NUL])"
    unfolding k' by (rule buff_put [OF kwf_kbuff [OF assms(1)] room])
  then show "cstr (buff k') = line"
    using cstr_text [OF assms(3)] by (simp add: mem_write_def)
qed

lemma put_result: "put off t k = Some k' \<Longrightarrow> \<exists>m. k' = k\<lparr>kt_mem := m\<rparr>"
  by (auto simp: put_def split: if_splits)

lemma put_printf_result: "put_printf off t k = Some k' \<Longrightarrow> \<exists>m. k' = k\<lparr>kt_mem := m\<rparr>"
  by (cases "kt_size k = off") (auto simp: put_printf_def dest: put_result intro: exI [of _ "kt_mem k"])

lemma set_auth_bearer_token_rest:
  assumes r: "set_auth_bearer_token io t s = Some (KII_ERR_OK, s')"
  shows "kt_author (st_kii s') = kt_author (st_kii s) \<and> st_ss s' = st_ss s"
proof (cases "t = []")
  case False
  obtain k1 k2 s2 k3 where k: "put 0 [NUL] (st_kii s) = Some k1" "put_printf 0 (''Bearer '' @ t) k1 = Some k2"
    "append_header io ''Authorization'' (cstr (buff k2)) (s\<lparr>st_kii := k2\<rparr>) = Some (KII_ERR_OK, s2)"
    "zeroes 0 (length (''Bearer '' @ t)) (st_kii s2) = Some k3" "s' = s2\<lparr>st_kii := k3\<rparr>"
    using r False by (auto simp: set_auth_bearer_token_def bind_eq_Some_conv Let_def split: if_splits)
  obtain m1 m2 m3 where "k1 = (st_kii s)\<lparr>kt_mem := m1\<rparr>" "k2 = k1\<lparr>kt_mem := m2\<rparr>" "k3 = (st_kii s2)\<lparr>kt_mem := m3\<rparr>"
    using put_result [OF k(1)] put_printf_result [OF k(2)] put_result [OF k(4) [unfolded zeroes_def]] by blast
  then show ?thesis
    using append_header_OK [OF k(3)] k(5) by simp
qed (use r in \<open>simp add: set_auth_bearer_token_def\<close>)

lemma set_auth_bearer_token_OK:
  assumes wf: "kwf (st_kii s)" and nul: "NUL \<notin> set t" and r: "set_auth_bearer_token io t s = Some (KII_ERR_OK, s')"
  shows "kt_req_headers (st_kii s') =
      kt_req_headers (st_kii s) @ (if t = [] then [] else [''Authorization: Bearer '' @ t])"
proof (cases "t = []")
  case True
  with r show ?thesis
    by (auto simp: set_auth_bearer_token_def)
next
  case False
  let ?line = "''Bearer '' @ t"
  obtain k1 where k1: "put 0 [NUL] (st_kii s) = Some k1"
    using r False by (auto simp: set_auth_bearer_token_def Let_def bind_eq_Some_conv)
  have wf1: "kwf k1"
    using put_kept [OF wf, of 0 "[NUL]"] wf k1 by (auto simp: holds_def kwf_def kbuff_def dest: keptD)
  obtain k2 where k2: "put_printf 0 ?line k1 = Some k2"
    using r False k1 by (auto simp: set_auth_bearer_token_def Let_def bind_eq_Some_conv)
  have size: "kt_size k2 = kt_size k1"
    using put_printf_result [OF k2] by auto
  have fits: "length ?line < kt_size k1"
    using r False k1 k2 size
    by (auto simp: set_auth_bearer_token_def bind_eq_Some_conv Let_def split: if_splits)
  have line: "cstr (buff k2) = ?line"
    using buff_printed(1) [OF wf1 fits _ k2] nul by simp
  obtain s1 k3 where a: "append_header io ''Authorization'' ?line (s\<lparr>st_kii := k2\<rparr>) = Some (KII_ERR_OK, s1)"
    "zeroes 0 (length ?line) (st_kii s1) = Some k3" "s' = s1\<lparr>st_kii := k3\<rparr>"
    using r False k1 k2 size fits line
    by (auto simp: set_auth_bearer_token_def bind_eq_Some_conv Let_def split: if_splits)
  obtain m1 m2 m3 where "k1 = (st_kii s)\<lparr>kt_mem := m1\<rparr>" "k2 = k1\<lparr>kt_mem := m2\<rparr>" "k3 = (st_kii s1)\<lparr>kt_mem := m3\<rparr>"
    using put_result [OF k1] put_printf_result [OF k2] put_result [OF a(2) [unfolded zeroes_def]] by blast
  then show ?thesis
    using append_header_OK [OF a(1)] a(3) False by simp
qed

lemma free_if_failed_OK: "free_if_failed r = Some (KII_ERR_OK, s') \<longleftrightarrow> r = Some (KII_ERR_OK, s')"
  by (cases r) (auto simp: free_if_failed_def split: if_splits)

lemma free_if_failed_freed: "free_if_failed r = Some (c, s') \<Longrightarrow> c \<noteq> KII_ERR_OK \<Longrightarrow> kt_req_headers (st_kii s') = []"
  by (cases r) (auto simp: free_if_failed_def req_headers_free_all_def split: if_splits)

lemma set_auth_header_OK:
  assumes wf: "kwf (st_kii s)" and r: "set_auth_header io s = Some (KII_ERR_OK, s')"
    and nul: "NUL \<notin> set (au_token (kt_author (st_kii s')))"
  shows "kt_req_headers (st_kii s') = kt_req_headers (st_kii s) @
      (if au_token (kt_author (st_kii s')) = [] then [] else [''Authorization: Bearer '' @ au_token (kt_author (st_kii s'))])"
    and "kt_has_session (st_kii s) \<Longrightarrow> kt_author (st_kii s') = ss_author (st_ss s')"
proof -
  let ?s1 = "if kt_has_session (st_kii s) then session_sync io s else s"
  let ?t = "au_token (kt_author (st_kii ?s1))"
  have r': "set_auth_bearer_token io ?t ?s1 = Some (KII_ERR_OK, s')"
    using r by (simp add: set_auth_header_def Let_def)
  have wf1: "kwf (st_kii ?s1)"
    using wf insideD [OF sync_inside [OF wf]] by simp
  have author: "kt_author (st_kii s') = kt_author (st_kii ?s1)" "st_ss s' = st_ss ?s1"
    using set_auth_bearer_token_rest [OF r'] by simp_all
  note b = set_auth_bearer_token_OK [OF wf1 _ r']
  show "kt_req_headers (st_kii s') = kt_req_headers (st_kii s) @
      (if au_token (kt_author (st_kii s')) = [] then [] else [''Authorization: Bearer '' @ au_token (kt_author (st_kii s'))])"
    using b(1) nul author(1) by (simp add: session_sync_def sync_locked_def)
  show "kt_author (st_kii s') = ss_author (st_ss s')" if "kt_has_session (st_kii s)"
    using that author by (simp add: session_sync_def sync_locked_def kmap_def)
qed

lemma api_call_start_OK:
  assumes buff: "kbuff (st_kii s)" and r: "api_call_start io meth path content_type auth s = Some (KII_ERR_OK, s')"
    and nul: "NUL \<notin> set (au_token (kt_author (st_kii s')))"
  shows "kt_req_headers (st_kii s') =
      [''X-Kii-Appid: '' @ kt_app_id (st_kii s), ''X-Kii-Appkey: k''] @
      (case content_type of Some t \<Rightarrow> if t = [] then [] else [''Content-Type: '' @ t] | None \<Rightarrow> []) @
      (if auth \<and> au_token (kt_author (st_kii s')) \<noteq> []
       then [''Authorization: Bearer '' @ au_token (kt_author (st_kii s'))] else [])"
    and "auth \<Longrightarrow> kt_has_session (st_kii s) \<Longrightarrow> kt_author (st_kii s') = ss_author (st_ss s')"
proof -
  obtain k1 where k1: "reset_buff (st_kii s) = Some k1" "kept0 (st_kii s) k1" "kwf k1"
    using reset_buff_kept0 [OF buff] by (auto simp: holds_def)
  have same1: "kt_app_id k1 = kt_app_id (st_kii s)" "kt_has_session k1 = kt_has_session (st_kii s)"
    using k1(1) by (auto simp: reset_buff_def bind_eq_Some_conv dest!: put_result)
  let ?k2 = "set_host (kt_app_host k1) (body_from_buff (reset_khc (req_headers_free_all k1)))"
  obtain c3 k3 where m: "set_method meth ?k2 = (c3, k3)"
    by (cases "set_method meth ?k2")
  obtain c4 k4 where p: "set_path path k3 = (c4, k4)"
    by (cases "set_path path k3")
  have "\<exists>h. k4 = (body_from_buff (req_headers_free_all k1))\<lparr>kt_khc := h\<rparr>"
    using m p by (auto simp: set_method_def set_path_def set_host_def reset_khc_def req_headers_free_all_def body_from_buff_def
        split: prod.splits)
  then obtain h where k4: "k4 = (body_from_buff (req_headers_free_all k1))\<lparr>kt_khc := h\<rparr>" ..
  have wf4: "kwf k4"
    using k1(3) by (simp add: k4 kwf_def kbuff_def body_from_buff_def req_headers_free_all_def)
  obtain s1 s2 s3 where c: "append_header io ''X-Kii-Appid'' (kt_app_id k4) (s\<lparr>st_kii := k4\<rparr>) = Some (KII_ERR_OK, s1)"
    "append_header io ''X-Kii-Appkey'' ''k'' s1 = Some (KII_ERR_OK, s2)"
    "(case content_type of
        Some t \<Rightarrow> (if length t > 0 then set_content_type io t s2 else Some (KII_ERR_OK, s2))
      | None \<Rightarrow> Some (KII_ERR_OK, s2)) = Some (KII_ERR_OK, s3)"
    "(if auth then set_auth_header io s3 else Some (KII_ERR_OK, s3)) = Some (KII_ERR_OK, s')"
    using r by (auto simp: api_call_start_def k1(1) m p Let_def free_if_failed_OK on_ok_OK set_app_id_header_def
        set_app_key_header_def split: if_splits)
  have s2: "st_kii s2 = k4\<lparr>kt_req_headers := [''X-Kii-Appid: '' @ kt_app_id (st_kii s), ''X-Kii-Appkey: k'']\<rparr>"
    using append_header_OK(1) [OF c(1)] append_header_OK(1) [OF c(2)] same1(1)
    by (simp add: k4 body_from_buff_def req_headers_free_all_def)
  have s3: "st_kii s3 = k4\<lparr>kt_req_headers := [''X-Kii-Appid: '' @ kt_app_id (st_kii s), ''X-Kii-Appkey: k''] @
      (case content_type of Some t \<Rightarrow> if t = [] then [] else [''Content-Type: '' @ t] | None \<Rightarrow> [])\<rparr>"
    using c(3) s2 append_header_OK(1) [of io "''Content-Type''" _ s2 s3]
    by (auto simp: set_content_type_def split: option.splits if_splits)
  have wf3: "kwf (st_kii s3)"
    using wf4 by (simp add: s3 kwf_def kbuff_def)
  show "kt_req_headers (st_kii s') =
      [''X-Kii-Appid: '' @ kt_app_id (st_kii s), ''X-Kii-Appkey: k''] @
      (case content_type of Some t \<Rightarrow> if t = [] then [] else [''Content-Type: '' @ t] | None \<Rightarrow> []) @
      (if auth \<and> au_token (kt_author (st_kii s')) \<noteq> []
       then [''Authorization: Bearer '' @ au_token (kt_author (st_kii s'))] else [])"
    using c(4) set_auth_header_OK(1) [OF wf3 _ nul] s3 by (cases auth) auto
  show "kt_author (st_kii s') = ss_author (st_ss s')" if "auth" "kt_has_session (st_kii s)"
    using that c(4) set_auth_header_OK(2) [OF wf3 _ nul] s3 same1(2)
    by (simp add: k4 body_from_buff_def req_headers_free_all_def)
qed

lemma api_call_start_failed:
  assumes "api_call_start io meth path content_type auth s = Some (c, s')" "c \<noteq> KII_ERR_OK"
  shows "kt_req_headers (st_kii s') = []"
proof -
  obtain k1 where k1: "reset_buff (st_kii s) = Some k1"
    using assms(1) by (auto simp: api_call_start_def bind_eq_Some_conv)
  let ?k2 = "set_host (kt_app_host k1) (body_from_buff (reset_khc (req_headers_free_all k1)))"
  obtain c3 k3 where m: "set_method meth ?k2 = (c3, k3)"
    by (cases "set_method meth ?k2")
  obtain c4 k4 where p: "set_path path k3 = (c4, k4)"
    by (cases "set_path path k3")
  have k2: "kt_req_headers k3 = []" "kt_req_headers k4 = []"
    using m p by (auto simp: set_method_def set_path_def set_host_def reset_khc_def req_headers_free_all_def body_from_buff_def
        split: prod.splits)
  show ?thesis
    using assms k2 by (auto simp: api_call_start_def k1 m p Let_def dest: free_if_failed_freed split: if_splits)
qed

section \<open>Times\<close>

lemma elapsed_word: "unat ((t + of_nat d) - t :: u64) = d mod 2 ^ 64"
  by (simp add: unat_of_nat)

lemma renew_after_value:
  assumes "0 < e" "e \<le> 2 ^ 32 - 1"
  shows "\<exists>t. renew_after_ms e = Some t \<and> unat t = nat e * 1000 - min (nat e * 200) 300000"
proof -
  define n where "n = nat e"
  define v where "v = (of_int e :: u64)"
  have n: "n < 2 ^ 32"
    using assms by (simp add: n_def)
  have v: "v = of_nat n"
    using assms(1) by (simp add: n_def v_def)
  have life: "unat (v * 1000) = n * 1000"
    using n unfolding v by (simp add: unat_word_ariths unat_of_nat mod_mult_left_eq)
  have margin: "unat (v * 1000 div 5) = n * 200"
    using life by (simp add: unat_div)
  have max: "unat RENEW_MARGIN_MAX_MS = 300000"
    by (simp add: RENEW_MARGIN_MAX_MS_def)
  define m where "m = (if v * 1000 div 5 > RENEW_MARGIN_MAX_MS then RENEW_MARGIN_MAX_MS else v * 1000 div 5)"
  have m: "unat m = min (n * 200) 300000"
    using margin max by (simp add: m_def word_less_nat_alt min_def)
  have "m \<le> v * 1000"
    using m life by (simp add: word_le_nat_alt)
  then have "unat (v * 1000 - m) = n * 1000 - min (n * 200) 300000"
    using m life by (simp add: unat_sub)
  moreover have "renew_after_ms e = Some (v * 1000 - m)"
    using assms unfolding renew_after_ms_def Let_def v_def [symmetric] m_def by (simp add: LIFETIME_MAX_SEC_def)
  ultimately show ?thesis
    by (simp add: n_def)
qed

lemma store_locked_times:
  assumes "0 < e" "e \<le> 2 ^ 32 - 1" "ki_now io (st_w s) = (t, w)"
  shows "ss_renew_at_known (st_ss (store_locked io au e s))" "ss_stored_at_ms (st_ss (store_locked io au e s)) = t"
    "unat (ss_renew_after_ms (st_ss (store_locked io au e s))) = nat e * 1000 - min (nat e * 200) 300000"
  using renew_after_value [OF assms(1,2)] assms(3)
  by (auto simp: store_locked_def now_ms_def Let_def)

lemma due_after_store:
  assumes "0 < e" "e \<le> 2 ^ 32 - 1" "ki_now io (st_w s) = (t, w)"
    and "st_ss s' = st_ss (store_locked io au e s)" "ki_now io (st_w s') = (t + of_nat d, w')" "d < 2 ^ 64"
  shows "fst (due_locked io s') \<longleftrightarrow> nat e * 1000 - min (nat e * 200) 300000 \<le> d"
  using store_locked_times [OF assms(1-3), of au] assms(4-6)
  by (simp add: due_locked_def now_ms_def word_le_nat_alt unat_of_nat)

lemma next_password_wait_value:
  assumes "unat w \<le> 3600000"
  shows "unat (next_password_wait w) = max 300000 (min (2 * unat w) 3600000)"
proof -
  have "unat (w * 2) = 2 * unat w"
    using assms by (simp add: unat_word_ariths)
  then show ?thesis
    by (auto simp: next_password_wait_def Let_def PASSWORD_WAIT_MIN_MS_def PASSWORD_WAIT_MAX_MS_def word_less_nat_alt)
qed

lemma password_waits: "unat ((next_password_wait ^^ Suc n) 0) = min (300000 * 2 ^ n) 3600000"
proof (induction n)
  case 0
  then show ?case
    using next_password_wait_value [of 0] by simp
next
  case (Suc n)
  let ?w = "(next_password_wait ^^ Suc n) 0"
  have "unat (next_password_wait ?w) = max 300000 (min (2 * unat ?w) 3600000)"
    using Suc by (intro next_password_wait_value) simp
  also have "\<dots> = min (300000 * 2 ^ Suc n) 3600000"
    unfolding Suc by (simp add: min_def max_def)
  finally show ?case
    by simp
qed

lemma refused_then:
  assumes "res \<noteq> KII_ERR_OK" "ki_now io (st_w s) = (t, w)" "unat (ss_password_wait_ms (st_ss s)) \<le> 3600000"
    and "ss_password (st_ss s) = Some p"
    and "st_ss s' = st_ss (password_tried_locked io res True s)" "ki_now io (st_w s') = (t + of_nat d, w')" "d < 2 ^ 64"
  shows "password_usable_locked io s' = (unat (next_password_wait (ss_password_wait_ms (st_ss s))) \<le> d, s'\<lparr>st_w := w'\<rparr>)"
proof -
  have "unat (next_password_wait (ss_password_wait_ms (st_ss s))) \<noteq> 0"
    using next_password_wait_value [OF assms(3)] by simp
  then have "next_password_wait (ss_password_wait_ms (st_ss s)) \<noteq> 0"
    by (metis unat_0)
  then show ?thesis
    using assms by (simp add: password_usable_locked_def password_tried_locked_def now_ms_def Let_def
        word_le_nat_alt unat_of_nat)
qed

section \<open>A download, and an ETag\<close>

lemma give_pieces_app:
  assumes "\<not> kt_writes_buff (st_kii s)" "give_pieces io ps s = Some (b, s')"
  shows "st_kii s' = st_kii s"
  using assms
proof (induction ps arbitrary: s)
  case (Cons p ps)
  obtain n w where n: "ki_app_write io p (st_w s) = (n, w)"
    by (cases "ki_app_write io p (st_w s)")
  show ?case
    using Cons.prems n Cons.IH [of "s\<lparr>st_w := w\<rparr>"] by (cases "n < length p") auto
qed simp

lemma perform_app:
  assumes "\<not> kt_writes_buff (st_kii s)" "perform io s = Some (c, s')"
  shows "kt_written (st_kii s') = kt_written (st_kii s)" "kt_resp_offset (st_kii s') = kt_resp_offset (st_kii s)"
proof -
  obtain ex w where x: "ki_exchange io (kt_khc (st_kii s))
      (if kt_reads_buff (st_kii s) then Some (buff_body (st_kii s)) else None) (st_w s) = (ex, w)"
    by (cases "ki_exchange io (kt_khc (st_kii s))
      (if kt_reads_buff (st_kii s) then Some (buff_body (st_kii s)) else None) (st_w s)")
  obtain k1 all_taken where g: "give_headers (ex_headers ex) ((st_kii s)\<lparr>kt_khc := ex_khc ex,
      kt_read := kt_read (st_kii s) +
        (if kt_reads_buff (st_kii s) then min (ex_read ex) (length (buff_body (st_kii s))) else 0)\<rparr>) = Some k1"
      "give_pieces io (ex_pieces ex) (s\<lparr>st_kii := k1, st_w := w\<rparr>) = Some (all_taken, s')"
    using assms(2) by (auto simp: perform_def x Let_def bind_eq_Some_conv)
  obtain e where "k1 = (st_kii s)\<lparr>kt_khc := ex_khc ex,
      kt_read := kt_read (st_kii s) +
        (if kt_reads_buff (st_kii s) then min (ex_read ex) (length (buff_body (st_kii s))) else 0), kt_etag := e\<rparr>"
    using give_headers_result [OF g(1)] by auto
  then show "kt_written (st_kii s') = kt_written (st_kii s)" "kt_resp_offset (st_kii s') = kt_resp_offset (st_kii s)"
    using give_pieces_app [OF _ g(2)] assms(1) by simp_all
qed

lemma etag_value:
  assumes "length b = 64" "j \<le> 63" "\<forall>c \<in> set v. c \<noteq> SPC \<and> c \<noteq> HTAB \<and> c \<noteq> CR" "NUL \<notin> set v"
    "NUL \<notin> set (take j b)" "b ! 63 = NUL"
  shows "\<exists>n b'. etag_loop 3 i j v b = Some (n, b') \<and> cstr b' = take j b @ take (63 - j) v"
  using assms
proof (induction v arbitrary: i j b)
  case Nil
  then show ?case
    by (simp add: put_etag_def upd_conv_take_nth_drop cstr_text)
next
  case (Cons c v)
  show ?case
  proof (cases "j < 63")
    case True
    let ?b = "b[j := c]"
    have t: "take (Suc j) ?b = take j b @ [c]"
      using Cons.prems True by (simp add: take_Suc_conv_app_nth)
    obtain n b' where "etag_loop 3 (i + 1) (j + 1) v ?b = Some (n, b')" "cstr b' = take (j + 1) ?b @ take (63 - (j + 1)) v"
      using Cons.IH [of ?b "j + 1" "i + 1"] Cons.prems True t by auto
    moreover have "take (63 - j) (c # v) = c # take (63 - (j + 1)) v"
      using True by (simp add: take_Cons')
    ultimately show ?thesis
      using Cons.prems True t by (simp add: put_etag_def ETAG_MAX_SIZE_def)
  next
    case False
    then have j: "j = 63"
      using Cons.prems by simp
    have "b = take 63 b @ [NUL]"
      using Cons.prems take_Suc_conv_app_nth [of 63 b] by simp
    then have "cstr b = take 63 b"
      using cstr_text [of "take 63 b" "[]"] Cons.prems j by simp
    with j show ?thesis
      using Cons.prems by (simp add: ETAG_MAX_SIZE_def)
  qed
qed

section \<open>Every request writes in its buffer\<close>

named_theorems kii_inside

lemma ok_inside [kii_inside]:
  assumes "runs (inside k) r" "\<And>s. kwf (st_kii s) \<Longrightarrow> runs (inside (st_kii s)) (f s)"
  shows "runs (inside k) (on_ok r f)"
  by (rule runs_inside_then [OF assms(1)]) (rule runs_inside_from, assumption, rule assms(2), erule insideD)

lemmas [kii_inside] = append_header_inside set_auth_header_inside set_auth_bearer_token_inside free_if_failed_inside

lemma put_inside: "kwf k \<Longrightarrow> off + length t \<le> kt_size k \<Longrightarrow> holds (inside k) (put off t k)"
  by (rule holds_mono [OF put_kept]) (auto intro: inside_kept)

lemma start_at_inside [kii_inside]: "kwf (st_kii s) \<Longrightarrow> runs (inside (st_kii s)) (start_at meth path s)"
  by (rule runs_mono [OF start_at_kept]) (auto intro: inside_kept)

lemma printf_path_inside: "kwf (st_kii s) \<Longrightarrow> runs (inside (st_kii s)) (printf_path path s)"
proof -
  assume wf: "kwf (st_kii s)"
  have "holds (kept (st_kii s)) (put_printf 0 path (st_kii s))"
    by (rule put_printf_kept [OF wf]) simp
  then obtain k where k: "put_printf 0 path (st_kii s) = Some k" "kept (st_kii s) k"
    by (auto simp: holds_def)
  obtain c k2 where p: "set_path (cstr (buff k)) k = (c, k2)"
    by (cases "set_path (cstr (buff k)) k")
  have "kept k k2"
    using p kept_updates(4) [OF keptD [OF k(2)]] by (auto simp: set_path_def split: prod.splits)
  with k p show ?thesis
    by (auto simp: printf_path_def intro: inside_kept kept_trans)
qed

lemma begin_request_inside: "kwf (st_kii s) \<Longrightarrow> inside (st_kii s) (st_kii (begin_request meth s))"
  using kept_updates(4) by (simp add: begin_request_def set_method_def set_host_def inside_kept split: prod.split)

lemma path_inside [kii_inside]:
  assumes "kwf (st_kii s)"
  shows "runs (inside (st_kii s)) (set_bucket_path b objects object_id body (begin_request meth s))"
    and "runs (inside (st_kii s)) (set_bucket_subscription_path b (begin_request meth s))"
    and "runs (inside (st_kii s)) (set_topic_path t (begin_request meth s))"
    and "runs (inside (st_kii s)) (set_topic_subscription_path t (begin_request meth s))"
    and "runs (inside (st_kii s)) (set_topic_push_message_path t (begin_request meth s))"
    and "runs (inside (st_kii s)) (set_thing_push_message_path thing_id (begin_request meth s))"
    and "runs (inside (st_kii s)) (printf_path path (begin_request meth s))"
  unfolding set_bucket_path_def set_bucket_subscription_path_def set_topic_path_def set_topic_subscription_path_def
    set_topic_push_message_path_def set_thing_push_message_path_def
  by (rule runs_inside_from [OF begin_request_inside [OF assms] printf_path_inside [OF insideD [OF begin_request_inside [OF assms]]]])+

lemma small_inside [kii_inside]:
  assumes "kwf (st_kii s)"
  shows "runs (inside (st_kii s)) (Some (c, s))"
    and "runs (inside (st_kii s)) (status_2xx s)"
    and "runs (inside (st_kii s)) (status_204_409 s)"
    and "runs (inside (st_kii s)) (set_if_match io etag s)"
    and "runs (inside (st_kii s)) (set_object_content_type io t s)"
    and "runs (inside (st_kii s)) (set_object_body_content_type io t s)"
    and "runs (inside (st_kii s)) (set_content_type io ct s)"
    and "runs (inside (st_kii s)) (set_content_encoding io ct s)"
    and "runs (inside (st_kii s)) (set_app_id_header io s)"
    and "runs (inside (st_kii s)) (set_app_key_header io s)"
  using inside_refl [OF assms] append_header_inside [OF assms]
  by (simp_all add: status_2xx_def status_204_409_def set_if_match_def set_object_content_type_def Let_def
      set_object_body_content_type_def append_header_or_default_def set_content_type_def set_content_encoding_def
      set_app_id_header_def set_app_key_header_def split: option.split)

lemma thing_headers_inside [kii_inside]: "kwf (st_kii s) \<Longrightarrow> runs (inside (st_kii s)) (thing_headers io s)"
  unfolding thing_headers_def by (intro kii_inside)

lemma append_body_inside: "kwf (st_kii s) \<Longrightarrow> runs (inside (st_kii s)) (append_body chunk s)"
proof -
  assume wf: "kwf (st_kii s)"
  let ?k = "st_kii s" and ?total = "kt_req_size (st_kii s) + length chunk"
  have free: "inside ?k (req_headers_free_all ?k)"
    by (rule inside_kept [OF req_headers_free_all_kept [OF wf]])
  show ?thesis
  proof (cases "kt_req_streamed ?k \<or> ?total + 1 > kt_size ?k")
    case True
    then show ?thesis
      using free by (auto simp: append_body_def Let_def)
  next
    case False
    obtain k1 where k1: "put (kt_req_size ?k) chunk ?k = Some k1" "kept ?k k1"
      using put_kept [OF wf, of "kt_req_size ?k" chunk] False by (auto simp: holds_def)
    let ?k1 = "k1\<lparr>kt_req_size := ?total\<rparr>"
    have wf1: "kept ?k ?k1"
      using k1(2) False by (simp add: kept_simps)
    obtain k2 where k2: "put ?total [NUL] ?k1 = Some k2" "kept ?k1 k2"
      using put_kept [OF keptD [OF wf1], of ?total "[NUL]"] False kept_size [OF k1(2)] by (auto simp: holds_def)
    then show ?thesis
      using False k1 inside_kept [OF kept_trans [OF wf1 k2(2)]] by (simp add: append_body_def Let_def)
  qed
qed

lemma set_req_body_inside [kii_inside]: "kwf (st_kii s) \<Longrightarrow> runs (inside (st_kii s)) (set_req_body body s)"
proof -
  assume wf: "kwf (st_kii s)"
  obtain k where "reset_buff (st_kii s) = Some k" "kept (st_kii s) k"
    using reset_buff_kept [OF wf] by (auto simp: holds_def)
  then have "runs (inside (st_kii s)) (set_no_body s)"
    by (simp add: set_no_body_def inside_kept)
  with append_body_inside [OF wf] show ?thesis
    by (simp add: set_req_body_def split: option.split)
qed

lemma req_send_inside [kii_inside]:
  "kwf (st_kii s) \<Longrightarrow> runs (inside (st_kii s)) (req_send io (kii_perform (Suc (Suc n)) io) s)"
  by (simp add: any_sender.req_send_R)

lemma prepared_inside [kii_inside]:
  assumes "kwf (st_kii s)" "runs (inside (st_kii s)) (f s)"
  shows "runs (inside (st_kii s)) (prepared io (kii_perform (Suc (Suc n)) io) f s)"
  unfolding prepared_def using assms by (intro kii_inside)

lemma with_body_inside [kii_inside]:
  "runs (inside (st_kii s)) (f s) \<Longrightarrow> runs (inside (st_kii s)) (with_body f body s)"
  unfolding with_body_def by (intro kii_inside)

lemma fresh_inside [kii_inside]:
  assumes "kbuff (st_kii s)" "\<And>s. kwf (st_kii s) \<Longrightarrow> runs (inside (st_kii s)) (f s)"
  shows "runs (inside (st_kii s)) (fresh f s)"
proof -
  obtain s' where s': "fresh_request s = Some s'" "kept0 (st_kii s) (st_kii s')" "kwf (st_kii s')"
    using fresh_request_kept0 [OF assms(1)] by blast
  with runs_inside_from [OF inside0 [OF s'(2,3)] assms(2) [OF s'(3)]] show ?thesis
    by (simp add: fresh_def)
qed

lemma print_body_inside [kii_inside]: "kwf (st_kii s) \<Longrightarrow> runs (inside (st_kii s)) (print_body body s)"
proof -
  assume wf: "kwf (st_kii s)"
  have "holds (kept (st_kii s)) (put_printf 0 body (st_kii s))"
    by (rule put_printf_kept [OF wf]) simp
  then obtain k where "put_printf 0 body (st_kii s) = Some k" "kept (st_kii s) k"
    by (auto simp: holds_def)
  then show ?thesis
    by (auto simp: print_body_def inside_def kept_simps)
qed

lemma escaped_body_inside [kii_inside]: "kwf (st_kii s) \<Longrightarrow> runs (inside (st_kii s)) (escaped_body before val after s)"
proof -
  assume wf: "kwf (st_kii s)"
  obtain a k where "body_append (Some 0) before val after (st_kii s) = Some (a, k)" "kept (st_kii s) k"
    "\<forall>n. a = Some n \<longrightarrow> n < kt_size k"
    using body_append_fits [OF wf, of "Some 0" before val after] wf by (auto simp: fits_def kwf_def kbuff_def)
  then show ?thesis
    by (cases a) (auto simp: escaped_body_def inside_def kept_simps)
qed

lemma restoring_inside [kii_inside]:
  "runs (inside k) r \<Longrightarrow> runs (inside k) (restoring (\<lambda>k. k\<lparr>kt_req_streamed := f, kt_reads_buff := b\<rparr>) r)"
  "runs (inside k) r \<Longrightarrow> runs (inside k) (restoring (\<lambda>k. k\<lparr>kt_req_streamed := f, kt_writes_buff := b\<rparr>) r)"
  by (auto simp: runs_def restoring_def inside_def kwf_def kbuff_def same_outside_def)

lemma answer_inside [kii_inside]:
  assumes "runs (inside k) r" "\<And>s. runs (inside (st_kii s)) (f s) \<or> \<not> kwf (st_kii s)"
  shows "runs (inside k) (answer_of r none f)"
proof -
  obtain c s where r: "r = Some (c, s)" "inside k (st_kii s)"
    using assms(1) by (auto simp: runs_def)
  have "runs (inside k) (f s)"
    by (rule runs_inside_from [OF r(2)]) (use assms(2) [of s] insideD [OF r(2)] in blast)
  with r show ?thesis
    by (simp add: answer_of_def)
qed

lemma read_inside [kii_inside]:
  "runs (inside (st_kii s)) (read_string io field n s) \<or> \<not> kwf (st_kii s)"
  "runs (inside (st_kii s)) (read_endpoint io s) \<or> \<not> kwf (st_kii s)"
  using inside_refl [of "st_kii s"] by (auto simp: read_string_def read_endpoint_def Let_def split: prod.split)

lemma streaming_inside:
  "kwf (st_kii s) \<Longrightarrow> inside (st_kii s) (st_kii (kmap (\<lambda>k. k\<lparr>kt_reads_buff := f, kt_req_streamed := b\<rparr>) s))"
  "kwf (st_kii s) \<Longrightarrow> inside (st_kii s) (st_kii (kmap (\<lambda>k. k\<lparr>kt_writes_buff := f, kt_req_streamed := b\<rparr>) s))"
  by (simp_all add: inside_def kept_simps)

lemma upload_body_inside: "kwf (st_kii s) \<Longrightarrow> runs (inside (st_kii s)) (upload_body io (kii_perform (Suc (Suc n)) io) b i t s)"
  unfolding upload_body_def by (assumption | rule kii_inside)+

lemma download_body_inside: "kwf (st_kii s) \<Longrightarrow> runs (inside (st_kii s)) (download_body io (kii_perform (Suc (Suc n)) io) b i s)"
  unfolding download_body_def by (assumption | rule kii_inside)+

lemma streaming_requests_inside [kii_inside]:
  assumes "kwf (st_kii s)"
  shows "runs (inside (st_kii s)) (upload_body io (kii_perform (Suc (Suc n)) io) b i t
           (kmap (\<lambda>k. k\<lparr>kt_reads_buff := f, kt_req_streamed := g\<rparr>) s))"
    and "runs (inside (st_kii s)) (download_body io (kii_perform (Suc (Suc n)) io) b i
           (kmap (\<lambda>k. k\<lparr>kt_writes_buff := f, kt_req_streamed := g\<rparr>) s))"
    and "runs (inside (st_kii s)) (req_send io (kii_perform (Suc (Suc n)) io)
           (kmap (\<lambda>k. k\<lparr>kt_reads_buff := f, kt_req_streamed := g\<rparr>) s))"
  by (rule runs_inside_from [OF streaming_inside(1) [OF assms] upload_body_inside [OF insideD [OF streaming_inside(1) [OF assms]]]],
      rule runs_inside_from [OF streaming_inside(2) [OF assms] download_body_inside [OF insideD [OF streaming_inside(2) [OF assms]]]],
      rule runs_inside_from [OF streaming_inside(1) [OF assms] req_send_inside [OF insideD [OF streaming_inside(1) [OF assms]]]])

lemma objects_inside:
  assumes "kbuff (st_kii s)"
  shows "runs (inside (st_kii s)) (kii_post_object (Suc (Suc n)) io b data t s)"
    and "runs (inside (st_kii s)) (kii_put_object (Suc (Suc n)) io b i data t e s)"
    and "runs (inside (st_kii s)) (kii_patch_object (Suc (Suc n)) io b i data e s)"
    and "runs (inside (st_kii s)) (kii_delete_object (Suc (Suc n)) io b i s)"
    and "runs (inside (st_kii s)) (kii_get_object (Suc (Suc n)) io b i s)"
    and "runs (inside (st_kii s)) (kii_upload_object_body (Suc (Suc n)) io b i t s)"
    and "runs (inside (st_kii s)) (kii_download_object_body (Suc (Suc n)) io b i s)"
  unfolding kii_post_object_def kii_put_object_def kii_patch_object_def kii_delete_object_def kii_get_object_def
    kii_upload_object_body_def kii_download_object_body_def post_object_def put_object_def patch_object_def
    delete_object_def get_object_def
  by (rule assms | assumption | rule kii_inside)+

lemma push_inside:
  assumes "kbuff (st_kii s)"
  shows "runs (inside (st_kii s)) (kii_subscribe_bucket (Suc (Suc n)) io b s)"
    and "runs (inside (st_kii s)) (kii_unsubscribe_bucket (Suc (Suc n)) io b s)"
    and "runs (inside (st_kii s)) (kii_subscribe_topic (Suc (Suc n)) io tp s)"
    and "runs (inside (st_kii s)) (kii_unsubscribe_topic (Suc (Suc n)) io tp s)"
    and "runs (inside (st_kii s)) (kii_put_topic (Suc (Suc n)) io tp s)"
    and "runs (inside (st_kii s)) (kii_delete_topic (Suc (Suc n)) io tp s)"
    and "runs (inside (st_kii s)) (kii_send_push_message (Suc (Suc n)) io tp message s)"
    and "runs (inside (st_kii s)) (kii_send_push_message_to_thing (Suc (Suc n)) io i message s)"
    and "runs (inside (st_kii s)) (kii_install_push (Suc (Suc n)) io development s)"
  unfolding kii_subscribe_bucket_def kii_unsubscribe_bucket_def kii_subscribe_topic_def kii_unsubscribe_topic_def
    kii_put_topic_def kii_delete_topic_def kii_send_push_message_def kii_send_push_message_to_thing_def
    kii_install_push_def subscribe_bucket_def unsubscribe_bucket_def subscribe_topic_def unsubscribe_topic_def
    put_topic_def delete_topic_def subscription_def send_push_message_def send_push_message_to_thing_def post_push_message_def install_push_def
  by (rule assms | assumption | rule kii_inside)+

lemma chosen_auth_inside [kii_inside]:
  "kwf (st_kii s) \<Longrightarrow> runs (inside (st_kii s)) (if as_thing then set_auth_header io s
     else (case t of None \<Rightarrow> Some (KII_ERR_OK, s) | Some t \<Rightarrow> set_auth_bearer_token io t s))"
  by (simp add: set_auth_header_inside set_auth_bearer_token_inside inside_refl split: option.split)

lemma server_code_inside:
  assumes "kbuff (st_kii s)"
  shows "runs (inside (st_kii s)) (kii_execute_server_code_version (Suc (Suc n)) io v e p s)"
    and "runs (inside (st_kii s)) (kii_execute_server_code_with_token (Suc (Suc n)) io vo e p t s)"
  unfolding kii_execute_server_code_version_def kii_execute_server_code_with_token_def run_server_code_def
    execute_server_code_def
  by (assumption | rule kii_inside assms)+

lemma firmware_inside:
  assumes "kbuff (st_kii s)"
  shows "runs (inside (st_kii s)) (kii_ti_put_firmware_version (Suc (Suc n)) io v s)"
    and "runs (inside (st_kii s)) (kii_ti_get_firmware_version (Suc (Suc n)) io s)"
  unfolding kii_ti_put_firmware_version_def kii_ti_get_firmware_version_def put_firmware_version_def get_firmware_version_def
  by (assumption | rule kii_inside assms)+

lemma start_on_inside [kii_inside]: "kwf (st_kii s) \<Longrightarrow> runs (inside (st_kii s)) (start_on host meth path s)"
  by (rule runs_mono [OF start_on_kept]) (auto intro: inside_kept)

lemma encoding_inside [kii_inside]:
  "kwf (st_kii s) \<Longrightarrow> runs (inside (st_kii s)) (case enc of None \<Rightarrow> Some (KII_ERR_OK, s) | Some e \<Rightarrow> set_content_encoding io e s)"
  by (simp add: set_content_encoding_def append_header_inside inside_refl split: option.split)

lemma state_inside:
  assumes "kbuff (st_kii s)"
  shows "runs (inside (st_kii s)) (kii_ti_put_state (Suc (Suc n)) io ct ce h s)"
    and "runs (inside (st_kii s)) (kii_ti_put_bulk_states (Suc (Suc n)) io ct ce h s)"
    and "runs (inside (st_kii s)) (kii_ti_patch_state (Suc (Suc n)) io ct ce h s)"
    and "runs (inside (st_kii s)) (kii_ti_patch_bulk_states (Suc (Suc n)) io ct ce h s)"
  unfolding kii_ti_put_state_def kii_ti_put_bulk_states_def kii_ti_patch_state_def kii_ti_patch_bulk_states_def
    upload_state_def
  by (assumption | rule kii_inside assms)+

lemma session_publish_inside: "kwf (st_kii s) \<Longrightarrow> inside (st_kii s) (st_kii (session_publish io e m s))"
  by (simp add: session_publish_def sync_locked_def Let_def kept_updates(9) inside_kept)

lemma login_inside:
  assumes "kbuff (st_kii s)"
  shows "runs (inside (st_kii s)) (kii_auth_thing (Suc (Suc n)) io v p s)"
    and "runs (inside (st_kii s)) (kii_register_thing (Suc (Suc n)) io v t p s)"
    and "runs (inside (st_kii s)) (kii_ti_onboard (Suc (Suc n)) io v p tt fw lp tp s)"
proof -
  obtain s1 where s1: "fresh_request s = Some s1" "kept0 (st_kii s) (st_kii s1)" "kwf (st_kii s1)"
    using fresh_request_kept0 [OF assms] by blast
  note in1 = inside0 [OF s1(2,3)]
  have au: "inside (st_kii s) ((st_kii s)\<lparr>kt_author := au\<rparr>)" if "kwf (st_kii s)" for au and s :: "'a kst"
    using kept_updates(8) [OF that] by (simp add: inside_kept)
  have publish: "inside (st_kii s) (st_kii (session_publish io e m (kmap (\<lambda>k. k\<lparr>kt_author := au\<rparr>) s)))"
    if "kwf (st_kii s)" for au e m and s :: "'a kst"
    using inside_trans [OF au [OF that] ] session_publish_inside [of "kmap (\<lambda>k. k\<lparr>kt_author := au\<rparr>) s" io e m]
      insideD [OF au [OF that]] by simp
  show "runs (inside (st_kii s)) (kii_auth_thing (Suc (Suc n)) io v p s)"
    unfolding kii_auth_thing_def s1(1) bind.bind_lunit
    apply (rule runs_inside_from [OF in1])
    apply (rule any_sender.clearing_R)
    apply (rule ok_inside [OF any_sender.thing_auth_R [OF s1(3) TrueI]])
    apply (simp add: Let_def small_inside(1) inside_refl au publish split: prod.split)
    done
  show "runs (inside (st_kii s)) (kii_register_thing (Suc (Suc n)) io v t p s)"
    unfolding kii_register_thing_def s1(1) bind.bind_lunit
    apply (rule runs_inside_from [OF in1])
    apply (rule any_sender.clearing_R)
    apply (rule ok_inside [OF any_sender.thing_register_R [OF s1(3) TrueI]])
    apply (simp add: Let_def small_inside(1) inside_refl au publish split: prod.split)
    done
  show "runs (inside (st_kii s)) (kii_ti_onboard (Suc (Suc n)) io v p tt fw lp tp s)"
    unfolding kii_ti_onboard_def
    by (rule ok_inside [OF any_sender.onboard_R [OF assms TrueI]]) (simp add: inside_refl session_publish_inside)
qed

lemma endpoint_inside:
  assumes "kbuff (st_kii s)"
  shows "runs (inside (st_kii s)) (kii_get_mqtt_endpoint (Suc (Suc n)) io i s)"
proof -
  have "runs (inside (st_kii s)) (answer_of
      (fresh (\<lambda>s. on_ok (get_mqtt_endpoint io (kii_perform (Suc (Suc n)) io) i s) status_2xx) s) (no_endpoint, 0) (read_endpoint io))"
    unfolding get_mqtt_endpoint_def by (assumption | rule kii_inside assms)+
  then obtain r s1 where s1: "answer_of
      (fresh (\<lambda>s. on_ok (get_mqtt_endpoint io (kii_perform (Suc (Suc n)) io) i s) status_2xx) s) (no_endpoint, 0) (read_endpoint io) =
      Some (r, s1)" "inside (st_kii s) (st_kii s1)"
    unfolding runs_def by blast
  obtain k where "clear_buffers (st_kii s1) = Some k" "kept (st_kii s1) k"
    using clear_buffers_kept [OF insideD [OF s1(2)]] by (auto simp: holds_def)
  then show ?thesis
    unfolding kii_get_mqtt_endpoint_def using s1 inside_trans [OF s1(2) inside_kept] by simp
qed

section \<open>A reader left behind\<close>

abbreviation streamed :: "'w kst \<Rightarrow> bool" where
  "streamed s \<equiv> kt_req_streamed (st_kii s)"

lemma append_header_streamed: "append_header io key val s = Some (c, s') \<Longrightarrow> streamed s' = streamed s"
  by (auto simp: append_header_def Let_def req_headers_free_all_def split: if_splits prod.splits)

lemma set_auth_bearer_token_streamed:
  assumes "set_auth_bearer_token io t s = Some (c, s')"
  shows "streamed s' = streamed s"
proof (cases "t = []")
  case False
  obtain k1 k2 where k: "put 0 [NUL] (st_kii s) = Some k1" "put_printf 0 (''Bearer '' @ t) k1 = Some k2"
    using assms False by (auto simp: set_auth_bearer_token_def bind_eq_Some_conv Let_def split: if_splits)
  have k2: "kt_req_streamed k2 = streamed s"
    using put_result [OF k(1)] put_printf_result [OF k(2)] by auto
  show ?thesis
    using assms False k k2
    by (auto simp: set_auth_bearer_token_def bind_eq_Some_conv Let_def zeroes_def split: if_splits
        dest!: put_result append_header_streamed)
qed (use assms in \<open>simp add: set_auth_bearer_token_def\<close>)

lemma set_auth_header_streamed:
  assumes "set_auth_header io s = Some (c, s')"
  shows "streamed s' = streamed s"
proof -
  have "streamed (session_sync io s) = streamed s"
    by (simp add: session_sync_def sync_locked_def)
  then show ?thesis
    using assms by (auto simp: set_auth_header_def Let_def dest!: set_auth_bearer_token_streamed split: if_splits)
qed

lemma on_ok_streamed:
  assumes "on_ok r f = Some (c, s')" "\<And>c s. r = Some (c, s) \<Longrightarrow> streamed s = b"
    "\<And>c s s'. f s = Some (c, s') \<Longrightarrow> streamed s' = streamed s"
  shows "streamed s' = b"
  using assms(1) by (auto simp: on_ok_def split: option.splits if_splits dest!: assms(2,3))

lemma thing_headers_streamed: "thing_headers io s = Some (c, s') \<Longrightarrow> streamed s' = streamed s"
  unfolding thing_headers_def set_app_id_header_def set_app_key_header_def
  by (erule on_ok_streamed) (auto dest: append_header_streamed set_auth_header_streamed elim!: on_ok_streamed)

lemma printf_path_streamed: "printf_path path s = Some (c, s') \<Longrightarrow> streamed s' = streamed s"
  by (auto simp: printf_path_def bind_eq_Some_conv set_path_def split: if_splits prod.splits dest!: put_printf_result)

lemma fresh_request_streamed: "fresh_request s = Some s' \<Longrightarrow> streamed s' = streamed s"
  by (auto simp: fresh_request_def reset_buff_def bind_eq_Some_conv reset_khc_def dest!: put_result)

lemma post_object_streamed:
  assumes wf: "kwf (st_kii s)" and st: "streamed s" and data: "data \<noteq> []"
  shows "\<exists>c s'. post_object io kp b (Some data) t s = Some (c, s') \<and> c \<noteq> KII_ERR_OK"
proof -
  have path: "runs (inside (st_kii s)) (set_bucket_path b ''/objects'' '''' '''' (begin_request ''POST'' s))"
    by (rule path_inside [OF wf])
  then obtain c1 s1 where s1: "set_bucket_path b ''/objects'' '''' '''' (begin_request ''POST'' s) = Some (c1, s1)"
    "kwf (st_kii s1)"
    by (auto simp: runs_def dest: insideD)
  have st1: "streamed s1"
    using printf_path_streamed [OF s1(1) [unfolded set_bucket_path_def]] st
    by (simp add: begin_request_def set_method_def set_host_def split: prod.splits)
  have "runs (inside (st_kii s1)) (on_ok (thing_headers io s1) (set_object_content_type io t))"
    using s1(2) by (intro kii_inside) auto
  then obtain c2 s2 where s2: "on_ok (thing_headers io s1) (set_object_content_type io t) = Some (c2, s2)"
    by (auto simp: runs_def)
  have "streamed s2 = True"
    by (rule on_ok_streamed [OF s2]) (auto simp: st1 set_object_content_type_def append_header_or_default_def
        dest: thing_headers_streamed append_header_streamed split: option.splits)
  then have body: "\<exists>c s'. on_ok (Some (c2, s2)) (set_req_body (Some data)) = Some (c, s') \<and> c \<noteq> KII_ERR_OK"
    using data by (simp add: on_ok_def set_req_body_def append_body_def Let_def)
  then have "\<exists>c s'. prepared io kp (with_body (\<lambda>s. on_ok (thing_headers io s) (set_object_content_type io t)) (Some data)) s1 =
      Some (c, s') \<and> c \<noteq> KII_ERR_OK"
    unfolding prepared_def with_body_def s2 by (auto simp: free_if_failed_def on_ok_def)
  then show ?thesis
    unfolding post_object_def s1(1) by (auto simp: on_ok_def)
qed

section \<open>The laws\<close>

text \<open>A world that is a clock, and a server that answers all with 200 and nothing.\<close>

definition demo_io :: "nat kii_io" where
  "demo_io =
     \<lparr>ki_exchange = (\<lambda>k b w. (\<lparr>ex_code = ERR_OK, ex_khc = k\<lparr>kh_status_code := 200\<rparr>, ex_read = 0, ex_headers = [],
        ex_pieces = []\<rparr>, w)),
      ki_now = (\<lambda>w. (of_nat w, w)), ki_alloc = (\<lambda>l w. (True, w)), ki_others = (\<lambda>ss w. (ss, w)),
      ki_parse = (\<lambda>t fs. (PARSE_FAILED, [])), ki_updated = (\<lambda>au w. w), ki_set_time = (\<lambda>d w. w),
      ki_app_write = (\<lambda>p w. (length p, w)), ki_version = ''1''\<rparr>"

definition demo_kii :: kii where
  "demo_kii = set_app_id ''app'' (set_buff (replicate 16 NUL) (kii_init 0 blank_khc))"

definition demo_session :: session where
  "demo_session = session_set_password ''vendor'' (Some ''pass'') (session_set_author \<lparr>au_id = ''th'', au_token = ''tok'', au_refresh = []\<rparr> session_init)"

definition demo_state :: "nat kst" where
  "demo_state = \<lparr>st_kii = demo_kii, st_ss = demo_session, st_w = 0\<rparr>"

lemmas demo_kii_simps = demo_kii_def set_app_id_def set_buff_def kii_init_def copy_bounded_def

lemma demo_kwf: "kwf demo_kii" "kbuff demo_kii"
  by (simp_all add: demo_kii_simps kwf_def kbuff_def ETAG_MAX_SIZE_def)

lemma fuel_two: "2 \<le> fuel \<Longrightarrow> \<exists>n. fuel = Suc (Suc n)"
  by (metis add_2_eq_Suc le_Suc_ex)

text \<open>
  C24. Whatever the server answers, whatever the application gives and whatever the other
  \<open>kii_t\<close> of the session do, a request of the REST modules ends, with the renewals of a token
  it takes, and writes in the buffer set by \<open>kii_set_buff\<close> alone, which is as long as before;
  its offsets into the buffer stay in it.  Two levels of fuel are enough: the request and the
  renewal's own, which makes none.
\<close>

theorem rest_calls_stay_in_buffer:
  assumes "kbuff (st_kii s)" "2 \<le> fuel"
  shows "runs (inside (st_kii s)) (api_call_start io meth path content_type auth s) \<and>
    runs (inside (st_kii s)) (kii_auth_thing fuel io v p s) \<and>
    runs (inside (st_kii s)) (kii_register_thing fuel io v t p s) \<and>
    runs (inside (st_kii s)) (kii_ti_onboard fuel io v p tt fw lp tp s) \<and>
    runs (inside (st_kii s)) (kii_post_object fuel io b data ct s) \<and>
    runs (inside (st_kii s)) (kii_put_object fuel io b i data ct e s) \<and>
    runs (inside (st_kii s)) (kii_patch_object fuel io b i data e s) \<and>
    runs (inside (st_kii s)) (kii_delete_object fuel io b i s) \<and>
    runs (inside (st_kii s)) (kii_get_object fuel io b i s) \<and>
    runs (inside (st_kii s)) (kii_upload_object_body fuel io b i ct s) \<and>
    runs (inside (st_kii s)) (kii_download_object_body fuel io b i s) \<and>
    runs (inside (st_kii s)) (kii_subscribe_bucket fuel io b s) \<and>
    runs (inside (st_kii s)) (kii_unsubscribe_bucket fuel io b s) \<and>
    runs (inside (st_kii s)) (kii_subscribe_topic fuel io tp1 s) \<and>
    runs (inside (st_kii s)) (kii_unsubscribe_topic fuel io tp1 s) \<and>
    runs (inside (st_kii s)) (kii_put_topic fuel io tp1 s) \<and>
    runs (inside (st_kii s)) (kii_delete_topic fuel io tp1 s) \<and>
    runs (inside (st_kii s)) (kii_send_push_message fuel io tp1 data s) \<and>
    runs (inside (st_kii s)) (kii_send_push_message_to_thing fuel io i data s) \<and>
    runs (inside (st_kii s)) (kii_install_push fuel io development s) \<and>
    runs (inside (st_kii s)) (kii_get_mqtt_endpoint fuel io i s) \<and>
    runs (inside (st_kii s)) (kii_execute_server_code_version fuel io v e2 ps s) \<and>
    runs (inside (st_kii s)) (kii_execute_server_code_with_token fuel io vo e2 ps tt s) \<and>
    runs (inside (st_kii s)) (kii_ti_put_firmware_version fuel io v s) \<and>
    runs (inside (st_kii s)) (kii_ti_get_firmware_version fuel io s) \<and>
    runs (inside (st_kii s)) (kii_ti_put_state fuel io ct ce h s) \<and>
    runs (inside (st_kii s)) (kii_ti_put_bulk_states fuel io ct ce h s) \<and>
    runs (inside (st_kii s)) (kii_ti_patch_state fuel io ct ce h s) \<and>
    runs (inside (st_kii s)) (kii_ti_patch_bulk_states fuel io ct ce h s) \<and>
    (kwf (st_kii s) \<longrightarrow> runs (inside (st_kii s)) (api_call_run fuel io s))"
proof -
  obtain n where n: "fuel = Suc (Suc n)"
    using fuel_two [OF assms(2)] by blast
  note laws = objects_inside [OF assms(1), of n] push_inside [OF assms(1), of n] login_inside [OF assms(1), of n]
    server_code_inside [OF assms(1), of n] firmware_inside [OF assms(1), of n] state_inside [OF assms(1), of n] endpoint_inside [OF assms(1), of n]
    api_call_start_inside [OF assms(1)] api_call_run_inside [of s n]
  show ?thesis
    unfolding n by (intro conjI impI laws; assumption)
qed

lemma rest_calls_stay_in_buffer_witness:
  "runs (inside demo_kii) (kii_auth_thing 2 demo_io ''vendor'' ''pass'' demo_state)"
proof -
  have "kbuff (st_kii demo_state)"
    by (simp add: demo_state_def demo_kwf)
  from rest_calls_stay_in_buffer [OF this order_refl, of demo_io, THEN conjunct2, THEN conjunct1]
  show ?thesis
    by (simp add: demo_state_def)
qed

text \<open>
  C25. What \<open>kii_api_call_start\<close> prepares: on success exactly the application's headers, the
  content type where there is one and, when asked for, the token held, which with a session is
  the session's; where something does not fit, no headers are left.
\<close>

theorem api_call_start_headers:
  assumes "kbuff (st_kii s)" "api_call_start io meth path content_type auth s = Some (c, s')"
    and "NUL \<notin> set (au_token (kt_author (st_kii s')))"
  shows "if c = KII_ERR_OK
    then kt_req_headers (st_kii s') =
        [''X-Kii-Appid: '' @ kt_app_id (st_kii s), ''X-Kii-Appkey: k''] @
        (case content_type of Some t \<Rightarrow> if t = [] then [] else [''Content-Type: '' @ t] | None \<Rightarrow> []) @
        (if auth \<and> au_token (kt_author (st_kii s')) \<noteq> []
         then [''Authorization: Bearer '' @ au_token (kt_author (st_kii s'))] else []) \<and>
      (auth \<and> kt_has_session (st_kii s) \<longrightarrow> kt_author (st_kii s') = ss_author (st_ss s'))
    else kt_req_headers (st_kii s') = []"
  using api_call_start_OK [OF assms(1)] api_call_start_failed assms(2,3) by (cases "c = KII_ERR_OK") auto

definition sessioned :: "nat \<Rightarrow> nat kst" where
  "sessioned n =
     demo_state\<lparr>st_kii := (set_app_id ''app'' (set_buff (replicate n NUL) (kii_init 0 blank_khc)))\<lparr>kt_has_session := True\<rparr>\<rparr>"

lemma api_call_start_headers_witness:
  "\<exists>s'. api_call_start demo_io ''GET'' ''/x'' None True (sessioned 32) = Some (KII_ERR_OK, s') \<and>
     kt_req_headers (st_kii s') = [''X-Kii-Appid: app'', ''X-Kii-Appkey: k'', ''Authorization: Bearer tok'']"
proof -
  have "map_option (\<lambda>(c, s). (c, au_token (kt_author (st_kii s))))
      (api_call_start demo_io ''GET'' ''/x'' None True (sessioned 32)) = Some (KII_ERR_OK, ''tok'')"
    by code_simp
  then obtain s' where r: "api_call_start demo_io ''GET'' ''/x'' None True (sessioned 32) = Some (KII_ERR_OK, s')"
    "au_token (kt_author (st_kii s')) = ''tok''"
    by auto
  have "kbuff (st_kii (sessioned 32))" "kt_app_id (st_kii (sessioned 32)) = ''app''"
    by (simp_all add: sessioned_def demo_state_def demo_kii_simps kbuff_def ETAG_MAX_SIZE_def APP_ID_MAX_SIZE_def)
  with api_call_start_headers [OF _ r(1)] r show ?thesis
    by simp
qed





text \<open>
  C27. A token with a lifetime is due for renewal a fifth of its lifetime, or at most 5 minutes,
  before it expires, to the millisecond: not earlier, not after it expired, wherever the clock
  started, over its wrap-around, and without any in the computation.
\<close>

theorem token_due_before_expiry:
  assumes "0 < e" "e \<le> 2 ^ 32 - 1" "ki_now io (st_w s) = (t, w)"
    and "st_ss s' = st_ss (store_locked io au e s)" "ki_now io (st_w s') = (t + of_nat d, w')" "d < 2 ^ 64"
  shows "fst (due_locked io s') = (nat e * 1000 - min (nat e * 200) 300000 \<le> d) \<and>
    nat e * 1000 - min (nat e * 200) 300000 < nat e * 1000"
  using due_after_store [OF assms] assms(1) by simp

lemma token_due_before_expiry_witness:
  "fst (due_locked demo_io ((store_locked demo_io no_author 60 demo_state)\<lparr>st_w := 48000\<rparr>))"
  using token_due_before_expiry [of 60 demo_io demo_state 0 0
      "(store_locked demo_io no_author 60 demo_state)\<lparr>st_w := 48000\<rparr>" no_author 48000 48000]
  by (simp add: demo_state_def demo_io_def)





text \<open>
  C31. The ETag a response gives is what \<open>kii_get_etag\<close> answers, but cut to 63 characters where it
  is longer, with nothing to tell so.
\<close>

theorem etag_cut_short:
  assumes "length (kt_etag k) = ETAG_MAX_SIZE" "kt_etag k ! 63 = NUL"
    and "v \<noteq> []" "\<forall>c \<in> set v. c \<noteq> SPC \<and> c \<noteq> HTAB \<and> c \<noteq> CR \<and> c \<noteq> NUL" "name \<in> {''ETag'', ''Etag'', ''etag'', ''ETAG''}"
  shows "map_option kii_get_etag (cb_write_header (name @ '': '' @ v) k) = Some (take 63 v)"
proof -
  obtain c v' where v: "v = c # v'"
    using assms(3) by (cases v) auto
  let ?b = "(kt_etag k)[0 := c]"
  have l: "length (kt_etag k) = 64"
    using assms(1) by (simp add: ETAG_MAX_SIZE_def)
  have "take 1 ?b = [c]"
    using l by (cases "kt_etag k") auto
  then obtain n b' where r: "etag_loop 3 7 1 v' ?b = Some (n, b')" "cstr b' = c # take 62 v'"
    using etag_value [of ?b 1 v' 7] assms(2,4) l v by auto
  have "parse_etag (name @ '': '' @ v) (kt_etag k) = etag_loop 2 5 0 (SPC # c # v') (kt_etag k)"
    using assms(5) v unfolding parse_etag_def by (elim insertE emptyE) (simp_all add: eval_nat_numeral)
  also have "\<dots> = Some (n, b')"
    using assms(4) r(1) l v by (simp add: put_etag_def)
  finally have "parse_etag (name @ '': '' @ v) (kt_etag k) = Some (n, b')" .
  then show ?thesis
    using r(2) v by (simp add: cb_write_header_def kii_get_etag_def)
qed

lemma etag_cut_short_witness:
  "map_option kii_get_etag (cb_write_header (''ETag: '' @ replicate 70 CHR ''x'') demo_kii) = Some (replicate 63 CHR ''x'')"
  using etag_cut_short [of demo_kii "replicate 70 CHR ''x''" "''ETag''"]
  by (simp add: demo_kii_simps ETAG_MAX_SIZE_def)

text \<open>A world that keeps what it is asked: the path and the headers.\<close>

definition recording_io :: "(string \<times> string list) list kii_io" where
  "recording_io =
     \<lparr>ki_exchange = (\<lambda>k b w. (\<lparr>ex_code = ERR_OK, ex_khc = k\<lparr>kh_status_code := 200\<rparr>, ex_read = 0, ex_headers = [],
        ex_pieces = []\<rparr>, w @ [(kh_path k, List.map_filter id (kh_req_headers k))])),
      ki_now = (\<lambda>w. (0, w)), ki_alloc = (\<lambda>l w. (True, w)), ki_others = (\<lambda>ss w. (ss, w)),
      ki_parse = (\<lambda>t fs. (PARSE_FAILED, map (\<lambda>_. FIELD_NOT_FOUND) fs)), ki_updated = (\<lambda>au w. w), ki_set_time = (\<lambda>d w. w),
      ki_app_write = (\<lambda>p w. (length p, w)), ki_version = ''1''\<rparr>"

text \<open>A session shared: this \<open>kii_t\<close> is attached while it holds a thing, and then it is given another.\<close>

definition attached_before :: "(string \<times> string list) list kst" where
  "attached_before =
     (case kii_set_session recording_io (Some (True, True))
             \<lparr>st_kii = set_app_id ''app'' (set_buff (replicate 60 NUL) (kii_init 0 blank_khc)),
              st_ss = session_set_author \<lparr>au_id = ''a'', au_token = ''tokA'', au_refresh = []\<rparr> session_init, st_w = []\<rparr>
      of (_, s) \<Rightarrow>
        s\<lparr>st_ss := session_set_author \<lparr>au_id = ''b'', au_token = ''tokB'', au_refresh = []\<rparr> (st_ss s)\<rparr>)"


end
