(* ===== verification/Spec2Isabelle.thy ===== *)
theory Spec2Isabelle
  imports Ebisu_Str Ebisu_Time Ebisu_Clock Jkii_Lines Jkii_Writer Jkii_Json Khc_Parse Khc_Date
    Khc_Stop Khc_Sent Mqtt_Runs Kii_Laws
begin

text \<open>
  A verification library of ebisu, the C library that lets a thing talk to the Kii cloud: the
  core (strings, time, the clock), jkii (JSON), khc (the HTTP client), kii (the REST modules and
  the MQTT task), tio (the SDK of a thing) and the platform code beneath them.

  \<^bold>\<open>The theories.\<close>

  \<^item> Ebisu\_Prelude: \<open>size_t\<close> arithmetic (64 bits: \<open>uadd\<close>, \<open>usub\<close>), memory as a list
    (\<open>mem_write\<close>, \<open>memchr\<close>), ASCII, decimal digits, and the interfaces as locales: output of
    text that may run out of room, state machines with an invariant (\<open>machine\<close>) and ones that
    end (\<open>terminating_machine\<close>), run with fuel by \<open>run_steps\<close>.
  \<^item> Ebisu\_Str: core/src/ebisu\_str.c, the string builder (\<open>strbuf\<close>), the number parsers and the
    spans.  The builder refines an abstract text of bounded length; the parsers are decided
    completely and read back what the printers write.
  \<^item> Ebisu\_Time: core/src/ebisu\_time.c, civil dates, both ways, with their round trips.
  \<^item> Ebisu\_Clock: core/src/ebisu\_clock.c, the time known from a trusted time, a floor and a
    monotonic clock.  The lemmas are of runs: soundness of what is told, the floor, forgetting.
  \<^item> Jkii\_Lines: jkii/src/jkii\_lines.c, the reader of JSON Lines, and that how its input is cut
    does not matter.
  \<^item> Jkii\_Writer, Jkii\_Json: jkii/src/jkii\_writer.c, and its refinement of an abstract writer of
    JSON values, into a buffer and through a callback.
  \<^item> Khc\_Parse: khc/src/khc\_impl.c, the parsers of the lines of a response's head and of its
    chunks, each decided completely.
  \<^item> Khc\_Date: khc/src/khc\_http\_date.c, the three forms of HTTP-date, and the date of a response.
  \<^item> Khc\_State, Khc\_Response: khc/src/khc\_state\_impl.c, one definition per state handler, those
    that send and those that receive, and the table \<open>state_handlers\<close>.
  \<^item> Khc\_Perform: khc/src/khc.c, the setters, \<open>khc_start\<close>, the loop and \<open>khc_end\<close>, which
    together are \<open>khc_perform\<close>.
  \<^item> Khc\_Safety: the invariant \<open>khc_inv\<close> of the loop, for each state, and that each handler keeps
    it; the interpretation of \<open>machine\<close> carries it over runs.  Khc\_Runs: memory safety, a world
    to run requests in, and a run that is not safe.  Khc\_Stop: how a request ends when it is
    stopped, by the interpretation of \<open>terminating_machine\<close>.  Khc\_Trace: a record of what a run
    exchanges with the world, and the rule for invariants of it.  Khc\_Sent: that a run sends the
    text of the request, and its body framed as its head says.
  \<^item> Mqtt\_Packet: the packets of kii/kii\_mqtt\_task.c, as the code builds them in its buffer and
    reads them; Mqtt\_Codec: that they are the packets MQTT lays out, and read back.
  \<^item> Mqtt\_Task: the push task, its state (\<open>mqtt\<close>, the C \<open>mqtt_state_t\<close>), one definition per state
    handler, the table \<open>mqtt_state_handlers\<close>, a turn of the loop (\<open>task_step\<close>), the loop and its
    end, which together are \<open>mqtt_start_task\<close>.  Mqtt\_Publish: \<open>kii_mqtt_publish\<close>, and the slot
    (\<open>pub_slot\<close>) it shares with the task.
  \<^item> Mqtt\_Wire: \<open>client\<close>, an abstract client of MQTT on one connection; what passes on it kept
    beside the world (\<open>traced\<close>); what each send and receive leaves there.  Mqtt\_Client: the
    invariant \<open>state_inv\<close> of the task, for each state, and that each handler keeps it.  Mqtt\_Live:
    that every handler returns and keeps the slot well formed.  Mqtt\_Runs: the theorems about
    runs, a world by script to run the task in, and two runs that go wrong.
  \<^item> Kii\_Request: how kii's modules make a request (kii/kii.c, kii/kii\_api\_call.c,
    kii/kii\_req\_impl.c): \<open>kii\<close> is \<open>kii_t\<close>, its buffer a window of a memory; khc's callbacks, the
    headers, the body, the paths.  Kii\_Session: kii/kii\_session.c, the tokens the \<open>kii_t\<close> of a thing
    share and their renewal, with the requests that obtain tokens (kii/kii\_thing.c,
    kii/kii\_thing\_impl.c, kii/kii\_ti\_impl.c); \<open>kii_perform\<close> is \<open>_kii_perform\<close>.  Kii\_Api: the calls of the
    REST API, objects, push, server code, Thing-IF, and the start of the push task.
  \<^item> Kii\_Safe: what each step of a request keeps (\<open>kept\<close>), and that it ends; Kii\_Renew: the
    renewal, whose request is a request again, by the locales \<open>sender\<close> and \<open>renewer\<close>, which
    \<open>kii_perform\<close> interprets; Kii\_Call: a request from its start to its end; Kii\_Laws: the
    theorems about the calls of the API, and runs that go wrong.

  \<^bold>\<open>How the code is represented.\<close>  A struct is a record with the struct's fields (khc's are
  \<open>kh_...\<close> for \<open>_...\<close>); a buffer and its size are one list of its size; an enum is a datatype.  A
  function that changes a struct returns it.  A check that code has is a branch; a read or write
  outside a buffer, which the code does not check, sets \<open>kh_fault\<close>.  What the code calls and is
  not of the repository's own (the socket, the callbacks, the monotonic clock, the allocator) is
  a field of \<open>khc_io\<close>, on a world of any type; \<open>io_ok\<close> is what their documentation promises: a
  socket sends and receives no more than it is asked to, an allocation is of the size asked for,
  the read callback writes no more than it says.  For the MQTT task they are \<open>mqtt_io\<close> and
  \<open>mqtt_io_ok\<close>: a send that succeeds takes at least a byte, and the callers of \<open>kii_mqtt_publish\<close>,
  which act between any two looks of the task at the slot, do only what \<open>caller_step\<close> allows, which
  a theorem says \<open>kii_mqtt_publish\<close> keeps to.  A task or a call that does not return is \<open>None\<close>.

  For the REST calls they are \<open>kii_io\<close>, of which nothing is assumed: \<open>ki_exchange\<close> is what
  \<open>khc_perform\<close> makes of a request, any code, any header lines and any pieces of a body; \<open>ki_parse\<close>
  is \<open>jkii_parse\<close>; \<open>ki_others\<close> is what the other \<open>kii_t\<close> of a session have done to it whenever its
  lock is taken.  A write that does not end in the window of the buffer is \<open>None\<close>.

  \<^bold>\<open>Bounds and fuel.\<close>  \<open>size_t\<close>, \<open>uint64_t\<close> are 64 bits, and \<open>int64_t\<close> is \<open>int\<close> with the
  overflow checks written out where the code has them; \<open>_udigits\<close> and the like have fuel for the
  20 digits of a 64-bit number.  khc's loop need not end, since a socket may say again for
  ever: it is run for any number of steps, and that it ends is a theorem of its own.  The loops of
  the MQTT task are \<open>partial_function (option)\<close>: that they return is proved, for a socket whose
  receives time out (\<open>waits_end\<close>).  \<open>kii_perform\<close> has fuel for the requests within requests: a
  renewal's carries no token of the session and makes no renewal, so that 2 are enough is
  proved with the theorem that every call ends.

  \<^bold>\<open>Not modelled.\<close>  Logging (no effect on a request); \<open>ebisu_secure_zero\<close>, except where it clears
  kii's buffers; the linked list of khc\_slist.c, which is taken as a list; \<open>jkii_write_double\<close>,
  which formats with \<open>snprintf\<close>; the locks of the clock; the vendored coreJSON and, with it, the
  parser of jkii.c; the setters of kii.c that store a pointer or a callback; tio, the SDK of a
  thing; the platform code, which is calls to OpenSSL, Schannel and the operating system; samples
  and tests.
\<close>

end
